(* ===== verification/Base.thy ===== *)
theory Base
  imports Complex_Main "HOL-Library.AList" "HOL-Library.List_Lexorder" "HOL-Library.Char_ord"
begin

text \<open>
  The prelude of the development: the types and the library functions that several components
  share, with the facts about them declared once.

  \<^item> Strings are Isabelle \<open>string\<close>s. The program's tests on them (trim, ASCII case folding,
    prefix, substring, split, replace) are the functions of Rust's \<open>str\<close> on ASCII text: white
    space is the ASCII white space.
  \<^item> \<open>json\<close> is \<open>serde_json::Value\<close>. An object is an association list in the order of its
    keys, as \<open>serde_json\<close>'s map (a \<open>BTreeMap\<close>) keeps it. Parsing and printing JSON is \<open>serde_json\<close>'s and stays a
    parameter of the definitions that need it.
  \<^item> \<open>f64\<close> values are exact rationals \<open>rat\<close>: rounding is not modelled. The results of
    \<open>parse::<f64>\<close> that are not numbers are constructors of \<open>rfloat\<close>.
  \<^item> A \<open>DateTime<Utc>\<close> is the \<open>int\<close> of its nanoseconds since the epoch. The calendar functions of
    the \<open>chrono\<close> package are the fields of a record \<open>chrono\<close> that the definitions take.
\<close>

named_theorems store_simps \<open>what the guarded updates of a store do to the fields of its records\<close>
named_theorems inv_intros \<open>every operation of a component keeps its invariant\<close>

type_synonym instant = int

subsection \<open>Characters and strings\<close>

definition to_ascii_lower :: "char \<Rightarrow> char" where
  "to_ascii_lower c =
     (let n = of_char c :: nat in if 65 \<le> n \<and> n \<le> 90 then char_of (n + 32) else c)"

definition lower :: "string \<Rightarrow> string" where
  "lower s = map to_ascii_lower s"

definition eq_ignore_case :: "string \<Rightarrow> string \<Rightarrow> bool" where
  "eq_ignore_case a b \<longleftrightarrow> lower a = lower b"

definition is_ws :: "char \<Rightarrow> bool" where
  "is_ws c \<longleftrightarrow> (let n = of_char c :: nat in n = 32 \<or> (9 \<le> n \<and> n \<le> 13))"

definition is_digit :: "char \<Rightarrow> bool" where
  "is_digit c \<longleftrightarrow> (let n = of_char c :: nat in 48 \<le> n \<and> n \<le> 57)"

definition is_alpha :: "char \<Rightarrow> bool" where
  "is_alpha c \<longleftrightarrow>
     (let n = of_char c :: nat in (65 \<le> n \<and> n \<le> 90) \<or> (97 \<le> n \<and> n \<le> 122))"

definition trim_start :: "string \<Rightarrow> string" where
  "trim_start s = dropWhile is_ws s"

definition trim_end :: "string \<Rightarrow> string" where
  "trim_end s = rev (dropWhile is_ws (rev s))"

definition trim :: "string \<Rightarrow> string" where
  "trim s = trim_end (trim_start s)"

definition trim_end_char :: "char \<Rightarrow> string \<Rightarrow> string" where
  "trim_end_char c s = rev (dropWhile (\<lambda>x. x = c) (rev s))"

fun strip_prefix :: "string \<Rightarrow> string \<Rightarrow> string option" where
  "strip_prefix [] s = Some s"
| "strip_prefix (p # ps) [] = None"
| "strip_prefix (p # ps) (c # cs) = (if p = c then strip_prefix ps cs else None)"

definition starts_with :: "string \<Rightarrow> string \<Rightarrow> bool" where
  "starts_with s p \<longleftrightarrow> strip_prefix p s \<noteq> None"

text \<open>\<open>str::find\<close>: what is before the first occurrence of the pattern, and what is after it.\<close>

fun split_at_str :: "string \<Rightarrow> string \<Rightarrow> (string \<times> string) option" where
  "split_at_str p [] = (if p = [] then Some ([], []) else None)"
| "split_at_str p (c # cs) =
     (case strip_prefix p (c # cs) of
        Some rest \<Rightarrow> Some ([], rest)
      | None \<Rightarrow> map_option (\<lambda>(a, b). (c # a, b)) (split_at_str p cs))"

definition str_contains :: "string \<Rightarrow> string \<Rightarrow> bool" where
  "str_contains s p \<longleftrightarrow> split_at_str p s \<noteq> None"

fun split_on :: "char \<Rightarrow> string \<Rightarrow> string list" where
  "split_on d [] = [[]]"
| "split_on d (c # cs) =
     (if c = d then [] # split_on d cs
      else (case split_on d cs of [] \<Rightarrow> [[c]] | w # ws \<Rightarrow> (c # w) # ws))"

lemma strip_prefix_Some: "strip_prefix p s = Some r \<longleftrightarrow> s = p @ r"
  by (induction p s rule: strip_prefix.induct) auto

lemma strip_prefix_append [simp]: "strip_prefix p (p @ r) = Some r"
  by (simp add: strip_prefix_Some)

lemma starts_with_iff: "starts_with s p \<longleftrightarrow> (\<exists>r. s = p @ r)"
  by (cases "strip_prefix p s") (auto simp: starts_with_def strip_prefix_Some)

lemma split_at_str_Some: "split_at_str p s = Some (a, b) \<Longrightarrow> s = a @ p @ b"
  by (induction p s arbitrary: a b rule: split_at_str.induct)
    (auto simp: strip_prefix_Some split: option.splits if_splits)

lemma str_contains_iff: "str_contains s p \<longleftrightarrow> (\<exists>a b. s = a @ p @ b)"
proof
  assume "\<exists>a b. s = a @ p @ b"
  then obtain a b where "s = a @ p @ b" by blast
  moreover have "split_at_str p (a @ p @ b) \<noteq> None"
  proof (induction a)
    case Nil
    show ?case by (cases "p @ b") (use strip_prefix_append[of p b] in \<open>auto split: option.split\<close>)
  qed (auto split: option.split)
  ultimately show "str_contains s p" by (simp add: str_contains_def)
qed (auto simp: str_contains_def dest: split_at_str_Some)

lemma split_at_str_length:
  "split_at_str p s = Some (a, b) \<Longrightarrow> p \<noteq> [] \<Longrightarrow> length b < length s"
  by (drule split_at_str_Some) (cases p, auto)

lemma split_at_str_first:
  "c \<notin> set a \<Longrightarrow> split_at_str (c # p) (a @ c # p @ b) = Some (a, b)"
proof (induction a)
  case Nil
  then show ?case using strip_prefix_append[of "c # p" b] by simp
next
  case (Cons x xs)
  then have "strip_prefix (c # p) ((x # xs) @ c # p @ b) = None" by simp
  with Cons show ?case by simp
qed

lemma split_at_str_absent: "c \<notin> set s \<Longrightarrow> split_at_str (c # p) s = None"
  by (induction s) auto

lemma lower_append: "lower (a @ b) = lower a @ lower b"
  by (simp add: lower_def)

lemma length_lower [simp]: "length (lower s) = length s"
  by (simp add: lower_def)

lemma to_ascii_lower_idem [simp]: "to_ascii_lower (to_ascii_lower c) = to_ascii_lower c"
  by (cases "(65 :: nat) \<le> of_char c \<and> of_char c \<le> (90 :: nat)")
    (auto simp: to_ascii_lower_def Let_def of_char_of)

lemma lower_lower [simp]: "lower (lower s) = lower s"
  by (simp add: lower_def)

lemma eq_ignore_case_refl [simp]: "eq_ignore_case s s"
  by (simp add: eq_ignore_case_def)

lemma eq_ignore_case_sym: "eq_ignore_case a b \<longleftrightarrow> eq_ignore_case b a"
  by (auto simp: eq_ignore_case_def)

lemma is_ws_to_ascii_lower [simp]: "is_ws (to_ascii_lower c) = is_ws c"
proof (cases "(65 :: nat) \<le> of_char c \<and> of_char c \<le> (90 :: nat)")
  case True
  then have "of_char (to_ascii_lower c) = (of_char c :: nat) + 32"
    by (simp add: to_ascii_lower_def Let_def of_char_of)
  with True show ?thesis by (auto simp: is_ws_def Let_def)
next
  case False
  then show ?thesis by (auto simp: to_ascii_lower_def Let_def)
qed

lemma dropWhile_map: "dropWhile P (map f xs) = map f (dropWhile (P \<circ> f) xs)"
  by (induction xs) auto

lemma trim_lower: "trim (lower s) = lower (trim s)"
  by (simp add: trim_def trim_start_def trim_end_def lower_def dropWhile_map rev_map comp_def)

lemma trim_end_snoc [simp]: "\<not> is_ws c \<Longrightarrow> trim_end (s @ [c]) = s @ [c]"
  by (simp add: trim_end_def)

lemma trim_end_append: "\<not> is_ws c \<Longrightarrow> trim_end (s @ c # t) = s @ c # trim_end t"
proof (induction t rule: rev_induct)
  case Nil
  then show ?case by (simp add: trim_end_def)
next
  case (snoc x t)
  then show ?case by (cases "is_ws x") (simp_all add: trim_end_def)
qed

lemma trim_trim [simp]: "trim (trim s) = trim s"
proof -
  have idem: "dropWhile P (dropWhile P xs) = dropWhile P xs" for P :: "char \<Rightarrow> bool" and xs
    by (induction xs) auto
  have front: "dropWhile is_ws (rev (dropWhile is_ws (rev (dropWhile is_ws xs)))) =
      rev (dropWhile is_ws (rev (dropWhile is_ws xs)))" for xs
  proof (cases "dropWhile is_ws xs")
    case (Cons y ys)
    then have "\<not> is_ws y" using hd_dropWhile[of is_ws xs] by simp
    then have "rev (dropWhile is_ws (rev (y # ys))) = y # trim_end ys"
      using trim_end_append[of y "[]" ys] by (simp add: trim_end_def)
    then show ?thesis using Cons \<open>\<not> is_ws y\<close> by simp
  next
    case Nil
    then show ?thesis unfolding Nil by simp
  qed
  show ?thesis by (simp add: trim_def trim_start_def trim_end_def front idem)
qed

text \<open>\<open>str::replace\<close>: every occurrence, left to right, without overlap. The pattern is never
  empty here; an empty one leaves the string alone.\<close>

function replace_all :: "string \<Rightarrow> string \<Rightarrow> string \<Rightarrow> string" where
  "replace_all p r s =
     (if p = [] then s
      else (case split_at_str p s of
              None \<Rightarrow> s
            | Some (a, b) \<Rightarrow> a @ r @ replace_all p r b))"
  by pat_completeness auto
termination
  by (relation "measure (\<lambda>(p, r, s). length s)") (auto dest: split_at_str_length)

declare replace_all.simps [simp del]

lemma replace_all_absent: "\<not> str_contains s p \<Longrightarrow> replace_all p r s = s"
  by (subst replace_all.simps) (auto simp: str_contains_def split: option.splits)

text \<open>How many times the pattern occurs (\<open>str::matches(p).count()\<close>).\<close>

function count_matches :: "string \<Rightarrow> string \<Rightarrow> nat" where
  "count_matches p s =
     (if p = [] then 0
      else (case split_at_str p s of None \<Rightarrow> 0 | Some (a, b) \<Rightarrow> Suc (count_matches p b)))"
  by pat_completeness auto
termination
  by (relation "measure (\<lambda>(p, s). length s)") (auto dest: split_at_str_length)

declare count_matches.simps [simp del]

lemma count_matches_absent: "p \<noteq> [] \<Longrightarrow> strip_prefix p (c # s) = None \<Longrightarrow> count_matches p (c # s) = count_matches p s"
  by (subst (1 2) count_matches.simps) (simp split: option.split)

lemma count_matches_prefix: "p \<noteq> [] \<Longrightarrow> count_matches p (p @ s) = Suc (count_matches p s)"
  by (subst count_matches.simps) (cases p, auto simp: strip_prefix_append[of "_ # _", simplified])

lemma count_matches_Nil [simp]: "count_matches p [] = 0"
  by (subst count_matches.simps) simp

text \<open>Scanning from the left without overlap counts as many occurrences as there can be: starting
  later never finds more, and starting at most a pattern's length later loses at most one.\<close>

lemma count_matches_later:
  assumes "p \<noteq> []"
  shows "count_matches p (drop k s) \<le> count_matches p s \<and>
    (k \<le> length p \<longrightarrow> count_matches p s \<le> Suc (count_matches p (drop k s)))"
proof (induction "length s" arbitrary: k s rule: less_induct)
  case less
  have one: "count_matches p t \<le> count_matches p (c # t)" if s: "s = c # t" for c t
  proof (cases "strip_prefix p s")
    case None
    then show ?thesis using assms by (simp add: s count_matches_absent)
  next
    case (Some r)
    then have r: "s = p @ r" by (simp add: strip_prefix_Some)
    with s assms have "r = drop (length p - 1) t" by (cases p) auto
    moreover have "count_matches p t \<le> Suc (count_matches p (drop (length p - 1) t))"
      using less[of t "length p - 1"] s by simp
    ultimately show ?thesis
      using count_matches_prefix[OF assms, of r] r s by simp
  qed
  have later: "count_matches p (drop k s) \<le> count_matches p s" for k
  proof (cases s; cases k)
    fix c t m assume s: "s = c # t" and k: "k = Suc m"
    have "count_matches p (drop m t) \<le> count_matches p t" using less[of t] s by simp
    with one[OF s] s k show ?thesis by simp
  qed simp_all
  moreover have "count_matches p s \<le> Suc (count_matches p (drop k s))" if k: "k \<le> length p"
  proof (cases "strip_prefix p s")
    case (Some r)
    then have r: "s = p @ r" by (simp add: strip_prefix_Some)
    then have "s \<noteq> []" using assms by simp
    then have "length (drop k s) < length s \<or> k = 0" by (cases k) simp_all
    moreover have "r = drop (length p - k) (drop k s)" using r k by simp
    ultimately have "count_matches p r \<le> count_matches p (drop k s)"
      using less[of "drop k s" "length p - k"] later[of "length p"] r by (metis drop_0 append_eq_conv_conj)
    then show ?thesis using count_matches_prefix[OF assms, of r] r by simp
  next
    case None
    show ?thesis
    proof (cases s; cases k)
      fix c t m assume s: "s = c # t" and m: "k = Suc m"
      have "count_matches p t \<le> Suc (count_matches p (drop m t))" using less[of t m] s m k by simp
      with None s m assms show ?thesis by (simp add: count_matches_absent)
    qed simp_all
  qed
  ultimately show ?case by blast
qed

lemma count_matches_suffix: "p \<noteq> [] \<Longrightarrow> count_matches p s \<le> count_matches p (t @ s)"
  using count_matches_later[of p "length t" "t @ s"] by simp

lemma split_at_str_append: "split_at_str p s = Some (a, b) \<Longrightarrow> p \<noteq> [] \<Longrightarrow> split_at_str p (s @ t) = Some (a, b @ t)"
proof (induction s arbitrary: a b)
  case (Cons c s)
  show ?case
  proof (cases "strip_prefix p (c # s)")
    case (Some r)
    then have "strip_prefix p (c # s @ t) = Some (r @ t)"
      by (metis append.assoc append_Cons strip_prefix_Some)
    with Some Cons.prems show ?thesis by simp
  next
    case None
    then obtain a' where a: "split_at_str p s = Some (a', b)" "a = c # a'" using Cons.prems by auto
    then obtain m where "s = m @ p @ b" by (metis split_at_str_Some)
    then have "length p \<le> length s" by simp
    have "strip_prefix p (c # s @ t) = None"
    proof (rule ccontr)
      assume "strip_prefix p (c # s @ t) \<noteq> None"
      then obtain r where "(c # s) @ t = p @ r" by (auto simp: strip_prefix_Some)
      then have "take (length p) ((c # s) @ t) = p" by (metis append_eq_conv_conj)
      moreover have "length p - length (c # s) = 0" using \<open>length p \<le> length s\<close> by simp
      ultimately have "take (length p) (c # s) = p" by (simp only: take_append take_0 append_Nil2)
      then have "c # s = p @ drop (length p) (c # s)" by (metis append_take_drop_id)
      then show False using None by (metis strip_prefix_append option.distinct(1))
    qed
    with None a Cons show ?thesis by simp
  qed
qed simp

lemma count_matches_longer: "p \<noteq> [] \<Longrightarrow> count_matches p s \<le> count_matches p (s @ t)"
proof (induction p s rule: count_matches.induct)
  case (1 p s)
  then show ?case
    by (subst (1 2) count_matches.simps) (auto simp: split_at_str_append split: option.split)
qed

text \<open>
  Text outside ASCII is carried as its UTF-8 bytes. \<open>chars()\<close> counts and cuts whole characters: the
  bytes that continue a character belong to the one before.
\<close>

definition is_continuation :: "char \<Rightarrow> bool" where
  "is_continuation c \<longleftrightarrow> (let n = of_char c :: nat in 128 \<le> n \<and> n < 192)"

definition char_count :: "string \<Rightarrow> nat" where
  "char_count s = length (filter (\<lambda>c. \<not> is_continuation c) s)"

fun take_chars :: "nat \<Rightarrow> string \<Rightarrow> string" where
  "take_chars n [] = []"
| "take_chars n (c # cs) =
     (if is_continuation c then c # take_chars n cs
      else case n of 0 \<Rightarrow> [] | Suc m \<Rightarrow> c # take_chars m cs)"

fun drop_chars :: "nat \<Rightarrow> string \<Rightarrow> string" where
  "drop_chars n [] = []"
| "drop_chars n (c # cs) =
     (if is_continuation c then drop_chars n cs
      else case n of 0 \<Rightarrow> c # cs | Suc m \<Rightarrow> drop_chars m cs)"

text \<open>\<open>str::lines\<close>, without the carriage return, which what is read of a line trims.\<close>

definition text_lines :: "string \<Rightarrow> string list" where
  "text_lines s = split_on (CHR 0x0A) s"

text \<open>\<open>split_inclusive\<close> by line ends: each line with its own.\<close>

fun lines_with_ends :: "string \<Rightarrow> string list" where
  "lines_with_ends [] = []"
| "lines_with_ends (c # cs) =
     (if c = CHR 0x0A then [c] # lines_with_ends cs
      else (case lines_with_ends cs of [] \<Rightarrow> [[c]] | l # ls \<Rightarrow> (c # l) # ls))"

definition strip_line_end :: "string \<Rightarrow> string" where
  "strip_line_end l =
     (case rev l of
        c # r \<Rightarrow> if c = CHR 0x0A then (case r of d # r' \<Rightarrow> if d = CHR 0x0D then rev r' else rev r | [] \<Rightarrow> []) else l
      | [] \<Rightarrow> [])"

text \<open>\<open>str::lines\<close>.\<close>

definition str_lines :: "string \<Rightarrow> string list" where
  "str_lines s = map strip_line_end (lines_with_ends s)"

text \<open>The line end of messages.\<close>

definition nl :: string where
  "nl = [CHR 0x0A]"

text \<open>The em dash of some messages, as the three bytes of its UTF-8 form.\<close>

definition em_dash :: string where
  "em_dash = [CHR 0xE2, CHR 0x80, CHR 0x94]"

text \<open>And the ellipsis.\<close>

definition ellipsis :: string where
  "ellipsis = [CHR 0xE2, CHR 0x80, CHR 0xA6]"

fun join_with :: "string \<Rightarrow> string list \<Rightarrow> string" where
  "join_with sep [] = []"
| "join_with sep [t] = t"
| "join_with sep (t # ts) = t @ sep @ join_with sep ts"

definition quoted :: "string \<Rightarrow> string" where
  "quoted s = [CHR 39] @ s @ [CHR 39]"

subsection \<open>Numbers as text\<close>

fun show_nat :: "nat \<Rightarrow> string" where
  "show_nat n =
     (if n < 10 then [char_of (48 + n)] else show_nat (n div 10) @ [char_of (48 + n mod 10)])"

declare show_nat.simps [simp del]

definition show_int :: "int \<Rightarrow> string" where
  "show_int i = (if i < 0 then ''-'' @ show_nat (nat (- i)) else show_nat (nat i))"

definition digit_val :: "char \<Rightarrow> nat" where
  "digit_val c = of_char c - 48"

definition digits_val :: "string \<Rightarrow> nat" where
  "digits_val s = foldl (\<lambda>n c. 10 * n + digit_val c) 0 s"

text \<open>\<open>parse::<uN>\<close>: an optional plus sign, at least one digit, no value above the maximum.\<close>

definition parse_unsigned :: "nat \<Rightarrow> string \<Rightarrow> nat option" where
  "parse_unsigned limit s =
     (let ds = (case s of [] \<Rightarrow> [] | c # cs \<Rightarrow> if c = CHR ''+'' then cs else s)
      in if ds \<noteq> [] \<and> list_all is_digit ds \<and> digits_val ds \<le> limit
         then Some (digits_val ds) else None)"

datatype rfloat = Num rat | Inf bool \<comment> \<open>true: negative\<close> | NaN

text \<open>\<open>parse::<f64>\<close>: a sign, then \<open>inf\<close>, \<open>infinity\<close>, \<open>nan\<close>, or decimal digits with at most one
  point and an exponent.\<close>

definition parse_mantissa :: "string \<Rightarrow> rat option" where
  "parse_mantissa s =
     (let whole = takeWhile (\<lambda>c. c \<noteq> CHR ''.'') s;
          rest = drop (Suc (length whole)) s
      in if list_all is_digit whole \<and> list_all is_digit rest \<and> (whole \<noteq> [] \<or> rest \<noteq> [])
         then Some (of_nat (digits_val whole) + of_nat (digits_val rest) / 10 ^ length rest)
         else None)"

definition parse_exponent :: "string \<Rightarrow> rat option" where
  "parse_exponent s =
     (case s of
        [] \<Rightarrow> None
      | c # cs \<Rightarrow>
          let neg = (c = CHR ''-'');
              ds = (if c = CHR ''-'' \<or> c = CHR ''+'' then cs else s)
          in if ds \<noteq> [] \<and> list_all is_digit ds
             then Some (if neg then 1 / 10 ^ digits_val ds else 10 ^ digits_val ds)
             else None)"

definition parse_float :: "string \<Rightarrow> rfloat option" where
  "parse_float s =
     (let neg = (case s of [] \<Rightarrow> False | c # _ \<Rightarrow> c = CHR ''-'');
          body = (case s of [] \<Rightarrow> [] | c # cs \<Rightarrow> if c = CHR ''-'' \<or> c = CHR ''+'' then cs else s);
          low = lower body;
          m = takeWhile (\<lambda>c. c \<noteq> CHR ''e'') low;
          sgn = (if neg then - 1 else 1)
      in if low = ''inf'' \<or> low = ''infinity'' then Some (Inf neg)
         else if low = ''nan'' then Some NaN
         else if m = low then map_option (\<lambda>q. Num (sgn * q)) (parse_mantissa m)
         else (case (parse_mantissa m, parse_exponent (drop (Suc (length m)) low)) of
                 (Some q, Some e) \<Rightarrow> Some (Num (sgn * q * e))
               | _ \<Rightarrow> None))"

subsection \<open>JSON values\<close>

datatype json =
    JNull
  | JBool bool
  | JInt int
  | JFloat rat
  | JStr string
  | JArr "json list"
  | JObj "(string \<times> json) list"

type_synonym json_map = "(string \<times> json) list"

text \<open>\<open>Value::get\<close> by key and the indexing \<open>v["key"]\<close>, which is \<open>Null\<close> where nothing is found.\<close>

fun json_get :: "json \<Rightarrow> string \<Rightarrow> json option" where
  "json_get (JObj m) k = map_of m k"
| "json_get _ k = None"

definition json_field :: "json \<Rightarrow> string \<Rightarrow> json" where
  "json_field v k = (case json_get v k of Some x \<Rightarrow> x | None \<Rightarrow> JNull)"

fun as_str :: "json \<Rightarrow> string option" where
  "as_str (JStr s) = Some s"
| "as_str _ = None"

fun as_bool :: "json \<Rightarrow> bool option" where
  "as_bool (JBool b) = Some b"
| "as_bool _ = None"

fun as_i64 :: "json \<Rightarrow> int option" where
  "as_i64 (JInt i) = Some i"
| "as_i64 _ = None"

fun as_u64 :: "json \<Rightarrow> nat option" where
  "as_u64 (JInt i) = (if 0 \<le> i then Some (nat i) else None)"
| "as_u64 _ = None"

fun as_f64 :: "json \<Rightarrow> rat option" where
  "as_f64 (JInt i) = Some (of_int i)"
| "as_f64 (JFloat q) = Some q"
| "as_f64 _ = None"

fun as_array :: "json \<Rightarrow> json list option" where
  "as_array (JArr xs) = Some xs"
| "as_array _ = None"

fun as_object :: "json \<Rightarrow> json_map option" where
  "as_object (JObj m) = Some m"
| "as_object _ = None"

text \<open>\<open>Map::insert\<close>: the entry of an existing key is replaced, a new key is put at its place.\<close>

fun map_insert :: "string \<Rightarrow> json \<Rightarrow> json_map \<Rightarrow> json_map" where
  "map_insert k v [] = [(k, v)]"
| "map_insert k v ((k', v') # m) =
     (if k = k' then (k, v) # m
      else if k < k' then (k, v) # (k', v') # m
      else (k', v') # map_insert k v m)"

declare map_insert.simps [simp del]

lemma map_of_map_insert [simp]: "map_of (map_insert k v m) = (map_of m)(k \<mapsto> v)"
  by (induction k v m rule: map_insert.induct) (auto simp: map_insert.simps)

text \<open>\<open>serde_json::from_str\<close> and \<open>to_string\<close>.\<close>

record serde =
  from_str :: "string \<Rightarrow> json option"
  to_str :: "json \<Rightarrow> string"

text \<open>A parser and printer for the examples.\<close>

definition sample_serde :: serde where
  "sample_serde = \<lparr>from_str = (\<lambda>s. if s = ''null'' then Some JNull else None),
                   to_str = (\<lambda>v. ''null'')\<rparr>"

subsection \<open>Fallible results\<close>

definition opt_nonempty :: "string \<Rightarrow> string option" where
  "opt_nonempty s = (if s = [] then None else Some s)"

definition or_default :: "'a \<Rightarrow> 'a option \<Rightarrow> 'a" where
  "or_default d x = (case x of Some y \<Rightarrow> y | None \<Rightarrow> d)"

definition or_empty :: "string option \<Rightarrow> string" where
  "or_empty x = (case x of Some s \<Rightarrow> s | None \<Rightarrow> [])"

lemma or_empty_simps [simp]: "or_empty (Some s) = s" "or_empty None = []"
  by (simp_all add: or_empty_def)

lemma opt_nonempty_or_empty [simp]:
  "opt_nonempty (or_empty x) = (case x of Some s \<Rightarrow> opt_nonempty s | None \<Rightarrow> None)"
  by (auto simp: opt_nonempty_def or_empty_def split: option.splits)

definition result_and_then :: "'e + 'a \<Rightarrow> ('a \<Rightarrow> 'e + 'b) \<Rightarrow> 'e + 'b" where
  "result_and_then r f = (case r of Inl e \<Rightarrow> Inl e | Inr a \<Rightarrow> f a)"

lemma result_and_then_simps [simp]:
  "result_and_then (Inl e) f = Inl e"
  "result_and_then (Inr a) f = f a"
  by (simp_all add: result_and_then_def)

lemma result_and_then_Inr:
  "result_and_then r f = Inr b \<longleftrightarrow> (\<exists>a. r = Inr a \<and> f a = Inr b)"
  by (cases r) auto

subsection \<open>The calendar\<close>

record chrono =
  date_naive :: "instant \<Rightarrow> int" \<comment> \<open>the UTC day of an instant, as a number of days\<close>
  year_month :: "instant \<Rightarrow> int \<times> nat"
  parse_rfc3339 :: "string \<Rightarrow> instant option"
  to_rfc3339 :: "instant \<Rightarrow> string" \<comment> \<open>in UTC, written with \<open>Z\<close>\<close>
  timestamp_ok :: "instant \<Rightarrow> bool" \<comment> \<open>the range of \<open>DateTime\<close>\<close>

definition seconds :: "int \<Rightarrow> instant" where
  "seconds n = 1000000000 * n"

definition milliseconds :: "int \<Rightarrow> instant" where
  "milliseconds n = 1000000 * n"

definition hours :: "int \<Rightarrow> instant" where
  "hours n = 3600 * seconds n"

definition sample_chrono :: chrono where
  "sample_chrono =
     \<lparr>date_naive = (\<lambda>t. t div seconds 86400), year_month = (\<lambda>t. (1970, 1)),
      parse_rfc3339 = (\<lambda>s. None), to_rfc3339 = (\<lambda>t. show_int t), timestamp_ok = (\<lambda>t. True)\<rparr>"

subsection \<open>Updates of the records of a store\<close>

text \<open>
  A Cypher \<open>MATCH ... WHERE ... SET ...\<close> updates every node its guard selects and leaves the
  others alone.
\<close>

definition update_where :: "('a \<Rightarrow> bool) \<Rightarrow> ('a \<Rightarrow> 'a) \<Rightarrow> 'a list \<Rightarrow> 'a list" where
  "update_where P f xs = map (\<lambda>x. if P x then f x else x) xs"

definition count_where :: "('a \<Rightarrow> bool) \<Rightarrow> 'a list \<Rightarrow> nat" where
  "count_where P xs = length (filter P xs)"

lemma length_update_where [simp]: "length (update_where P f xs) = length xs"
  by (simp add: update_where_def)

lemma update_where_Nil [simp]: "update_where P f [] = []"
  by (simp add: update_where_def)

lemma update_where_Cons [simp]:
  "update_where P f (x # xs) = (if P x then f x else x) # update_where P f xs"
  by (simp add: update_where_def)

lemma count_where_pos: "0 < count_where P xs \<longleftrightarrow> (\<exists>x \<in> set xs. P x)"
  by (auto simp: count_where_def filter_empty_conv)

lemma count_where_zero: "count_where P xs = 0 \<longleftrightarrow> (\<forall>x \<in> set xs. \<not> P x)"
  by (auto simp: count_where_def filter_empty_conv)

lemma update_where_none: "count_where P xs = 0 \<Longrightarrow> update_where P f xs = xs"
  by (auto simp: count_where_zero update_where_def intro: map_idI)

lemma set_update_whereE:
  assumes "y \<in> set (update_where P f xs)"
  obtains x where "x \<in> set xs" "P x" "y = f x" | "y \<in> set xs" "\<not> P y"
  using assms by (auto simp: update_where_def split: if_splits)

lemma in_update_where_keep: "x \<in> set xs \<Longrightarrow> \<not> P x \<Longrightarrow> x \<in> set (update_where P f xs)"
  by (force simp: update_where_def)

lemma in_update_where_hit: "x \<in> set xs \<Longrightarrow> P x \<Longrightarrow> f x \<in> set (update_where P f xs)"
  by (force simp: update_where_def)

lemma map_update_where:
  "(\<And>x. x \<in> set xs \<Longrightarrow> P x \<Longrightarrow> g (f x) = g x) \<Longrightarrow> map g (update_where P f xs) = map g xs"
  by (auto simp: update_where_def)

subsection \<open>Machines that keep an invariant\<close>

text \<open>A component whose every operation keeps an invariant keeps it over any sequence of them.\<close>

locale guarded_machine =
  fixes step :: "'s \<Rightarrow> 'e \<Rightarrow> 's"
    and ok :: "'e \<Rightarrow> bool"
    and inv :: "'s \<Rightarrow> bool"
  assumes step_inv: "inv s \<Longrightarrow> ok e \<Longrightarrow> inv (step s e)"
begin

lemma run_inv: "inv s \<Longrightarrow> list_all ok es \<Longrightarrow> inv (foldl step s es)"
  by (induction es arbitrary: s) (auto intro: step_inv)

end

locale machine =
  fixes step :: "'s \<Rightarrow> 'e \<Rightarrow> 's"
    and inv :: "'s \<Rightarrow> bool"
  assumes every_step_inv: "inv s \<Longrightarrow> inv (step s e)"

sublocale machine \<subseteq> guarded_machine step "\<lambda>_. True" inv
  by unfold_locales (rule every_step_inv)

context machine
begin

lemma every_run_inv: "inv s \<Longrightarrow> inv (foldl step s es)"
  by (rule run_inv) (simp_all add: list_all_iff)

end

text \<open>The same for a step relation.\<close>

locale step_relation =
  fixes R :: "'s \<Rightarrow> 's \<Rightarrow> bool"
    and inv :: "'s \<Rightarrow> bool"
  assumes step_keeps: "R s s' \<Longrightarrow> inv s \<Longrightarrow> inv s'"
begin

lemma run_keeps: "R\<^sup>*\<^sup>* s s' \<Longrightarrow> inv s \<Longrightarrow> inv s'"
  by (induction rule: rtranclp_induct) (auto intro: step_keeps)

end

end
