(* ===== verification/Templates.thy ===== *)
theory Templates
  imports Base
begin

text \<open>
  Step argument templates (\<open>crates/work/src/queue/templates.rs\<close>): how a tool's result becomes the
  text a later step sees, and how \<open>{{_prev}}\<close>, \<open>{{_prev.path}}\<close> and \<open>{{steps.id}}\<close> are filled in.
  The result type is that of \<open>crates/protocol/src/types.rs\<close>. Parsing and printing JSON is the
  parameter \<open>S\<close>.
\<close>

datatype content = Text string | Image string string | Resource json

record tool_call_result =
  tr_content :: "content list"
  tr_is_error :: "bool option"
  tr_bulk :: "string option"

definition result_success :: "content list \<Rightarrow> tool_call_result" where
  "result_success c = \<lparr>tr_content = c, tr_is_error = None, tr_bulk = None\<rparr>"

definition success_text :: "string \<Rightarrow> tool_call_result" where
  "success_text t = result_success [Text t]"

definition error_result :: "string \<Rightarrow> tool_call_result" where
  "error_result t = \<lparr>tr_content = [Text t], tr_is_error = Some True, tr_bulk = None\<rparr>"

text \<open>What the derived \<open>Serialize\<close> writes.\<close>

fun content_json :: "content \<Rightarrow> json" where
  "content_json (Text t) = JObj [(''type'', JStr ''text''), (''text'', JStr t)]"
| "content_json (Image dat mime) =
     JObj [(''type'', JStr ''image''), (''data'', JStr dat), (''mime_type'', JStr mime)]"
| "content_json (Resource v) = JObj [(''type'', JStr ''resource''), (''resource'', v)]"

definition result_json :: "tool_call_result \<Rightarrow> json" where
  "result_json r =
     JObj ((''content'', JArr (map content_json (tr_content r))) #
           (case tr_is_error r of Some b \<Rightarrow> [(''isError'', JBool b)] | None \<Rightarrow> []) @
           (case tr_bulk r of Some t \<Rightarrow> [(''bulk'', JStr t)] | None \<Rightarrow> []))"

subsection \<open>The text of a result\<close>

definition first_text :: "tool_call_result \<Rightarrow> string" where
  "first_text r = (case tr_content r of Text t # _ \<Rightarrow> t | _ \<Rightarrow> [])"

definition column_text :: "serde \<Rightarrow> json \<Rightarrow> string" where
  "column_text S v = (case v of JStr s \<Rightarrow> s | JNull \<Rightarrow> [] | other \<Rightarrow> to_str S other)"

fun unwrap_rows :: "serde \<Rightarrow> json list \<Rightarrow> string list option" where
  "unwrap_rows S [] = Some []"
| "unwrap_rows S (row # rows) =
     (case row of
        JObj [(_, v)] \<Rightarrow> map_option (\<lambda>ts. column_text S v # ts) (unwrap_rows S rows)
      | _ \<Rightarrow> None)"

definition newline :: string where
  "newline = [CHR 0x0A]"

definition unwrap_single_column_rows :: "serde \<Rightarrow> json \<Rightarrow> string option" where
  "unwrap_single_column_rows S parsed =
     (case Option.bind (json_get parsed ''rows'') as_array of
        None \<Rightarrow> None
      | Some rows \<Rightarrow>
          if rows = [] then None
          else map_option (join_with (newline @ newline)) (unwrap_rows S rows))"

definition extract_result_text :: "serde \<Rightarrow> tool_call_result \<Rightarrow> string" where
  "extract_result_text S r =
     (let text = first_text r in
      if text \<noteq> [] then
        (case from_str S text of
           None \<Rightarrow> text
         | Some parsed \<Rightarrow>
             (case Option.bind (json_get parsed ''answer'') as_str of
                Some answer \<Rightarrow>
                  if answer \<noteq> [] then answer
                  else (case unwrap_single_column_rows S parsed of Some u \<Rightarrow> u | None \<Rightarrow> text)
              | None \<Rightarrow> (case unwrap_single_column_rows S parsed of Some u \<Rightarrow> u | None \<Rightarrow> text)))
      else to_str S (result_json r))"

definition structured_prev_to_preserve :: "serde \<Rightarrow> tool_call_result \<Rightarrow> string \<Rightarrow> string" where
  "structured_prev_to_preserve S r extracted =
     (let text = first_text r in
      if text = [] \<or> text = extracted then []
      else (case from_str S text of Some (JObj m) \<Rightarrow> text | _ \<Rightarrow> []))"

subsection \<open>Substitution in a value\<close>

text \<open>The three substitution passes walk a value the same way: they rewrite its strings and keep
  everything else.\<close>

primrec map_strings :: "(string \<Rightarrow> string) \<Rightarrow> json \<Rightarrow> json" where
  "map_strings f JNull = JNull"
| "map_strings f (JBool b) = JBool b"
| "map_strings f (JInt i) = JInt i"
| "map_strings f (JFloat q) = JFloat q"
| "map_strings f (JStr s) = JStr (f s)"
| "map_strings f (JArr vs) = JArr (map (map_strings f) vs)"
| "map_strings f (JObj m) = JObj (map (map_prod id (map_strings f)) m)"

fun apply_vars :: "(string \<times> string) list \<Rightarrow> string \<Rightarrow> string" where
  "apply_vars [] s = s"
| "apply_vars ((key, replacement) # vars) s =
     apply_vars vars (replace_all (''{{'' @ key @ ''}}'') replacement s)"

definition substitute_template_vars :: "json \<Rightarrow> (string \<times> string) list \<Rightarrow> json" where
  "substitute_template_vars v vars = map_strings (apply_vars vars) v"

definition substitute_prev :: "json \<Rightarrow> string \<Rightarrow> json" where
  "substitute_prev v prev_text =
     substitute_template_vars v [(''_prev'', prev_text), (''result'', prev_text)]"

text \<open>\<open>usize\<close> is 64 bits wide.\<close>

definition parse_usize :: "string \<Rightarrow> nat option" where
  "parse_usize s = parse_unsigned (2 ^ 64 - 1) s"

definition step_into :: "json \<Rightarrow> string \<Rightarrow> json option" where
  "step_into v seg =
     (if seg = [] then None
      else (case v of
              JObj m \<Rightarrow> map_of m seg
            | JArr vs \<Rightarrow> (case parse_usize seg of
                            None \<Rightarrow> None
                          | Some k \<Rightarrow> if k < length vs then Some (vs ! k) else None)
            | _ \<Rightarrow> None))"

fun walk_path :: "json \<Rightarrow> string list \<Rightarrow> json option" where
  "walk_path v [] = Some v"
| "walk_path v (seg # segs) =
     (case step_into v seg of None \<Rightarrow> None | Some w \<Rightarrow> walk_path w segs)"

definition lookup_json_path :: "json \<Rightarrow> string \<Rightarrow> json option" where
  "lookup_json_path doc path = walk_path doc (split_on (CHR ''.'') path)"

definition render_prev_path_value :: "serde \<Rightarrow> json \<Rightarrow> string" where
  "render_prev_path_value S v = (case v of JStr s \<Rightarrow> s | JNull \<Rightarrow> [] | other \<Rightarrow> to_str S other)"

definition path_of_token :: "string \<Rightarrow> string option" where
  "path_of_token token =
     (case strip_prefix ''_prev.'' token of
        Some p \<Rightarrow> Some p
      | None \<Rightarrow> strip_prefix ''result.'' token)"

definition resolve_path :: "serde \<Rightarrow> json option \<Rightarrow> string \<Rightarrow> string" where
  "resolve_path S doc path =
     (case Option.bind doc (\<lambda>r. lookup_json_path r path) of
        Some v \<Rightarrow> render_prev_path_value S v
      | None \<Rightarrow> [])"

function substitute_prev_paths_in_str :: "serde \<Rightarrow> json option \<Rightarrow> string \<Rightarrow> string" where
  "substitute_prev_paths_in_str S doc s =
     (case split_at_str ''{{'' s of
        None \<Rightarrow> s
      | Some (before, after) \<Rightarrow>
          (case split_at_str ''}}'' after of
             None \<Rightarrow> s
           | Some (inner, rest) \<Rightarrow>
               before @
               (case path_of_token (trim inner) of
                  Some path \<Rightarrow> resolve_path S doc path
                | None \<Rightarrow> ''{{'' @ inner @ ''}}'') @
               substitute_prev_paths_in_str S doc rest))"
  by pat_completeness auto
termination
  by (relation "measure (\<lambda>(S, doc, s). length s)") (auto dest!: split_at_str_length)

declare substitute_prev_paths_in_str.simps [simp del]

definition substitute_prev_paths :: "serde \<Rightarrow> json \<Rightarrow> string \<Rightarrow> json" where
  "substitute_prev_paths S v prev_text =
     map_strings (substitute_prev_paths_in_str S (from_str S prev_text)) v"

subsection \<open>Named steps\<close>

datatype step_output = Done string string \<comment> \<open>text, raw\<close> | Missing string

fun split_once_dot :: "string \<Rightarrow> string \<times> string option" where
  "split_once_dot [] = ([], None)"
| "split_once_dot (c # cs) =
     (if c = CHR ''.'' then ([], Some cs)
      else (case split_once_dot cs of (a, b) \<Rightarrow> (c # a, b)))"

type_synonym step_outputs = "string \<Rightarrow> step_output option"

definition resolve_step_ref :: "serde \<Rightarrow> step_outputs \<Rightarrow> string \<Rightarrow> string" where
  "resolve_step_ref S outputs token =
     (case split_once_dot token of
        (i, path) \<Rightarrow>
          (case (outputs i, path) of
             (Some (Done text raw), None) \<Rightarrow> text
           | (Some (Done text raw), Some p) \<Rightarrow>
               resolve_path S (from_str S (if raw = [] then text else raw)) p
           | (Some (Missing why), None) \<Rightarrow>
               ''[step '' @ [CHR 39] @ i @ [CHR 39] @ '' produced no output ('' @ why @
               ''); say this section is unavailable]''
           | (Some (Missing why), Some _) \<Rightarrow> []
           | (None, _) \<Rightarrow>
               ''[step '' @ [CHR 39] @ i @ [CHR 39] @ '' is not an earlier step of this chain]''))"

function substitute_step_refs_in_str :: "serde \<Rightarrow> step_outputs \<Rightarrow> string \<Rightarrow> string" where
  "substitute_step_refs_in_str S outputs s =
     (case split_at_str ''{{steps.'' s of
        None \<Rightarrow> s
      | Some (before, after) \<Rightarrow>
          (case split_at_str ''}}'' after of
             None \<Rightarrow> s
           | Some (inner, rest) \<Rightarrow>
               before @ resolve_step_ref S outputs (trim inner) @
               substitute_step_refs_in_str S outputs rest))"
  by pat_completeness auto
termination
  by (relation "measure (\<lambda>(S, outputs, s). length s)") (auto dest!: split_at_str_length)

declare substitute_step_refs_in_str.simps [simp del]

definition substitute_step_refs :: "serde \<Rightarrow> json \<Rightarrow> step_outputs \<Rightarrow> json" where
  "substitute_step_refs S v outputs = map_strings (substitute_step_refs_in_str S outputs) v"

subsection \<open>Structure is kept\<close>

text \<open>A value with every string blanked: what is left is its structure.\<close>

definition structure_of :: "json \<Rightarrow> json" where
  "structure_of v = map_strings (\<lambda>_. []) v"

lemma map_strings_comp: "map_strings f (map_strings g v) = map_strings (f \<circ> g) v"
  by (induction v) (auto simp: prod.map_comp)

lemma structure_of_map_strings [simp]: "structure_of (map_strings f v) = structure_of v"
  by (simp add: structure_of_def map_strings_comp comp_def)

text \<open>Whatever a previous step's output holds, filling it into a step's arguments never
  changes their structure: the same objects with the same keys, the same arrays, the same
  numbers and flags; only the text of strings changes.\<close>

theorem substitution_keeps_structure:
  "structure_of (substitute_prev v prev) = structure_of v \<and>
   structure_of (substitute_prev_paths S v prev) = structure_of v \<and>
   structure_of (substitute_step_refs S v outputs) = structure_of v \<and>
   structure_of (substitute_template_vars v vars) = structure_of v"
  by (simp add: substitute_prev_def substitute_prev_paths_def substitute_step_refs_def
      substitute_template_vars_def)

subsection \<open>Paths see the whole envelope\<close>

text \<open>The text handed on is lossy, the pair of text and preserved envelope is not: when
  a tool answered a JSON object, the value a later step resolves \<open>{{_prev.path}}\<close> in is that
  whole answer, whichever of the two it is read from.\<close>

theorem paths_see_the_envelope:
  assumes "first_text r \<noteq> []" and "from_str S (first_text r) = Some (JObj m)"
  shows "let text = extract_result_text S r; raw = structured_prev_to_preserve S r text
         in (if raw = [] then text else raw) = first_text r"
  using assms by (auto simp: structured_prev_to_preserve_def Let_def)

definition sample_envelope :: serde where
  "sample_envelope =
     \<lparr>from_str = (\<lambda>s. if s = ''n'' then Some (JObj [(''id'', JStr ''7''), (''answer'', JStr ''x'')])
                       else None),
      to_str = (\<lambda>v. [])\<rparr>"

theorem paths_see_the_envelope_witness:
  "extract_result_text sample_envelope (success_text ''n'') = ''x'' \<and>
   (let text = extract_result_text sample_envelope (success_text ''n'');
        raw = structured_prev_to_preserve sample_envelope (success_text ''n'') text
    in (if raw = [] then text else raw) = ''n'')"
proof
  have t: "first_text (success_text ''n'') = ''n''"
    by (simp add: first_text_def success_text_def result_success_def)
  then show "extract_result_text sample_envelope (success_text ''n'') = ''x''"
    by (simp add: extract_result_text_def sample_envelope_def)
  show "let text = extract_result_text sample_envelope (success_text ''n'');
        raw = structured_prev_to_preserve sample_envelope (success_text ''n'') text
    in (if raw = [] then text else raw) = ''n''"
    using paths_see_the_envelope[of "success_text ''n''" sample_envelope] t
    by (simp add: sample_envelope_def)
qed

subsection \<open>What each placeholder becomes\<close>

lemma not_ws [simp]:
  "\<not> is_ws (CHR ''.'')" "\<not> is_ws (CHR ''_'')" "\<not> is_ws (CHR ''r'')" "\<not> is_ws (CHR ''}'')"
  by (simp_all add: is_ws_def)

lemma trim_prev_path: "trim (''_prev.'' @ p) = ''_prev.'' @ trim_end p"
  using trim_end_append[of "CHR ''.''" "''_prev''" p] by (simp add: trim_def trim_start_def)

lemma trim_result_path: "trim (''result.'' @ p) = ''result.'' @ trim_end p"
  using trim_end_append[of "CHR ''.''" "''result''" p] by (simp add: trim_def trim_start_def)

lemma path_of_token_path [simp]:
  "path_of_token (''_prev.'' @ p) = Some p"
  "path_of_token (''result.'' @ p) = Some p"
  by (simp_all add: path_of_token_def)

lemma substitute_prev_paths_placeholder:
  assumes "CHR ''{'' \<notin> set a" and "CHR ''}'' \<notin> set inner"
  shows "substitute_prev_paths_in_str S doc (a @ ''{{'' @ inner @ ''}}'' @ b) =
    a @ (case path_of_token (trim inner) of
           Some path \<Rightarrow> resolve_path S doc path
         | None \<Rightarrow> ''{{'' @ inner @ ''}}'') @
    substitute_prev_paths_in_str S doc b"
proof -
  have "split_at_str ''{{'' (a @ ''{{'' @ inner @ ''}}'' @ b) = Some (a, inner @ ''}}'' @ b)"
    using split_at_str_first[OF assms(1), of "''{''" "inner @ ''}}'' @ b"] by simp
  moreover have "split_at_str ''}}'' (inner @ ''}}'' @ b) = Some (inner, b)"
    using split_at_str_first[OF assms(2), of "''}''" b] by simp
  ultimately show ?thesis
    by (subst substitute_prev_paths_in_str.simps) simp
qed

text \<open>Around text without braces, a path placeholder becomes the text of the value the
  path leads to, and nothing at all when the path leads nowhere or the output was not JSON; a
  placeholder of another kind is copied as it stands for the later passes.\<close>

theorem prev_path_placeholder:
  assumes "CHR ''{'' \<notin> set a" and "CHR ''}'' \<notin> set p"
  shows "substitute_prev_paths_in_str S doc (a @ ''{{_prev.'' @ p @ ''}}'' @ b) =
      a @ (case doc of
             None \<Rightarrow> []
           | Some v \<Rightarrow> (case lookup_json_path v (trim_end p) of
                          None \<Rightarrow> [] | Some w \<Rightarrow> render_prev_path_value S w)) @
      substitute_prev_paths_in_str S doc b \<and>
    (path_of_token (trim p) = None \<longrightarrow>
      substitute_prev_paths_in_str S doc (a @ ''{{'' @ p @ ''}}'' @ b) =
        a @ ''{{'' @ p @ ''}}'' @ substitute_prev_paths_in_str S doc b)"
  using substitute_prev_paths_placeholder[OF assms(1), of "''_prev.'' @ p" S doc b]
    substitute_prev_paths_placeholder[OF assms(1), of p S doc b] assms(2)
    trim_prev_path[of p] path_of_token_path(1)[of "trim_end p"]
  by (auto simp: resolve_path_def split: option.splits)

theorem prev_path_placeholder_witness:
  "substitute_prev_paths_in_str \<lparr>from_str = (\<lambda>s. None), to_str = (\<lambda>v. [])\<rparr>
     (Some (JObj [(''id'', JStr ''7'')])) (''id='' @ ''{{_prev.'' @ ''id'' @ ''}}'' @ ''!'') = ''id=7!''"
proof -
  let ?S = "\<lparr>from_str = (\<lambda>s. None), to_str = (\<lambda>v. [])\<rparr>"
  have "lookup_json_path (JObj [(''id'', JStr ''7'')]) (trim_end ''id'') = Some (JStr ''7'')"
    by (simp add: lookup_json_path_def step_into_def trim_end_def is_ws_def)
  moreover have "substitute_prev_paths_in_str ?S (Some (JObj [(''id'', JStr ''7'')])) ''!'' = ''!''"
    by (subst substitute_prev_paths_in_str.simps) simp
  ultimately show ?thesis
    using prev_path_placeholder[of "''id=''" "''id''" ?S "Some (JObj [(''id'', JStr ''7'')])" "''!''"]
    by (simp add: render_prev_path_value_def)
qed

lemma substitute_step_refs_placeholder:
  assumes "CHR ''{'' \<notin> set a" and "CHR ''}'' \<notin> set inner"
  shows "substitute_step_refs_in_str S outputs (a @ ''{{steps.'' @ inner @ ''}}'' @ b) =
    a @ resolve_step_ref S outputs (trim inner) @ substitute_step_refs_in_str S outputs b"
proof -
  have "split_at_str ''{{steps.'' (a @ ''{{steps.'' @ inner @ ''}}'' @ b) =
      Some (a, inner @ ''}}'' @ b)"
    using split_at_str_first[OF assms(1), of "''{steps.''" "inner @ ''}}'' @ b"] by simp
  moreover have "split_at_str ''}}'' (inner @ ''}}'' @ b) = Some (inner, b)"
    using split_at_str_first[OF assms(2), of "''}''" b] by simp
  ultimately show ?thesis
    by (subst substitute_step_refs_in_str.simps) simp
qed

lemma split_once_dot_none: "CHR ''.'' \<notin> set s \<Longrightarrow> split_once_dot s = (s, None)"
  by (induction s) auto

lemma split_once_dot_some:
  "CHR ''.'' \<notin> set s \<Longrightarrow> split_once_dot (s @ CHR ''.'' # p) = (s, Some p)"
  by (induction s) auto

text \<open>A named step's placeholder is never silently empty: it becomes the step's text
  when the step is done, and otherwise a marker that names the step and says why there is no
  output or that there is no such step. Only a path into a missing output is empty.\<close>

theorem step_placeholder:
  assumes "CHR ''{'' \<notin> set a" and "CHR ''}'' \<notin> set i" and "CHR ''.'' \<notin> set i" and "trim i = i"
  shows "substitute_step_refs_in_str S outputs (a @ ''{{steps.'' @ i @ ''}}'' @ b) =
    a @ (case outputs i of
           Some (Done text raw) \<Rightarrow> text
         | Some (Missing why) \<Rightarrow>
             ''[step '' @ quoted i @ '' produced no output ('' @ why @
             ''); say this section is unavailable]''
         | None \<Rightarrow> ''[step '' @ quoted i @ '' is not an earlier step of this chain]'') @
    substitute_step_refs_in_str S outputs b"
  using substitute_step_refs_placeholder[OF assms(1,2), of S outputs b] assms(3,4)
  by (simp add: resolve_step_ref_def split_once_dot_none quoted_def split: option.splits step_output.splits)

theorem step_placeholder_witness:
  "substitute_step_refs_in_str sample_envelope [''news'' \<mapsto> Missing ''dead''] (''x '' @ ''{{steps.'' @ ''news'' @ ''}}'' @ []) =
     ''x '' @ ''[step '' @ quoted ''news'' @ '' produced no output ('' @ ''dead'' @
     ''); say this section is unavailable]''"
proof -
  have "substitute_step_refs_in_str sample_envelope [''news'' \<mapsto> Missing ''dead''] [] = []"
    by (subst substitute_step_refs_in_str.simps) simp
  moreover have "trim ''news'' = ''news''"
    by (simp add: trim_def trim_start_def trim_end_def is_ws_def)
  ultimately show ?thesis
    using step_placeholder[of "''x ''" "''news''" sample_envelope "[''news'' \<mapsto> Missing ''dead'']" "[]"]
    by simp
qed

lemma replace_all_first:
  assumes "CHR ''{'' \<notin> set a"
  shows "replace_all (CHR ''{'' # p) r (a @ CHR ''{'' # p @ b) = a @ r @ replace_all (CHR ''{'' # p) r b"
  using split_at_str_first[OF assms, of p b] by (subst replace_all.simps) simp

lemma replace_all_no_brace:
  "CHR ''{'' \<notin> set s \<Longrightarrow> replace_all (CHR ''{'' # p) r s = s"
  by (subst replace_all.simps) (simp add: split_at_str_absent)

text \<open>\<open>{{result}}\<close> is meant as an alias of \<open>{{_prev}}\<close>, and is one for an output without
  braces; but the two are replaced one after the other, so an output that itself ends in
  \<open>{{result}}\<close> is pasted into itself when it arrives through \<open>{{_prev}}\<close>, and not through
  \<open>{{result}}\<close>.\<close>

theorem result_alias:
  assumes "CHR ''{'' \<notin> set t"
  shows "substitute_prev (JStr ''{{_prev}}'') t = JStr t \<and>
    substitute_prev (JStr ''{{result}}'') t = JStr t \<and>
    substitute_prev (JStr ''{{_prev}}'') (t @ ''{{result}}'') = JStr (t @ t @ ''{{result}}'') \<and>
    substitute_prev (JStr ''{{result}}'') (t @ ''{{result}}'') = JStr (t @ ''{{result}}'')"
proof -
  let ?p = "''{{_prev}}''" and ?r = "''{{result}}''"
  have one: "replace_all ?p x ?p = x" "replace_all ?r x ?r = x" for x
    using replace_all_first[of "[]" "''{_prev}}''" x "[]"]
      replace_all_first[of "[]" "''{result}}''" x "[]"]
      replace_all_no_brace[of "[]"] by simp_all
  have other: "replace_all ?p x ?r = ?r" for x
    by (rule replace_all_absent) (simp add: str_contains_def)
  have "replace_all ?r x t = t" "replace_all ?r x (t @ ?r) = t @ x" for x
    using replace_all_no_brace[OF assms] replace_all_first[OF assms, of "''{result}}''" x "[]"]
      replace_all_no_brace[of "[]"] by simp_all
  then show ?thesis
    by (simp add: substitute_prev_def substitute_template_vars_def one other)
qed

theorem result_alias_witness:
  "substitute_prev (JStr ''{{_prev}}'') (''ab'' @ ''{{result}}'') = JStr ''abab{{result}}''"
  using result_alias[of "''ab''"] by simp

end
