(* ===== verification/Engine.thy ===== *)
theory Engine
  imports Base
begin

text \<open>
  The local engine (\<open>crates/engine/src/lib.rs\<close>): which server runs the local models, what it can do
  and which model has each job. The environment is the argument \<open>env\<close>. An error is the message
  the code reports.
\<close>

datatype capability = Chat | Tools | JsonSchema | Embeddings | Logprobs | Completions

fun capability_name :: "capability \<Rightarrow> string" where
  "capability_name Chat = ''chat''"
| "capability_name Tools = ''tools''"
| "capability_name JsonSchema = ''json_schema''"
| "capability_name Embeddings = ''embeddings''"
| "capability_name Logprobs = ''logprobs''"
| "capability_name Completions = ''completions''"

definition all_capabilities :: "capability list" where
  "all_capabilities = [Chat, Tools, JsonSchema, Embeddings, Logprobs, Completions]"

text \<open>A word parses as the capability it is the name of.\<close>

definition capability_parse :: "string \<Rightarrow> capability option" where
  "capability_parse word = find (\<lambda>c. capability_name c = trim word) all_capabilities"

datatype unload = UnloadNone | UnloadRouter

datatype role = Generation | RoleEmbeddings | Decision | Grounding

definition all_roles :: "role list" where
  "all_roles = [Generation, RoleEmbeddings, Decision, Grounding]"

fun role_env :: "role \<Rightarrow> string" where
  "role_env Generation = ''LOCAL_MODEL''"
| "role_env RoleEmbeddings = ''LOCAL_EMBED_MODEL''"
| "role_env Decision = ''LOCAL_DECISION_MODEL''"
| "role_env Grounding = ''LOCAL_GROUNDING_MODEL''"

fun role_needs :: "role \<Rightarrow> capability" where
  "role_needs Generation = Chat"
| "role_needs RoleEmbeddings = Embeddings"
| "role_needs Decision = Logprobs"
| "role_needs Grounding = Completions"

fun role_required :: "role \<Rightarrow> bool" where
  "role_required Generation = True"
| "role_required RoleEmbeddings = True"
| "role_required Decision = False"
| "role_required Grounding = False"

fun role_feature :: "role \<Rightarrow> string" where
  "role_feature Generation = ''local generation''"
| "role_feature RoleEmbeddings = ''embeddings''"
| "role_feature Decision = ''decisions (alias judge, API tags, router checker)''"
| "role_feature Grounding = ''claim grounding check''"

record role_models =
  rm_generation :: "string option"
  rm_embeddings :: "string option"
  rm_decision :: "string option"
  rm_grounding :: "string option"

fun role_model :: "role_models \<Rightarrow> role \<Rightarrow> string option" where
  "role_model m Generation = rm_generation m"
| "role_model m RoleEmbeddings = rm_embeddings m"
| "role_model m Decision = rm_decision m"
| "role_model m Grounding = rm_grounding m"

record engine_entry =
  ee_base_url_default :: "string option"
  ee_unload :: unload
  ee_capabilities :: "capability list"
  ee_models :: role_models

text \<open>\<open>Engine\<close>: \<open>roles\<close> gives each role its model (\<open>Inr\<close>), or why it has none (\<open>Inl\<close>).\<close>

record engine =
  en_name :: string
  en_url :: string
  en_unload :: unload
  en_capabilities :: "capability set"
  en_roles :: "(role \<times> (string + string)) list"

record feature =
  ft_feature :: string
  ft_on :: bool
  ft_model :: "string option"
  ft_why :: "string option"

type_synonym env = "string \<Rightarrow> string option"

definition read_env :: "env \<Rightarrow> string \<Rightarrow> string option" where
  "read_env env key = Option.bind (env key) (\<lambda>v. opt_nonempty (trim v))"

definition or_else :: "'a option \<Rightarrow> 'a option \<Rightarrow> 'a option" where
  "or_else a b = (case a of Some x \<Rightarrow> Some x | None \<Rightarrow> b)"

text \<open>The words of the capability list, up to the first that is not one.\<close>

fun parse_capabilities :: "string list \<Rightarrow> string + capability list" where
  "parse_capabilities [] = Inr []"
| "parse_capabilities (w # ws) =
     (case capability_parse w of
        None \<Rightarrow> Inl (''LOCAL_ENGINE_CAPABILITIES: '' @ [CHR 39] @ trim w @ [CHR 39] @ '' is not a capability'')
      | Some c \<Rightarrow> (case parse_capabilities ws of Inl e \<Rightarrow> Inl e | Inr cs \<Rightarrow> Inr (c # cs)))"

definition engine_named :: "string \<Rightarrow> string" where
  "engine_named name = ''engine '' @ [CHR 39] @ name @ [CHR 39]"

definition resolve_role ::
  "string \<Rightarrow> engine_entry \<Rightarrow> env \<Rightarrow> capability set \<Rightarrow> role \<Rightarrow> string + string" where
  "resolve_role name entry env caps r =
     (case or_else (read_env env (role_env r)) (role_model (ee_models entry) r) of
        Some m \<Rightarrow>
          if eq_ignore_case m ''off'' then Inl (role_env r @ ''=off'')
          else if role_needs r \<notin> caps
          then Inl (engine_named name @ '' does not declare '' @ capability_name (role_needs r))
          else Inr m
      | None \<Rightarrow> Inl (role_env r @ '' is unset and '' @ engine_named name @ '' names no default''))"

definition resolve_engine :: "string \<Rightarrow> engine_entry \<Rightarrow> env \<Rightarrow> string + engine" where
  "resolve_engine name entry env =
     (case or_else (read_env env ''LOCAL_ENGINE_URL'') (ee_base_url_default entry) of
        None \<Rightarrow> Inl (engine_named name @ '' needs LOCAL_ENGINE_URL'')
      | Some u \<Rightarrow>
          result_and_then
            (case read_env env ''LOCAL_ENGINE_CAPABILITIES'' of
               Some l \<Rightarrow> parse_capabilities (split_on (CHR '','') l)
             | None \<Rightarrow> Inr (ee_capabilities entry))
            (\<lambda>caps. Inr
               \<lparr>en_name = name, en_url = trim_end_char (CHR ''/'') u, en_unload = ee_unload entry,
                en_capabilities = set caps,
                en_roles = map (\<lambda>r. (r, resolve_role name entry env (set caps) r)) all_roles\<rparr>))"

definition engine_has :: "engine \<Rightarrow> capability \<Rightarrow> bool" where
  "engine_has e c \<longleftrightarrow> c \<in> en_capabilities e"

definition engine_model :: "engine \<Rightarrow> role \<Rightarrow> string option" where
  "engine_model e r =
     (case map_of (en_roles e) r of Some (Inr m) \<Rightarrow> Some m | _ \<Rightarrow> None)"

fun check_roles :: "engine \<Rightarrow> role list \<Rightarrow> string + unit" where
  "check_roles e [] = Inr ()"
| "check_roles e (r # rs) =
     (case map_of (en_roles e) r of
        Some (Inl why) \<Rightarrow> Inl (''the brain cannot start without '' @ role_feature r @ '': '' @ why)
      | _ \<Rightarrow> check_roles e rs)"

definition check_engine :: "engine \<Rightarrow> string + unit" where
  "check_engine e = check_roles e (filter role_required all_roles)"

definition feature_off :: "string \<Rightarrow> string \<Rightarrow> feature" where
  "feature_off f why = \<lparr>ft_feature = f, ft_on = False, ft_model = None, ft_why = Some why\<rparr>"

definition role_features :: "engine \<Rightarrow> feature list" where
  "role_features e =
     map (\<lambda>r. case map_of (en_roles e) r of
                Some (Inr m) \<Rightarrow>
                  \<lparr>ft_feature = role_feature r, ft_on = True, ft_model = Some m, ft_why = None\<rparr>
              | Some (Inl why) \<Rightarrow> feature_off (role_feature r) why
              | None \<Rightarrow> feature_off (role_feature r) ''no such role'')
       all_roles"

definition engine_features :: "engine \<Rightarrow> feature list" where
  "engine_features e =
     role_features e @
     map (\<lambda>(f, needs).
            if engine_has e needs
            then \<lparr>ft_feature = f, ft_on = True, ft_model = None, ft_why = None\<rparr>
            else feature_off f
                   (engine_named (en_name e) @ '' does not declare '' @ capability_name needs))
       [(''agent tools on the local model'', Tools), (''chat router picker'', JsonSchema)]"

subsection \<open>The engine in use\<close>

type_synonym engine_table = "(string \<times> engine_entry) list"

definition builtin_engine :: engine_entry where
  "builtin_engine =
     \<lparr>ee_base_url_default = Some ''http://localhost:8080'', ee_unload = UnloadRouter,
      ee_capabilities = all_capabilities,
      ee_models = \<lparr>rm_generation = Some ''gemma4-e4b'', rm_embeddings = Some ''bge-m3'',
                   rm_decision = Some ''nimble'', rm_grounding = Some ''guardian''\<rparr>\<rparr>"

definition default_engine :: string where
  "default_engine = ''llamacpp''"

definition builtin_engines :: engine_table where
  "builtin_engines = [(default_engine, builtin_engine)]"

fun join_comma :: "string list \<Rightarrow> string" where
  "join_comma [] = []"
| "join_comma [x] = x"
| "join_comma (x # xs) = x @ '', '' @ join_comma xs"

definition chosen_engine :: "env \<Rightarrow> engine_table \<Rightarrow> string + engine" where
  "chosen_engine env entries =
     (let name = (case Option.bind (env ''LOCAL_ENGINE'') (\<lambda>v. opt_nonempty (lower (trim v))) of
                    Some n \<Rightarrow> n | None \<Rightarrow> default_engine)
      in case map_of entries name of
           None \<Rightarrow> Inl (''LOCAL_ENGINE '' @ [CHR 39] @ name @ [CHR 39] @ '' is not in `engines:` ('' @
                        join_comma (map fst entries) @ '')'')
         | Some entry \<Rightarrow> resolve_engine name entry env)"

text \<open>The process-wide slot: the engine, and why the last install failed.\<close>

record engine_slot =
  sl_engine :: engine
  sl_error :: "string option"

definition initial_slot :: "env \<Rightarrow> engine_slot option" where
  "initial_slot env =
     (case chosen_engine env builtin_engines of
        Inr e \<Rightarrow> Some \<lparr>sl_engine = e, sl_error = None\<rparr>
      | Inl err \<Rightarrow>
          (case resolve_engine default_engine builtin_engine (\<lambda>_. None) of
             Inr e \<Rightarrow> Some \<lparr>sl_engine = e, sl_error = Some err\<rparr>
           | Inl _ \<Rightarrow> None))"

definition install_engines :: "env \<Rightarrow> engine_table \<Rightarrow> engine_slot \<Rightarrow> engine_slot" where
  "install_engines env entries sl =
     (case chosen_engine env (if entries = [] then builtin_engines else entries) of
        Inr e \<Rightarrow> sl\<lparr>sl_engine := e, sl_error := None\<rparr>
      | Inl err \<Rightarrow> sl\<lparr>sl_error := Some err\<rparr>)"

definition require_engine :: "engine_slot \<Rightarrow> string + engine" where
  "require_engine sl =
     (case sl_error sl of
        Some e \<Rightarrow> Inl e
      | None \<Rightarrow> result_and_then (check_engine (sl_engine sl)) (\<lambda>_. Inr (sl_engine sl)))"

subsection \<open>A role without its capability is off\<close>

lemma resolve_engine_Inr:
  assumes "resolve_engine name entry env = Inr e"
  shows "en_name e = name"
    and "en_roles e = map (\<lambda>r. (r, resolve_role name entry env (en_capabilities e) r)) all_roles"
  using assms by (auto simp: resolve_engine_def result_and_then_Inr split: option.splits)

lemma map_of_all_roles:
  "map_of (map (\<lambda>r. (r, f r)) all_roles) r = Some (f r)"
  by (cases r) (simp_all add: all_roles_def)

lemma engine_model_resolved:
  assumes "resolve_engine name entry env = Inr e"
  shows "map_of (en_roles e) r = Some (resolve_role name entry env (en_capabilities e) r)"
  using resolve_engine_Inr(2)[OF assms] by (simp add: map_of_all_roles)

lemma resolve_role_Inr:
  "resolve_role name entry env caps r = Inr m \<Longrightarrow> role_needs r \<in> caps \<and> \<not> eq_ignore_case m ''off''"
  by (auto simp: resolve_role_def split: option.splits if_splits)

text \<open>A resolved engine gives a role a model only if it declares the capability the role
  cannot work without, whatever the environment says; \<open>off\<close> is never taken for a model name.\<close>

theorem engine_role_needs_its_capability:
  assumes "resolve_engine name entry env = Inr e" and "engine_model e r = Some m"
  shows "engine_has e (role_needs r) \<and> \<not> eq_ignore_case m ''off''"
  using engine_model_resolved[OF assms(1), of r] assms(2) resolve_role_Inr
  by (fastforce simp: engine_model_def engine_has_def split: option.splits sum.splits)

lemma builtin_resolves:
  "resolve_engine default_engine builtin_engine env = Inl e \<Longrightarrow>
   \<exists>l. read_env env ''LOCAL_ENGINE_CAPABILITIES'' = Some l"
  by (cases "read_env env ''LOCAL_ENGINE_CAPABILITIES''"; cases "read_env env ''LOCAL_ENGINE_URL''")
    (auto simp: resolve_engine_def builtin_engine_def or_else_def split: option.splits)

theorem engine_role_needs_its_capability_witness:
  "\<exists>e. resolve_engine default_engine builtin_engine (\<lambda>_. None) = Inr e \<and>
     engine_model e Decision = Some ''nimble'' \<and> engine_has e Logprobs"
proof -
  let ?none = "(\<lambda>_. None) :: env"
  have none: "read_env ?none k = None" for k by (simp add: read_env_def)
  obtain e where e: "resolve_engine default_engine builtin_engine ?none = Inr e"
    using builtin_resolves[of ?none] none
    by (cases "resolve_engine default_engine builtin_engine ?none") auto
  then have caps: "en_capabilities e = set all_capabilities"
    by (auto simp: resolve_engine_def none or_else_def builtin_engine_def)
  have "\<not> eq_ignore_case ''nimble'' ''off''"
    by (simp add: eq_ignore_case_def lower_def)
  then have "engine_model e Decision = Some ''nimble''"
    using engine_model_resolved[OF e, of Decision]
    by (simp add: engine_model_def resolve_role_def none or_else_def builtin_engine_def caps
        all_capabilities_def)
  moreover from engine_role_needs_its_capability[OF e this] have "engine_has e Logprobs" by simp
  ultimately show ?thesis using e by blast
qed

subsection \<open>The slot over any sequence of installs\<close>

definition resolved_slot :: "engine_slot \<Rightarrow> bool" where
  "resolved_slot sl \<longleftrightarrow> (\<exists>name entry env. resolve_engine name entry env = Inr (sl_engine sl))"

lemma chosen_engine_resolved:
  "chosen_engine env entries = Inr e \<Longrightarrow> \<exists>name entry. resolve_engine name entry env = Inr e"
  by (auto simp: chosen_engine_def Let_def split: option.splits)

definition install_step :: "engine_slot \<Rightarrow> env \<times> engine_table \<Rightarrow> engine_slot" where
  "install_step sl i = install_engines (fst i) (snd i) sl"

interpretation engine_slots: machine install_step resolved_slot
proof
  fix sl and i :: "env \<times> engine_table"
  assume "resolved_slot sl"
  then show "resolved_slot (install_step sl i)"
    using chosen_engine_resolved[of "fst i"]
    by (fastforce simp: install_step_def install_engines_def resolved_slot_def split: sum.splits)
qed

lemma initial_slot_resolved: "initial_slot env = Some sl \<Longrightarrow> resolved_slot sl"
  using chosen_engine_resolved[of env builtin_engines]
  by (fastforce simp: initial_slot_def resolved_slot_def split: sum.splits)

lemma check_engine_Inr:
  assumes "resolve_engine name entry env = Inr e" and "check_engine e = Inr ()" and "role_required r"
  obtains m where "engine_model e r = Some m"
  using assms engine_model_resolved[OF assms(1)]
  by (cases r)
    (auto simp: check_engine_def all_roles_def engine_model_def split: sum.splits)

text \<open>The engine always starts (the fallback cannot panic), and however often engines
  are installed, with whatever tables and environments, an engine that \<open>require\<close> lets the brain
  start on declares chat and embeddings and has a model for both. An install that fails keeps
  the engine in use and makes \<open>require\<close> refuse with its error.\<close>

theorem required_engine_can_chat_and_embed:
  "\<exists>s0. initial_slot env0 = Some s0 \<and>
    (let sl = foldl install_step s0 installs in
      (\<forall>e. require_engine sl = Inr e \<longrightarrow>
         engine_has e Chat \<and> engine_has e Embeddings \<and>
         engine_model e Generation \<noteq> None \<and> engine_model e RoleEmbeddings \<noteq> None) \<and>
      (\<forall>env table err.
         chosen_engine env (if table = [] then builtin_engines else table) = Inl err \<longrightarrow>
         sl_engine (install_step sl (env, table)) = sl_engine sl \<and>
         require_engine (install_step sl (env, table)) = Inl err))"
proof -
  let ?none = "(\<lambda>_. None) :: env"
  have "resolve_engine default_engine builtin_engine ?none \<noteq> Inl err" for err
    using builtin_resolves[of ?none err] by (auto simp: read_env_def)
  then obtain s0 where s0: "initial_slot env0 = Some s0"
    by (cases "chosen_engine env0 builtin_engines";
        cases "resolve_engine default_engine builtin_engine ?none") (auto simp: initial_slot_def)
  let ?sl = "foldl install_step s0 installs"
  have "resolved_slot ?sl"
    using s0 by (intro engine_slots.every_run_inv initial_slot_resolved)
  then obtain name entry env where r: "resolve_engine name entry env = Inr (sl_engine ?sl)"
    by (auto simp: resolved_slot_def)
  have "engine_has e Chat \<and> engine_has e Embeddings \<and>
      engine_model e Generation \<noteq> None \<and> engine_model e RoleEmbeddings \<noteq> None"
    if "require_engine ?sl = Inr e" for e
  proof -
    from that have e: "e = sl_engine ?sl" "check_engine e = Inr ()"
      by (auto simp: require_engine_def result_and_then_Inr split: option.splits)
    obtain m where m: "engine_model e Generation = Some m"
      by (rule check_engine_Inr[of name entry env e Generation]) (use r e in simp_all)
    obtain k where k: "engine_model e RoleEmbeddings = Some k"
      by (rule check_engine_Inr[of name entry env e RoleEmbeddings]) (use r e in simp_all)
    have needs: "x = None \<or> engine_has e (role_needs q)" if "engine_model e q = x" for q x
      using r e that by (cases x) (auto simp: engine_model_def engine_has_def
          engine_model_resolved[OF r] dest!: resolve_role_Inr split: sum.splits)
    show ?thesis using needs[OF m] needs[OF k] m k by simp
  qed
  moreover have "sl_engine (install_step ?sl (env, table)) = sl_engine ?sl \<and>
      require_engine (install_step ?sl (env, table)) = Inl err"
    if "chosen_engine env (if table = [] then builtin_engines else table) = Inl err" for env table err
    using that by (simp add: install_step_def install_engines_def require_engine_def)
  ultimately show ?thesis using s0 by (auto simp: Let_def)
qed

theorem required_engine_can_chat_and_embed_witness:
  "\<exists>s0. initial_slot (\<lambda>_. None) = Some s0 \<and>
     require_engine (install_step s0 ((\<lambda>_. None), [(''x'', builtin_engine)])) =
       Inl (''LOCAL_ENGINE '' @ [CHR 39] @ ''llamacpp'' @ [CHR 39] @ '' is not in `engines:` (x)'')"
proof -
  let ?none = "(\<lambda>_. None) :: env"
  let ?t = "[(''x'', builtin_engine)]"
  have "chosen_engine ?none (if ?t = [] then builtin_engines else ?t) =
      Inl (''LOCAL_ENGINE '' @ [CHR 39] @ ''llamacpp'' @ [CHR 39] @ '' is not in `engines:` (x)'')"
    by (simp add: chosen_engine_def default_engine_def)
  then show ?thesis
    using required_engine_can_chat_and_embed[of ?none "[]"] by (auto simp: Let_def)
qed

end
