(* ===== verification/Provider_Registry.thy ===== *)
theory Provider_Registry
  imports Engine
begin

text \<open>
  The provider registry (\<open>crates/llm/src/provider_registry.rs\<close>): which LLM endpoints exist and
  what calling them means. The caller's purpose (\<open>crates/llm/src/routing.rs\<close>) is here because an
  entry names purposes. The environment is an argument. The tables are association lists, in
  the order \<open>BTreeMap\<close> and \<open>HashMap\<close> iterate them.
\<close>

datatype purpose = PChat | PSubagent | PBackground

fun purpose_str :: "purpose \<Rightarrow> string" where
  "purpose_str PChat = ''chat''"
| "purpose_str PSubagent = ''subagent''"
| "purpose_str PBackground = ''background''"

definition purpose_parse :: "string \<Rightarrow> purpose option" where
  "purpose_parse s =
     (let w = lower (trim s) in
      if w = ''chat'' then Some PChat
      else if w = ''subagent'' \<or> w = ''sub-agent'' then Some PSubagent
      else if w = ''background'' then Some PBackground
      else None)"

datatype provider_kind = KLocal | KOpenaiCompat | KAnthropic | KGemini

datatype billing = BLocal | BFree | BPaid

datatype data_policy = NoLog | MayLog | MayTrain

record limits =
  rpm :: "nat option"
  rpd :: "nat option"
  tpd :: "nat option"
  concurrency :: "nat option"

definition no_limits :: limits where
  "no_limits = \<lparr>rpm = None, rpd = None, tpd = None, concurrency = None\<rparr>"

record spend =
  daily_usd :: "rat option"
  monthly_usd :: "rat option"

record provider_entry =
  pe_kind :: provider_kind
  pe_billing :: billing
  pe_data_policy :: data_policy
  pe_base_url_env :: "string option"
  pe_base_url_default :: "string option"
  pe_api_key_env :: "string option"
  pe_limits :: limits
  pe_spend :: "spend option"
  pe_private_ok_for :: "purpose list"
  pe_enabled :: bool
  pe_terms :: "string option"
  pe_request_extra :: "json option"
  pe_timeout_secs :: "nat option"

text \<open>An entry that names only its kind: a forgotten field is read as the costliest, least
  trusted choice.\<close>

definition entry_of_kind :: "provider_kind \<Rightarrow> provider_entry" where
  "entry_of_kind k =
     \<lparr>pe_kind = k, pe_billing = BPaid, pe_data_policy = MayTrain, pe_base_url_env = None,
      pe_base_url_default = None, pe_api_key_env = None, pe_limits = no_limits, pe_spend = None,
      pe_private_ok_for = [], pe_enabled = True, pe_terms = None, pe_request_extra = None,
      pe_timeout_secs = None\<rparr>"

definition base_url :: "env \<Rightarrow> engine \<Rightarrow> provider_entry \<Rightarrow> string option" where
  "base_url env engine e =
     (if pe_kind e = KLocal then Some (en_url engine)
      else or_else (Option.bind (pe_base_url_env e) (read_env env)) (pe_base_url_default e))"

definition api_key :: "env \<Rightarrow> provider_entry \<Rightarrow> string option" where
  "api_key env e = Option.bind (pe_api_key_env e) (read_env env)"

definition key_configured :: "env \<Rightarrow> provider_entry \<Rightarrow> bool" where
  "key_configured env e \<longleftrightarrow> pe_api_key_env e = None \<or> api_key env e \<noteq> None"

definition spend_capped :: "provider_entry \<Rightarrow> bool" where
  "spend_capped e =
     (case pe_spend e of Some s \<Rightarrow> daily_usd s \<noteq> None \<or> monthly_usd s \<noteq> None | None \<Rightarrow> False)"

definition entry_issues :: "provider_entry \<Rightarrow> string list" where
  "entry_issues e =
     (if pe_billing e = BPaid \<and> \<not> spend_capped e
      then [''billing is paid (or unstated) with no spend cap '' @ em_dash @
            '' the policy router will refuse to route it''] else []) @
     (if pe_kind e = KOpenaiCompat \<and> pe_base_url_env e = None \<and> pe_base_url_default e = None
      then [''kind openai_compat needs base_url_env or base_url_default''] else [])"

definition canonical_name :: "string \<Rightarrow> string" where
  "canonical_name name =
     (let l = lower (trim name) in
      if l \<in> {''ollamacloud'', ''ollama_cloud''} then ''ollama-cloud''
      else if l \<in> {''ollama'', ''llamacpp'', ''llama-cpp'', ''llama.cpp'', ''llama_cpp''} then ''local''
      else l)"

type_synonym provider_table = "(string \<times> provider_entry) list"

definition builtin_providers :: provider_table where
  "builtin_providers =
     [(''anthropic'', (entry_of_kind KAnthropic)
         \<lparr>pe_billing := BPaid, pe_data_policy := NoLog, pe_api_key_env := Some ''ANTHROPIC_API_KEY''\<rparr>),
      (''gemini'', (entry_of_kind KGemini)
         \<lparr>pe_billing := BFree, pe_data_policy := MayTrain, pe_api_key_env := Some ''GEMINI_API_KEY''\<rparr>),
      (''local'', (entry_of_kind KLocal)\<lparr>pe_billing := BLocal, pe_data_policy := NoLog\<rparr>),
      (''ollama-cloud'', (entry_of_kind KOpenaiCompat)
         \<lparr>pe_billing := BFree, pe_data_policy := NoLog, pe_base_url_env := Some ''OLLAMA_URL'',
          pe_base_url_default := Some ''https://ollama.com'',
          pe_api_key_env := Some ''OLLAMA_API_KEY''\<rparr>)]"

fun merge_providers :: "provider_table \<Rightarrow> provider_table \<Rightarrow> provider_table" where
  "merge_providers table [] = table"
| "merge_providers table ((name, entry) # overrides) =
     merge_providers (AList.update (canonical_name name) entry table) overrides"

definition merged :: "provider_table \<Rightarrow> provider_table" where
  "merged overrides = merge_providers builtin_providers overrides"

definition get_provider :: "provider_table \<Rightarrow> string \<Rightarrow> provider_entry option" where
  "get_provider table name = map_of table (canonical_name name)"

type_synonym limits_table = "((string \<times> string) \<times> limits) list"

fun install_model_limits :: "(string \<times> string \<times> limits) list \<Rightarrow> limits_table" where
  "install_model_limits [] = []"
| "install_model_limits ((provider, model, l) # rest) =
     (let later = install_model_limits rest; k = (canonical_name provider, model)
      in if map_of later k = None then (k, l) # later else later)"

definition model_limits :: "limits_table \<Rightarrow> string \<Rightarrow> string \<Rightarrow> limits option" where
  "model_limits table provider model = map_of table (canonical_name provider, model)"

definition merge_request_extra :: "json \<Rightarrow> json \<Rightarrow> json" where
  "merge_request_extra body extra =
     (case (body, extra) of
        (JObj b, JObj e) \<Rightarrow> JObj (foldl (\<lambda>m (k, v). map_insert k v m) b e)
      | _ \<Rightarrow> body)"

definition apply_request_extra :: "provider_table \<Rightarrow> string \<Rightarrow> json \<Rightarrow> json" where
  "apply_request_extra table provider body =
     (case Option.bind (get_provider table provider) pe_request_extra of
        Some extra \<Rightarrow> merge_request_extra body extra
      | None \<Rightarrow> body)"

subsection \<open>One name for every spelling\<close>

lemma canonical_name_fixed [simp]:
  "canonical_name ''local'' = ''local''" "canonical_name ''ollama-cloud'' = ''ollama-cloud''"
  by (simp_all add: canonical_name_def Let_def trim_def trim_start_def trim_end_def is_ws_def
      lower_def to_ascii_lower_def)

lemma canonical_name_lower_trim: "canonical_name (lower (trim s)) = canonical_name s"
  by (simp add: canonical_name_def trim_lower)

lemma canonical_idem: "canonical_name (canonical_name s) = canonical_name s"
proof (cases "lower (trim s) \<in> {''ollamacloud'', ''ollama_cloud'', ''ollama'', ''llamacpp'',
    ''llama-cpp'', ''llama.cpp'', ''llama_cpp''}")
  case True
  then have "canonical_name s \<in> {''local'', ''ollama-cloud''}"
    by (auto simp: canonical_name_def)
  then show ?thesis by auto
next
  case False
  then have "canonical_name s = lower (trim s)" by (simp add: canonical_name_def)
  then show ?thesis by (simp add: canonical_name_lower_trim)
qed

text \<open>A provider has one name: naming it again changes nothing, and a lookup finds the
  same row under every spelling, whatever its case, the space around it or which of the
  engine's historical names it is.\<close>

theorem canonical_name_is_canonical:
  "canonical_name (canonical_name s) = canonical_name s \<and>
   (lower (trim a) = lower (trim b) \<longrightarrow> get_provider table a = get_provider table b) \<and>
   (lower (trim a) \<in> {''ollama'', ''llamacpp'', ''llama-cpp'', ''llama.cpp'', ''llama_cpp''} \<longrightarrow>
      get_provider table a = get_provider table ''local'')"
proof -
  have "canonical_name (canonical_name s) = canonical_name s" by (rule canonical_idem)
  moreover have "get_provider table a = get_provider table b" if "lower (trim a) = lower (trim b)"
    using that by (simp add: get_provider_def canonical_name_def)
  moreover have "get_provider table a = get_provider table ''local''"
    if "lower (trim a) \<in> {''ollama'', ''llamacpp'', ''llama-cpp'', ''llama.cpp'', ''llama_cpp''}"
  proof -
    from that have "canonical_name a = ''local''" by (auto simp: canonical_name_def)
    then show ?thesis by (simp add: get_provider_def)
  qed
  ultimately show ?thesis by blast
qed

theorem canonical_name_is_canonical_witness:
  "get_provider builtin_providers '' Llama.CPP '' = get_provider builtin_providers ''local''"
proof -
  have "lower (trim '' Llama.CPP '') = ''llama.cpp''"
    by code_simp
  then show ?thesis
    using canonical_name_is_canonical[of "[]" "'' Llama.CPP ''" "[]" builtin_providers] by simp
qed

subsection \<open>The provider's declaration wins\<close>

lemma map_of_rev_distinct: "distinct (map fst e) \<Longrightarrow> map_of (rev e) = map_of e"
  by (subst map_of_inject_set) (simp_all flip: rev_map)

lemma map_of_fold_insert:
  "map_of (foldl (\<lambda>m (k, v). map_insert k v m) b e) = map_of b ++ map_of (rev e)"
  by (induction e arbitrary: b) (auto simp: map_add_def fun_eq_iff split: option.splits)

text \<open>A field the provider declares for every request is in the request with the
  declared value, whatever the caller put there; every other field of the request is the
  caller's.\<close>

theorem request_extra_wins:
  assumes "distinct (map fst e)"
  shows "json_get (merge_request_extra (JObj b) (JObj e)) k = (case map_of e k of Some v \<Rightarrow> Some v | None \<Rightarrow> map_of b k)"
proof -
  have "map_of (rev e) = map_of e"
    using assms(1) by (rule map_of_rev_distinct)
  then show ?thesis
    by (auto simp: merge_request_extra_def map_of_fold_insert map_add_def)
qed

theorem request_extra_wins_witness:
  "json_get (merge_request_extra (JObj [(''zdr'', JBool False), (''model'', JStr ''m'')])
      (JObj [(''zdr'', JBool True)])) ''zdr'' = Some (JBool True)"
  using request_extra_wins[of "[(''zdr'', JBool True)]"
      "[(''zdr'', JBool False), (''model'', JStr ''m'')]" "''zdr''"] by simp

lemma merge_providers_map_of:
  "map_of (merge_providers table os) k =
     (case map_of (rev (map (map_prod canonical_name id) os)) k of
        Some e \<Rightarrow> Some e | None \<Rightarrow> map_of table k)"
  by (induction table os rule: merge_providers.induct)
    (auto simp: update_conv' map_add_def split: option.splits if_splits)

text \<open>A catalog's declaration of a provider replaces the built-in row of the same name
  wholesale, and every other built-in row stays as it was.\<close>

theorem merged_overrides:
  "map_of (merged os) k =
     (case map_of (rev (map (map_prod canonical_name id) os)) k of
        Some e \<Rightarrow> Some e | None \<Rightarrow> map_of builtin_providers k)"
  unfolding merged_def by (rule merge_providers_map_of)

end
