(* ===== verification/Gpu_Lease.thy ===== *)
theory Gpu_Lease
  imports Base
begin

text \<open>
  The lease on the GPU (\<open>crates/llm/src/gpu_lease.rs\<close>): who holds it, what the graph remembers
  of it and when the release hook runs. \<open>hm\<close> is \<open>format("%Y-%m-%d %H:%M")\<close> of the chrono package.

  The persisted node is written and deleted after the lock on the book is given back: the write
  by the caller of \<open>acquire\<close>, the delete by a spawned task. A step of the model is one such part,
  so writes and deletes can be late and can overtake one another. Unloading the engine over HTTP
  is not modelled.
\<close>

record lease =
  holder :: string
  reason :: string
  acquired_at :: instant
  expires_at :: instant

definition default_ttl_hours :: int where
  "default_ttl_hours = 12"

definition max_ttl_hours :: int where
  "max_ttl_hours = 72"

definition lease_refusal :: "(instant \<Rightarrow> string) \<Rightarrow> lease \<Rightarrow> string" where
  "lease_refusal hm l =
     ''the GPU is leased to '' @ holder l @ '' ('' @ reason l @ '') until '' @ hm (expires_at l) @
     '' UTC, so local models are unavailable''"

definition current :: "instant \<Rightarrow> lease option \<Rightarrow> lease option" where
  "current now book = (case book of Some l \<Rightarrow> if now < expires_at l then Some l else None | None \<Rightarrow> None)"

definition clamp :: "int \<Rightarrow> int \<Rightarrow> int \<Rightarrow> int" where
  "clamp lo hi x = max lo (min hi x)"

definition acquire ::
  "(instant \<Rightarrow> string) \<Rightarrow> string \<Rightarrow> string \<Rightarrow> int option \<Rightarrow> instant \<Rightarrow> lease option \<Rightarrow>
   (string + lease) \<times> lease option" where
  "acquire hm who why ttl_hours now book =
     (let who = trim who;
          ttl = clamp 1 max_ttl_hours (case ttl_hours of Some h \<Rightarrow> h | None \<Rightarrow> default_ttl_hours);
          live = current now book;
          why = trim why;
          l = \<lparr>holder = who, reason = (if why = [] then ''unspecified'' else why),
               acquired_at = (case live of Some l \<Rightarrow> acquired_at l | None \<Rightarrow> now),
               expires_at = now + hours ttl\<rparr>
      in if who = [] then (Inl ''gpu_lease acquire needs a `holder` (who is using the GPU)'', book)
         else (case live of
                 Some other \<Rightarrow>
                   if eq_ignore_case (holder other) who then (Inr l, Some l)
                   else (Inl (''the GPU is already leased to '' @ holder other @ '' until '' @
                           hm (expires_at other) @ '' UTC''), book)
               | None \<Rightarrow> (Inr l, Some l)))"

definition release ::
  "string option \<Rightarrow> bool \<Rightarrow> instant \<Rightarrow> lease option \<Rightarrow> (string + lease option) \<times> lease option" where
  "release who force now book =
     (case current now book of
        None \<Rightarrow> (Inr None, None)
      | Some live \<Rightarrow>
          let is_holder = (case who of Some h \<Rightarrow> eq_ignore_case (trim h) (holder live) | None \<Rightarrow> False)
          in if \<not> is_holder \<and> \<not> force
             then (Inl (''the GPU is leased to '' @ holder live @
                     ''; release it as that holder, or pass force: true''), book)
             else (Inr (Some live), None))"

definition take_expired :: "instant \<Rightarrow> lease option \<Rightarrow> lease option \<times> lease option" where
  "take_expired now book =
     (case book of
        Some l \<Rightarrow> if expires_at l \<le> now then (Some l, None) else (None, book)
      | None \<Rightarrow> (None, None))"

subsection \<open>The process and the graph\<close>

text \<open>\<open>connected\<close>: \<open>init\<close> has given the process its graph client and release hook.\<close>

record gpu =
  book :: "lease option"
  connected :: bool
  node :: "lease option" \<comment> \<open>\<open>(:GpuLease {id: 'current'})\<close>\<close>
  writes_pending :: "lease list"
  deletes_pending :: nat
  hook_runs :: nat

definition after_release :: "gpu \<Rightarrow> gpu" where
  "after_release g =
     (if connected g
      then g\<lparr>deletes_pending := Suc (deletes_pending g), hook_runs := Suc (hook_runs g)\<rparr> else g)"

definition held :: "instant \<Rightarrow> gpu \<Rightarrow> lease option \<times> gpu" where
  "held now g =
     (case take_expired now (book g) of
        (expired, b) \<Rightarrow>
          (current now b, if expired = None then g\<lparr>book := b\<rparr> else after_release (g\<lparr>book := b\<rparr>)))"

definition gpu_acquire ::
  "(instant \<Rightarrow> string) \<Rightarrow> string \<Rightarrow> string \<Rightarrow> int option \<Rightarrow> instant \<Rightarrow> gpu \<Rightarrow> (string + lease) \<times> gpu" where
  "gpu_acquire hm who why ttl now g =
     (case acquire hm who why ttl now (book g) of
        (Inl e, b) \<Rightarrow> (Inl e, g)
      | (Inr l, b) \<Rightarrow>
          (Inr l, g\<lparr>book := b,
                   writes_pending := (if connected g then writes_pending g @ [l] else writes_pending g)\<rparr>))"

definition gpu_release ::
  "string option \<Rightarrow> bool \<Rightarrow> instant \<Rightarrow> gpu \<Rightarrow> (string + lease option) \<times> gpu" where
  "gpu_release who force now g =
     (case release who force now (book g) of
        (Inl e, b) \<Rightarrow> (Inl e, g)
      | (Inr l, b) \<Rightarrow> (Inr l, after_release (g\<lparr>book := b\<rparr>)))"

text \<open>The persist of one \<open>acquire\<close>, and one spawned delete, reaching the graph (or failing there).\<close>

definition persist :: "nat \<Rightarrow> bool \<Rightarrow> gpu \<Rightarrow> gpu" where
  "persist n ok g =
     (if n < length (writes_pending g)
      then g\<lparr>node := (if ok then Some (writes_pending g ! n) else node g),
             writes_pending := take n (writes_pending g) @ drop (Suc n) (writes_pending g)\<rparr>
      else g)"

definition delete_node :: "bool \<Rightarrow> gpu \<Rightarrow> gpu" where
  "delete_node ok g =
     (case deletes_pending g of
        0 \<Rightarrow> g
      | Suc n \<Rightarrow> g\<lparr>node := (if ok then None else node g), deletes_pending := n\<rparr>)"

text \<open>A new process starts with an empty book and no task of the old one, and runs \<open>init\<close>.\<close>

definition init :: "bool \<Rightarrow> instant \<Rightarrow> gpu \<Rightarrow> gpu" where
  "init read_ok now g =
     (let live = (if read_ok then current now (node g) else None);
          g' = g\<lparr>book := live, connected := True\<rparr>
      in if live = None then after_release g' else g')"

definition restart :: "bool \<Rightarrow> instant \<Rightarrow> gpu \<Rightarrow> gpu" where
  "restart read_ok now g =
     init read_ok now (g\<lparr>book := None, connected := False, writes_pending := [], deletes_pending := 0\<rparr>)"

definition fresh_gpu :: gpu where
  "fresh_gpu = \<lparr>book = None, connected = False, node = None, writes_pending = [],
                deletes_pending = 0, hook_runs = 0\<rparr>"

datatype gpu_event =
    AcquireEv string string "int option"
  | ReleaseEv "string option" bool
  | HeldEv
  | PersistEv nat bool
  | DeleteEv bool
  | RestartEv bool

fun gpu_handle :: "(instant \<Rightarrow> string) \<Rightarrow> instant \<Rightarrow> gpu_event \<Rightarrow> gpu \<Rightarrow> gpu" where
  "gpu_handle hm now (AcquireEv who why ttl) g = snd (gpu_acquire hm who why ttl now g)"
| "gpu_handle hm now (ReleaseEv who force) g = snd (gpu_release who force now g)"
| "gpu_handle hm now HeldEv g = snd (held now g)"
| "gpu_handle hm now (PersistEv n ok) g = persist n ok g"
| "gpu_handle hm now (DeleteEv ok) g = delete_node ok g"
| "gpu_handle hm now (RestartEv ok) g = restart ok now g"

text \<open>An event comes some time after the one before it.\<close>

definition gpu_step :: "(instant \<Rightarrow> string) \<Rightarrow> instant \<times> gpu \<Rightarrow> nat \<times> gpu_event \<Rightarrow> instant \<times> gpu" where
  "gpu_step hm s e =
     (let now = fst s + int (fst e) in (now, gpu_handle hm now (snd e) (snd s)))"

subsection \<open>Every lease the process or the graph knows\<close>

definition known :: "gpu \<Rightarrow> lease set" where
  "known g = set_option (book g) \<union> set_option (node g) \<union> set (writes_pending g)"

lemmas gpu_defs = gpu_acquire_def gpu_release_def held_def persist_def delete_node_def restart_def
  init_def after_release_def

lemma current_Some: "current now b = Some l \<longleftrightarrow> b = Some l \<and> now < expires_at l"
  by (auto simp: current_def split: option.splits)

lemma acquire_Inr:
  "acquire hm who why ttl now b = (Inr l, b') \<Longrightarrow>
     b' = Some l \<and> holder l = trim who \<and> trim who \<noteq> [] \<and>
     acquired_at l = (case current now b of Some l' \<Rightarrow> acquired_at l' | None \<Rightarrow> now) \<and>
     now + hours 1 \<le> expires_at l \<and> expires_at l \<le> now + hours 72"
  by (auto simp: acquire_def Let_def clamp_def max_ttl_hours_def hours_def seconds_def
      split: option.splits if_splits)

lemma take_expired_fst: "take_expired now b = (e, b') \<Longrightarrow> set_option b' \<subseteq> set_option b"
  by (auto simp: take_expired_def split: option.splits if_splits)

lemma in_set_take_drop: "x \<in> set (take n xs @ drop m xs) \<Longrightarrow> x \<in> set xs"
  by (auto dest: in_set_takeD in_set_dropD)

lemma known_step:
  assumes "l \<in> known (gpu_handle hm now ev g)"
  shows "l \<in> known g \<or>
    (\<exists>who why ttl. ev = AcquireEv who why ttl \<and> fst (gpu_acquire hm who why ttl now g) = Inr l)"
proof (cases ev)
  case (AcquireEv who why ttl)
  with assms show ?thesis
    by (auto simp: gpu_acquire_def known_def dest!: acquire_Inr split: prod.splits sum.splits if_splits)
next
  case (ReleaseEv who force)
  with assms show ?thesis
    by (auto simp: gpu_release_def release_def after_release_def known_def Let_def
        split: prod.splits sum.splits if_splits option.splits)
next
  case HeldEv
  with assms show ?thesis
    by (auto simp: held_def take_expired_def after_release_def known_def
        split: prod.splits if_splits option.splits)
next
  case (PersistEv n ok)
  with assms show ?thesis
    by (auto simp: persist_def known_def split: if_splits dest: in_set_takeD in_set_dropD)
next
  case (DeleteEv ok)
  with assms show ?thesis
    by (auto simp: delete_node_def known_def split: if_splits nat.splits)
next
  case (RestartEv ok)
  with assms show ?thesis
    by (auto simp: restart_def init_def after_release_def known_def Let_def current_def
        split: if_splits option.splits)
qed

text \<open>What every known lease is bounded by.\<close>

definition within_max :: "instant \<times> gpu \<Rightarrow> bool" where
  "within_max s \<longleftrightarrow> (\<forall>l \<in> known (snd s). expires_at l \<le> fst s + hours 72 \<and> holder l \<noteq> [])"

interpretation leases: machine "gpu_step hm" within_max for hm
proof
  fix s and e :: "nat \<times> gpu_event"
  assume inv: "within_max s"
  show "within_max (gpu_step hm s e)"
    unfolding within_max_def
  proof
    fix l
    assume "l \<in> known (snd (gpu_step hm s e))"
    then have "l \<in> known (gpu_handle hm (fst s + int (fst e)) (snd e) (snd s))"
      by (simp add: gpu_step_def Let_def)
    from known_step[OF this] show "expires_at l \<le> fst (gpu_step hm s e) + hours 72 \<and> holder l \<noteq> []"
      using inv
      by (fastforce simp: gpu_step_def Let_def within_max_def gpu_acquire_def dest: acquire_Inr
          split: prod.splits sum.splits)
  qed
qed

definition expired_by :: "instant \<Rightarrow> instant \<times> gpu \<Rightarrow> bool" where
  "expired_by t s \<longleftrightarrow> (\<forall>l \<in> known (snd s). expires_at l \<le> t)"

fun not_acquire :: "nat \<times> gpu_event \<Rightarrow> bool" where
  "not_acquire (_, AcquireEv _ _ _) = False"
| "not_acquire _ = True"

interpretation forgotten: guarded_machine "gpu_step hm" not_acquire "expired_by t" for hm t
proof
  fix s e
  assume "expired_by t s" and "not_acquire e"
  then show "expired_by t (gpu_step hm s e)"
    using known_step[of _ hm "fst s + int (fst e)" "snd e" "snd s"]
    by (cases e rule: not_acquire.cases) (fastforce simp: expired_by_def gpu_step_def Let_def)+
qed

definition elapsed :: "(nat \<times> gpu_event) list \<Rightarrow> nat" where
  "elapsed es = sum_list (map fst es)"

lemma gpu_run_clock: "fst (foldl (gpu_step hm) s es) = fst s + int (elapsed es)"
  by (induction es arbitrary: s) (auto simp: elapsed_def gpu_step_def Let_def)


subsection \<open>No lease is for good\<close>

text \<open>A lease cannot disable the local models for good: after any history of the
  process (acquires, releases, restarts, graph writes and deletes that fail, are late or overtake
  one another), once nobody has acquired for 72 hours no lease is live, in the process or on
  reload from the graph.\<close>

theorem a_forgotten_lease_expires:
  assumes "list_all not_acquire es2" and "hours 72 \<le> int (elapsed es2)"
    and "foldl (gpu_step hm) (t0, fresh_gpu) (es1 @ es2) = (now, g)"
  shows "current now (book g) = None \<and> current now (node g) = None \<and>
    (\<forall>ok. book (restart ok now g) = None)"
proof -
  obtain mid where mid: "mid = foldl (gpu_step hm) (t0, fresh_gpu) es1" by simp
  have "within_max (t0, fresh_gpu)" by (simp add: within_max_def known_def fresh_gpu_def)
  then have "within_max mid" unfolding mid by (rule leases.every_run_inv)
  then have "expired_by (fst mid + hours 72) mid" by (simp add: within_max_def expired_by_def)
  then have "expired_by (fst mid + hours 72) (foldl (gpu_step hm) mid es2)"
    using assms(1) by (rule forgotten.run_inv)
  moreover have "foldl (gpu_step hm) mid es2 = (now, g)" using assms(3) mid by simp
  moreover have "fst mid + hours 72 \<le> now"
    using assms(2) gpu_run_clock[of hm mid es2] \<open>foldl (gpu_step hm) mid es2 = (now, g)\<close> by simp
  ultimately have old: "\<And>l. l \<in> known g \<Longrightarrow> expires_at l \<le> now"
    by (force simp: expired_by_def)
  have none: "current now b = None" if "set_option b \<subseteq> known g" for b
    using that by (cases b) (auto simp: current_def dest: old)
  have "current now (book g) = None" "current now (node g) = None"
    by (rule none, auto simp: known_def)+
  then show ?thesis
    by (simp add: restart_def init_def after_release_def Let_def)
qed

theorem a_forgotten_lease_expires_witness:
  "current (hours 72) (book (snd (foldl (gpu_step (\<lambda>_. [])) (0, fresh_gpu)
     ([(0, AcquireEv ''tuner'' ''lora'' (Some 500))] @ [(259200000000000, RestartEv True)])))) = None"
  using a_forgotten_lease_expires[of "[(259200000000000, RestartEv True)]" "\<lambda>_. []" 0
      "[(0, AcquireEv ''tuner'' ''lora'' (Some 500))]" "hours 72"
      "snd (foldl (gpu_step (\<lambda>_. [])) (0, fresh_gpu)
        ([(0, AcquireEv ''tuner'' ''lora'' (Some 500))] @ [(259200000000000, RestartEv True)]))"]
  by (simp add: elapsed_def hours_def seconds_def prod_eq_iff gpu_step_def Let_def)

subsection \<open>One holder at a time\<close>

text \<open>What others than the holder can do: take it for themselves, release it without force, look.\<close>

fun by_others :: "string \<Rightarrow> nat \<times> gpu_event \<Rightarrow> bool" where
  "by_others h (_, AcquireEv who _ _) = (\<not> eq_ignore_case h (trim who))"
| "by_others h (_, ReleaseEv who force) =
     (\<not> force \<and> (case who of Some w \<Rightarrow> \<not> eq_ignore_case (trim w) h | None \<Rightarrow> True))"
| "by_others h (_, RestartEv _) = False"
| "by_others h _ = True"

definition still_held :: "lease \<Rightarrow> instant \<times> gpu \<Rightarrow> bool" where
  "still_held l s \<longleftrightarrow> fst s < expires_at l \<longrightarrow> book (snd s) = Some l"

interpretation exclusive: guarded_machine "gpu_step hm" "by_others (holder l)" "still_held l" for hm l
proof
  fix s e
  assume inv: "still_held l s" and others: "by_others (holder l) e"
  show "still_held l (gpu_step hm s e)"
    unfolding still_held_def
  proof
    assume now: "fst (gpu_step hm s e) < expires_at l"
    then have "fst s < expires_at l" by (simp add: gpu_step_def Let_def)
    with inv have b: "book (snd s) = Some l" by (simp add: still_held_def)
    show "book (snd (gpu_step hm s e)) = Some l"
      using others now b
      by (cases e rule: not_acquire.cases)
        (auto simp: gpu_step_def Let_def gpu_defs acquire_def release_def take_expired_def
          current_def split: option.splits nat.splits)
  qed
qed

text \<open>Claim C27. The lease has one holder at a time: from when it is acquired until it expires,
  whatever others do (acquires under other names, releases without \<open>force\<close>, checks, graph writes
  and deletes in any order), it stays that holder's unchanged, and each of those acquires and
  releases is refused. The holder's own acquire moves the expiry and keeps the start.\<close>

theorem lease_is_exclusive:
  assumes "fst (gpu_acquire hm who why ttl t g) = Inr l"
    and "list_all (by_others (holder l)) es"
    and "foldl (gpu_step hm) (t, snd (gpu_acquire hm who why ttl t g)) es = (now, g')"
    and "now < expires_at l"
  shows "book g' = Some l \<and>
    (by_others (holder l) (0, AcquireEv who2 why2 ttl2) \<longrightarrow>
       (\<exists>e. gpu_acquire hm who2 why2 ttl2 now g' = (Inl e, g'))) \<and>
    (by_others (holder l) (0, ReleaseEv from False) \<longrightarrow>
       (\<exists>e. gpu_release from False now g' = (Inl e, g'))) \<and>
    (\<exists>l' g''. gpu_acquire hm (holder l) why2 (Some h) now g' = (Inr l', g'') \<and> book g'' = Some l' \<and>
       acquired_at l' = acquired_at l \<and> expires_at l' = now + hours (clamp 1 72 h))"
proof -
  have got: "book (snd (gpu_acquire hm who why ttl t g)) = Some l" "holder l = trim who"
      "trim who \<noteq> []"
    using assms(1) by (auto simp: gpu_acquire_def dest!: acquire_Inr split: prod.splits sum.splits)
  then have "still_held l (t, snd (gpu_acquire hm who why ttl t g))"
    by (simp add: still_held_def)
  from exclusive.run_inv[OF this assms(2), of hm] have b: "book g' = Some l"
    using assms(3,4) by (simp add: still_held_def)
  have "\<exists>e. gpu_acquire hm who2 why2 ttl2 now g' = (Inl e, g')"
    if "by_others (holder l) (0, AcquireEv who2 why2 ttl2)"
    using that b assms(4)
    by (cases "trim who2 = []") (simp_all add: gpu_acquire_def acquire_def current_def Let_def)
  moreover have "\<exists>e. gpu_release from False now g' = (Inl e, g')"
    if "by_others (holder l) (0, ReleaseEv from False)"
    using that b assms(4)
    by (auto simp: gpu_release_def release_def current_def Let_def split: option.splits)
  moreover have "\<exists>l' g''. gpu_acquire hm (holder l) why2 (Some h) now g' = (Inr l', g'') \<and>
      book g'' = Some l' \<and> acquired_at l' = acquired_at l \<and> expires_at l' = now + hours (clamp 1 72 h)"
    using b assms(4) got(2,3)
    by (simp add: gpu_acquire_def acquire_def current_def Let_def max_ttl_hours_def)
  ultimately show ?thesis using b by blast
qed

theorem lease_is_exclusive_witness:
  "book (snd (foldl (gpu_step (\<lambda>_. []))
      (0, snd (gpu_acquire (\<lambda>_. []) ''tuner'' ''lora'' None 0 fresh_gpu))
      [(1000, AcquireEv ''Other'' [] None), (5, ReleaseEv (Some ''other'') False), (7, HeldEv)])) =
   Some \<lparr>holder = ''tuner'', reason = ''lora'', acquired_at = 0, expires_at = 43200000000000\<rparr>"
proof -
  let ?l = "\<lparr>holder = ''tuner'', reason = ''lora'', acquired_at = 0, expires_at = 43200000000000\<rparr>"
  let ?es = "[(1000 :: nat, AcquireEv ''Other'' [] None), (5, ReleaseEv (Some ''other'') False), (7, HeldEv)]"
  let ?run = "foldl (gpu_step (\<lambda>_. [])) (0, snd (gpu_acquire (\<lambda>_. []) ''tuner'' ''lora'' None 0 fresh_gpu)) ?es"
  have "fst (gpu_acquire (\<lambda>_. []) ''tuner'' ''lora'' None 0 fresh_gpu) = Inr ?l" by code_simp
  moreover have "list_all (by_others (holder ?l)) ?es" by code_simp
  moreover have "fst ?run = 1012" by (simp only: gpu_run_clock) (simp add: elapsed_def)
  then have "?run = (1012, snd ?run)" by (simp add: prod_eq_iff)
  ultimately show ?thesis
    using lease_is_exclusive[of "\<lambda>_. []" "''tuner''" "''lora''" None 0 fresh_gpu ?l ?es 1012 "snd ?run"]
    by simp
qed

subsection \<open>The lease over a restart\<close>

text \<open>A brain restarted during training does not reclaim the GPU: once the write of a
  lease that a connected process granted has reached the graph, a restart that can read it has the
  same lease. That needs every earlier delete to have run: a delete that an earlier release
  spawned, and that runs after the write, removes the new lease's node, and the restarted brain
  takes the GPU back although the lease is live.\<close>

theorem restart_keeps_the_lease_unless_a_delete_is_late:
  assumes "connected g" and "writes_pending g = []"
    and "gpu_acquire hm who why ttl t g = (Inr l, g')"
    and "t \<le> now" and "now < expires_at l"
  shows "book (restart True now (persist 0 True g')) = Some l \<and>
    (0 < deletes_pending g \<longrightarrow>
       book (restart True now (delete_node True (persist 0 True g'))) = None \<and>
       current now (book (delete_node True (persist 0 True g'))) = Some l)"
  using assms acquire_Inr[of hm who why ttl t "book g"]
  by (auto simp: gpu_defs current_def Let_def split: prod.splits sum.splits nat.splits)

theorem restart_keeps_the_lease_unless_a_delete_is_late_witness:
  "book (restart True 5 (delete_node True (persist 0 True (snd (gpu_acquire (\<lambda>_. []) ''tuner'' []
     None 0 (fresh_gpu\<lparr>connected := True, deletes_pending := 1\<rparr>)))))) = None"
proof -
  let ?g = "fresh_gpu\<lparr>connected := True, deletes_pending := 1\<rparr>"
  let ?l = "\<lparr>holder = ''tuner'', reason = ''unspecified'', acquired_at = 0, expires_at = 43200000000000\<rparr>"
  have "fst (gpu_acquire (\<lambda>_. []) ''tuner'' [] None 0 ?g) = Inr ?l" by code_simp
  then have "gpu_acquire (\<lambda>_. []) ''tuner'' [] None 0 ?g =
      (Inr ?l, snd (gpu_acquire (\<lambda>_. []) ''tuner'' [] None 0 ?g))" by (simp add: prod_eq_iff)
  then show ?thesis
    using restart_keeps_the_lease_unless_a_delete_is_late[of ?g "\<lambda>_. []" "''tuner''" "[]" None 0 ?l _ 5]
    by (simp add: fresh_gpu_def)
qed

end
