(* ===== verification/Provider_Gate.thy ===== *)
theory Provider_Gate
  imports Provider_Registry
begin

text \<open>
  The concurrency gate of each provider (\<open>crates/llm/src/provider_gate.rs\<close>). A call waits as a
  ticket: the sender of its channel is the ticket in a slot's queue, its receiver is alive while
  the ticket is in \<open>waiting\<close>, and the permit it holds is the ticket in \<open>permits\<close>. A call that is
  abandoned while it waits drops the receiver and leaves the dead ticket in the queue. Every
  operation runs under the gate's lock, so it is one step.
\<close>

fun class_index :: "purpose \<Rightarrow> nat" where
  "class_index PChat = 0"
| "class_index PSubagent = 1"
| "class_index PBackground = 2"

record gslot =
  capacity :: nat
  in_use :: nat
  waiters :: "nat list list" \<comment> \<open>one queue per class, highest priority first\<close>
  acquired :: nat
  waited :: nat
  max_wait_ms :: nat

definition default_slot :: gslot where
  "default_slot = \<lparr>capacity = 0, in_use = 0, waiters = [[], [], []], acquired = 0, waited = 0,
                   max_wait_ms = 0\<rparr>"

record gate =
  slots :: "string \<Rightarrow> gslot option"
  waiting :: "(nat \<times> string) list"
  permits :: "(nat \<times> string) list"
  next_ticket :: nat

text \<open>\<open>waiters.iter_mut().find_map(VecDeque::pop_front)\<close>\<close>

fun find_pop :: "nat list list \<Rightarrow> (nat \<times> nat list list) option" where
  "find_pop [] = None"
| "find_pop ((t # q) # qs) = Some (t, q # qs)"
| "find_pop ([] # qs) = map_option (\<lambda>(t, qs'). (t, [] # qs')) (find_pop qs)"

lemma find_pop_Some:
  "find_pop ws = Some (t, ws') \<Longrightarrow> concat ws = t # concat ws' \<and> length ws' = length ws"
  by (induction ws arbitrary: ws' rule: find_pop.induct) auto

lemma find_pop_None: "find_pop ws = None \<longleftrightarrow> concat ws = []"
  by (induction ws rule: find_pop.induct) auto

function dispatch :: "(nat \<Rightarrow> bool) \<Rightarrow> gslot \<Rightarrow> nat list \<times> gslot" where
  "dispatch alive s =
     (if in_use s < capacity s
      then (case find_pop (waiters s) of
              None \<Rightarrow> ([], s)
            | Some (t, ws) \<Rightarrow>
                if alive t
                then apfst ((#) t) (dispatch alive (s\<lparr>waiters := ws, in_use := Suc (in_use s)\<rparr>))
                else dispatch alive (s\<lparr>waiters := ws\<rparr>))
      else ([], s))"
  by pat_completeness auto
termination
  by (relation "measure (\<lambda>(alive, s). length (concat (waiters s)))")
    (auto dest!: find_pop_Some)

declare dispatch.simps [simp del]

lemma dispatch_full: "\<not> in_use s < capacity s \<Longrightarrow> dispatch alive s = ([], s)"
  by (subst dispatch.simps) simp

lemma dispatch_no_waiter: "find_pop (waiters s) = None \<Longrightarrow> dispatch alive s = ([], s)"
  by (subst dispatch.simps) simp

lemma dispatch_live:
  "in_use s < capacity s \<Longrightarrow> find_pop (waiters s) = Some (t, ws) \<Longrightarrow> alive t \<Longrightarrow>
   dispatch alive s = apfst ((#) t) (dispatch alive (s\<lparr>waiters := ws, in_use := Suc (in_use s)\<rparr>))"
  by (subst dispatch.simps) simp

lemma dispatch_gone:
  "in_use s < capacity s \<Longrightarrow> find_pop (waiters s) = Some (t, ws) \<Longrightarrow> \<not> alive t \<Longrightarrow>
   dispatch alive s = dispatch alive (s\<lparr>waiters := ws\<rparr>)"
  by (subst dispatch.simps) simp

text \<open>The receivers that the permits were sent to.\<close>

definition hand_over :: "string \<Rightarrow> nat list \<Rightarrow> gate \<Rightarrow> gate" where
  "hand_over p ts g =
     g\<lparr>waiting := filter (\<lambda>(t, q). \<not> (q = p \<and> t \<in> set ts)) (waiting g),
       permits := permits g @ map (\<lambda>t. (t, p)) ts\<rparr>"

definition dispatch_slot :: "string \<Rightarrow> gslot \<Rightarrow> gate \<Rightarrow> gate" where
  "dispatch_slot p s g =
     (case dispatch (\<lambda>t. (t, p) \<in> set (waiting g)) s of
        (ts, s') \<Rightarrow> hand_over p ts (g\<lparr>slots := (slots g)(p \<mapsto> s')\<rparr>))"

text \<open>The capacities a provider table asks for.\<close>

definition wanted_slots :: "provider_table \<Rightarrow> (string \<times> nat) list" where
  "wanted_slots table =
     foldl (\<lambda>w (name, e).
              case concurrency (pe_limits e) of
                Some c \<Rightarrow> AList.update (canonical_name name) (max c 1) w
              | None \<Rightarrow> w)
       [] table"

definition resize :: "gate \<Rightarrow> string \<times> nat \<Rightarrow> gate" where
  "resize g w =
     (let s = (case slots g (fst w) of Some s \<Rightarrow> s | None \<Rightarrow> default_slot)
      in dispatch_slot (fst w) (s\<lparr>capacity := snd w\<rparr>) g)"

text \<open>A slot that goes drops its senders, so the calls that waited on it proceed ungated.\<close>

definition configure :: "provider_table \<Rightarrow> gate \<Rightarrow> gate" where
  "configure table g =
     (let w = wanted_slots table;
          kept = (\<lambda>p. map_of w p \<noteq> None)
      in foldl resize
           (g\<lparr>slots := (\<lambda>p. if kept p then slots g p else None),
              waiting := filter (\<lambda>(t, p). kept p) (waiting g)\<rparr>) w)"

datatype acquired_as = Ungated | Permit nat | Waits nat

definition gate_acquire :: "string \<Rightarrow> purpose \<Rightarrow> gate \<Rightarrow> acquired_as \<times> gate" where
  "gate_acquire p purpose g =
     (case slots g p of
        None \<Rightarrow> (Ungated, g)
      | Some s0 \<Rightarrow>
          let s = s0\<lparr>acquired := Suc (acquired s0)\<rparr>; t = next_ticket g; c = class_index purpose
          in if in_use s < capacity s \<and> list_all (\<lambda>q. q = []) (waiters s)
             then (Permit t, g\<lparr>slots := (slots g)(p \<mapsto> s\<lparr>in_use := Suc (in_use s)\<rparr>),
                               permits := permits g @ [(t, p)], next_ticket := Suc t\<rparr>)
             else (Waits t, g\<lparr>slots := (slots g)(p \<mapsto>
                                 s\<lparr>waiters := (waiters s)[c := waiters s ! c @ [t]],
                                   waited := Suc (waited s)\<rparr>),
                               waiting := waiting g @ [(t, p)], next_ticket := Suc t\<rparr>))"

text \<open>\<open>release\<close> of the permit, by its \<open>drop\<close>; an ungated provider tracks nothing.\<close>

definition gate_release :: "nat \<Rightarrow> string \<Rightarrow> gate \<Rightarrow> gate" where
  "gate_release t p g =
     (if (t, p) \<in> set (permits g)
      then let g' = g\<lparr>permits := remove1 (t, p) (permits g)\<rparr>
           in (case slots g p of
                 None \<Rightarrow> g'
               | Some s \<Rightarrow> dispatch_slot p (s\<lparr>in_use := in_use s - 1\<rparr>) g')
      else g)"

text \<open>A call is dropped: its receiver goes, or the permit it was handed does.\<close>

definition abandon :: "nat \<Rightarrow> string \<Rightarrow> gate \<Rightarrow> gate" where
  "abandon t p g =
     (if (t, p) \<in> set (waiting g) then g\<lparr>waiting := removeAll (t, p) (waiting g)\<rparr>
      else gate_release t p g)"

text \<open>A call that was woken records how long it waited.\<close>

definition note_wait :: "string \<Rightarrow> nat \<Rightarrow> gate \<Rightarrow> gate" where
  "note_wait p ms g =
     (case slots g p of
        None \<Rightarrow> g
      | Some s \<Rightarrow> g\<lparr>slots := (slots g)(p \<mapsto> s\<lparr>max_wait_ms := max (max_wait_ms s) ms\<rparr>)\<rparr>)"

definition gate_snapshot :: "gate \<Rightarrow> string \<Rightarrow> json" where
  "gate_snapshot g p =
     (case slots g p of
        None \<Rightarrow> JNull
      | Some s \<Rightarrow>
          JObj [(''capacity'', JInt (int (capacity s))), (''in_use'', JInt (int (in_use s))),
                (''waiting'', JObj (map (\<lambda>c. (purpose_str c,
                    JInt (int (length (waiters s ! class_index c))))) [PChat, PSubagent, PBackground])),
                (''acquired_total'', JInt (int (acquired s))),
                (''waited_total'', JInt (int (waited s))),
                (''max_wait_ms'', JInt (int (max_wait_ms s)))])"

definition in_flight :: "gate \<Rightarrow> string \<Rightarrow> nat" where
  "in_flight g p =
     (case as_u64 (json_field (gate_snapshot g p) ''in_use'') of Some n \<Rightarrow> n | None \<Rightarrow> 0)"

definition empty_gate :: gate where
  "empty_gate = \<lparr>slots = (\<lambda>_. None), waiting = [], permits = [], next_ticket = 0\<rparr>"

datatype gate_event =
    Acquire string purpose
  | Release nat string
  | Abandon nat string
  | NoteWait string nat
  | Configure provider_table

fun gate_step :: "gate \<Rightarrow> gate_event \<Rightarrow> gate" where
  "gate_step g (Acquire p c) = snd (gate_acquire (canonical_name p) c g)"
| "gate_step g (Release t p) = gate_release t p g"
| "gate_step g (Abandon t p) = abandon t p g"
| "gate_step g (NoteWait p ms) = note_wait p ms g"
| "gate_step g (Configure table) = configure table g"

subsection \<open>Dispatch is priority order\<close>

text \<open>What dispatch does, without its loop: the live tickets, class by class and first come first
  served, as many as are free.\<close>

definition served :: "(nat \<Rightarrow> bool) \<Rightarrow> gslot \<Rightarrow> nat list" where
  "served alive s = take (capacity s - in_use s) (filter alive (concat (waiters s)))"

lemma dispatch_served:
  "fst (dispatch alive s) = served alive s \<and>
   in_use (snd (dispatch alive s)) = in_use s + length (served alive s) \<and>
   capacity (snd (dispatch alive s)) = capacity s \<and>
   length (waiters (snd (dispatch alive s))) = length (waiters s) \<and>
   filter alive (concat (waiters (snd (dispatch alive s)))) =
     drop (capacity s - in_use s) (filter alive (concat (waiters s))) \<and>
   (in_use (snd (dispatch alive s)) < capacity s \<longrightarrow> concat (waiters (snd (dispatch alive s))) = [])"
proof (induction alive s rule: dispatch.induct)
  case (1 alive s)
  show ?case
  proof (cases "in_use s < capacity s")
    case free: True
    show ?thesis
    proof (cases "find_pop (waiters s)")
      case None
      then have c: "concat (waiters s) = []" by (simp only: find_pop_None)
      from None show ?thesis by (simp add: dispatch_no_waiter served_def c)
    next
      case (Some tw)
      obtain t ws where tw: "tw = (t, ws)" by (cases tw)
      with Some have pop: "find_pop (waiters s) = Some (t, ws)" by simp
      note c = find_pop_Some[OF pop]
      have diff: "capacity s - in_use s = Suc (capacity s - Suc (in_use s))" using free by simp
      show ?thesis
      proof (cases "alive t")
        case True
        note IH = "1.IH"(1)[OF free pop refl True]
        show ?thesis
          unfolding dispatch_live[of s, OF free pop, of alive, OF True] using IH c True by (simp add: served_def diff)
      next
        case False
        note IH = "1.IH"(2)[OF free pop refl False]
        show ?thesis
          unfolding dispatch_gone[of s, OF free pop, of alive, OF False] using IH c False by (simp add: served_def)
      qed
    qed
  next
    case False
    then show ?thesis by (simp add: dispatch_full served_def)
  qed
qed


subsection \<open>The slot of a gated provider\<close>

definition held_permits :: "string \<Rightarrow> gate \<Rightarrow> nat" where
  "held_permits p g = length (filter (\<lambda>x. snd x = p) (permits g))"

text \<open>The books of a provider with at most \<open>N\<close> places: every permit is counted, no place is free
  while a live call waits for it, every live call is in a queue.\<close>

definition slot_ok :: "string \<Rightarrow> nat \<Rightarrow> gslot \<Rightarrow> gate \<Rightarrow> bool" where
  "slot_ok p N s g \<longleftrightarrow>
     length (waiters s) = 3 \<and> in_use s = held_permits p g \<and> capacity s \<le> N \<and> in_use s \<le> N \<and>
     (\<forall>t. (t, p) \<in> set (waiting g) \<longrightarrow> t \<in> set (concat (waiters s)))"

definition busy :: "gslot \<Rightarrow> bool" where
  "busy s \<longleftrightarrow> (in_use s < capacity s \<longrightarrow> concat (waiters s) = [])"

definition gated :: "string \<Rightarrow> nat \<Rightarrow> gate \<Rightarrow> bool" where
  "gated p N g \<longleftrightarrow> (\<exists>s. slots g p = Some s \<and> slot_ok p N s g \<and> busy s)"

lemma held_permits_hand_over:
  "held_permits p (hand_over q ts g) = held_permits p g + (if p = q then length ts else 0)"
  by (simp add: held_permits_def hand_over_def filter_map comp_def)

lemma dispatch_slot_other:
  "q \<noteq> p \<Longrightarrow> slots (dispatch_slot q s g) p = slots g p \<and>
     held_permits p (dispatch_slot q s g) = held_permits p g \<and>
     (\<forall>t. (t, p) \<in> set (waiting (dispatch_slot q s g)) \<longleftrightarrow> (t, p) \<in> set (waiting g))"
  by (auto simp: dispatch_slot_def held_permits_hand_over split: prod.splits)
    (auto simp: hand_over_def held_permits_def)

lemma gated_dispatch_other: "q \<noteq> p \<Longrightarrow> gated p N g \<Longrightarrow> gated p N (dispatch_slot q s g)"
  using dispatch_slot_other[of q p s g] by (auto simp: gated_def slot_ok_def)

lemma gated_dispatch:
  assumes "slot_ok p N s g"
  shows "gated p N (dispatch_slot p s g)"
proof -
  let ?alive = "\<lambda>t. (t, p) \<in> set (waiting g)"
  obtain ts s' where d: "dispatch ?alive s = (ts, s')" by (cases "dispatch ?alive s")
  note D = dispatch_served[of ?alive s, unfolded d fst_conv snd_conv]
  have ts: "ts = served ?alive s" using D by simp
  have "t \<in> set (concat (waiters s'))" if "(t, p) \<in> set (waiting g)" "t \<notin> set ts" for t
  proof -
    have "t \<in> set (filter ?alive (concat (waiters s)))"
      using assms that(1) by (simp add: slot_ok_def)
    then have "t \<in> set (served ?alive s) \<or> t \<in> set (filter ?alive (concat (waiters s')))"
      using D unfolding served_def by (metis Un_iff append_take_drop_id set_append)
    with that(2) ts show ?thesis by auto
  qed
  moreover have "length ts \<le> capacity s - in_use s" unfolding ts served_def by simp
  moreover have "busy s'" using D by (simp add: busy_def)
  ultimately show ?thesis
    using assms D ts
    by (auto simp: dispatch_slot_def d gated_def slot_ok_def held_permits_hand_over)
      (auto simp: hand_over_def held_permits_def)
qed


lemma class_index_less: "class_index c < 3"
  by (cases c) auto

lemma set_concat_snoc:
  "i < length xss \<Longrightarrow> set (concat (xss[i := xss ! i @ [x]])) = insert x (set (concat xss))"
  by (induction xss arbitrary: i) (auto split: nat.splits)

lemma gated_acquire [inv_intros]:
  assumes "gated p N g"
  shows "gated p N (snd (gate_acquire q c g))"
proof (cases "q = p")
  case True
  from assms obtain s where s: "slots g p = Some s" "slot_ok p N s g" "busy s"
    by (auto simp: gated_def)
  show ?thesis
  proof (cases "in_use s < capacity s \<and> list_all (\<lambda>q. q = []) (waiters s)")
    case go: True
    then show ?thesis
      using s True
      by (auto simp: gate_acquire_def gated_def slot_ok_def busy_def held_permits_def list_all_iff
          Let_def)
  next
    case False
    then have "\<not> in_use s < capacity s"
      using s(3) by (auto simp: busy_def list_all_iff)
    let ?ws = "(waiters s)[class_index c := waiters s ! class_index c @ [next_ticket g]]"
    have "set (concat ?ws) = insert (next_ticket g) (set (concat (waiters s)))"
      using s(2) class_index_less[of c] by (intro set_concat_snoc) (simp add: slot_ok_def)
    with \<open>\<not> in_use s < capacity s\<close> show ?thesis
      using s True
      by (auto simp: gate_acquire_def gated_def slot_ok_def busy_def held_permits_def Let_def)
  qed
next
  case False
  then show ?thesis
    using assms
    by (auto simp: gate_acquire_def gated_def slot_ok_def held_permits_def Let_def
        split: option.splits if_splits)
qed

lemma length_filter_remove1:
  "x \<in> set xs \<Longrightarrow> length (filter P (remove1 x xs)) = length (filter P xs) - (if P x then 1 else 0)"
proof -
  assume "x \<in> set xs"
  then obtain ys zs where "xs = ys @ x # zs" "x \<notin> set ys" by (auto dest: split_list_first)
  then show ?thesis by (simp add: remove1_append)
qed

lemma gated_release [inv_intros]:
  assumes "gated p N g"
  shows "gated p N (gate_release t q g)"
proof (cases "(t, q) \<in> set (permits g)")
  case held: True
  from assms obtain s where s: "slots g p = Some s" "slot_ok p N s g" "busy s"
    by (auto simp: gated_def)
  let ?g = "g\<lparr>permits := remove1 (t, q) (permits g)\<rparr>"
  have n: "held_permits p ?g = held_permits p g - (if q = p then 1 else 0)"
    using held by (simp add: held_permits_def length_filter_remove1)
  show ?thesis
  proof (cases "q = p")
    case True
    then have "slot_ok p N (s\<lparr>in_use := in_use s - 1\<rparr>) ?g"
      using s n by (auto simp: slot_ok_def)
    then show ?thesis
      using held s True gated_dispatch by (simp add: gate_release_def)
  next
    case False
    then have "gated p N ?g"
      using s n by (auto simp: gated_def slot_ok_def)
    then show ?thesis
      using held False gated_dispatch_other
      by (simp add: gate_release_def Let_def split: option.splits)
  qed
next
  case False
  then show ?thesis using assms by (simp add: gate_release_def)
qed

lemma gated_abandon [inv_intros]: "gated p N g \<Longrightarrow> gated p N (abandon t q g)"
  using gated_release by (auto simp: abandon_def gated_def slot_ok_def held_permits_def)

lemma gated_note_wait [inv_intros]: "gated p N g \<Longrightarrow> gated p N (note_wait q ms g)"
  by (auto simp: note_wait_def gated_def slot_ok_def busy_def held_permits_def split: option.splits)

lemma gated_resize: "gated p N g \<Longrightarrow> snd w \<le> N \<or> fst w \<noteq> p \<Longrightarrow> gated p N (resize g w)"
proof (cases "fst w = p")
  case True
  assume g: "gated p N g" and w: "snd w \<le> N \<or> fst w \<noteq> p"
  then obtain s where s: "slots g p = Some s" "slot_ok p N s g" by (auto simp: gated_def)
  then have "slot_ok p N (s\<lparr>capacity := snd w\<rparr>) g" using w True by (simp add: slot_ok_def)
  then show ?thesis using s True gated_dispatch by (simp add: resize_def)
next
  case False
  assume "gated p N g"
  with False show ?thesis by (simp add: resize_def Let_def gated_dispatch_other)
qed


lemma wanted_slots_distinct: "distinct (map fst (wanted_slots table))"
proof -
  let ?f = "\<lambda>w (name, e). case concurrency (pe_limits e) of
      Some c \<Rightarrow> AList.update (canonical_name name) (max c 1) w | None \<Rightarrow> w"
  have "distinct (map fst w) \<Longrightarrow> distinct (map fst (foldl ?f w table))" for w :: "(string \<times> nat) list"
    by (induction table arbitrary: w) (auto simp: distinct_update split: option.splits)
  then show ?thesis by (simp add: wanted_slots_def)
qed

text \<open>A provider that nobody has a permit of or waits for, as before it is first gated.\<close>

definition unused :: "string \<Rightarrow> gate \<Rightarrow> bool" where
  "unused p g \<longleftrightarrow> slots g p = None \<and> held_permits p g = 0 \<and> (\<forall>t. (t, p) \<notin> set (waiting g))"

lemma gated_resize_first: "unused p g \<Longrightarrow> c \<le> N \<Longrightarrow> gated p N (resize g (p, c))"
  unfolding resize_def Let_def
  by (auto simp: unused_def intro!: gated_dispatch) (simp add: slot_ok_def default_slot_def)

lemma unused_resize: "unused p g \<Longrightarrow> fst w \<noteq> p \<Longrightarrow> unused p (resize g w)"
  using dispatch_slot_other[of "fst w" p] by (auto simp: unused_def resize_def Let_def)

lemma gated_resizes:
  assumes "\<forall>w \<in> set ws. fst w = p \<longrightarrow> snd w \<le> N"
  shows "gated p N g \<Longrightarrow> gated p N (foldl resize g ws)"
    and "unused p g \<Longrightarrow> p \<in> fst ` set ws \<Longrightarrow> gated p N (foldl resize g ws)"
proof -
  show kept: "gated p N (foldl resize g ws)" if "gated p N g"
    using that assms by (induction ws arbitrary: g) (auto intro!: gated_resize)
  show "gated p N (foldl resize g ws)" if "unused p g" "p \<in> fst ` set ws"
    using that assms
  proof (induction ws arbitrary: g)
    case (Cons w ws)
    show ?case
    proof (cases "fst w = p")
      case True
      then obtain c where "w = (p, c)" by (cases w) simp
      then have "gated p N (resize g w)" using Cons.prems gated_resize_first[of p g c N] by simp
      moreover have "gated p N h \<Longrightarrow> gated p N (foldl resize h ws)" for h
        using Cons.prems(3) by (induction ws arbitrary: h) (auto intro!: gated_resize)
      ultimately show ?thesis by simp
    next
      case False
      with Cons.prems have "gated p N (foldl resize (resize g w) ws)"
        by (intro Cons.IH unused_resize) auto
      then show ?thesis by simp
    qed
  qed simp
qed

lemma gated_configure:
  assumes "map_of (wanted_slots table) p = Some c" "c \<le> N" "gated p N g \<or> unused p g"
  shows "gated p N (configure table g)"
proof -
  have "\<forall>w \<in> set (wanted_slots table). fst w = p \<longrightarrow> snd w \<le> N"
    using assms(1,2) wanted_slots_distinct[of table] by (auto dest!: map_of_SomeD dest: eq_key_imp_eq_value)
  note R = gated_resizes[OF this]
  have "p \<in> fst ` set (wanted_slots table)" using assms(1) by (force dest: map_of_SomeD)
  moreover have "gated p N (g\<lparr>slots := (\<lambda>p. if map_of (wanted_slots table) p \<noteq> None then slots g p else None),
      waiting := filter (\<lambda>(t, p). map_of (wanted_slots table) p \<noteq> None) (waiting g)\<rparr>)" if "gated p N g"
    using that assms(1) by (auto simp: gated_def slot_ok_def held_permits_def)
  moreover have "unused p (g\<lparr>slots := (\<lambda>p. if map_of (wanted_slots table) p \<noteq> None then slots g p else None),
      waiting := filter (\<lambda>(t, p). map_of (wanted_slots table) p \<noteq> None) (waiting g)\<rparr>)" if "unused p g"
    using that by (auto simp: unused_def held_permits_def)
  ultimately show ?thesis
    using assms(3) R unfolding configure_def Let_def by blast
qed

text \<open>The events after which \<open>p\<close> is still gated, with at most \<open>N\<close> places.\<close>

definition keeps_gated :: "string \<Rightarrow> nat \<Rightarrow> gate_event \<Rightarrow> bool" where
  "keeps_gated p N e =
     (case e of
        Configure table \<Rightarrow> (case map_of (wanted_slots table) p of Some c \<Rightarrow> c \<le> N | None \<Rightarrow> False)
      | _ \<Rightarrow> True)"

interpretation gate_run: guarded_machine gate_step "keeps_gated p N" "gated p N" for p N
  by unfold_locales
    (auto simp: keeps_gated_def intro: inv_intros gated_configure split: gate_event.splits option.splits)

text \<open>Claim C29. As long as every reload of the registry keeps the provider gated, whatever calls, releases, abandoned
  calls and reloads come in whatever order: no more requests are in flight than the largest capacity it was ever
  given, the slot's count is the number of permits out, and no call waits while a place is free (no lost
  wake-up). A smaller capacity does not recall the calls that are out, and a reload that drops the limit forgets
  them: see \<open>regating_forgets_permits\<close>.\<close>

theorem gate_respects_capacity:
  assumes "keeps_gated p N (Configure table)" and "list_all (keeps_gated p N) es"
  shows "\<exists>s. slots (foldl gate_step (configure table empty_gate) es) p = Some s \<and>
    in_use s = held_permits p (foldl gate_step (configure table empty_gate) es) \<and>
    in_use s \<le> N \<and>
    (in_use s < capacity s \<longrightarrow>
       (\<forall>t. (t, p) \<notin> set (waiting (foldl gate_step (configure table empty_gate) es))))"
proof -
  have "unused p empty_gate" by (simp add: unused_def empty_gate_def held_permits_def)
  then have "gated p N (configure table empty_gate)"
    using assms(1) by (auto simp: keeps_gated_def intro: gated_configure split: option.splits)
  from gate_run.run_inv[OF this assms(2)] show ?thesis
    by (fastforce simp: gated_def slot_ok_def busy_def)
qed

definition one_place :: "string \<Rightarrow> provider_table" where
  "one_place p =
     [(p, (entry_of_kind KOpenaiCompat)\<lparr>pe_limits := no_limits\<lparr>concurrency := Some 1\<rparr>\<rparr>)]"

lemma wanted_one_place [simp]:
  "wanted_slots (one_place ''groq'') = [(''groq'', 1)]" "wanted_slots [] = []"
  by (code_simp, simp add: wanted_slots_def)

theorem gate_respects_capacity_witness:
  "\<exists>s. slots (foldl gate_step (configure (one_place ''groq'') empty_gate)
      [Acquire ''groq'' PBackground, Acquire ''groq'' PChat, Release 0 ''groq'']) ''groq'' = Some s \<and>
     in_use s \<le> 1"
  using gate_respects_capacity[of "''groq''" 1 "one_place ''groq''"
      "[Acquire ''groq'' PBackground, Acquire ''groq'' PChat, Release 0 ''groq'']"]
  by (auto simp: keeps_gated_def)

text \<open>A place that is given back goes to the calls that still wait for it, in class
  order (chat, then sub-agents, then background) and first come first served within a class:
  abandoned calls are passed over and cost no place.\<close>

theorem release_serves_in_class_order:
  assumes "slots g p = Some s" and "(t, p) \<in> set (permits g)"
  shows "permits (gate_release t p g) =
      remove1 (t, p) (permits g) @ map (\<lambda>u. (u, p))
        (take (capacity s - (in_use s - 1))
           (filter (\<lambda>u. (u, p) \<in> set (waiting g)) (concat (waiters s)))) \<and>
    (\<forall>q u. (u, q) \<in> set (waiting (gate_release t p g)) \<longleftrightarrow>
       (u, q) \<in> set (waiting g) \<and> (u, q) \<notin> set (map (\<lambda>u. (u, p))
        (take (capacity s - (in_use s - 1))
           (filter (\<lambda>u. (u, p) \<in> set (waiting g)) (concat (waiters s))))))"
  using assms dispatch_served[of "\<lambda>t. (t, p) \<in> set (waiting g)" "s\<lparr>in_use := in_use s - 1\<rparr>"]
  by (auto simp: gate_release_def dispatch_slot_def hand_over_def served_def split: prod.splits)

theorem release_serves_in_class_order_witness:
  "permits (gate_release 0 ''groq''
     \<lparr>slots = [''groq'' \<mapsto> default_slot\<lparr>capacity := 1, in_use := 1, waiters := [[3], [], [1, 2]]\<rparr>],
      waiting = [(1, ''groq''), (3, ''groq'')], permits = [(0, ''groq'')], next_ticket = 4\<rparr>) =
   [(3, ''groq'')]"
  using release_serves_in_class_order[of
      "\<lparr>slots = [''groq'' \<mapsto> default_slot\<lparr>capacity := 1, in_use := 1, waiters := [[3], [], [1, 2]]\<rparr>],
        waiting = [(1, ''groq''), (3, ''groq'')], permits = [(0, ''groq'')], next_ticket = 4\<rparr>"
      "''groq''" _ 0]
  by simp

text \<open>The bound needs the provider to stay gated: a registry that drops a provider's
  limit while \<open>n\<close> of its requests are in flight and a later one that declares it again starts
  from an empty count, so the requests in flight are not counted and one more is admitted beside
  them, whatever the capacity.\<close>

theorem regating_forgets_permits:
  assumes "map_of (wanted_slots without) p = None" and "wanted_slots again = [(p, Suc c)]"
  shows "held_permits p (snd (gate_acquire p purpose (configure again (configure without g)))) =
      Suc (held_permits p g) \<and>
    in_flight (snd (gate_acquire p purpose (configure again (configure without g)))) p = 1"
proof -
  have other: "held_permits p (foldl resize h ws) = held_permits p h \<and> slots (foldl resize h ws) p = slots h p"
    if "p \<notin> fst ` set ws" for ws h
    using that
  proof (induction ws arbitrary: h)
    case (Cons w ws)
    then show ?case using dispatch_slot_other[of "fst w" p] by (auto simp: resize_def Let_def)
  qed simp
  let ?g = "configure without g"
  have "p \<notin> fst ` set (wanted_slots without)" using assms(1) by (simp add: map_of_eq_None_iff)
  from other[OF this] have h: "held_permits p ?g = held_permits p g" "slots ?g p = None"
    using assms(1) by (simp_all add: configure_def Let_def held_permits_def)
  have "dispatch alive (default_slot\<lparr>capacity := Suc c\<rparr>) = ([], default_slot\<lparr>capacity := Suc c\<rparr>)" for alive
    by (rule dispatch_no_waiter) (simp add: default_slot_def)
  then have "slots (configure again ?g) p = Some (default_slot\<lparr>capacity := Suc c\<rparr>)"
      "held_permits p (configure again ?g) = held_permits p g"
    using h assms(2)
    by (simp_all add: configure_def Let_def resize_def dispatch_slot_def hand_over_def held_permits_def)
  then show ?thesis
    by (auto simp: gate_acquire_def default_slot_def held_permits_def Let_def in_flight_def
        gate_snapshot_def json_field_def)
qed

theorem regating_forgets_permits_witness:
  "held_permits ''groq'' (snd (gate_acquire ''groq'' PChat (configure (one_place ''groq'')
     (configure [] (empty_gate\<lparr>permits := [(0, ''groq'')]\<rparr>))))) = 2"
proof -
  show ?thesis
    using regating_forgets_permits[of "[]" "''groq''" "one_place ''groq''" 0 PChat
        "empty_gate\<lparr>permits := [(0, ''groq'')]\<rparr>"]
    by (simp add: held_permits_def empty_gate_def)
qed

end
