(* ===== verification/Rate_Hints.thy ===== *)
theory Rate_Hints
  imports Base
begin

text \<open>
  How long a provider asks to wait (\<open>retry_hint_secs\<close>, \<open>parse_unit_duration\<close>, \<open>parse_reset\<close> of
  \<open>crates/llm/src/budget.rs\<close>). A float-to-integer cast saturates at the bounds of \<open>i64\<close>, and
  adding a duration to a \<open>DateTime\<close> beyond its range panics: \<open>parse_reset\<close> is \<open>Inl ()\<close> then.
\<close>

definition max_hint_secs :: rat where
  "max_hint_secs = 86400"

definition minute_secs :: int where
  "minute_secs = 60"

subsection \<open>Hints in an error text\<close>

definition retry_markers :: "string list" where
  "retry_markers = [''retrydelay'', ''retry-after'', ''retry after'', ''retry in'', ''try again in'']"

definition is_number_char :: "char \<Rightarrow> bool" where
  "is_number_char c \<longleftrightarrow> is_digit c \<or> c = CHR ''.''"

text \<open>One marker's attempt: the first number within 24 characters of it, in its unit.\<close>

definition hint_after :: "string \<Rightarrow> string \<Rightarrow> int option" where
  "hint_after low marker =
     (case split_at_str marker low of
        None \<Rightarrow> None
      | Some (_, after) \<Rightarrow>
          let rest = dropWhile (\<lambda>c. \<not> is_digit c) (take 24 after);
              number = takeWhile is_number_char rest;
              unit = trim_start (dropWhile is_number_char rest)
          in if rest = [] then None
             else (case parse_mantissa number of
                     None \<Rightarrow> None
                   | Some n \<Rightarrow>
                       let secs = (if starts_with unit ''ms'' then n / 1000
                                   else if starts_with unit ''m'' then n * 60
                                   else if starts_with unit ''h'' then n * 3600
                                   else n)
                       in if 0 < secs \<and> secs \<le> max_hint_secs then Some (max \<lceil>secs\<rceil> 1) else None))"

fun first_some :: "('a \<Rightarrow> 'b option) \<Rightarrow> 'a list \<Rightarrow> 'b option" where
  "first_some f [] = None"
| "first_some f (x # xs) = (case f x of Some y \<Rightarrow> Some y | None \<Rightarrow> first_some f xs)"

definition retry_hint_secs :: "string \<Rightarrow> int option" where
  "retry_hint_secs text = first_some (hint_after (lower text)) retry_markers"

lemma first_some_Some: "first_some f xs = Some y \<Longrightarrow> \<exists>x \<in> set xs. f x = Some y"
  by (induction xs) (auto split: option.splits)

lemma hint_after_bounds: "hint_after low m = Some s \<Longrightarrow> 1 \<le> s \<and> s \<le> 86400"
  by (auto simp: hint_after_def max_hint_secs_def Let_def ceiling_le_iff
      split: option.splits prod.splits if_splits)

lemma retry_hint_bounds: "retry_hint_secs text = Some s \<Longrightarrow> 1 \<le> s \<and> s \<le> 86400"
  unfolding retry_hint_secs_def by (drule first_some_Some) (auto dest: hint_after_bounds)

subsection \<open>Durations with units\<close>

definition unit_factor :: "string \<Rightarrow> rat option" where
  "unit_factor u =
     (if u = ''ms'' then Some (1 / 1000) else if u = ''s'' then Some 1
      else if u = ''m'' then Some 60 else if u = ''h'' then Some 3600 else None)"

function sum_units :: "string \<Rightarrow> rat \<Rightarrow> rat option" where
  "sum_units s acc =
     (if s = [] then Some acc
      else let number = takeWhile is_number_char s;
               rest = dropWhile is_number_char s
           in if number = [] then None
              else (case (parse_mantissa number, unit_factor (lower (takeWhile is_alpha rest))) of
                      (Some n, Some k) \<Rightarrow> sum_units (dropWhile is_alpha rest) (acc + n * k)
                    | _ \<Rightarrow> None))"
  by pat_completeness auto
termination
proof (relation "measure (\<lambda>(s, acc). length s)", simp)
  fix s :: string and acc number rest n k
  assume "number = takeWhile is_number_char s" "number \<noteq> []" "rest = dropWhile is_number_char s"
  then have "length (dropWhile is_number_char s) < length s"
    by (metis append_Nil2 length_append length_greater_0_conv less_add_same_cancel2 takeWhile_dropWhile_id)
  then show "((dropWhile is_alpha rest, acc + n * k), s, acc) \<in> measure (\<lambda>(s, acc). length s)"
    using \<open>rest = _\<close> le_less_trans[OF length_dropWhile_le] by auto
qed

declare sum_units.simps [simp del]

definition parse_unit_duration :: "string \<Rightarrow> rat option" where
  "parse_unit_duration v = (let s = trim v in if s = [] then None else sum_units s 0)"

subsection \<open>When a limit resets\<close>

definition i64_max :: int where
  "i64_max = 2 ^ 63 - 1"

text \<open>\<open>(x.ceil()) as i64\<close> and \<open>x as i64\<close> of a finite value\<close>

definition as_i64_sat :: "int \<Rightarrow> int" where
  "as_i64_sat i = max (- (2 ^ 63)) (min i64_max i)"

definition add_millis :: "chrono \<Rightarrow> instant \<Rightarrow> int \<Rightarrow> unit + instant" where
  "add_millis ch now ms =
     (let t = now + milliseconds ms in if timestamp_ok ch t then Inr t else Inl ())"

definition at_epoch :: "chrono \<Rightarrow> instant \<Rightarrow> instant option" where
  "at_epoch ch t = (if timestamp_ok ch t then Some t else None)"

definition truncate_rat :: "rat \<Rightarrow> int" where
  "truncate_rat x = (if 0 \<le> x then \<lfloor>x\<rfloor> else \<lceil>x\<rceil>)"

definition parse_reset :: "chrono \<Rightarrow> string \<Rightarrow> instant \<Rightarrow> unit + instant option" where
  "parse_reset ch v now =
     (let v = trim v in
      case parse_rfc3339 ch v of
        Some t \<Rightarrow> Inr (Some t)
      | None \<Rightarrow>
          (case parse_unit_duration v of
             Some secs \<Rightarrow> map_sum id Some (add_millis ch now (as_i64_sat \<lceil>secs * 1000\<rceil>))
           | None \<Rightarrow>
               (case parse_float v of
                  None \<Rightarrow> Inr None
                | Some NaN \<Rightarrow> Inr None
                | Some (Inf neg) \<Rightarrow>
                    Inr (if neg then None else at_epoch ch (milliseconds i64_max))
                | Some (Num n) \<Rightarrow>
                    if 1000000000000 < n
                    then Inr (at_epoch ch (milliseconds (as_i64_sat (truncate_rat n))))
                    else if 1000000000 < n then Inr (at_epoch ch (seconds (as_i64_sat (truncate_rat n))))
                    else if 0 \<le> n \<and> n \<le> max_hint_secs
                         then map_sum id Some (add_millis ch now (as_i64_sat \<lceil>n * 1000\<rceil>))
                         else Inr None)))"

end
