(* ===== verification/Budget.thy ===== *)
theory Budget
  imports Provider_Registry Rate_Hints "HOL-Library.List_Lexorder" "HOL-Library.Char_ord"
begin

text \<open>
  The budget ledger (\<open>crates/llm/src/budget.rs\<close>): what every provider and model has used, how long
  each is benched, and whether a call has headroom. Counters are \<open>nat\<close> and money is \<open>rat\<close>: the
  overflow of a \<open>u64\<close> count and the rounding of \<open>f64\<close> are not modelled. \<open>fmt\<close> holds the two formats
  of the messages, \<open>%H:%M:%S\<close> and \<open>{:.2}\<close>.
\<close>

record fmt =
  hms :: "instant \<Rightarrow> string"
  usd2 :: "rat \<Rightarrow> string"

record provider_counters =
  pc_day :: "int option"
  pc_requests_today :: nat
  pc_tokens_today :: nat
  pc_spend_today :: rat
  pc_month :: "(int \<times> nat) option"
  pc_spend_month :: rat
  pc_window :: "instant list"

definition no_counters :: provider_counters where
  "no_counters = \<lparr>pc_day = None, pc_requests_today = 0, pc_tokens_today = 0, pc_spend_today = 0,
                  pc_month = None, pc_spend_month = 0, pc_window = []\<rparr>"

definition roll :: "chrono \<Rightarrow> instant \<Rightarrow> provider_counters \<Rightarrow> provider_counters" where
  "roll ch now c =
     (let c1 = (if pc_day c \<noteq> Some (date_naive ch now)
                then c\<lparr>pc_day := Some (date_naive ch now), pc_requests_today := 0,
                       pc_tokens_today := 0, pc_spend_today := 0\<rparr>
                else c);
          c2 = (if pc_month c1 \<noteq> Some (year_month ch now)
                then c1\<lparr>pc_month := Some (year_month ch now), pc_spend_month := 0\<rparr> else c1)
      in c2\<lparr>pc_window := dropWhile (\<lambda>t. t \<le> now - seconds minute_secs) (pc_window c2)\<rparr>)"

record model_state =
  ms_counters :: provider_counters
  ms_cooldown_until :: "instant option"
  ms_cooldown_reason :: "string option"
  ms_backoff_step :: nat
  ms_headers :: "(string \<times> string) list"
  ms_headers_at :: "instant option"

definition new_model_state :: model_state where
  "new_model_state = \<lparr>ms_counters = no_counters, ms_cooldown_until = None, ms_cooldown_reason = None,
                      ms_backoff_step = 0, ms_headers = [], ms_headers_at = None\<rparr>"

definition extend_cooldown :: "instant \<Rightarrow> string \<Rightarrow> model_state \<Rightarrow> model_state" where
  "extend_cooldown until why m =
     (if (case ms_cooldown_until m of None \<Rightarrow> True | Some cur \<Rightarrow> cur < until)
      then m\<lparr>ms_cooldown_until := Some until, ms_cooldown_reason := Some why\<rparr> else m)"

record call_outcome =
  co_provider :: string
  co_model :: string
  co_success :: bool
  co_tokens :: nat
  co_cost :: rat
  co_error_kind :: "string option"
  co_error_text :: "string option"

record usage =
  us_last_minute :: nat
  us_requests_today :: nat
  us_tokens_today :: nat
  us_spend_today :: rat
  us_spend_month :: rat

definition no_usage :: usage where
  "no_usage = \<lparr>us_last_minute = 0, us_requests_today = 0, us_tokens_today = 0, us_spend_today = 0,
               us_spend_month = 0\<rparr>"

record budget_book =
  bb_providers :: "string \<Rightarrow> provider_counters option"
  bb_models :: "string \<times> string \<Rightarrow> model_state option"
  bb_cooldowns :: "string \<Rightarrow> (instant \<times> string) option"

definition empty_book :: budget_book where
  "empty_book = \<lparr>bb_providers = (\<lambda>_. None), bb_models = (\<lambda>_. None), bb_cooldowns = (\<lambda>_. None)\<rparr>"

subsection \<open>Recording a call\<close>

definition backoff_steps_secs :: "int list" where
  "backoff_steps_secs = [60, 300, 3600]"

definition account_quota_text :: "string \<Rightarrow> bool" where
  "account_quota_text text \<longleftrightarrow> list_ex (str_contains (lower text)) [''usage limit'']"

definition count_call :: "call_outcome \<Rightarrow> instant \<Rightarrow> provider_counters \<Rightarrow> provider_counters" where
  "count_call out now c =
     c\<lparr>pc_requests_today := Suc (pc_requests_today c), pc_tokens_today := pc_tokens_today c + co_tokens out,
       pc_spend_today := pc_spend_today c + co_cost out, pc_spend_month := pc_spend_month c + co_cost out,
       pc_window := pc_window c @ [now]\<rparr>"

text \<open>A model's own counters leave the spend out.\<close>

definition count_model_call :: "call_outcome \<Rightarrow> instant \<Rightarrow> provider_counters \<Rightarrow> provider_counters" where
  "count_model_call out now c =
     c\<lparr>pc_requests_today := Suc (pc_requests_today c), pc_tokens_today := pc_tokens_today c + co_tokens out,
       pc_window := pc_window c @ [now]\<rparr>"

definition bench_provider ::
  "call_outcome \<Rightarrow> instant \<Rightarrow> (instant \<times> string) option \<Rightarrow> (instant \<times> string) option" where
  "bench_provider out now cur =
     (if co_success out then None
      else if co_error_kind out = Some ''rate_limited'' \<and>
              (case co_error_text out of Some text \<Rightarrow> account_quota_text text | None \<Rightarrow> False)
           then let until = now + seconds 3600
                in if (case cur of None \<Rightarrow> True | Some (t, _) \<Rightarrow> t < until)
                   then Some (until, ''account usage limit reached; re-probed after an hour'') else cur
           else cur)"

definition bench_model :: "call_outcome \<Rightarrow> instant \<Rightarrow> model_state \<Rightarrow> model_state" where
  "bench_model out now m =
     (if co_success out then m\<lparr>ms_backoff_step := 0\<rparr>
      else if co_error_kind out = Some ''rate_limited''
      then (case Option.bind (co_error_text out) retry_hint_secs of
              Some s \<Rightarrow>
                extend_cooldown (now + seconds s)
                  (''rate limited; the provider asked to retry in '' @ show_int s @ ''s'') m
            | None \<Rightarrow>
                let s = backoff_steps_secs ! min (ms_backoff_step m) (length backoff_steps_secs - 1)
                in extend_cooldown (now + seconds s)
                     (''rate limited; backing off '' @ show_int s @ ''s'')
                     (m\<lparr>ms_backoff_step := Suc (ms_backoff_step m)\<rparr>))
      else if co_error_kind out = Some ''server_error''
      then extend_cooldown (now + seconds 60) ''server error (5xx); benched 60s'' m
      else m)"

definition record_call :: "chrono \<Rightarrow> call_outcome \<Rightarrow> instant \<Rightarrow> budget_book \<Rightarrow> budget_book" where
  "record_call ch out now b =
     (let name = canonical_name (co_provider out);
          c = count_call out now (roll ch now (or_default no_counters (bb_providers b name)));
          m = or_default new_model_state (bb_models b (name, co_model out));
          m = bench_model out now
                (m\<lparr>ms_counters := count_model_call out now (roll ch now (ms_counters m))\<rparr>)
      in b\<lparr>bb_providers := (bb_providers b)(name \<mapsto> c),
           bb_cooldowns := (bb_cooldowns b)(name := bench_provider out now (bb_cooldowns b name)),
           bb_models := (bb_models b)((name, co_model out) \<mapsto> m)\<rparr>)"

text \<open>What the callers record: the cost is the ledger's, else the provider's, else nothing.\<close>

record provider_usage =
  cached_tokens :: "int option"
  cost_usd :: "rat option"

definition read_provider_usage :: "json \<Rightarrow> provider_usage" where
  "read_provider_usage v =
     \<lparr>cached_tokens = as_i64 (json_field (json_field v ''prompt_tokens_details'') ''cached_tokens''),
      cost_usd = as_f64 (json_field v ''cost'')\<rparr>"

definition record_call_reported ::
  "chrono \<Rightarrow> rat option \<Rightarrow> string \<Rightarrow> string \<Rightarrow> bool \<Rightarrow> int option \<Rightarrow> int option \<Rightarrow> string option \<Rightarrow>
   string option \<Rightarrow> provider_usage \<Rightarrow> instant \<Rightarrow> budget_book \<Rightarrow> budget_book" where
  "record_call_reported ch ledger_cost provider model success tokens_in tokens_out kind text u now b =
     record_call ch
       \<lparr>co_provider = provider, co_model = model, co_success = success,
        co_tokens = nat (max (or_default 0 tokens_in) 0 + max (or_default 0 tokens_out) 0),
        co_cost = or_default 0 (or_else ledger_cost (cost_usd u)),
        co_error_kind = kind, co_error_text = text\<rparr> now b"

definition record_priced_call ::
  "chrono \<Rightarrow> string \<Rightarrow> string \<Rightarrow> nat \<Rightarrow> rat \<Rightarrow> instant \<Rightarrow> budget_book \<Rightarrow> budget_book" where
  "record_priced_call ch provider model n cost now b =
     record_call ch
       \<lparr>co_provider = provider, co_model = model, co_success = True, co_tokens = n, co_cost = cost,
        co_error_kind = None, co_error_text = None\<rparr> now b"

subsection \<open>Reading the headers of a response\<close>

text \<open>A \<open>BTreeMap\<close> from text to text: its entries in the order of their keys.\<close>

fun btree_insert :: "string \<Rightarrow> string \<Rightarrow> (string \<times> string) list \<Rightarrow> (string \<times> string) list" where
  "btree_insert k v [] = [(k, v)]"
| "btree_insert k v ((k', v') # m) =
     (if k = k' then (k, v) # m else if k < k' then (k, v) # (k', v') # m
      else (k', v') # btree_insert k v m)"

definition rate_header :: "string \<Rightarrow> bool" where
  "rate_header k \<longleftrightarrow> str_contains k ''ratelimit'' \<or> k = ''retry-after''"

definition seen_headers :: "(string \<times> string) list \<Rightarrow> (string \<times> string) list" where
  "seen_headers headers =
     foldl (\<lambda>m (k, v). btree_insert k v m) []
       (filter (\<lambda>(k, v). rate_header k) (map (\<lambda>(k, v). (lower k, trim v)) headers))"

text \<open>The reset that goes with a spent request limit: the one about requests, else any.\<close>

definition reset_header :: "(string \<times> string) list \<Rightarrow> (string \<times> string) option" where
  "reset_header seen =
     or_else (find (\<lambda>(k, _). str_contains k ''reset'' \<and> str_contains k ''req'') seen)
             (find (\<lambda>(k, _). str_contains k ''reset'') seen)"

definition reset_at :: "chrono \<Rightarrow> (string \<times> string) list \<Rightarrow> instant \<Rightarrow> unit + instant option" where
  "reset_at ch seen now =
     (case reset_header seen of Some (_, v) \<Rightarrow> parse_reset ch v now | None \<Rightarrow> Inr None)"

definition observe_header ::
  "chrono \<Rightarrow> (string \<times> string) list \<Rightarrow> instant \<Rightarrow> string \<times> string \<Rightarrow> model_state \<Rightarrow> bool \<times> model_state" where
  "observe_header ch seen now kv m =
     (let k = fst kv; v = snd kv;
          bare = replace_all ''ratelimit'' [] k;
          is_remaining = str_contains bare ''remaining'';
          is_reset = str_contains bare ''reset'';
          m1 = (if \<not> is_remaining \<and> \<not> is_reset \<and> str_contains bare ''limit'' \<and> v = ''0''
                then extend_cooldown (now + seconds 3600)
                       (''the provider reports '' @ k @ '': 0 for this model; re-probed after an hour'') m
                else m)
      in if is_remaining \<and> str_contains bare ''req'' \<and> v = ''0''
         then (case reset_at ch seen now of
                 Inl _ \<Rightarrow> (True, m1)
               | Inr reset \<Rightarrow>
                   (False, extend_cooldown
                      (or_default (now + seconds (if str_contains bare ''day'' then 3600 else minute_secs))
                         reset)
                      (''the provider reports '' @ k @ '': 0'') m1))
         else (False, m1))"

text \<open>The loop over the headers; \<open>True\<close>: it panicked there.\<close>

fun observe_headers_loop ::
  "chrono \<Rightarrow> (string \<times> string) list \<Rightarrow> instant \<Rightarrow> (string \<times> string) list \<Rightarrow> model_state \<Rightarrow> bool \<times> model_state" where
  "observe_headers_loop ch seen now [] m = (False, m)"
| "observe_headers_loop ch seen now (kv # kvs) m =
     (case observe_header ch seen now kv m of
        (True, m') \<Rightarrow> (True, m')
      | (False, m') \<Rightarrow> observe_headers_loop ch seen now kvs m')"

definition observe_retry_after ::
  "chrono \<Rightarrow> nat \<Rightarrow> (string \<times> string) list \<Rightarrow> instant \<Rightarrow> model_state \<Rightarrow> bool \<times> model_state" where
  "observe_retry_after ch status seen now m =
     (if status = 429 \<or> status = 503
      then (case map_of seen ''retry-after'' of
              None \<Rightarrow> (False, m)
            | Some v \<Rightarrow>
                (case parse_reset ch v now of
                   Inl _ \<Rightarrow> (True, m)
                 | Inr None \<Rightarrow> (False, m)
                 | Inr (Some until) \<Rightarrow>
                     (False, extend_cooldown until (''the provider said retry-after '' @ v) m)))
      else (False, m))"

definition observe_model ::
  "chrono \<Rightarrow> nat \<Rightarrow> (string \<times> string) list \<Rightarrow> instant \<Rightarrow> model_state \<Rightarrow> bool \<times> model_state" where
  "observe_model ch status seen now m =
     (case observe_retry_after ch status seen now m of
        (True, m1) \<Rightarrow> (True, m1)
      | (False, m1) \<Rightarrow>
          (case observe_headers_loop ch seen now seen m1 of
             (True, m2) \<Rightarrow> (True, m2)
           | (False, m2) \<Rightarrow> (False, m2\<lparr>ms_headers := seen, ms_headers_at := Some now\<rparr>)))"

definition observe ::
  "chrono \<Rightarrow> string \<Rightarrow> string \<Rightarrow> nat \<Rightarrow> (string \<times> string) list \<Rightarrow> instant \<Rightarrow> budget_book \<Rightarrow>
   bool \<times> budget_book" where
  "observe ch provider model status headers now b =
     (let seen = seen_headers headers; k = (canonical_name provider, model)
      in if seen = [] then (False, b)
         else (case observe_model ch status seen now (or_default new_model_state (bb_models b k)) of
                 (panicked, m) \<Rightarrow> (panicked, b\<lparr>bb_models := (bb_models b)(k \<mapsto> m)\<rparr>)))"

subsection \<open>Headroom\<close>

definition check_limits :: "string \<Rightarrow> limits \<Rightarrow> usage \<Rightarrow> string + unit" where
  "check_limits who l u =
     (if (case rpm l of Some n \<Rightarrow> n \<le> us_last_minute u | None \<Rightarrow> False)
      then Inl (who @ '' is at its declared '' @ show_nat (or_default 0 (rpm l)) @ '' requests/minute'')
      else if (case rpd l of Some n \<Rightarrow> n \<le> us_requests_today u | None \<Rightarrow> False)
      then Inl (who @ '' has used '' @ show_nat (us_requests_today u) @ '' of its declared '' @
             show_nat (or_default 0 (rpd l)) @ '' requests today (resets 00:00 UTC)'')
      else if (case tpd l of Some n \<Rightarrow> n \<le> us_tokens_today u | None \<Rightarrow> False)
      then Inl (who @ '' has used '' @ show_nat (us_tokens_today u) @ '' of its declared '' @
             show_nat (or_default 0 (tpd l)) @ '' tokens today (resets 00:00 UTC)'')
      else Inr ())"

definition counters_usage :: "chrono \<Rightarrow> instant \<Rightarrow> provider_counters \<Rightarrow> usage" where
  "counters_usage ch now c =
     (let fresh_day = (pc_day c = Some (date_naive ch now));
          fresh_month = (pc_month c = Some (year_month ch now))
      in \<lparr>us_last_minute = length (filter (\<lambda>t. now - seconds minute_secs < t) (pc_window c)),
          us_requests_today = (if fresh_day then pc_requests_today c else 0),
          us_tokens_today = (if fresh_day then pc_tokens_today c else 0),
          us_spend_today = (if fresh_day then pc_spend_today c else 0),
          us_spend_month = (if fresh_month then pc_spend_month c else 0)\<rparr>)"

definition provider_used :: "chrono \<Rightarrow> budget_book \<Rightarrow> string \<Rightarrow> instant \<Rightarrow> usage" where
  "provider_used ch b name now =
     (case bb_providers b name of Some c \<Rightarrow> counters_usage ch now c | None \<Rightarrow> no_usage)"

definition model_used :: "chrono \<Rightarrow> budget_book \<Rightarrow> string \<times> string \<Rightarrow> instant \<Rightarrow> usage" where
  "model_used ch b k now =
     (case bb_models b k of Some m \<Rightarrow> counters_usage ch now (ms_counters m) | None \<Rightarrow> no_usage)"

definition check_cooldowns :: "fmt \<Rightarrow> budget_book \<Rightarrow> string \<Rightarrow> string \<Rightarrow> instant \<Rightarrow> string + unit" where
  "check_cooldowns f b name model now =
     (case Option.bind (bb_models b (name, model))
             (\<lambda>m. map_option (\<lambda>until. (until, or_default ''rate limited'' (ms_cooldown_reason m)))
                    (ms_cooldown_until m)) of
        Some (until, why) \<Rightarrow>
          if now < until
          then Inl (model @ '' is cooling down until '' @ hms f until @ '' UTC ('' @ why @ '')'')
          else (case bb_cooldowns b name of
                  Some (t, w) \<Rightarrow>
                    if now < t then Inl (name @ '' is cooling down until '' @ hms f t @ '' UTC ('' @ w @ '')'')
                    else Inr ()
                | None \<Rightarrow> Inr ())
      | None \<Rightarrow>
          (case bb_cooldowns b name of
             Some (t, w) \<Rightarrow>
               if now < t then Inl (name @ '' is cooling down until '' @ hms f t @ '' UTC ('' @ w @ '')'')
               else Inr ()
           | None \<Rightarrow> Inr ()))"

definition check_spend :: "fmt \<Rightarrow> string \<Rightarrow> provider_entry \<Rightarrow> usage \<Rightarrow> string + unit" where
  "check_spend f name entry u =
     (case (pe_billing entry, pe_spend entry) of
        (BPaid, Some s) \<Rightarrow>
          if (case daily_usd s of Some cap \<Rightarrow> cap \<le> us_spend_today u | None \<Rightarrow> False)
          then Inl (name @ '' has spent $'' @ usd2 f (us_spend_today u) @ '' of its $'' @
                 usd2 f (or_default 0 (daily_usd s)) @ '' daily cap'')
          else if (case monthly_usd s of Some cap \<Rightarrow> cap \<le> us_spend_month u | None \<Rightarrow> False)
          then Inl (name @ '' has spent $'' @ usd2 f (us_spend_month u) @ '' of its $'' @
                 usd2 f (or_default 0 (monthly_usd s)) @ '' monthly cap'')
          else Inr ()
      | _ \<Rightarrow> Inr ())"

definition verdict_with ::
  "chrono \<Rightarrow> fmt \<Rightarrow> string \<Rightarrow> string \<Rightarrow> provider_entry \<Rightarrow> limits option \<Rightarrow> instant \<Rightarrow> budget_book \<Rightarrow> string + unit" where
  "verdict_with ch f provider model entry ml now b =
     (let name = canonical_name provider; u = provider_used ch b name now in
      result_and_then (check_cooldowns f b name model now) (\<lambda>_.
      result_and_then
        (case ml of Some l \<Rightarrow> check_limits model l (model_used ch b (name, model) now) | None \<Rightarrow> Inr ()) (\<lambda>_.
      result_and_then (check_limits name (pe_limits entry) u) (\<lambda>_.
      check_spend f name entry u))))"

definition budget_verdict ::
  "chrono \<Rightarrow> fmt \<Rightarrow> limits_table \<Rightarrow> string \<Rightarrow> string \<Rightarrow> provider_entry \<Rightarrow> instant \<Rightarrow> budget_book \<Rightarrow> string + unit" where
  "budget_verdict ch f table provider model entry now b =
     verdict_with ch f provider model entry (model_limits table provider model) now b"

subsection \<open>Seeding from the usage table\<close>

record seed_row =
  sr_provider :: string
  sr_requests :: nat
  sr_tokens :: nat
  sr_spend_today :: rat
  sr_spend_month :: rat

record model_seed_row =
  mr_provider :: string
  mr_model :: string
  mr_requests :: nat
  mr_tokens :: nat

fun seed :: "chrono \<Rightarrow> seed_row list \<Rightarrow> instant \<Rightarrow> budget_book \<Rightarrow> budget_book" where
  "seed ch [] now b = b"
| "seed ch (r # rs) now b =
     (let name = canonical_name (sr_provider r);
          c = or_default no_counters (bb_providers b name)
      in seed ch rs now (b\<lparr>bb_providers := (bb_providers b)(name \<mapsto>
           c\<lparr>pc_day := Some (date_naive ch now), pc_month := Some (year_month ch now),
             pc_requests_today := sr_requests r, pc_tokens_today := sr_tokens r,
             pc_spend_today := sr_spend_today r, pc_spend_month := sr_spend_month r\<rparr>)\<rparr>))"

fun seed_models :: "chrono \<Rightarrow> model_seed_row list \<Rightarrow> instant \<Rightarrow> budget_book \<Rightarrow> budget_book" where
  "seed_models ch [] now b = b"
| "seed_models ch (r # rs) now b =
     (let k = (canonical_name (mr_provider r), mr_model r);
          m = or_default new_model_state (bb_models b k);
          c = ms_counters m
      in seed_models ch rs now (b\<lparr>bb_models := (bb_models b)(k \<mapsto> m\<lparr>ms_counters :=
           c\<lparr>pc_day := Some (date_naive ch now), pc_month := Some (year_month ch now),
             pc_requests_today := mr_requests r, pc_tokens_today := mr_tokens r\<rparr>\<rparr>)\<rparr>))"

text \<open>The two queries of the usage table, when they answer (\<open>None\<close>: the query failed).\<close>

definition seed_from_ledger ::
  "chrono \<Rightarrow> (string \<times> int \<times> int \<times> rat \<times> rat) list option \<Rightarrow>
   (string \<times> string \<times> int \<times> int) list option \<Rightarrow> instant \<Rightarrow> budget_book \<Rightarrow> budget_book" where
  "seed_from_ledger ch rows model_rows now b =
     (case rows of
        None \<Rightarrow> b
      | Some rs \<Rightarrow>
          let b1 = seed ch (map (\<lambda>(p, r, t, d, m).
                     \<lparr>sr_provider = p, sr_requests = nat (max r 0), sr_tokens = nat (max t 0),
                      sr_spend_today = d, sr_spend_month = m\<rparr>) rs) now b
          in (case model_rows of
                None \<Rightarrow> b1
              | Some ms \<Rightarrow>
                  seed_models ch (map (\<lambda>(p, m, r, t).
                    \<lparr>mr_provider = p, mr_model = m, mr_requests = nat (max r 0),
                     mr_tokens = nat (max t 0)\<rparr>) ms) now b1))"


subsection \<open>A bench is never cut short\<close>

datatype budget_event =
    Recorded call_outcome instant
  | Observed string string nat "(string \<times> string) list" instant
  | Seeded "seed_row list" instant
  | SeededModels "model_seed_row list" instant

fun budget_step :: "chrono \<Rightarrow> budget_book \<Rightarrow> budget_event \<Rightarrow> budget_book" where
  "budget_step ch b (Recorded out now) = record_call ch out now b"
| "budget_step ch b (Observed p m status hs now) = snd (observe ch p m status hs now b)"
| "budget_step ch b (Seeded rows now) = seed ch rows now b"
| "budget_step ch b (SeededModels rows now) = seed_models ch rows now b"

definition benched_until :: "instant \<Rightarrow> model_state \<Rightarrow> bool" where
  "benched_until T m \<longleftrightarrow> (case ms_cooldown_until m of Some t \<Rightarrow> T \<le> t | None \<Rightarrow> False)"

definition benched :: "string \<times> string \<Rightarrow> instant \<Rightarrow> budget_book \<Rightarrow> bool" where
  "benched k T b \<longleftrightarrow> (case bb_models b k of Some m \<Rightarrow> benched_until T m | None \<Rightarrow> False)"

lemma benched_extend [inv_intros]: "benched_until T m \<Longrightarrow> benched_until T (extend_cooldown u why m)"
  by (auto simp: benched_until_def extend_cooldown_def split: option.splits)

lemma benched_until_update [simp]:
  "benched_until T (m\<lparr>ms_counters := c\<rparr>) = benched_until T m"
  "benched_until T (m\<lparr>ms_backoff_step := n\<rparr>) = benched_until T m"
  "benched_until T (m\<lparr>ms_headers := hs, ms_headers_at := seen_at\<rparr>) = benched_until T m"
  by (simp_all add: benched_until_def)

lemma extend_cooldown_reaches: "benched_until u (extend_cooldown u why m)"
  by (auto simp: benched_until_def extend_cooldown_def split: option.splits)

lemma benched_bench_model [inv_intros]: "benched_until T m \<Longrightarrow> benched_until T (bench_model out now m)"
  by (auto simp: bench_model_def Let_def intro: inv_intros split: option.splits)

lemma benched_observe_header [inv_intros]:
  "benched_until T m \<Longrightarrow> benched_until T (snd (observe_header ch seen now kv m))"
  by (auto simp: observe_header_def Let_def intro: inv_intros split: sum.splits unit.splits)

lemma benched_observe_loop [inv_intros]:
  "benched_until T m \<Longrightarrow> benched_until T (snd (observe_headers_loop ch seen now kvs m))"
proof (induction ch seen now kvs m rule: observe_headers_loop.induct)
  case (2 ch seen now kv kvs m)
  then show ?case
    using benched_observe_header[of T m ch seen now kv] by (auto split: prod.splits bool.splits)
qed simp

lemma benched_retry_after:
  assumes "benched_until T m"
  shows "benched_until T (snd (observe_retry_after ch status seen now m))"
proof (cases "map_of seen ''retry-after''")
  case None
  then show ?thesis using assms by (simp add: observe_retry_after_def)
next
  case (Some v)
  show ?thesis
    by (cases "parse_reset ch v now")
      (simp_all add: observe_retry_after_def Some assms benched_extend split: option.split unit.split)
qed

lemma benched_observe_model [inv_intros]:
  assumes "benched_until T m"
  shows "benched_until T (snd (observe_model ch status seen now m))"
proof -
  obtain p1 m1 where 1: "observe_retry_after ch status seen now m = (p1, m1)" by fastforce
  then have b1: "benched_until T m1"
    using benched_retry_after[OF assms, of ch status seen now] by simp
  obtain p2 m2 where 2: "observe_headers_loop ch seen now seen m1 = (p2, m2)" by fastforce
  have "benched_until T m2" using benched_observe_loop[OF b1, of ch seen now seen] 2 by simp
  with b1 show ?thesis by (simp add: observe_model_def 1 2 split: bool.splits)
qed

lemma benched_put:
  "benched k T b \<Longrightarrow>
   (\<And>m0. k' = k \<Longrightarrow> bb_models b k = Some m0 \<Longrightarrow> benched_until T m0 \<Longrightarrow> benched_until T m) \<Longrightarrow>
   benched k T (b\<lparr>bb_models := (bb_models b)(k' \<mapsto> m)\<rparr>)"
  by (auto simp: benched_def split: option.splits)

lemma benched_seed [inv_intros]: "benched k T b \<Longrightarrow> benched k T (seed ch rows now b)"
  by (induction ch rows now b rule: seed.induct) (auto simp: benched_def Let_def)

lemma benched_seed_models [inv_intros]: "benched k T b \<Longrightarrow> benched k T (seed_models ch rows now b)"
proof (induction ch rows now b rule: seed_models.induct)
  case (2 ch r rs now b)
  show ?case
    unfolding seed_models.simps Let_def
    by (rule "2.IH"[OF refl refl refl], rule benched_put[OF "2.prems"]) (auto simp: or_default_def)
qed simp

interpretation benches: machine "budget_step ch" "benched k T" for ch k T
proof
  fix b e
  assume inv: "benched k T b"
  show "benched k T (budget_step ch b e)"
  proof (cases e)
    case (Recorded out now)
    then show ?thesis
      using inv by (auto simp: benched_def record_call_def Let_def or_default_def intro!: inv_intros
          split: option.splits)
  next
    case (Observed p m status hs now)
    let ?k = "(canonical_name p, m)"
    obtain q m' where o: "observe_model ch status (seen_headers hs) now
        (or_default new_model_state (bb_models b ?k)) = (q, m')" by fastforce
    have "benched k T (b\<lparr>bb_models := (bb_models b)(?k \<mapsto> m')\<rparr>)"
    proof (rule benched_put[OF inv])
      fix m0
      assume "?k = k" "bb_models b k = Some m0" "benched_until T m0"
      then show "benched_until T m'"
        using benched_observe_model[of T m0 ch status "seen_headers hs" now] o
        by (simp add: or_default_def)
    qed
    then show ?thesis using Observed inv o by (simp add: observe_def Let_def)
  qed (auto intro: inv_intros inv)
qed

lemma benched_refused:
  assumes "benched (canonical_name p, model) T b" and "now < T"
  shows "\<exists>why. verdict_with ch f p model entry ml now b = Inl why"
  using assms
  by (auto simp: benched_def benched_until_def verdict_with_def check_cooldowns_def Let_def
      split: option.splits)

text \<open>A bench is never cut short: once a rate-limited call named a wait of \<open>s\<close> seconds,
  every call to that model is refused until they have passed, whatever is recorded, observed or
  seeded meanwhile (a success, a shorter hint, a server error, a reset header). The wait named is
  between a second and a day.\<close>

theorem a_wait_is_never_cut_short:
  assumes "\<not> co_success out" and "co_error_kind out = Some ''rate_limited''"
    and "co_error_text out = Some text" and "retry_hint_secs text = Some s"
    and "now < t + seconds s"
  shows "(\<exists>why. verdict_with ch f (co_provider out) (co_model out) entry ml now
      (foldl (budget_step ch) (record_call ch out t b) es) = Inl why) \<and> 1 \<le> s \<and> s \<le> 86400"
proof -
  have "benched (canonical_name (co_provider out), co_model out) (t + seconds s) (record_call ch out t b)"
    using assms(1-4) by (simp add: benched_def record_call_def Let_def bench_model_def extend_cooldown_reaches)
  from benches.every_run_inv[OF this] show ?thesis
    using assms(4,5) retry_hint_bounds benched_refused by blast
qed

definition sample_limited :: call_outcome where
  "sample_limited = \<lparr>co_provider = ''Gemini'', co_model = ''flash'', co_success = False, co_tokens = 0,
     co_cost = 0, co_error_kind = Some ''rate_limited'', co_error_text = Some ''Please retry in 12.5s.''\<rparr>"

definition sample_calendar :: chrono where
  "sample_calendar = \<lparr>date_naive = (\<lambda>t. t div hours 24), year_month = (\<lambda>t. (t div hours 720, 1)),
     parse_rfc3339 = (\<lambda>_. None), to_rfc3339 = (\<lambda>_. []), timestamp_ok = (\<lambda>t. \<bar>t\<bar> < hours 2000000000)\<rparr>"

definition sample_fmt :: fmt where
  "sample_fmt = \<lparr>hms = (\<lambda>_. ''12:00:00''), usd2 = (\<lambda>_. ''1.00'')\<rparr>"

theorem a_wait_is_never_cut_short_witness:
  "\<exists>why. verdict_with sample_calendar sample_fmt ''Gemini'' ''flash'' (entry_of_kind KGemini) None
     (seconds 12) (foldl (budget_step sample_calendar) (record_call sample_calendar sample_limited 0 empty_book)
       [Recorded (sample_limited\<lparr>co_success := True\<rparr>) (seconds 3)]) = Inl why"
proof -
  have "retry_hint_secs ''Please retry in 12.5s.'' = Some 13" by code_simp
  then show ?thesis
    using a_wait_is_never_cut_short[of sample_limited "''Please retry in 12.5s.''" 13 "seconds 12" 0
        sample_calendar sample_fmt "entry_of_kind KGemini" None empty_book
        "[Recorded (sample_limited\<lparr>co_success := True\<rparr>) (seconds 3)]"]
    by (simp add: sample_limited_def seconds_def)
qed


subsection \<open>The counters are the ledger\<close>

type_synonym call_log = "(call_outcome \<times> instant) list"

definition calls_of :: "string \<Rightarrow> call_log \<Rightarrow> call_log" where
  "calls_of name calls = filter (\<lambda>e. canonical_name (co_provider (fst e)) = name) calls"

definition record_all :: "chrono \<Rightarrow> call_log \<Rightarrow> budget_book" where
  "record_all ch calls = foldl (\<lambda>b e. record_call ch (fst e) (snd e) b) empty_book calls"

text \<open>What the counters stand for: sums over the calls of the last minute, the day and the month.\<close>

definition sum_where :: "(instant \<Rightarrow> bool) \<Rightarrow> (call_outcome \<Rightarrow> 'a :: comm_monoid_add) \<Rightarrow> call_log \<Rightarrow> 'a" where
  "sum_where P w calls = sum_list (map (\<lambda>e. w (fst e)) (filter (\<lambda>e. P (snd e)) calls))"

definition ledger_usage :: "chrono \<Rightarrow> call_log \<Rightarrow> instant \<Rightarrow> usage" where
  "ledger_usage ch calls now =
     (let today = (\<lambda>t. date_naive ch t = date_naive ch now);
          this_month = (\<lambda>t. year_month ch t = year_month ch now)
      in \<lparr>us_last_minute = sum_where (\<lambda>t. now - seconds minute_secs < t) (\<lambda>_. 1) calls,
          us_requests_today = sum_where today (\<lambda>_. 1) calls,
          us_tokens_today = sum_where today co_tokens calls,
          us_spend_today = sum_where today co_cost calls,
          us_spend_month = sum_where this_month co_cost calls\<rparr>)"

text \<open>Two instants of one day have only instants of that day between them.\<close>

definition convex :: "(instant \<Rightarrow> 'a) \<Rightarrow> bool" where
  "convex f \<longleftrightarrow> (\<forall>a b c. a \<le> b \<longrightarrow> b \<le> c \<longrightarrow> f a = f c \<longrightarrow> f b = f a)"

definition in_order :: "call_log \<Rightarrow> bool" where
  "in_order calls \<longleftrightarrow> sorted (map snd calls)"

definition counts :: "chrono \<Rightarrow> provider_counters \<Rightarrow> call_log \<Rightarrow> instant \<Rightarrow> bool" where
  "counts ch c calls recent \<longleftrightarrow>
     pc_day c = Some (date_naive ch recent) \<and> pc_month c = Some (year_month ch recent) \<and>
     pc_requests_today c = us_requests_today (ledger_usage ch calls recent) \<and>
     pc_tokens_today c = us_tokens_today (ledger_usage ch calls recent) \<and>
     pc_spend_today c = us_spend_today (ledger_usage ch calls recent) \<and>
     pc_spend_month c = us_spend_month (ledger_usage ch calls recent) \<and>
     pc_window c = filter (\<lambda>t. recent - seconds minute_secs < t) (map snd calls)"

lemma sum_where_snoc:
  "sum_where P w (calls @ [e]) = sum_where P w calls + (if P (snd e) then w (fst e) else 0)"
  by (simp add: sum_where_def)

lemma sum_where_none: "\<forall>e \<in> set calls. \<not> P (snd e) \<Longrightarrow> sum_where P w calls = 0"
  by (simp add: sum_where_def filter_False)

lemma sum_where_cong: "(\<And>e. e \<in> set calls \<Longrightarrow> P (snd e) = Q (snd e)) \<Longrightarrow> sum_where P w calls = sum_where Q w calls"
  unfolding sum_where_def by (metis (mono_tags, lifting) filter_cong)

lemma sum_where_past:
  assumes "convex f" and "\<forall>e \<in> set calls. snd e \<le> recent" and "recent \<le> now" and "f recent \<noteq> f now"
  shows "sum_where (\<lambda>t. f t = f now) w calls = 0"
proof -
  have "f t \<noteq> f now" if "t \<le> recent" for t
    using assms(1,3,4) that unfolding convex_def by metis
  with assms(2) show ?thesis by (simp add: sum_where_none)
qed

lemma dropWhile_sorted:
  "sorted ts \<Longrightarrow> dropWhile (\<lambda>t. t \<le> (h :: instant)) ts = filter (\<lambda>t. h < t) ts"
proof (induction ts)
  case (Cons t ts)
  then show ?case by (cases "t \<le> h") (auto simp: not_le intro!: filter_True[symmetric])
qed simp

lemma sorted_last_max: "sorted (map f xs) \<Longrightarrow> x \<in> set xs \<Longrightarrow> f x \<le> f (last xs)"
  by (induction xs) (auto split: if_splits)

lemma filter_window: "h \<le> h' \<Longrightarrow>
   filter (\<lambda>t. (h' :: instant) < t) (filter (\<lambda>t. h < t) ts) = filter (\<lambda>t. h' < t) ts"
  by (induction ts) auto

lemma counts_first:
  "counts ch (count_call out now (roll ch now no_counters)) [(out, now)] now"
  by (simp add: counts_def count_call_def roll_def no_counters_def ledger_usage_def sum_where_def
      seconds_def minute_secs_def Let_def)

lemma counts_next:
  assumes c: "counts ch c calls recent" and cal: "convex (date_naive ch)" "convex (year_month ch)"
    and ord: "in_order calls" "\<forall>e \<in> set calls. snd e \<le> recent" "recent \<le> now"
  shows "counts ch (count_call out now (roll ch now c)) (calls @ [(out, now)]) now"
proof -
  have "pc_window (roll ch now c) = filter (\<lambda>t. now - seconds minute_secs < t) (map snd calls)"
    using c ord dropWhile_sorted[of "filter (\<lambda>t. recent - seconds minute_secs < t) (map snd calls)"
        "now - seconds minute_secs"]
    by (simp add: roll_def Let_def counts_def in_order_def sorted_wrt_filter filter_window
        del: filter_filter)
  moreover note D = sum_where_past[OF cal(1) ord(2,3)] and M = sum_where_past[OF cal(2) ord(2,3)]
  ultimately show ?thesis
    using c
    by (cases "date_naive ch recent = date_naive ch now"; cases "year_month ch recent = year_month ch now";
        simp add: counts_def count_call_def roll_def Let_def ledger_usage_def sum_where_snoc D M
        seconds_def minute_secs_def)
qed

lemma counts_usage:
  assumes c: "counts ch c calls recent" and cal: "convex (date_naive ch)" "convex (year_month ch)"
    and ord: "\<forall>e \<in> set calls. snd e \<le> recent" "recent \<le> now"
  shows "counters_usage ch now c = ledger_usage ch calls now"
proof -
  have "length (filter (\<lambda>t. now - seconds minute_secs < t) (pc_window c)) =
      sum_where (\<lambda>t. now - seconds minute_secs < t) (\<lambda>_. 1) calls"
  proof -
    have "filter (\<lambda>t. now - seconds minute_secs < t) (pc_window c) =
        filter (\<lambda>t. now - seconds minute_secs < t) (map snd calls)"
      using c ord by (simp add: counts_def filter_window del: filter_filter)
    then show ?thesis by (simp add: sum_where_def sum_list_triv filter_map comp_def)
  qed
  moreover note D = sum_where_past[OF cal(1) ord] and M = sum_where_past[OF cal(2) ord]
  ultimately show ?thesis
    using c
    by (cases "date_naive ch recent = date_naive ch now"; cases "year_month ch recent = year_month ch now";
        simp add: counters_usage_def ledger_usage_def counts_def Let_def D M)
qed

text \<open>The counters of a provider, and of a model, are those of its own calls one after another.\<close>

definition count_all :: "chrono \<Rightarrow> call_log \<Rightarrow> provider_counters option" where
  "count_all ch calls =
     foldl (\<lambda>c e. Some (count_call (fst e) (snd e) (roll ch (snd e) (or_default no_counters c)))) None calls"

text \<open>The calls of a model, without what they cost: a model's counters hold no spend.\<close>

definition model_calls :: "string \<Rightarrow> string \<Rightarrow> call_log \<Rightarrow> call_log" where
  "model_calls name model calls =
     map (\<lambda>e. ((fst e)\<lparr>co_cost := 0\<rparr>, snd e)) (filter (\<lambda>e. co_model (fst e) = model) (calls_of name calls))"

lemma count_all_snoc:
  "count_all ch (calls @ [e]) = Some (count_call (fst e) (snd e) (roll ch (snd e) (or_default no_counters (count_all ch calls))))"
  by (simp add: count_all_def)

lemma model_counts_as_call: "count_model_call out now c = count_call (out\<lparr>co_cost := 0\<rparr>) now c"
  by (simp add: count_model_call_def count_call_def)

lemma bench_keeps_counters: "ms_counters (bench_model out now m) = ms_counters m"
  by (simp add: bench_model_def extend_cooldown_def Let_def split: option.split)

lemma record_all_providers: "bb_providers (record_all ch calls) name = count_all ch (calls_of name calls)"
proof (induction calls rule: rev_induct)
  case (snoc e calls)
  have "record_all ch (calls @ [e]) = record_call ch (fst e) (snd e) (record_all ch calls)" by (simp add: record_all_def)
  with snoc show ?case
    by (cases "canonical_name (co_provider (fst e)) = name")
      (simp_all add: record_call_def calls_of_def count_all_snoc Let_def)
qed (simp add: record_all_def empty_book_def calls_of_def count_all_def)

lemma record_all_models:
  "map_option ms_counters (bb_models (record_all ch calls) (name, model)) = count_all ch (model_calls name model calls)"
proof (induction calls rule: rev_induct)
  case (snoc e calls)
  have r: "record_all ch (calls @ [e]) = record_call ch (fst e) (snd e) (record_all ch calls)" by (simp add: record_all_def)
  have "ms_counters (or_default new_model_state m) = or_default no_counters (map_option ms_counters m)" for m
    by (cases m) (simp_all add: or_default_def new_model_state_def)
  with snoc show ?case
    by (cases "canonical_name (co_provider (fst e)) = name \<and> co_model (fst e) = model")
      (auto simp: r record_call_def calls_of_def model_calls_def count_all_snoc bench_keeps_counters model_counts_as_call Let_def)
qed (simp add: record_all_def empty_book_def model_calls_def calls_of_def count_all_def)

lemma count_all_counts:
  assumes "convex (date_naive ch)" "convex (year_month ch)"
  shows "in_order calls \<Longrightarrow>
    (case count_all ch calls of None \<Rightarrow> calls = [] | Some c \<Rightarrow> calls \<noteq> [] \<and> counts ch c calls (snd (last calls)))"
proof (induction calls rule: rev_induct)
  case (snoc e calls)
  obtain out t where e: "e = (out, t)" by fastforce
  have ord: "in_order calls" "\<forall>x \<in> set calls. snd x \<le> t"
    using snoc.prems by (auto simp: in_order_def e sorted_append)
  moreover have "\<forall>x \<in> set calls. snd x \<le> snd (last calls)"
    using ord(1) unfolding in_order_def by (auto intro: sorted_last_max)
  moreover have "snd (last calls) \<le> t" if "calls \<noteq> []" using ord(2) last_in_set[OF that] by simp
  ultimately show ?case
    using snoc.IH[OF ord(1)] counts_first[of ch out t] counts_next[OF _ assms, of _ calls _ t out]
    by (auto simp: count_all_snoc e or_default_def split: option.splits)
qed (simp add: count_all_def)

lemma count_all_usage:
  assumes "convex (date_naive ch)" and "convex (year_month ch)" and "in_order calls" and "\<forall>e \<in> set calls. snd e \<le> now"
  shows "(case count_all ch calls of Some c \<Rightarrow> counters_usage ch now c | None \<Rightarrow> no_usage) = ledger_usage ch calls now"
proof (cases "count_all ch calls")
  case None
  then show ?thesis
    using count_all_counts[OF assms(1-3)] by (simp add: no_usage_def ledger_usage_def sum_where_def)
next
  case (Some c)
  have c: "calls \<noteq> []" "counts ch c calls (snd (last calls))"
    using count_all_counts[OF assms(1-3)] Some by auto
  have "\<forall>x \<in> set calls. snd x \<le> snd (last calls)"
    using assms(3) by (auto simp: in_order_def intro: sorted_last_max)
  moreover have "snd (last calls) \<le> now" using assms(4) last_in_set[OF c(1)] by simp
  ultimately show ?thesis using counts_usage[OF c(2) assms(1,2)] Some by simp
qed

lemma calls_in_order:
  assumes "in_order calls"
  shows "in_order (calls_of name calls)" and "in_order (model_calls name model calls)"
  using assms by (simp_all add: in_order_def calls_of_def model_calls_def comp_def sorted_map sorted_wrt_filter)

lemma usage_is_ledger:
  assumes "convex (date_naive ch)" and "convex (year_month ch)"
    and "in_order calls" and "\<forall>e \<in> set calls. snd e \<le> now"
  shows "provider_used ch (record_all ch calls) name now = ledger_usage ch (calls_of name calls) now"
proof -
  have "\<forall>e \<in> set (calls_of name calls). snd e \<le> now" using assms(4) by (simp add: calls_of_def)
  from count_all_usage[OF assms(1,2) calls_in_order(1)[OF assms(3)] this] show ?thesis
    by (simp add: provider_used_def record_all_providers)
qed

lemma model_usage_is_ledger:
  assumes "convex (date_naive ch)" and "convex (year_month ch)"
    and "in_order calls" and "\<forall>e \<in> set calls. snd e \<le> now"
  shows "model_used ch (record_all ch calls) (name, model) now = ledger_usage ch (model_calls name model calls) now"
proof -
  have "\<forall>e \<in> set (model_calls name model calls). snd e \<le> now" using assms(4) by (auto simp: model_calls_def calls_of_def)
  from count_all_usage[OF assms(1,2) calls_in_order(2)[OF assms(3)] this]
  show ?thesis by (cases "bb_models (record_all ch calls) (name, model)") (simp_all add: model_used_def flip: record_all_models)
qed

lemma model_ledger:
  "ledger_usage ch (model_calls name model calls) now =
     (ledger_usage ch (filter (\<lambda>e. co_model (fst e) = model) (calls_of name calls)) now)\<lparr>us_spend_today := 0, us_spend_month := 0\<rparr>"
  by (simp add: ledger_usage_def model_calls_def sum_where_def filter_map comp_def Let_def)

text \<open>Claim C25. The budget is the ledger: after any calls recorded in the order of time in an empty book, the usage a
  verdict reads of a provider at a later instant is the calls of the last minute and the requests, tokens and spend
  of the day and the month, summed over the recorded calls of that provider under any spelling of its name; and what
  it reads of a model is the same sums over the calls of that model there, but for the spend, which a model's
  counters leave out. A book that was seeded from the telemetry, or calls that are recorded out of order, are
  not covered.\<close>

theorem budget_is_the_ledger:
  assumes "convex (date_naive ch)" and "convex (year_month ch)"
    and "in_order calls" and "\<forall>e \<in> set calls. snd e \<le> now"
  shows "provider_used ch (record_all ch calls) name now = ledger_usage ch (calls_of name calls) now \<and>
    model_used ch (record_all ch calls) (name, model) now =
      (ledger_usage ch (filter (\<lambda>e. co_model (fst e) = model) (calls_of name calls)) now)
        \<lparr>us_spend_today := 0, us_spend_month := 0\<rparr>"
  using usage_is_ledger[OF assms] model_usage_is_ledger[OF assms] by (simp add: model_ledger)

lemma convex_div: "0 < d \<Longrightarrow> convex (\<lambda>t. t div d)"
  unfolding convex_def by (metis order.antisym zdiv_mono1)

lemma sample_calendar_convex:
  "convex (date_naive sample_calendar)" "convex (year_month sample_calendar)"
  using convex_div[of "hours 24"] convex_div[of "hours 720"]
  by (simp_all add: sample_calendar_def convex_def hours_def seconds_def)

definition sample_paid :: call_outcome where
  "sample_paid = \<lparr>co_provider = ''openrouter'', co_model = ''m'', co_success = True, co_tokens = 10,
     co_cost = 1, co_error_kind = None, co_error_text = None\<rparr>"

theorem budget_is_the_ledger_witness:
  fixes calls book
  defines "calls \<equiv> [(sample_paid, 0), (sample_paid, seconds 50), (sample_limited, seconds 60)]"
    and "book \<equiv> record_all sample_calendar [(sample_paid, 0), (sample_paid, seconds 50), (sample_limited, seconds 60)]"
  shows "us_spend_today (provider_used sample_calendar book ''openrouter'' (seconds 70)) = 2 \<and>
    us_requests_today (model_used sample_calendar book (''openrouter'', ''m'') (seconds 70)) = 2 \<and>
    us_tokens_today (model_used sample_calendar book (''openrouter'', ''m'') (seconds 70)) = 20"
proof -
  have c: "canonical_name ''openrouter'' = ''openrouter''" "canonical_name ''Gemini'' = ''gemini''"
    by code_simp+
  show ?thesis
    using budget_is_the_ledger[OF sample_calendar_convex, of calls "seconds 70" "''openrouter''" "''m''"] c
    by (simp add: calls_def book_def in_order_def seconds_def calls_of_def sample_paid_def sample_limited_def
        ledger_usage_def sum_where_def sample_calendar_def hours_def Let_def)
qed

subsection \<open>Spending\<close>

text \<open>Every call of the provider was admitted by a verdict on the calls before it.\<close>

definition each_admitted ::
  "chrono \<Rightarrow> fmt \<Rightarrow> provider_entry \<Rightarrow> limits option \<Rightarrow> string \<Rightarrow> call_log \<Rightarrow> bool" where
  "each_admitted ch f entry ml name calls \<longleftrightarrow>
     (\<forall>i < length calls. canonical_name (co_provider (fst (calls ! i))) = name \<longrightarrow>
        verdict_with ch f name (co_model (fst (calls ! i))) entry ml (snd (calls ! i))
          (record_all ch (take i calls)) = Inr ())"

lemma each_admitted_snoc:
  "each_admitted ch f entry ml name (calls @ [e]) \<Longrightarrow>
     each_admitted ch f entry ml name calls \<and>
     (canonical_name (co_provider (fst e)) = name \<longrightarrow>
       verdict_with ch f name (co_model (fst e)) entry ml (snd e) (record_all ch calls) = Inr ())"
  by (auto simp: each_admitted_def All_less_Suc nth_append)

lemma admitted_below_cap:
  assumes "verdict_with ch f name model entry ml now b = Inr ()" and "canonical_name name = name"
    and "pe_billing entry = BPaid" and "pe_spend entry = Some s" and "daily_usd s = Some cap"
  shows "us_spend_today (provider_used ch b name now) < cap"
  using assms
  by (auto simp: verdict_with_def Let_def result_and_then_Inr check_spend_def split: if_splits)

text \<open>A paid provider's spend of a day stays below its daily cap plus one call: when every
  call was admitted by a verdict on the calls recorded before it, in the order of time, and no call
  costs more than \<open>k\<close>, the day's spend never passes the cap by more than \<open>k\<close>.\<close>

theorem admitted_spend_is_capped:
  assumes "convex (date_naive ch)" and "convex (year_month ch)"
    and "pe_billing entry = BPaid" and "pe_spend entry = Some s" and "daily_usd s = Some cap" and "0 \<le> cap"
    and "canonical_name name = name" and "0 \<le> k" and "\<forall>e \<in> set calls. co_cost (fst e) \<le> k"
    and "in_order calls" and "\<forall>e \<in> set calls. snd e \<le> now"
    and "each_admitted ch f entry ml name calls"
  shows "us_spend_today (provider_used ch (record_all ch calls) name now) \<le> cap + k"
  using assms(9-12)
proof (induction calls arbitrary: now rule: rev_induct)
  case Nil
  then show ?case
    using assms(6,8) by (simp add: record_all_def empty_book_def provider_used_def no_usage_def)
next
  case (snoc e calls)
  obtain out t where e: "e = (out, t)" by fastforce
  have ord: "in_order calls" "\<forall>x \<in> set calls. snd x \<le> t" "t \<le> now"
    using snoc.prems(2,3) by (auto simp: in_order_def e sorted_append)
  note adm = each_admitted_snoc[OF snoc.prems(4)]
  have at_now: "provider_used ch (record_all ch (calls @ [e])) name now =
      ledger_usage ch (calls_of name (calls @ [e])) now"
    using snoc.prems by (intro usage_is_ledger assms(1,2))
  have at_t: "provider_used ch (record_all ch calls) name t = ledger_usage ch (calls_of name calls) t"
    using ord by (intro usage_is_ledger assms(1,2))
  show ?case
  proof (cases "date_naive ch t = date_naive ch now")
    case False
    then have "us_spend_today (ledger_usage ch (calls_of name (calls @ [e])) now) = 0"
      using sum_where_past[OF assms(1), of "calls_of name (calls @ [e])" t now co_cost] ord
      by (auto simp: ledger_usage_def calls_of_def e Let_def)
    with at_now show ?thesis using assms(6,8) by simp
  next
    case True
    then have "us_spend_today (ledger_usage ch (calls_of name (calls @ [e])) now) =
        us_spend_today (ledger_usage ch (calls_of name calls) t) +
          (if canonical_name (co_provider out) = name then co_cost out else 0)"
      by (simp add: ledger_usage_def calls_of_def e sum_where_snoc Let_def)
    moreover have "us_spend_today (ledger_usage ch (calls_of name calls) t) < cap"
      if "canonical_name (co_provider out) = name"
      using adm that admitted_below_cap[OF _ assms(7) assms(3-5), of ch f "co_model out" ml t "record_all ch calls"]
        at_t by (simp add: e)
    moreover have "us_spend_today (ledger_usage ch (calls_of name calls) t) \<le> cap + k"
      using snoc.IH[of t] snoc.prems(1) ord adm at_t by simp
    moreover have "co_cost out \<le> k" using snoc.prems(1) by (simp add: e)
    ultimately show ?thesis using at_now by (auto split: if_splits)
  qed
qed

theorem admitted_spend_is_capped_witness:
  "us_spend_today (provider_used sample_calendar (record_all sample_calendar [(sample_paid, 0)])
     ''openrouter'' (seconds 1)) \<le> 5 / 2"
proof -
  let ?entry = "(entry_of_kind KOpenaiCompat)\<lparr>pe_spend := Some \<lparr>daily_usd = Some (3 / 2), monthly_usd = None\<rparr>\<rparr>"
  have c: "canonical_name ''openrouter'' = ''openrouter''" by code_simp
  have "each_admitted sample_calendar sample_fmt ?entry None ''openrouter'' [(sample_paid, 0)]"
    by (simp add: each_admitted_def sample_paid_def c verdict_with_def check_cooldowns_def record_all_def
        empty_book_def check_limits_def entry_of_kind_def no_limits_def check_spend_def
        provider_used_def no_usage_def Let_def)
  then show ?thesis
    using admitted_spend_is_capped[OF sample_calendar_convex, of ?entry _ "3 / 2" "''openrouter''" 1
        "[(sample_paid, 0)]" "seconds 1" sample_fmt None] c
    by (simp add: entry_of_kind_def in_order_def sample_paid_def seconds_def)
qed

subsection \<open>A header that stops the reader\<close>

text \<open>The headers are the provider's, and not every one of them is survived: a unit
  duration is not bounded the way a hint or a number is, so a wait of \<open>9999999999999h\<close> overflows the
  date it is added to. \<open>observe\<close> panics and the model it was about stays callable, for every calendar
  whose range the sum leaves.\<close>

theorem an_unbounded_wait_panics:
  assumes "\<not> timestamp_ok ch (now + milliseconds i64_max)" and "parse_rfc3339 ch ''9999999999999h'' = None"
  shows "observe ch provider model 429 [(''Retry-After'', ''9999999999999h'')] now empty_book =
    (True, empty_book\<lparr>bb_models := (bb_models empty_book)((canonical_name provider, model) \<mapsto> new_model_state)\<rparr>)"
proof -
  have trim: "trim ''9999999999999h'' = ''9999999999999h''" by code_simp
  have trim: "trim ''9999999999999h'' = ''9999999999999h''" by code_simp
  have seen: "seen_headers [(''Retry-After'', ''9999999999999h'')] = [(''retry-after'', ''9999999999999h'')]"
  proof -
    have "lower ''Retry-After'' = ''retry-after''" by code_simp
    then show ?thesis by (simp add: seen_headers_def rate_header_def trim)
  qed
  have mantissa: "parse_mantissa ''9999999999999'' = Some 9999999999999"
    by (simp add: parse_mantissa_def is_digit_def digits_val_def digit_val_def Let_def)
  have low: "lower ''h'' = ''h''" by code_simp
  have dur: "parse_unit_duration ''9999999999999h'' = Some 35999999999996400"
    by (simp add: parse_unit_duration_def trim sum_units.simps[of "''9999999999999h''" 0]
        sum_units.simps[of "[]"] is_number_char_def is_digit_def is_alpha_def mantissa low unit_factor_def)
  have sat: "as_i64_sat \<lceil>35999999999996400 * 1000 :: rat\<rceil> = i64_max" by (simp add: as_i64_sat_def i64_max_def)
  have "parse_reset ch ''9999999999999h'' now = Inl ()"
    using assms sat by (simp add: parse_reset_def trim dur add_millis_def)
  then show ?thesis
    by (simp add: observe_def seen Let_def observe_model_def observe_retry_after_def or_default_def empty_book_def)
qed

theorem an_unbounded_wait_panics_witness:
  "fst (observe sample_calendar ''gemini'' ''flash'' 429 [(''Retry-After'', ''9999999999999h'')] 0 empty_book)"
  using an_unbounded_wait_panics[of sample_calendar 0 "''gemini''" "''flash''"]
  by (simp add: sample_calendar_def hours_def seconds_def milliseconds_def i64_max_def)

end
