(* ===== verification/Routing.thy ===== *)
theory Routing
  imports Provider_Gate Budget
begin

text \<open>
  The routing policy (\<open>crates/llm/src/routing.rs\<close>): which providers a piece of work may use, by
  its purpose, its data class and who started it. The registry, the engine, the per-model limits
  and the budget verdict are arguments; the GPU lease's refusal is a field of the policy.
\<close>

subsection \<open>The work\<close>

datatype data_class = DPrivate | DPublic

fun data_class_str :: "data_class \<Rightarrow> string" where
  "data_class_str DPrivate = ''private''"
| "data_class_str DPublic = ''public''"

definition parse_or_private :: "string \<Rightarrow> data_class" where
  "parse_or_private s = (if eq_ignore_case (trim s) ''public'' then DPublic else DPrivate)"

definition stricter :: "data_class \<Rightarrow> data_class \<Rightarrow> data_class" where
  "stricter a b = (if a = DPrivate \<or> b = DPrivate then DPrivate else DPublic)"

text \<open>The classes by how far the work may go: private work goes less far.\<close>

instantiation data_class :: linorder
begin

definition less_eq_data_class :: "data_class \<Rightarrow> data_class \<Rightarrow> bool" where
  "less_eq_data_class a b \<longleftrightarrow> a = DPrivate \<or> b = DPublic"

definition less_data_class :: "data_class \<Rightarrow> data_class \<Rightarrow> bool" where
  "less_data_class a b \<longleftrightarrow> a = DPrivate \<and> b = DPublic"

instance
  by standard (auto simp: less_eq_data_class_def less_data_class_def intro: data_class.exhaust)

end

lemma stricter_min: "stricter a b = min a b"
  by (cases a; cases b) (simp_all add: stricter_def min_def less_eq_data_class_def)

datatype initiator = IBrain | IOwner | IApproved

fun initiator_str :: "initiator \<Rightarrow> string" where
  "initiator_str IBrain = ''brain''"
| "initiator_str IOwner = ''owner''"
| "initiator_str IApproved = ''approved''"

record route_context =
  rc_purpose :: purpose
  rc_data_class :: data_class
  rc_initiator :: initiator

definition new_context :: "purpose \<Rightarrow> data_class \<Rightarrow> route_context" where
  "new_context p c = \<lparr>rc_purpose = p, rc_data_class = c, rc_initiator = IBrain\<rparr>"

text \<open>The scoped context, else background, private and the brain's, or the owner's inside the
  owner's own request.\<close>

definition current_context :: "route_context option \<Rightarrow> bool option \<Rightarrow> route_context" where
  "current_context scoped owner_request =
     (case scoped of
        Some c \<Rightarrow> c
      | None \<Rightarrow> (new_context PBackground DPrivate)
          \<lparr>rc_initiator := (if or_default False owner_request then IOwner else IBrain)\<rparr>)"

subsection \<open>The policy\<close>

fun billing_str :: "billing \<Rightarrow> string" where
  "billing_str BLocal = ''local''"
| "billing_str BFree = ''free''"
| "billing_str BPaid = ''paid''"

fun policy_str :: "data_policy \<Rightarrow> string" where
  "policy_str NoLog = ''no_log''"
| "policy_str MayLog = ''may_log''"
| "policy_str MayTrain = ''may_train''"

record routing_policy =
  rp_billing :: "billing list"
  rp_paid_for :: "purpose list"
  rp_source :: string
  rp_gpu_lease :: "string option"

definition billing_of_word :: "string \<Rightarrow> billing option" where
  "billing_of_word word =
     (let w = lower (trim word) in
      if w = ''local'' then Some BLocal else if w = ''free'' then Some BFree
      else if w = ''paid'' then Some BPaid else None)"

text \<open>The words that mean something, each once, in the order they come.\<close>

fun collect_words :: "(string \<Rightarrow> 'a option) \<Rightarrow> 'a list \<Rightarrow> string list \<Rightarrow> 'a list" where
  "collect_words f acc [] = acc"
| "collect_words f acc (w # ws) =
     (case f w of
        Some x \<Rightarrow> collect_words f (if x \<in> set acc then acc else acc @ [x]) ws
      | None \<Rightarrow> collect_words f acc ws)"

definition tier_of :: "string option \<Rightarrow> nat" where
  "tier_of cloud_tier =
     (case Option.bind cloud_tier (\<lambda>v. parse_unsigned 255 (trim v)) of Some t \<Rightarrow> min t 2 | None \<Rightarrow> 1)"

definition tier_billing :: "nat \<Rightarrow> billing list" where
  "tier_billing t =
     (if t = 0 then [BLocal] else if t = 1 then [BLocal, BFree] else [BLocal, BFree, BPaid])"

definition from_values :: "string option \<Rightarrow> string option \<Rightarrow> string option \<Rightarrow> routing_policy" where
  "from_values routing_billing cloud_tier paid_for =
     (let (bs, src) =
        (case Option.bind routing_billing (\<lambda>s. opt_nonempty (trim s)) of
           Some words \<Rightarrow> (collect_words billing_of_word [] (split_on (CHR '','') words),
                          ''ROUTING_BILLING='' @ words)
         | None \<Rightarrow> (tier_billing (tier_of cloud_tier), ''CLOUD_TIER='' @ show_nat (tier_of cloud_tier)))
      in \<lparr>rp_billing = bs,
          rp_paid_for = collect_words purpose_parse [] (split_on (CHR '','') (or_empty paid_for)),
          rp_source = src, rp_gpu_lease = None\<rparr>)"

definition from_env :: "env \<Rightarrow> string option \<Rightarrow> routing_policy" where
  "from_env env lease_why =
     (from_values (env ''ROUTING_BILLING'') (env ''CLOUD_TIER'') (env ''ROUTING_PAID_FOR''))
       \<lparr>rp_gpu_lease := lease_why\<rparr>"

definition loop_min_rpm :: nat where
  "loop_min_rpm = 20"

definition loop_min_rpd :: nat where
  "loop_min_rpd = 500"

definition loop_capacity :: "limits \<Rightarrow> route_context \<Rightarrow> string + unit" where
  "loop_capacity l ctx =
     (if rc_purpose ctx \<noteq> PSubagent then Inr ()
      else if (case rpm l of Some n \<Rightarrow> n < loop_min_rpm | None \<Rightarrow> False)
      then Inl (''declared '' @ show_nat (or_default 0 (rpm l)) @
             '' requests/minute cannot carry a multi-round agent loop (needs '' @
             show_nat loop_min_rpm @ '')'')
      else if (case rpd l of Some n \<Rightarrow> n < loop_min_rpd | None \<Rightarrow> False)
      then Inl (''declared '' @ show_nat (or_default 0 (rpd l)) @
             '' requests/day cannot carry agent loops (needs '' @ show_nat loop_min_rpd @ '')'')
      else Inr ())"

definition check_paid :: "routing_policy \<Rightarrow> string \<Rightarrow> provider_entry \<Rightarrow> route_context \<Rightarrow> string + unit" where
  "check_paid policy name e ctx =
     (let p = purpose_str (rc_purpose ctx) in
      if pe_billing e \<noteq> BPaid then Inr ()
      else if rc_purpose ctx \<notin> set (rp_paid_for policy)
      then Inl (p @ '' work may not spend money (ROUTING_PAID_FOR='' @
             (let l = join_with '','' (map purpose_str (rp_paid_for policy))
              in if l = [] then ''unset'' else l) @ '')'')
      else if rc_initiator ctx = IBrain
      then Inl (''paid provider '' @ quoted name @
             '' runs only on work the owner started (chat, the HBI) or on a workflow marked `paid: true`; '' @
             (if rc_purpose ctx = PChat
              then ''this chat turn did not authenticate as the owner (MCP_API_KEY)''
              else ''this is the brain'' @ [CHR 39] @ ''s own '' @ p @ '' work''))
      else if \<not> spend_capped e
      then Inl (''paid provider '' @ quoted name @ '' declares no spend cap'')
      else Inr ())"

definition check_data :: "provider_entry \<Rightarrow> route_context \<Rightarrow> string + unit" where
  "check_data e ctx =
     (let p = purpose_str (rc_purpose ctx) in
      if rc_data_class ctx = DPrivate \<and> pe_data_policy e \<noteq> NoLog \<and>
         rc_purpose ctx \<notin> set (pe_private_ok_for e)
      then Inl (''private '' @ p @ '' work may not use a '' @ policy_str (pe_data_policy e) @
             '' provider (models.yaml `private_ok_for` does not name '' @ p @ '')'')
      else Inr ())"

definition check_entry ::
  "engine \<Rightarrow> routing_policy \<Rightarrow> string \<Rightarrow> provider_entry option \<Rightarrow> bool \<Rightarrow> route_context \<Rightarrow> string + unit" where
  "check_entry en policy name entry key_present ctx =
     (case entry of
        None \<Rightarrow> Inl (''provider '' @ quoted name @
                  '' is not in the provider registry, so its billing and data policy are unknown'')
      | Some e \<Rightarrow>
          if pe_kind e = KLocal \<and> rc_purpose ctx \<noteq> PBackground \<and> \<not> engine_has en Tools
          then Inl (''engine '' @ quoted (en_name en) @ '' does not declare tools, which '' @
                 purpose_str (rc_purpose ctx) @ '' needs'')
          else if \<not> pe_enabled e then Inl (''provider '' @ quoted name @ '' is disabled'')
          else if pe_billing e = BLocal \<and> rp_gpu_lease policy \<noteq> None
          then Inl (or_empty (rp_gpu_lease policy))
          else if \<not> key_present
          then Inl (or_default ''its API key'' (pe_api_key_env e) @ '' is not set'')
          else if pe_billing e \<notin> set (rp_billing policy)
          then Inl (''billing '' @ quoted (billing_str (pe_billing e)) @ '' is not allowed ('' @
                 rp_source policy @ '')'')
          else result_and_then (check_paid policy name e ctx) (\<lambda>_.
               result_and_then (check_data e ctx) (\<lambda>_.
               loop_capacity (pe_limits e) ctx)))"

definition check_model ::
  "engine \<Rightarrow> routing_policy \<Rightarrow> string \<Rightarrow> provider_entry option \<Rightarrow> bool \<Rightarrow> limits option \<Rightarrow>
   route_context \<Rightarrow> string + unit" where
  "check_model en policy name entry key_present ml ctx =
     result_and_then (check_entry en policy name entry key_present ctx) (\<lambda>_.
       case ml of Some l \<Rightarrow> loop_capacity l ctx | None \<Rightarrow> Inr ())"

subsection \<open>A plan over the catalog\<close>

record candidate =
  cd_name :: string
  cd_provider :: string
  cd_model :: string
  cd_selection_rank :: int
  cd_position :: nat

record rejection =
  rj_name :: string
  rj_provider :: string
  rj_reason :: string
  rj_position :: nat

record route_plan =
  candidates :: "candidate list"
  rejected :: "rejection list"

text \<open>What a row is judged with: the registry, the key test, the models' limits, the budget and the
  models seen to answer \<open>subscription_required\<close>.\<close>

record judge =
  jg_engine :: engine
  jg_lookup :: "string \<Rightarrow> provider_entry option"
  jg_key_present :: "provider_entry \<Rightarrow> bool"
  jg_model_limits :: "string \<Rightarrow> string \<Rightarrow> limits option"
  jg_budget :: "string \<Rightarrow> string \<Rightarrow> provider_entry \<Rightarrow> string + unit"
  jg_unavailable :: "string list"

definition row_text :: "json \<Rightarrow> string \<Rightarrow> string option" where
  "row_text row k = as_str (json_field row k)"

definition row_model :: "json \<Rightarrow> string" where
  "row_model row = or_empty (row_text row ''model'')"

definition row_provider :: "json \<Rightarrow> string" where
  "row_provider row = canonical_name (or_empty (row_text row ''provider''))"

definition judge_row :: "judge \<Rightarrow> routing_policy \<Rightarrow> route_context \<Rightarrow> json \<Rightarrow> string + unit" where
  "judge_row j policy ctx row =
     (let provider = row_provider row; model = row_model row; entry = jg_lookup j provider;
          k = (case entry of Some e \<Rightarrow> jg_key_present j e | None \<Rightarrow> False)
      in result_and_then
           (check_model (jg_engine j) policy provider entry k (jg_model_limits j provider model) ctx) (\<lambda>_.
         result_and_then (case entry of Some e \<Rightarrow> jg_budget j provider model e | None \<Rightarrow> Inr ()) (\<lambda>_.
         if model \<in> set (jg_unavailable j)
         then Inl ''returned subscription_required in the last 7 days'' else Inr ())))"

fun route_from ::
  "judge \<Rightarrow> routing_policy \<Rightarrow> route_context \<Rightarrow> nat \<Rightarrow> json list \<Rightarrow> route_plan \<Rightarrow> route_plan" where
  "route_from j policy ctx pos [] plan = plan"
| "route_from j policy ctx pos (row # rows) plan =
     (let model = row_model row; provider = row_provider row;
          name = or_default model (row_text row ''name'')
      in if model = [] then route_from j policy ctx (Suc pos) rows plan
         else route_from j policy ctx (Suc pos) rows
           (case judge_row j policy ctx row of
              Inr _ \<Rightarrow> plan\<lparr>candidates := candidates plan @
                [\<lparr>cd_name = name, cd_provider = provider, cd_model = model,
                  cd_selection_rank = or_default (- 1) (as_i64 (json_field row ''selection_rank'')),
                  cd_position = pos\<rparr>]\<rparr>
            | Inl why \<Rightarrow> plan\<lparr>rejected := rejected plan @
                [\<lparr>rj_name = name, rj_provider = provider, rj_reason = why, rj_position = pos\<rparr>]\<rparr>))"

definition route :: "judge \<Rightarrow> routing_policy \<Rightarrow> route_context \<Rightarrow> json list \<Rightarrow> route_plan" where
  "route j policy ctx rows = route_from j policy ctx 0 rows \<lparr>candidates = [], rejected = []\<rparr>"

definition rejected_before :: "route_plan \<Rightarrow> nat \<Rightarrow> string" where
  "rejected_before plan pos =
     (let parts = map (\<lambda>r. rj_name r @ '' ('' @ rj_reason r @ '')'')
                    (filter (\<lambda>r. rj_position r < pos) (rejected plan))
      in if parts = [] then ''-'' else join_with ''; '' parts)"

text \<open>\<open>entry("data_class").or_insert_with(...)\<close> on every step that is an object\<close>

definition stamp_data_class :: "data_class \<Rightarrow> json list \<Rightarrow> json list" where
  "stamp_data_class c steps =
     map (\<lambda>s. case s of
            JObj m \<Rightarrow> JObj (if map_of m ''data_class'' = None
                           then map_insert ''data_class'' (JStr (data_class_str c)) m else m)
          | _ \<Rightarrow> s) steps"


subsection \<open>What an admission means\<close>

text \<open>Everything an admitted row has: the declaration it runs under allows this work.\<close>

definition entitled :: "routing_policy \<Rightarrow> route_context \<Rightarrow> provider_entry \<Rightarrow> bool" where
  "entitled policy ctx e \<longleftrightarrow>
     pe_enabled e \<and> pe_billing e \<in> set (rp_billing policy) \<and>
     (pe_billing e = BLocal \<longrightarrow> rp_gpu_lease policy = None) \<and>
     (pe_billing e = BPaid \<longrightarrow>
        rc_purpose ctx \<in> set (rp_paid_for policy) \<and> rc_initiator ctx \<noteq> IBrain \<and> spend_capped e) \<and>
     (rc_data_class ctx = DPrivate \<longrightarrow>
        pe_data_policy e = NoLog \<or> rc_purpose ctx \<in> set (pe_private_ok_for e))"

lemma check_entry_entitled:
  assumes "check_entry en policy name entry key ctx = Inr ()"
  obtains e where "entry = Some e" "key" "entitled policy ctx e" "check_paid policy name e ctx = Inr ()"
    "check_data e ctx = Inr ()" "loop_capacity (pe_limits e) ctx = Inr ()"
proof -
  from assms obtain e where e: "entry = Some e"
    by (cases entry) (simp_all add: check_entry_def)
  with assms have c: "key" "pe_enabled e" "pe_billing e \<in> set (rp_billing policy)"
      "pe_billing e = BLocal \<longrightarrow> rp_gpu_lease policy = None"
      "check_paid policy name e ctx = Inr ()" "check_data e ctx = Inr ()"
      "loop_capacity (pe_limits e) ctx = Inr ()"
    by (auto simp: check_entry_def result_and_then_Inr split: if_splits)
  moreover have "entitled policy ctx e"
    using c by (auto simp: entitled_def check_paid_def check_data_def Let_def split: if_splits)
  ultimately show thesis using e that by blast
qed

definition candidate_at :: "nat \<times> json \<Rightarrow> candidate" where
  "candidate_at ir =
     \<lparr>cd_name = or_default (row_model (snd ir)) (row_text (snd ir) ''name''),
      cd_provider = row_provider (snd ir), cd_model = row_model (snd ir),
      cd_selection_rank = or_default (- 1) (as_i64 (json_field (snd ir) ''selection_rank'')),
      cd_position = fst ir\<rparr>"

definition rejection_at :: "string \<Rightarrow> nat \<times> json \<Rightarrow> rejection" where
  "rejection_at why ir =
     \<lparr>rj_name = or_default (row_model (snd ir)) (row_text (snd ir) ''name''),
      rj_provider = row_provider (snd ir), rj_reason = why, rj_position = fst ir\<rparr>"

definition named_rows :: "nat \<Rightarrow> json list \<Rightarrow> (nat \<times> json) list" where
  "named_rows pos rows = filter (\<lambda>ir. row_model (snd ir) \<noteq> []) (enumerate pos rows)"

definition refusals :: "judge \<Rightarrow> routing_policy \<Rightarrow> route_context \<Rightarrow> (nat \<times> json) list \<Rightarrow> rejection list" where
  "refusals j policy ctx irs =
     concat (map (\<lambda>ir. case judge_row j policy ctx (snd ir) of
       Inl why \<Rightarrow> [rejection_at why ir] | Inr _ \<Rightarrow> []) irs)"

lemma route_from_spec:
  "route_from j policy ctx pos rows plan =
     \<lparr>candidates = candidates plan @ map candidate_at
        (filter (\<lambda>ir. judge_row j policy ctx (snd ir) = Inr ()) (named_rows pos rows)),
      rejected = rejected plan @ refusals j policy ctx (named_rows pos rows)\<rparr>"
proof (induction rows arbitrary: pos plan)
  case Nil
  then show ?case by (simp add: named_rows_def refusals_def)
next
  case (Cons row rows)
  show ?case
  proof (cases "judge_row j policy ctx row")
    case (Inl why)
    then show ?thesis
      by (simp add: Let_def Cons.IH named_rows_def refusals_def rejection_at_def)
  next
    case (Inr u)
    then show ?thesis
      by (simp add: Let_def Cons.IH named_rows_def refusals_def candidate_at_def)
  qed
qed

text \<open>A plan decides every catalog row that names a model, each on its own and once: the
  admitted ones are the candidates and the others the rejections with their reasons, both in the
  order of the catalog and with the row's position.\<close>

theorem route_decides_every_row_in_order:
  "route j policy ctx rows =
     \<lparr>candidates = map candidate_at
        (filter (\<lambda>ir. judge_row j policy ctx (snd ir) = Inr ()) (named_rows 0 rows)),
      rejected = refusals j policy ctx (named_rows 0 rows)\<rparr>"
  by (simp add: route_def route_from_spec)

lemma route_candidate:
  assumes "c \<in> set (candidates (route j policy ctx rows))"
  obtains row where "row \<in> set rows" "judge_row j policy ctx row = Inr ()"
    "cd_provider c = row_provider row" "cd_model c = row_model row"
  using assms
  by (auto simp: route_def route_from_spec named_rows_def candidate_at_def in_set_enumerate_eq
      intro: that nth_mem)

text \<open>Claim C24. No candidate runs on terms the work does not allow: its provider is registered,
  enabled, authenticated and of an allowed billing class; private work only goes to a provider
  that does not log, or that this purpose was allowed on; money is only spent by a purpose that may
  spend, on work the owner started or approved, with a cap declared; nothing local runs during a
  GPU lease; and there is headroom in the budget.\<close>

theorem candidates_are_entitled:
  assumes "c \<in> set (candidates (route j policy ctx rows))"
  shows "\<exists>e. jg_lookup j (cd_provider c) = Some e \<and> jg_key_present j e \<and> entitled policy ctx e \<and>
    jg_budget j (cd_provider c) (cd_model c) e = Inr () \<and> cd_model c \<notin> set (jg_unavailable j)"
proof -
  from assms obtain row where row: "judge_row j policy ctx row = Inr ()"
    and c: "cd_provider c = row_provider row" "cd_model c = row_model row"
    by (rule route_candidate)
  from row have
    "check_entry (jg_engine j) policy (row_provider row) (jg_lookup j (row_provider row))
       (case jg_lookup j (row_provider row) of Some e \<Rightarrow> jg_key_present j e | None \<Rightarrow> False) ctx = Inr ()"
    by (simp add: judge_row_def check_model_def Let_def result_and_then_Inr)
  then show ?thesis
  proof (rule check_entry_entitled)
    fix e
    assume "jg_lookup j (row_provider row) = Some e" "entitled policy ctx e"
      "case jg_lookup j (row_provider row) of Some e \<Rightarrow> jg_key_present j e | None \<Rightarrow> False"
    then show ?thesis
      using row c by (auto simp: judge_row_def Let_def result_and_then_Inr split: if_splits)
  qed
qed

definition sample_engine :: engine where
  "sample_engine = \<lparr>en_name = ''llamacpp'', en_url = ''http://llamacpp:8080'', en_unload = UnloadRouter,
     en_capabilities = {Chat, Tools}, en_roles = [(Generation, Inr ''qwen'')]\<rparr>"

definition sample_judge :: judge where
  "sample_judge = \<lparr>jg_engine = sample_engine, jg_lookup = map_of builtin_providers,
     jg_key_present = (\<lambda>_. True), jg_model_limits = (\<lambda>_ _. None), jg_budget = (\<lambda>_ _ _. Inr ()),
     jg_unavailable = []\<rparr>"

definition sample_rows :: "json list" where
  "sample_rows = [JObj [(''name'', JStr ''flash''), (''model'', JStr ''gemini-flash''), (''provider'', JStr ''gemini'')],
                  JObj [(''name'', JStr ''gemma''), (''model'', JStr ''gemma4''), (''provider'', JStr ''ollama_cloud'')]]"

definition free_policy :: routing_policy where
  "free_policy = \<lparr>rp_billing = [BLocal, BFree], rp_paid_for = [], rp_source = ''CLOUD_TIER=1'', rp_gpu_lease = None\<rparr>"

lemma sample_route:
  "map cd_model (candidates (route sample_judge free_policy (new_context PBackground DPrivate) sample_rows)) =
     [''gemma4'']"
  by code_simp

theorem candidates_are_entitled_witness:
  "\<exists>c e. c \<in> set (candidates (route sample_judge free_policy (new_context PBackground DPrivate) sample_rows)) \<and>
     cd_model c = ''gemma4'' \<and> entitled free_policy (new_context PBackground DPrivate) e"
proof -
  have "''gemma4'' \<in> set (map cd_model
      (candidates (route sample_judge free_policy (new_context PBackground DPrivate) sample_rows)))"
    by (simp only: sample_route) simp
  then obtain c where c: "cd_model c = ''gemma4''"
      "c \<in> set (candidates (route sample_judge free_policy (new_context PBackground DPrivate) sample_rows))"
    by auto
  from candidates_are_entitled[OF c(2)] show ?thesis using c by blast
qed

subsection \<open>Money needs two switches\<close>

lemma collect_words_set:
  "x \<in> set (collect_words f acc ws) \<longleftrightarrow> x \<in> set acc \<or> (\<exists>w \<in> set ws. f w = Some x)"
  by (induction f acc ws rule: collect_words.induct) (auto split: option.splits)

text \<open>Spending takes two settings that are off by default: a paid provider is only
  admitted where \<open>ROUTING_PAID_FOR\<close> lists the purpose, and either \<open>ROUTING_BILLING\<close> lists paid or,
  where that is blank, \<open>CLOUD_TIER\<close> is two or more. Even then it needs a declared cap and work that
  is not the brain's own.\<close>

theorem spending_takes_two_settings:
  assumes "check_entry en (from_values routing_billing cloud_tier paid_for) name (Some e) key ctx = Inr ()"
    and "pe_billing e = BPaid"
  shows "(\<exists>w \<in> set (split_on (CHR '','') (or_empty paid_for)). purpose_parse w = Some (rc_purpose ctx)) \<and>
    (case Option.bind routing_billing (\<lambda>s. opt_nonempty (trim s)) of
       Some words \<Rightarrow> \<exists>w \<in> set (split_on (CHR '','') words). lower (trim w) = ''paid''
     | None \<Rightarrow> 2 \<le> tier_of cloud_tier) \<and>
    rc_initiator ctx \<noteq> IBrain \<and> spend_capped e"
proof -
  let ?p = "from_values routing_billing cloud_tier paid_for"
  from assms(1) have "entitled ?p ctx e" by (rule check_entry_entitled) simp
  then have e: "BPaid \<in> set (rp_billing ?p)" "rc_purpose ctx \<in> set (rp_paid_for ?p)"
      "rc_initiator ctx \<noteq> IBrain" "spend_capped e"
    using assms(2) by (auto simp: entitled_def)
  have "\<exists>w \<in> set (split_on (CHR '','') (or_empty paid_for)). purpose_parse w = Some (rc_purpose ctx)"
    using e(2) by (auto simp: from_values_def Let_def collect_words_set split: prod.splits)
  moreover have "case Option.bind routing_billing (\<lambda>s. opt_nonempty (trim s)) of
       Some words \<Rightarrow> \<exists>w \<in> set (split_on (CHR '','') words). lower (trim w) = ''paid''
     | None \<Rightarrow> 2 \<le> tier_of cloud_tier"
    using e(1)
    by (auto simp: from_values_def Let_def collect_words_set billing_of_word_def tier_billing_def
        split: option.splits if_splits)
  ultimately show ?thesis using e(3,4) by blast
qed

theorem spending_takes_two_settings_witness:
  "\<exists>w \<in> set (split_on (CHR '','') ''chat''). purpose_parse w = Some PChat"
proof -
  let ?e = "(entry_of_kind KAnthropic)\<lparr>pe_data_policy := NoLog,
      pe_spend := Some \<lparr>daily_usd = Some 1, monthly_usd = None\<rparr>\<rparr>"
  let ?ctx = "(new_context PChat DPrivate)\<lparr>rc_initiator := IOwner\<rparr>"
  have "check_entry sample_engine (from_values (Some ''free, paid'') None (Some ''chat'')) ''anthropic''
      (Some ?e) True ?ctx = Inr ()" by code_simp
  from spending_takes_two_settings[OF this] show ?thesis
    by (simp add: entry_of_kind_def or_empty_def new_context_def)
qed

subsection \<open>Work handed on\<close>

lemma class_free:
  "check_paid policy name e (ctx\<lparr>rc_data_class := c\<rparr>) = check_paid policy name e ctx"
  "loop_capacity l (ctx\<lparr>rc_data_class := c\<rparr>) = loop_capacity l ctx"
  by (simp_all add: check_paid_def loop_capacity_def Let_def)

lemma check_entry_public:
  assumes "check_entry en policy name entry key (ctx\<lparr>rc_data_class := c\<rparr>) = Inr ()"
  shows "check_entry en policy name entry key (ctx\<lparr>rc_data_class := DPublic\<rparr>) = Inr ()"
proof (cases entry)
  case None
  with assms show ?thesis by (simp add: check_entry_def)
next
  case (Some e)
  have "check_data e (ctx\<lparr>rc_data_class := DPublic\<rparr>) = Inr ()" by (simp add: check_data_def)
  with assms Some show ?thesis
    by (auto simp: check_entry_def result_and_then_Inr class_free split: if_splits)
qed

text \<open>Handing work on never widens where its data may go: work of the stricter of two
  classes is admitted exactly where both classes are, so an agent's public class adds nothing to a
  private caller's.\<close>

theorem stricter_admits_what_both_admit:
  "check_model en policy name entry key ml (ctx\<lparr>rc_data_class := stricter a b\<rparr>) = Inr () \<longleftrightarrow>
     check_model en policy name entry key ml (ctx\<lparr>rc_data_class := a\<rparr>) = Inr () \<and>
     check_model en policy name entry key ml (ctx\<lparr>rc_data_class := b\<rparr>) = Inr ()"
proof -
  have public: "check_model en policy name entry key ml (ctx\<lparr>rc_data_class := DPublic\<rparr>) = Inr ()"
    if "check_model en policy name entry key ml (ctx\<lparr>rc_data_class := DPrivate\<rparr>) = Inr ()"
    using that
    by (simp add: check_model_def result_and_then_Inr class_free check_entry_public[where c = DPrivate]
        split: option.splits)
  then show ?thesis by (cases a; cases b) (auto simp: stricter_def)
qed

end
