(* ===== verification/Model_Router.thy ===== *)
theory Model_Router
  imports Routing
begin

text \<open>
  From a step's declaration to a model it may call (\<open>crates/llm/src/model_router.rs\<close>, the
  configuration of \<open>crates/llm/src/llm.rs\<close> and \<open>RoutingPolicy::admit\<close>): capability routing, pinned
  models and the lane a provider implies. What these functions read of the process is one record,
  \<open>llm_world\<close>; the catalog's rows are the answers of its DuckDB table. A timeout is in seconds and
  the temperature is carried as it is.
\<close>

datatype llm_provider_type = LLocal | LOllamaCloud | LAnthropic | LGemini | LOpenAiCompat

fun llm_provider_display :: "llm_provider_type \<Rightarrow> string" where
  "llm_provider_display LLocal = ''local''"
| "llm_provider_display LOllamaCloud = ''ollama-cloud''"
| "llm_provider_display LOpenAiCompat = ''openai-compat''"
| "llm_provider_display LAnthropic = ''anthropic''"
| "llm_provider_display LGemini = ''gemini''"

record llm_config =
  lc_provider :: llm_provider_type
  lc_base_url :: "string option"
  lc_api_key :: "string option"
  lc_model :: string
  lc_timeout :: nat
  lc_temperature :: rat
  lc_max_tokens :: "nat option"
  lc_provider_name :: "string option"

definition provider_label :: "llm_config \<Rightarrow> string" where
  "provider_label cfg =
     (case lc_provider_name cfg of Some n \<Rightarrow> n | None \<Rightarrow> llm_provider_display (lc_provider cfg))"

text \<open>\<open>LlmConfig::default\<close>: the local engine and its generation model.\<close>

definition default_config :: "engine \<Rightarrow> llm_config" where
  "default_config en =
     \<lparr>lc_provider = LLocal, lc_base_url = Some (en_url en), lc_api_key = None,
      lc_model = or_default ''local'' (engine_model en Generation), lc_timeout = 120,
      lc_temperature = 7 / 10, lc_max_tokens = None, lc_provider_name = None\<rparr>"

record llm_world =
  lw_env :: env
  lw_engine :: engine
  lw_table :: provider_table
  lw_limits :: limits_table
  lw_book :: budget_book
  lw_lease_why :: "string option"
  lw_chrono :: chrono
  lw_fmt :: fmt
  lw_now :: instant

definition world_policy :: "llm_world \<Rightarrow> routing_policy" where
  "world_policy W = from_env (lw_env W) (lw_lease_why W)"

definition world_verdict :: "llm_world \<Rightarrow> string \<Rightarrow> string \<Rightarrow> provider_entry \<Rightarrow> string + unit" where
  "world_verdict W provider model e =
     budget_verdict (lw_chrono W) (lw_fmt W) (lw_limits W) provider model e (lw_now W) (lw_book W)"

definition admit :: "llm_world \<Rightarrow> routing_policy \<Rightarrow> llm_config \<Rightarrow> route_context \<Rightarrow> string + unit" where
  "admit W policy cfg ctx =
     (let name = canonical_name (provider_label cfg);
          entry = get_provider (lw_table W) name;
          key = (case entry of
                   Some e \<Rightarrow> key_configured (lw_env W) e \<or>
                             (case lc_api_key cfg of Some k \<Rightarrow> trim k \<noteq> [] | None \<Rightarrow> False)
                 | None \<Rightarrow> False)
      in result_and_then
           (check_model (lw_engine W) policy name entry key (model_limits (lw_limits W) name (lc_model cfg)) ctx)
           (\<lambda>_. case entry of Some e \<Rightarrow> world_verdict W name (lc_model cfg) e | None \<Rightarrow> Inr ()))"

subsection \<open>A configuration for a catalog row\<close>

definition config_for_provider ::
  "llm_world \<Rightarrow> llm_config \<Rightarrow> string \<Rightarrow> provider_entry \<Rightarrow> string \<Rightarrow> llm_config" where
  "config_for_provider W base name entry model =
     (let cfg = base\<lparr>lc_model := model\<rparr>;
          remote = cfg\<lparr>lc_base_url := base_url (lw_env W) (lw_engine W) entry,
                       lc_api_key := api_key (lw_env W) entry\<rparr>;
          cfg = (case pe_kind entry of
                   KOpenaiCompat \<Rightarrow> remote\<lparr>lc_provider :=
                     (if name = ''ollama-cloud'' then LOllamaCloud else LOpenAiCompat)\<rparr>
                 | KAnthropic \<Rightarrow> remote\<lparr>lc_provider := LAnthropic\<rparr>
                 | KGemini \<Rightarrow> remote\<lparr>lc_provider := LGemini\<rparr>
                 | KLocal \<Rightarrow> cfg\<lparr>lc_provider := LLocal, lc_base_url := Some (en_url (lw_engine W)),
                                lc_api_key := None,
                                lc_model := or_default model (engine_model (lw_engine W) Generation)\<rparr>);
          cfg = (case pe_timeout_secs entry of Some s \<Rightarrow> cfg\<lparr>lc_timeout := s\<rparr> | None \<Rightarrow> cfg)
      in cfg\<lparr>lc_provider_name := Some name\<rparr>)"

definition local_name :: string where
  "local_name = ''local''"

definition local_entry :: "llm_world \<Rightarrow> provider_entry" where
  "local_entry W =
     (case get_provider (lw_table W) local_name of
        Some e \<Rightarrow> e | None \<Rightarrow> the (map_of builtin_providers local_name))"

definition config_for_catalog_entry ::
  "llm_world \<Rightarrow> llm_config \<Rightarrow> string \<Rightarrow> string \<Rightarrow> llm_config" where
  "config_for_catalog_entry W base provider model =
     (let name = canonical_name provider in
      case get_provider (lw_table W) name of
        Some entry \<Rightarrow> config_for_provider W base name entry model
      | None \<Rightarrow> config_for_provider W base local_name (local_entry W) model)"

subsection \<open>Finding a model\<close>

record catalog_model =
  cm_name :: string
  cm_provider :: string
  cm_model :: string

definition catalog_models :: "json list option \<Rightarrow> catalog_model list" where
  "catalog_models rows =
     List.map_filter (\<lambda>m. case (row_text m ''name'', row_text m ''provider'', row_text m ''model'') of
         (Some n, Some p, Some i) \<Rightarrow> Some \<lparr>cm_name = n, cm_provider = p, cm_model = i\<rparr>
       | _ \<Rightarrow> None) (or_default [] rows)"

definition find_model :: "catalog_model list \<Rightarrow> string \<Rightarrow> catalog_model option" where
  "find_model rows wanted =
     (let w = trim wanted in
      if w = [] then None
      else or_else (find (\<lambda>m. eq_ignore_case (cm_model m) w) rows)
                   (find (\<lambda>m. eq_ignore_case (cm_name m) w) rows))"

definition text_is :: "json \<Rightarrow> string \<Rightarrow> string \<Rightarrow> bool" where
  "text_is row k w = (case row_text row k of Some x \<Rightarrow> eq_ignore_case x w | None \<Rightarrow> False)"

text \<open>\<open>from_str::<Vec<String>>\<close>: an array whose elements are all text.\<close>

fun text_list :: "json list \<Rightarrow> string list option" where
  "text_list [] = Some []"
| "text_list (v # vs) =
     (case (as_str v, text_list vs) of (Some s, Some ss) \<Rightarrow> Some (s # ss) | _ \<Rightarrow> None)"

definition plans_turns_in :: "serde \<Rightarrow> json list \<Rightarrow> string \<Rightarrow> bool" where
  "plans_turns_in S rows model =
     (let w = trim model;
          row = or_else (find (\<lambda>m. text_is m ''model'' w) rows) (find (\<lambda>m. text_is m ''name'' w) rows)
      in case Option.bind (Option.bind (Option.bind (Option.bind row (\<lambda>m. row_text m ''capabilities''))
                (from_str S)) as_array) text_list of
           Some caps \<Rightarrow> ''orchestration'' \<in> set caps
         | None \<Rightarrow> False)"

definition is_local_hint :: "string option \<Rightarrow> bool" where
  "is_local_hint hint = (case hint of Some h \<Rightarrow> canonical_name h = local_name | None \<Rightarrow> False)"

definition provider_hint_for :: "provider_table \<Rightarrow> string \<Rightarrow> string" where
  "provider_hint_for table provider =
     (let name = canonical_name provider in
      case get_provider table name of
        Some e \<Rightarrow> if pe_billing e \<noteq> BLocal then name else local_name
      | None \<Rightarrow> local_name)"

definition hint_agrees :: "provider_table \<Rightarrow> string \<Rightarrow> string \<Rightarrow> bool" where
  "hint_agrees table hint provider \<longleftrightarrow>
     (let h = trim hint in
      h = [] \<or> eq_ignore_case h (provider_hint_for table provider) \<or>
      canonical_name h = canonical_name provider)"

definition pinned_config ::
  "llm_world \<Rightarrow> catalog_model list \<Rightarrow> string \<Rightarrow> llm_config \<Rightarrow> route_context \<Rightarrow> string + llm_config" where
  "pinned_config W rows wanted base ctx =
     (case find_model rows wanted of
        None \<Rightarrow> Inl (''model '' @ quoted (trim wanted) @ '' is not in the model catalog (models.yaml)'')
      | Some row \<Rightarrow>
          let cfg = config_for_catalog_entry W base (cm_provider row) (cm_model row)
          in (case admit W (world_policy W) cfg ctx of
                Inl why \<Rightarrow> Inl (''the routing policy refused model '' @ quoted (cm_model row) @ '' ('' @
                  cm_provider row @ '') for '' @ data_class_str (rc_data_class ctx) @ '' '' @
                  purpose_str (rc_purpose ctx) @ '' work: '' @ why)
              | Inr _ \<Rightarrow> Inr cfg))"

text \<open>\<open>select_models\<close> answers the capable rows in routing order, or fails.\<close>

definition world_judge :: "llm_world \<Rightarrow> string list \<Rightarrow> judge" where
  "world_judge W unavailable =
     \<lparr>jg_engine = lw_engine W, jg_lookup = get_provider (lw_table W),
      jg_key_present = key_configured (lw_env W), jg_model_limits = model_limits (lw_limits W),
      jg_budget = world_verdict W, jg_unavailable = unavailable\<rparr>"

definition resolve_model_config ::
  "llm_world \<Rightarrow> json list option \<Rightarrow> string list option \<Rightarrow> llm_config \<Rightarrow> route_context \<Rightarrow> llm_config option" where
  "resolve_model_config W selected recent_errors base ctx =
     (case selected of
        None \<Rightarrow> None
      | Some rows \<Rightarrow>
          (case candidates (route (world_judge W (or_default [] recent_errors)) (world_policy W) ctx rows) of
             [] \<Rightarrow> None
           | c # _ \<Rightarrow> Some (config_for_catalog_entry W base (cd_provider c) (cd_model c))))"

subsection \<open>What a configuration calls\<close>

lemma config_for_provider_fields:
  "lc_provider_name (config_for_provider W base name e model) = Some name"
  "lc_model (config_for_provider W base name e model) =
     (if pe_kind e = KLocal then or_default model (engine_model (lw_engine W) Generation) else model)"
  "lc_base_url (config_for_provider W base name e model) = base_url (lw_env W) (lw_engine W) e"
  "lc_api_key (config_for_provider W base name e model) =
     (if pe_kind e = KLocal then None else api_key (lw_env W) e)"
  by (auto simp: config_for_provider_def Let_def base_url_def split: provider_kind.splits option.splits)

lemma get_provider_canonical: "get_provider table (canonical_name p) = get_provider table p"
  by (simp add: get_provider_def canonical_idem)

text \<open>A pin is exact and is not a preference: the configuration a pinned name yields is
  that of a catalog row whose model id or name it is (up to case and surrounding space), it calls
  that row's provider at its endpoint with its key and the row's model (the engine's own model on a
  local provider), and the policy admitted it for this work. Anything else is an error.\<close>

theorem pinned_config_is_the_admitted_row:
  assumes "pinned_config W rows wanted base ctx = Inr cfg" and "get_provider (lw_table W) ''local'' \<noteq> None"
  shows "\<exists>row \<in> set rows. \<exists>e.
    (lower (cm_model row) = lower (trim wanted) \<or> lower (cm_name row) = lower (trim wanted)) \<and>
    get_provider (lw_table W) (provider_label cfg) = Some e \<and>
    (get_provider (lw_table W) (cm_provider row) = Some e \<or>
       get_provider (lw_table W) (cm_provider row) = None \<and> provider_label cfg = ''local'') \<and>
    lc_base_url cfg = base_url (lw_env W) (lw_engine W) e \<and>
    lc_model cfg = (if pe_kind e = KLocal then or_default (cm_model row) (engine_model (lw_engine W) Generation)
                    else cm_model row) \<and>
    entitled (world_policy W) ctx e \<and>
    world_verdict W (canonical_name (provider_label cfg)) (lc_model cfg) e = Inr ()"
proof -
  from assms(1) obtain row where row: "find_model rows wanted = Some row"
    and cfg: "cfg = config_for_catalog_entry W base (cm_provider row) (cm_model row)"
    and adm: "admit W (world_policy W) cfg ctx = Inr ()"
    by (auto simp: pinned_config_def Let_def split: option.splits sum.splits)
  have named: "row \<in> set rows \<and>
      (lower (cm_model row) = lower (trim wanted) \<or> lower (cm_name row) = lower (trim wanted))"
    using row by (auto simp: find_model_def Let_def or_else_def eq_ignore_case_def find_Some_iff
        split: option.splits if_splits)
  obtain e where e: "get_provider (lw_table W) (provider_label cfg) = Some e"
      "get_provider (lw_table W) (cm_provider row) = Some e \<or>
       get_provider (lw_table W) (cm_provider row) = None \<and> provider_label cfg = ''local''"
      "lc_base_url cfg = base_url (lw_env W) (lw_engine W) e"
      "lc_model cfg = (if pe_kind e = KLocal
         then or_default (cm_model row) (engine_model (lw_engine W) Generation) else cm_model row)"
    using assms(2) unfolding cfg
    by (cases "get_provider (lw_table W) (cm_provider row)")
      (auto simp: config_for_catalog_entry_def Let_def get_provider_canonical provider_label_def
        config_for_provider_fields local_name_def local_entry_def split: option.splits)
  from adm have "check_entry (lw_engine W) (world_policy W) (canonical_name (provider_label cfg)) (Some e)
      (key_configured (lw_env W) e \<or> (case lc_api_key cfg of Some k \<Rightarrow> trim k \<noteq> [] | None \<Rightarrow> False)) ctx = Inr ()"
    and v: "world_verdict W (canonical_name (provider_label cfg)) (lc_model cfg) e = Inr ()"
    using e(1) by (simp_all add: admit_def Let_def get_provider_canonical check_model_def result_and_then_Inr)
  from this(1) have "entitled (world_policy W) ctx e" by (rule check_entry_entitled) simp
  with named e v show ?thesis by blast
qed

definition sample_world :: llm_world where
  "sample_world = \<lparr>lw_env = (\<lambda>_. None), lw_engine = sample_engine, lw_table = builtin_providers,
     lw_limits = [], lw_book = empty_book, lw_lease_why = None, lw_chrono = sample_calendar,
     lw_fmt = sample_fmt, lw_now = 0\<rparr>"

definition sample_catalog :: "catalog_model list" where
  "sample_catalog = [\<lparr>cm_name = ''Qwen local'', cm_provider = ''llamacpp'', cm_model = ''qwen3:4b''\<rparr>]"

lemma sample_pin:
  "map_sum id lc_model (pinned_config sample_world sample_catalog '' qwen LOCAL''
     (default_config sample_engine) (new_context PBackground DPrivate)) = Inr ''qwen''"
  by code_simp

theorem pinned_config_is_the_admitted_row_witness:
  "\<exists>cfg. pinned_config sample_world sample_catalog '' qwen LOCAL'' (default_config sample_engine)
       (new_context PBackground DPrivate) = Inr cfg \<and>
     (\<exists>row \<in> set sample_catalog. lower (cm_model row) = lower (trim '' qwen LOCAL'') \<or>
        lower (cm_name row) = lower (trim '' qwen LOCAL''))"
proof -
  obtain cfg where cfg: "pinned_config sample_world sample_catalog '' qwen LOCAL''
      (default_config sample_engine) (new_context PBackground DPrivate) = Inr cfg"
    using sample_pin by (cases "pinned_config sample_world sample_catalog '' qwen LOCAL''
      (default_config sample_engine) (new_context PBackground DPrivate)") auto
  have "get_provider (lw_table sample_world) ''local'' \<noteq> None"
    by (simp add: sample_world_def get_provider_def builtin_providers_def)
  from pinned_config_is_the_admitted_row[OF cfg this] cfg show ?thesis by blast
qed


subsection \<open>The first row the policy admits\<close>

lemma find_filter: "find P xs = (case filter P xs of [] \<Rightarrow> None | x # _ \<Rightarrow> Some x)"
  by (induction xs) auto

lemma find_enumerate: "map_option snd (find (\<lambda>ir. P (snd ir)) (enumerate n xs)) = find P xs"
  by (induction xs arbitrary: n) auto

text \<open>Capability routing takes the first row of the catalog's order that names a model
  and that the policy, the budget and the availability admit for this work, and configures that
  row; it answers none exactly when there is no such row. No better-ranked admissible row is ever
  passed over.\<close>

theorem resolve_takes_the_first_admissible_row:
  "resolve_model_config W (Some rows) errors base ctx =
     map_option (\<lambda>row. config_for_catalog_entry W base (row_provider row) (row_model row))
       (find (\<lambda>row. row_model row \<noteq> [] \<and>
                judge_row (world_judge W (or_default [] errors)) (world_policy W) ctx row = Inr ()) rows)"
proof -
  let ?ok = "\<lambda>row. row_model row \<noteq> [] \<and>
    judge_row (world_judge W (or_default [] errors)) (world_policy W) ctx row = Inr ()"
  let ?f = "filter (\<lambda>ir. ?ok (snd ir)) (enumerate 0 rows)"
  have "candidates (route (world_judge W (or_default [] errors)) (world_policy W) ctx rows) =
      map candidate_at ?f"
    by (simp add: route_def route_from_spec named_rows_def conj_commute)
  moreover have "find ?ok rows = (case ?f of [] \<Rightarrow> None | x # _ \<Rightarrow> Some (snd x))"
  proof -
    have "find ?ok rows = map_option snd (find (\<lambda>ir. ?ok (snd ir)) (enumerate 0 rows))"
      by (rule find_enumerate[symmetric])
    then show ?thesis by (simp add: find_filter split: list.splits)
  qed
  ultimately show ?thesis
    by (auto simp: resolve_model_config_def candidate_at_def split: list.splits)
qed

end
