(* ===== verification/Job_Model.thy ===== *)
theory Job_Model
  imports Base
begin

text \<open>
  The data model of background jobs (\<open>crates/models/src/agent_job.rs\<close>): the status enum with its
  stored names, the job record, and the order of the coordinator's priority heap.
\<close>

datatype job_status =
    Queued | Running | Completed | Failed | Dead | Parked | Cancelled | DeadLetter

definition all_statuses :: "job_status list" where
  "all_statuses = [Queued, Running, Completed, Failed, Dead, Parked, Cancelled, DeadLetter]"

fun status_display :: "job_status \<Rightarrow> string" where
  "status_display Queued = ''queued''"
| "status_display Running = ''running''"
| "status_display Completed = ''completed''"
| "status_display Failed = ''failed''"
| "status_display Dead = ''dead''"
| "status_display Parked = ''parked''"
| "status_display Cancelled = ''cancelled''"
| "status_display DeadLetter = ''dead_letter''"

definition status_from_str :: "string \<Rightarrow> job_status option" where
  "status_from_str s =
     (if s = ''queued'' then Some Queued
      else if s = ''running'' then Some Running
      else if s = ''completed'' then Some Completed
      else if s = ''failed'' then Some Failed
      else if s = ''dead'' then Some Dead
      else if s = ''parked'' then Some Parked
      else if s = ''cancelled'' then Some Cancelled
      else if s = ''dead_letter'' then Some DeadLetter
      else None)"

lemma status_from_display [simp]: "status_from_str (status_display s) = Some s"
  by (cases s) (simp_all add: status_from_str_def)

lemma status_from_str_Some: "status_from_str t = Some s \<Longrightarrow> t = status_display s"
  by (auto simp: status_from_str_def split: if_splits)

lemma status_display_inj: "inj status_display"
  by (rule injI) (metis option.inject status_from_display)

text \<open>\<open>AgentJob\<close>. Its timestamps are text, as the API carries them.\<close>

record agent_job =
  job_id :: string
  tool_name :: string
  arguments :: "json option"
  priority :: nat
  status :: job_status
  created_at :: string
  updated_at :: string
  started_at :: "string option"
  completed_at :: "string option"
  job_result :: "json option"
  job_error :: "string option"
  attempt_count :: nat
  max_attempts :: nat
  session_id :: "string option"
  parent_job_id :: "string option"
  provider_hint :: "string option"
  context_profile :: "string option"
  prev_result :: "string option"
  prev_result_raw :: "string option"
  progress_percent :: "nat option"
  progress_message :: "string option"
  progress_metadata :: "json option"
  progress_updated_at :: "string option"
  expires_at :: "string option"
  ttl_secs :: "nat option"
  dead_lettered_at :: "string option"
  dead_letter_reason :: "string option"
  job_description :: "string option"
  duration_ms :: "nat option"

subsection \<open>The priority heap\<close>

text \<open>
  \<open>PrioritizedJob\<close> and its \<open>Ord\<close>: a higher priority is greater; within a priority the smaller
  \<open>created_at\<close> text is greater.
\<close>

record prioritized_job =
  pj_priority :: nat
  pj_created_at :: string
  pj_job :: agent_job

datatype ordering = Less | Equal | Greater

definition cmp :: "'a :: linorder \<Rightarrow> 'a \<Rightarrow> ordering" where
  "cmp a b = (if a < b then Less else if a = b then Equal else Greater)"

definition then_with :: "ordering \<Rightarrow> ordering \<Rightarrow> ordering" where
  "then_with a b = (case a of Equal \<Rightarrow> b | _ \<Rightarrow> a)"

definition pj_eq :: "prioritized_job \<Rightarrow> prioritized_job \<Rightarrow> bool" where
  "pj_eq a b \<longleftrightarrow> pj_priority a = pj_priority b \<and> pj_created_at a = pj_created_at b"

definition pj_cmp :: "prioritized_job \<Rightarrow> prioritized_job \<Rightarrow> ordering" where
  "pj_cmp a b =
     then_with (cmp (pj_priority a) (pj_priority b)) (cmp (pj_created_at b) (pj_created_at a))"

definition prioritize :: "agent_job \<Rightarrow> prioritized_job" where
  "prioritize j = \<lparr>pj_priority = priority j, pj_created_at = created_at j, pj_job = j\<rparr>"

lemma prioritize_simps [simp]:
  "pj_priority (prioritize j) = priority j"
  "pj_created_at (prioritize j) = created_at j"
  "pj_job (prioritize j) = j"
  by (simp_all add: prioritize_def)

lemma cmp_simps:
  "cmp a b = Equal \<longleftrightarrow> a = b"
  "cmp a b = Less \<longleftrightarrow> a < b"
  "cmp a b = Greater \<longleftrightarrow> b < a"
  by (auto simp: cmp_def)

lemma pj_cmp_Greater:
  "pj_cmp a b = Greater \<longleftrightarrow>
     pj_priority b < pj_priority a \<or>
     pj_priority a = pj_priority b \<and> pj_created_at a < pj_created_at b"
  by (auto simp: pj_cmp_def then_with_def cmp_def)

lemma pj_cmp_Less:
  "pj_cmp a b = Less \<longleftrightarrow>
     pj_priority a < pj_priority b \<or>
     pj_priority a = pj_priority b \<and> pj_created_at b < pj_created_at a"
  by (auto simp: pj_cmp_def then_with_def cmp_def)

lemma pj_cmp_Equal: "pj_cmp a b = Equal \<longleftrightarrow> pj_eq a b"
  by (auto simp: pj_cmp_def then_with_def cmp_def pj_eq_def)

lemma pj_cmp_antisym: "pj_cmp a b = Less \<longleftrightarrow> pj_cmp b a = Greater"
  by (auto simp: pj_cmp_Less pj_cmp_Greater)

lemma pj_cmp_trans: "pj_cmp a b \<noteq> Less \<Longrightarrow> pj_cmp b c \<noteq> Less \<Longrightarrow> pj_cmp a c \<noteq> Less"
  by (auto simp: pj_cmp_Less)

text \<open>
  The heap is modelled by the list of its entries: \<open>push\<close> adds one, \<open>pop\<close> removes a greatest
  one. \<open>BinaryHeap\<close> leaves open which of several equal entries comes out; here it is the one
  pushed first.
\<close>

type_synonym job_heap = "prioritized_job list"

definition heap_push :: "prioritized_job \<Rightarrow> job_heap \<Rightarrow> job_heap" where
  "heap_push p h = h @ [p]"

fun heap_max :: "prioritized_job \<Rightarrow> job_heap \<Rightarrow> prioritized_job" where
  "heap_max p [] = p"
| "heap_max p (q # qs) = heap_max (if pj_cmp q p = Greater then q else p) qs"

definition heap_pop :: "job_heap \<Rightarrow> (prioritized_job \<times> job_heap) option" where
  "heap_pop h =
     (case h of [] \<Rightarrow> None
      | p # ps \<Rightarrow> (let m = heap_max p ps in Some (m, remove1 m h)))"

lemma heap_max_in: "heap_max p h \<in> insert p (set h)"
  by (induction p h rule: heap_max.induct) (auto split: if_splits)

lemma heap_max_ge: "q \<in> insert p (set h) \<Longrightarrow> pj_cmp (heap_max p h) q \<noteq> Less"
proof (induction p h arbitrary: q rule: heap_max.induct)
  case (1 p)
  then show ?case by (simp add: pj_cmp_Less)
next
  case (2 p x xs)
  let ?m = "if pj_cmp x p = Greater then x else p"
  have "pj_cmp ?m p \<noteq> Less" "pj_cmp ?m x \<noteq> Less"
    by (auto simp: pj_cmp_Less pj_cmp_Greater)
  moreover have IH: "pj_cmp (heap_max ?m xs) r \<noteq> Less" if "r \<in> insert ?m (set xs)" for r
    using that by (rule "2.IH")
  moreover have "q = p \<or> q = x \<or> q \<in> set xs"
    using "2.prems" by simp
  ultimately have "pj_cmp (heap_max ?m xs) q \<noteq> Less"
    by (metis insertI1 insertI2 pj_cmp_trans)
  then show ?case by simp
qed

lemma heap_pop_None [simp]: "heap_pop h = None \<longleftrightarrow> h = []"
  by (auto simp: heap_pop_def Let_def split: list.splits)

lemma heap_pop_Some:
  assumes "heap_pop h = Some (p, h')"
  shows "p \<in> set h" and "h' = remove1 p h" and "\<And>q. q \<in> set h \<Longrightarrow> pj_cmp p q \<noteq> Less"
  using assms heap_max_in heap_max_ge
  by (force simp: heap_pop_def Let_def split: list.splits)+

lemma heap_pop_length: "heap_pop h = Some (p, h') \<Longrightarrow> length h = Suc (length h')"
  using heap_pop_Some(1,2)[of h p h'] length_pos_if_in_set[of p h] by (simp add: length_remove1)

end
