(* ===== verification/Db.thy ===== *)
theory Db
  imports Job_Model
begin

text \<open>
  The part of the Neo4j graph that the queue keeps its state in: the \<open>AgentJob\<close> nodes, the
  \<open>Task\<close> nodes that own chains, the workflows, the notes and the notifications. A node carries the properties
  the queries of \<open>crates/repository/src/agent_job.rs\<close> write; a property that was never set is
  the empty text or \<open>None\<close>, which is what the reads turn it into. The queries themselves are the
  program's and are modelled in \<open>Job_Store\<close> and \<open>Task_Store\<close>.

  The database can refuse any query. \<open>faults\<close> says, query by query, which ones fail and with
  what message; an exhausted list means that no later query fails. A refused query changes
  nothing. The status property is the enum whose \<open>Display\<close> the queries write
  (\<open>Job_Model.status_from_display\<close>).
\<close>

record job_node =
  nd_id :: string
  nd_tool_name :: string
  nd_args_json :: string
  nd_priority :: nat
  nd_status :: job_status
  nd_created_at :: instant
  nd_updated_at :: instant
  nd_started_at :: "instant option"
  nd_completed_at :: "instant option"
  nd_result_json :: string
  nd_error :: "string option"
  nd_attempt_count :: nat
  nd_max_attempts :: nat
  nd_session_id :: string
  nd_parent_job_id :: string
  nd_provider_hint :: string
  nd_context_profile :: string
  nd_prev_result_json :: string
  nd_prev_result_raw_json :: string
  nd_progress_percent :: "nat option"
  nd_progress_message :: "string option"
  nd_progress_metadata :: string
  nd_progress_updated_at :: "instant option"
  nd_expires_at :: "instant option"
  nd_ttl_secs :: nat
  nd_dead_lettered_at :: "instant option"
  nd_dead_letter_reason :: string
  nd_description :: string
  nd_duration_ms :: "nat option"

datatype task_status = TCreated | TInProgress | TCompleted | TFailed | TBlocked

record task_node =
  tk_id :: string
  tk_goal :: string
  tk_context :: "string option"
  tk_success_criteria :: "string option"
  tk_workflow :: "string option"
  tk_inputs_json :: "string option"
  tk_status :: task_status
  tk_created_at :: instant
  tk_updated_at :: instant

text \<open>\<open>Workflow\<close> and \<open>WorkflowInput\<close>. The steps are JSON text.\<close>

record workflow_input =
  wi_name :: string
  wi_description :: "string option"
  wi_required :: bool

record workflow =
  wf_id :: string
  wf_name :: string
  wf_description :: "string option"
  wf_enabled :: bool
  wf_interval_seconds :: "int option"
  wf_steps :: string
  wf_inputs :: "workflow_input list"
  wf_checks :: "string list"
  wf_evaluation_rubric :: "string option"
  wf_is_default :: bool
  wf_last_run_at :: "string option"
  wf_next_run_at :: "string option"
  wf_created_at :: string
  wf_updated_at :: string
  wf_managed_by :: "string option"
  wf_paused_reason :: "string option"
  wf_topic :: "string option"
  wf_kind :: "string option"
  wf_version :: int
  wf_plugin :: "string option"
  wf_unavailable :: "string option"

record note_node =
  note_content :: string
  note_type :: string
  note_source_context :: string
  note_created_at :: instant

record notification_node =
  nf_message :: string
  nf_context :: string
  nf_created_at :: instant

record db =
  jobs :: "job_node list"
  tasks :: "task_node list"
  note_nodes :: "note_node list"
  notifications :: "notification_node list"
  workflows :: "workflow list"
  faults :: "string option list"

text \<open>\<open>RepositoryError\<close> and its \<open>Display\<close>.\<close>

datatype repository_error =
    Neo4jError string
  | NotFound string string
  | SerializationError string
  | InvalidData string

fun repository_error_display :: "repository_error \<Rightarrow> string" where
  "repository_error_display (Neo4jError e) = ''Neo4j error: '' @ e"
| "repository_error_display (NotFound entity i) =
     ''Entity not found: '' @ entity @ '' with id '' @ i"
| "repository_error_display (SerializationError e) = ''Serialization error: '' @ e"
| "repository_error_display (InvalidData e) = ''Invalid data: '' @ e"

type_synonym 'a answer = "repository_error + 'a"

text \<open>One query: it fails with the next fault, or runs on the graph.\<close>

definition run_query :: "(db \<Rightarrow> 'a \<times> db) \<Rightarrow> db \<Rightarrow> 'a answer \<times> db" where
  "run_query q d =
     (case faults d of
        [] \<Rightarrow> (case q d of (a, d') \<Rightarrow> (Inr a, d'))
      | Some e # fs \<Rightarrow> (Inl (Neo4jError e), d\<lparr>faults := fs\<rparr>)
      | None # fs \<Rightarrow> (case q (d\<lparr>faults := fs\<rparr>) of (a, d') \<Rightarrow> (Inr a, d')))"

text \<open>A query that updates the jobs a guard selects and returns how many there were.\<close>

definition set_where ::
  "(job_node \<Rightarrow> bool) \<Rightarrow> (job_node \<Rightarrow> job_node) \<Rightarrow> db \<Rightarrow> nat \<times> db" where
  "set_where P f d = (count_where P (jobs d), d\<lparr>jobs := update_where P f (jobs d)\<rparr>)"

definition delete_where :: "(job_node \<Rightarrow> bool) \<Rightarrow> db \<Rightarrow> nat \<times> db" where
  "delete_where P d =
     (count_where P (jobs d), d\<lparr>jobs := filter (\<lambda>j. \<not> P j) (jobs d)\<rparr>)"

definition read_only :: "(db \<Rightarrow> 'a) \<Rightarrow> db \<Rightarrow> 'a \<times> db" where
  "read_only f d = (f d, d)"

text \<open>What an answered or refused query does to the jobs, for any schedule of faults.\<close>

definition next_fault :: "db \<Rightarrow> string option" where
  "next_fault d = (case faults d of [] \<Rightarrow> None | f # _ \<Rightarrow> f)"

definition used_fault :: "db \<Rightarrow> db" where
  "used_fault d = d\<lparr>faults := tl (faults d)\<rparr>"

lemma used_fault_simps [simp]:
  "jobs (used_fault d) = jobs d"
  "tasks (used_fault d) = tasks d"
  "note_nodes (used_fault d) = note_nodes d"
  "notifications (used_fault d) = notifications d"
  "workflows (used_fault d) = workflows d"
  "faults (used_fault d) = tl (faults d)"
  by (simp_all add: used_fault_def)

lemma run_query_cases:
  obtains (refused) e where "run_query q d = (Inl (Neo4jError e), used_fault d)" "next_fault d = Some e"
  | (answered) "run_query q d = (Inr (fst (q (used_fault d))), snd (q (used_fault d)))" "next_fault d = None"
proof (cases "faults d")
  case Nil
  then have self: "used_fault d = d" by (simp add: used_fault_def)
  from Nil show ?thesis
    by (intro answered) (simp_all add: self run_query_def next_fault_def split_beta)
next
  case (Cons f fs)
  then show ?thesis
    using refused answered
    by (cases f; cases "q (used_fault d)")
      (simp_all add: run_query_def used_fault_def next_fault_def)
qed

lemma run_query_jobs:
  "jobs (snd (run_query q d)) = jobs d \<or>
   jobs (snd (run_query q d)) = jobs (snd (q (used_fault d)))"
  by (cases q d rule: run_query_cases) auto

lemma run_query_ok:
  "next_fault d = None \<Longrightarrow>
     run_query q d = (Inr (fst (q (used_fault d))), snd (q (used_fault d)))"
  by (cases q d rule: run_query_cases) auto

lemma next_fault_Nil [simp]: "faults d = [] \<Longrightarrow> next_fault d = None"
  by (simp add: next_fault_def)

lemma used_fault_Nil [simp]: "faults d = [] \<Longrightarrow> used_fault d = d"
  by (simp add: used_fault_def)

lemma run_query_Nil [simp]:
  "faults d = [] \<Longrightarrow> run_query q d = (Inr (fst (q d)), snd (q d))"
  by (simp add: run_query_ok)

lemma set_where_simps [simp]:
  "fst (set_where P f d) = count_where P (jobs d)"
  "jobs (snd (set_where P f d)) = update_where P f (jobs d)"
  "tasks (snd (set_where P f d)) = tasks d"
  "note_nodes (snd (set_where P f d)) = note_nodes d"
  "notifications (snd (set_where P f d)) = notifications d"
  "workflows (snd (set_where P f d)) = workflows d"
  "faults (snd (set_where P f d)) = faults d"
  by (simp_all add: set_where_def)

lemma delete_where_simps [simp]:
  "fst (delete_where P d) = count_where P (jobs d)"
  "jobs (snd (delete_where P d)) = filter (\<lambda>j. \<not> P j) (jobs d)"
  "tasks (snd (delete_where P d)) = tasks d"
  "faults (snd (delete_where P d)) = faults d"
  by (simp_all add: delete_where_def)

lemma read_only_simps [simp]:
  "fst (read_only f d) = f d"
  "snd (read_only f d) = d"
  by (simp_all add: read_only_def)

end
