(* ===== verification/Job_Store.thy ===== *)
theory Job_Store
  imports Db "HOL-Library.Multiset"
begin

text \<open>
  The queries of \<open>crates/repository/src/agent_job.rs\<close>: one definition per method of
  \<open>Neo4jClient\<close>, over the graph of \<open>Db\<close>. Each takes the clock \<open>now\<close>; the fresh UUID of a created
  job is an argument, as is every function of \<open>chrono\<close> and \<open>serde_json\<close>.

  A query matches on the state the graph has when it starts (Cypher's eager matching), so one
  pass over parked jobs cancels one generation of a chain.
\<close>

record job_spec =
  js_tool_name :: string
  js_arguments :: "json option"
  js_priority :: nat
  js_max_attempts :: nat
  js_session_id :: "string option"
  js_parent_job_id :: "string option"
  js_provider_hint :: "string option"
  js_context_profile :: "string option"
  js_description :: "string option"
  js_ttl_secs :: "nat option"

text \<open>The date of expiry: \<open>chrono\<close> panics on a \<open>ttl_secs\<close> that takes it past the last date it has, some 260000
  years ahead; here dates have no end.\<close>

definition new_job_node ::
  "serde \<Rightarrow> instant \<Rightarrow> string \<Rightarrow> job_status \<Rightarrow> job_spec \<Rightarrow> job_node" where
  "new_job_node S now uid st a =
     \<lparr>nd_id = uid, nd_tool_name = js_tool_name a,
      nd_args_json = (case js_arguments a of Some v \<Rightarrow> to_str S v | None \<Rightarrow> []),
      nd_priority = js_priority a, nd_status = st,
      nd_created_at = now, nd_updated_at = now,
      nd_started_at = None, nd_completed_at = None, nd_result_json = [], nd_error = None,
      nd_attempt_count = 0, nd_max_attempts = js_max_attempts a,
      nd_session_id = or_empty (js_session_id a),
      nd_parent_job_id = or_empty (js_parent_job_id a),
      nd_provider_hint = or_empty (js_provider_hint a),
      nd_context_profile = or_empty (js_context_profile a),
      nd_prev_result_json = [], nd_prev_result_raw_json = [],
      nd_progress_percent = None, nd_progress_message = None,
      nd_progress_metadata = [], nd_progress_updated_at = None,
      nd_expires_at = map_option (\<lambda>s. now + seconds (int s)) (js_ttl_secs a),
      nd_ttl_secs = (case js_ttl_secs a of Some s \<Rightarrow> s | None \<Rightarrow> 0),
      nd_dead_lettered_at = None, nd_dead_letter_reason = [],
      nd_description = or_empty (js_description a), nd_duration_ms = None\<rparr>"

definition insert_job :: "job_node \<Rightarrow> db \<Rightarrow> unit \<times> db" where
  "insert_job j d = ((), d\<lparr>jobs := jobs d @ [j]\<rparr>)"

subsection \<open>Reading a node\<close>

definition node_ts :: "chrono \<Rightarrow> instant option \<Rightarrow> string option" where
  "node_ts C t = map_option (to_rfc3339 C) t"

definition parse_nonempty :: "serde \<Rightarrow> string \<Rightarrow> json option" where
  "parse_nonempty S s = (if s = [] then None else from_str S s)"

definition node_to_agent_job :: "chrono \<Rightarrow> serde \<Rightarrow> job_node \<Rightarrow> agent_job" where
  "node_to_agent_job C S n =
     \<lparr>job_id = nd_id n, tool_name = nd_tool_name n,
      arguments = parse_nonempty S (nd_args_json n),
      priority = nd_priority n, status = nd_status n,
      created_at = or_empty (node_ts C (Some (nd_created_at n))),
      updated_at = or_empty (node_ts C (Some (nd_updated_at n))),
      started_at = node_ts C (nd_started_at n), completed_at = node_ts C (nd_completed_at n),
      job_result = parse_nonempty S (nd_result_json n), job_error = nd_error n,
      attempt_count = nd_attempt_count n, max_attempts = nd_max_attempts n,
      session_id = opt_nonempty (nd_session_id n),
      parent_job_id = opt_nonempty (nd_parent_job_id n),
      provider_hint = opt_nonempty (nd_provider_hint n),
      context_profile = opt_nonempty (nd_context_profile n),
      prev_result = opt_nonempty (nd_prev_result_json n),
      prev_result_raw = opt_nonempty (nd_prev_result_raw_json n),
      progress_percent = nd_progress_percent n, progress_message = nd_progress_message n,
      progress_metadata = parse_nonempty S (nd_progress_metadata n),
      progress_updated_at = node_ts C (nd_progress_updated_at n),
      expires_at = node_ts C (nd_expires_at n),
      ttl_secs = (if nd_ttl_secs n = 0 then None else Some (nd_ttl_secs n)),
      dead_lettered_at = node_ts C (nd_dead_lettered_at n),
      dead_letter_reason = opt_nonempty (nd_dead_letter_reason n),
      job_description = opt_nonempty (nd_description n), duration_ms = nd_duration_ms n\<rparr>"

subsection \<open>Creating and reading jobs\<close>

definition create_agent_job ::
  "chrono \<Rightarrow> serde \<Rightarrow> instant \<Rightarrow> string \<Rightarrow> job_spec \<Rightarrow> db \<Rightarrow> agent_job answer \<times> db" where
  "create_agent_job C S now uid a d =
     (let n = new_job_node S now uid Queued a in
      case run_query (insert_job n) d of
        (Inl e, d') \<Rightarrow> (Inl e, d')
      | (Inr _, d') \<Rightarrow> (Inr (node_to_agent_job C S n), d'))"

definition create_agent_job_parked ::
  "serde \<Rightarrow> instant \<Rightarrow> string \<Rightarrow> job_spec \<Rightarrow> db \<Rightarrow> string answer \<times> db" where
  "create_agent_job_parked S now uid a d =
     (case run_query (insert_job (new_job_node S now uid Parked a)) d of
        (Inl e, d') \<Rightarrow> (Inl e, d')
      | (Inr _, d') \<Rightarrow> (Inr uid, d'))"

definition get_agent_job ::
  "chrono \<Rightarrow> serde \<Rightarrow> string \<Rightarrow> db \<Rightarrow> agent_job option answer \<times> db" where
  "get_agent_job C S i d =
     run_query (read_only (\<lambda>g. map_option (node_to_agent_job C S)
       (find (\<lambda>j. nd_id j = i) (jobs g)))) d"

text \<open>\<open>ORDER BY j.priority DESC, j.created_at ASC\<close>; the sort is stable.\<close>

definition queued_order :: "job_node \<Rightarrow> int \<times> instant" where
  "queued_order j = (- int (nd_priority j), nd_created_at j)"

definition before_or_same :: "int \<times> instant \<Rightarrow> int \<times> instant \<Rightarrow> bool" where
  "before_or_same a b \<longleftrightarrow> fst a < fst b \<or> fst a = fst b \<and> snd a \<le> snd b"

fun insert_ordered :: "job_node \<Rightarrow> job_node list \<Rightarrow> job_node list" where
  "insert_ordered x [] = [x]"
| "insert_ordered x (y # ys) =
     (if before_or_same (queued_order x) (queued_order y) then x # y # ys
      else y # insert_ordered x ys)"

definition sort_queued :: "job_node list \<Rightarrow> job_node list" where
  "sort_queued xs = foldr insert_ordered xs []"

definition list_queued_agent_jobs ::
  "chrono \<Rightarrow> serde \<Rightarrow> db \<Rightarrow> agent_job list answer \<times> db" where
  "list_queued_agent_jobs C S d =
     run_query (read_only (\<lambda>g. map (node_to_agent_job C S)
       (sort_queued (filter (\<lambda>j. nd_status j = Queued) (jobs g))))) d"

lemma set_insert_ordered [simp]: "set (insert_ordered x xs) = insert x (set xs)"
  by (induction xs) auto

lemma set_sort_queued [simp]: "set (sort_queued xs) = set xs"
  by (induction xs) (simp_all add: sort_queued_def)

subsection \<open>Status-guarded writes\<close>

text \<open>\<open>count_updated\<close>: whether the guarded write hit any node.\<close>

definition count_updated ::
  "(job_node \<Rightarrow> bool) \<Rightarrow> (job_node \<Rightarrow> job_node) \<Rightarrow> db \<Rightarrow> bool answer \<times> db" where
  "count_updated P f d =
     (case run_query (set_where P f) d of
        (Inl e, d') \<Rightarrow> (Inl e, d')
      | (Inr n, d') \<Rightarrow> (Inr (0 < n), d'))"

lemma count_updated_cases:
  obtains (refused) e where "count_updated P f d = (Inl (Neo4jError e), used_fault d)" "next_fault d = Some e"
  | (answered) "count_updated P f d =
        (Inr (0 < count_where P (jobs d)), (used_fault d)\<lparr>jobs := update_where P f (jobs d)\<rparr>)"
      "next_fault d = None"
  by (cases "set_where P f" d rule: run_query_cases)
    (simp_all add: count_updated_def set_where_def)

definition set_job_started :: "instant \<Rightarrow> string \<Rightarrow> db \<Rightarrow> bool answer \<times> db" where
  "set_job_started now i =
     count_updated (\<lambda>j. nd_id j = i \<and> nd_status j = Queued)
       (\<lambda>j. j\<lparr>nd_status := Running, nd_started_at := Some now, nd_updated_at := now,
             nd_attempt_count := nd_attempt_count j + 1\<rparr>)"

definition set_job_completed :: "instant \<Rightarrow> string \<Rightarrow> string \<Rightarrow> db \<Rightarrow> bool answer \<times> db" where
  "set_job_completed now i res =
     count_updated (\<lambda>j. nd_id j = i \<and> nd_status j = Running)
       (\<lambda>j. j\<lparr>nd_status := Completed, nd_completed_at := Some now, nd_updated_at := now,
             nd_result_json := res,
             nd_duration_ms := map_option (\<lambda>s. nat ((now - s) div 1000000)) (nd_started_at j)\<rparr>)"

definition set_job_skipped :: "instant \<Rightarrow> string \<Rightarrow> string \<Rightarrow> db \<Rightarrow> bool answer \<times> db" where
  "set_job_skipped now i reason =
     count_updated (\<lambda>j. nd_id j = i \<and> nd_status j = Running)
       (\<lambda>j. j\<lparr>nd_status := Cancelled, nd_completed_at := Some now, nd_updated_at := now,
             nd_error := Some reason\<rparr>)"

definition requeue_for_retry :: "instant \<Rightarrow> string \<Rightarrow> string \<Rightarrow> db \<Rightarrow> bool answer \<times> db" where
  "requeue_for_retry now i err =
     count_updated (\<lambda>j. nd_id j = i \<and> nd_status j = Running)
       (\<lambda>j. j\<lparr>nd_status := Queued, nd_updated_at := now, nd_error := Some err\<rparr>)"

definition set_job_failed :: "instant \<Rightarrow> string \<Rightarrow> string \<Rightarrow> db \<Rightarrow> bool answer \<times> db" where
  "set_job_failed now i err =
     count_updated (\<lambda>j. nd_id j = i \<and> nd_status j = Running)
       (\<lambda>j. j\<lparr>nd_status := Failed, nd_completed_at := Some now, nd_updated_at := now,
             nd_error := Some err\<rparr>)"

definition set_job_dead :: "instant \<Rightarrow> string \<Rightarrow> string \<Rightarrow> db \<Rightarrow> bool answer \<times> db" where
  "set_job_dead now i err =
     count_updated (\<lambda>j. nd_id j = i \<and> nd_status j = Running)
       (\<lambda>j. j\<lparr>nd_status := DeadLetter, nd_completed_at := Some now, nd_updated_at := now,
             nd_error := Some err, nd_dead_lettered_at := Some now,
             nd_dead_letter_reason := err\<rparr>)"

definition retry_dead_letter :: "instant \<Rightarrow> string \<Rightarrow> db \<Rightarrow> bool answer \<times> db" where
  "retry_dead_letter now i =
     count_updated (\<lambda>j. nd_id j = i \<and> nd_status j = DeadLetter)
       (\<lambda>j. j\<lparr>nd_status := Queued, nd_updated_at := now, nd_error := None,
             nd_attempt_count := 0, nd_dead_lettered_at := None, nd_dead_letter_reason := []\<rparr>)"

definition delete_dead_letter :: "string \<Rightarrow> db \<Rightarrow> bool answer \<times> db" where
  "delete_dead_letter i d =
     (case run_query (delete_where (\<lambda>j. nd_id j = i \<and> nd_status j = DeadLetter)) d of
        (Inl e, d') \<Rightarrow> (Inl e, d')
      | (Inr n, d') \<Rightarrow> (Inr (0 < n), d'))"

text \<open>The unguarded writes: whatever the job's status was.\<close>

definition update_agent_job_status ::
  "instant \<Rightarrow> string \<Rightarrow> job_status \<Rightarrow> db \<Rightarrow> unit answer \<times> db" where
  "update_agent_job_status now i st d =
     (case run_query (set_where (\<lambda>j. nd_id j = i)
             (\<lambda>j. j\<lparr>nd_status := st, nd_updated_at := now\<rparr>)) d of
        (Inl e, d') \<Rightarrow> (Inl e, d')
      | (Inr _, d') \<Rightarrow> (Inr (), d'))"

definition retry_agent_job :: "instant \<Rightarrow> string \<Rightarrow> db \<Rightarrow> unit answer \<times> db" where
  "retry_agent_job now i d =
     (case run_query (set_where (\<lambda>j. nd_id j = i)
             (\<lambda>j. j\<lparr>nd_status := Queued, nd_updated_at := now, nd_error := None,
                   nd_attempt_count := 0\<rparr>)) d of
        (Inl e, d') \<Rightarrow> (Inl e, d')
      | (Inr _, d') \<Rightarrow> (Inr (), d'))"

subsection \<open>Recovery, expiry and cleanup\<close>

definition exhausted_error :: "job_node \<Rightarrow> string" where
  "exhausted_error j =
     ''Exhausted '' @ show_nat (nd_max_attempts j) @ '' attempts ('' @
     show_nat (nd_attempt_count j) @
     '' recorded) and was still running at startup '' @ em_dash @
     '' dead-lettered by recovery instead of being requeued.''"

definition recovered :: "instant \<Rightarrow> job_node \<Rightarrow> job_node" where
  "recovered now j =
     (if nd_max_attempts j \<le> nd_attempt_count j
      then j\<lparr>nd_status := Dead, nd_error := Some (exhausted_error j), nd_updated_at := now\<rparr>
      else j\<lparr>nd_status := Queued, nd_updated_at := now\<rparr>)"

definition reset_running_agent_jobs :: "instant \<Rightarrow> db \<Rightarrow> nat answer \<times> db" where
  "reset_running_agent_jobs now =
     run_query (\<lambda>d.
       (count_where (\<lambda>j. nd_status j = Running \<and> nd_attempt_count j < nd_max_attempts j) (jobs d),
        snd (set_where (\<lambda>j. nd_status j = Running) (recovered now) d)))"

definition expire_jobs :: "instant \<Rightarrow> db \<Rightarrow> nat answer \<times> db" where
  "expire_jobs now =
     run_query (set_where
       (\<lambda>j. (case nd_expires_at j of Some t \<Rightarrow> t \<le> now | None \<Rightarrow> False) \<and>
             nd_status j \<in> {Queued, Running, Parked})
       (\<lambda>j. j\<lparr>nd_status := Cancelled, nd_updated_at := now,
             nd_error := Some ''Job expired: TTL reached''\<rparr>))"

definition at_or_before :: "instant option \<Rightarrow> instant \<Rightarrow> bool" where
  "at_or_before t cutoff = (case t of Some x \<Rightarrow> x \<le> cutoff | None \<Rightarrow> False)"

definition cleanup_completed :: "instant \<Rightarrow> job_node \<Rightarrow> bool" where
  "cleanup_completed cutoff j \<longleftrightarrow>
     nd_status j = Completed \<and> at_or_before (nd_completed_at j) cutoff"

definition cleanup_dead :: "instant \<Rightarrow> job_node \<Rightarrow> bool" where
  "cleanup_dead cutoff j \<longleftrightarrow> nd_status j = Dead \<and> at_or_before (nd_completed_at j) cutoff"

definition cleanup_cancelled :: "instant \<Rightarrow> job_node \<Rightarrow> bool" where
  "cleanup_cancelled cutoff j \<longleftrightarrow> nd_status j = Cancelled \<and> nd_updated_at j \<le> cutoff"

definition cleanup_failed :: "instant \<Rightarrow> job_node \<Rightarrow> bool" where
  "cleanup_failed cutoff j \<longleftrightarrow>
     nd_status j = Failed \<and>
     (case nd_completed_at j of Some t \<Rightarrow> t | None \<Rightarrow> nd_updated_at j) \<le> cutoff"

text \<open>Runs deletes one after another; the first refused one ends the cleanup.\<close>

fun delete_all :: "(job_node \<Rightarrow> bool) list \<Rightarrow> db \<Rightarrow> nat answer \<times> db" where
  "delete_all [] d = (Inr 0, d)"
| "delete_all (P # Ps) d =
     (case run_query (delete_where P) d of
        (Inl e, d') \<Rightarrow> (Inl e, d')
      | (Inr n, d') \<Rightarrow>
          (case delete_all Ps d' of
             (Inl e, d'') \<Rightarrow> (Inl e, d'')
           | (Inr m, d'') \<Rightarrow> (Inr (n + m), d'')))"

definition cleanup_old_jobs :: "instant \<Rightarrow> nat \<Rightarrow> nat \<Rightarrow> db \<Rightarrow> nat answer \<times> db" where
  "cleanup_old_jobs now completed_retention_secs dead_retention_secs =
     (let completed_cutoff = now - seconds (int completed_retention_secs);
          dead_cutoff = now - seconds (int dead_retention_secs)
      in delete_all
           [cleanup_completed completed_cutoff, cleanup_dead dead_cutoff,
            cleanup_cancelled completed_cutoff, cleanup_failed dead_cutoff])"

definition cleanup_old_dead_letter :: "instant \<Rightarrow> nat \<Rightarrow> db \<Rightarrow> nat answer \<times> db" where
  "cleanup_old_dead_letter now retention_secs =
     run_query (delete_where
       (\<lambda>j. nd_status j = DeadLetter \<and>
             at_or_before (nd_dead_lettered_at j) (now - seconds (int retention_secs))))"

subsection \<open>Chains\<close>

definition unpark_children ::
  "chrono \<Rightarrow> serde \<Rightarrow> instant \<Rightarrow> string \<Rightarrow> string \<Rightarrow> string \<Rightarrow> db
     \<Rightarrow> agent_job list answer \<times> db" where
  "unpark_children C S now parent prev raw =
     (let P = (\<lambda>j. nd_parent_job_id j = parent \<and> nd_status j = Parked);
          f = (\<lambda>j. j\<lparr>nd_status := Queued, nd_updated_at := now,
                     nd_prev_result_json := prev, nd_prev_result_raw_json := raw\<rparr>)
      in run_query (\<lambda>d. (map (\<lambda>j. node_to_agent_job C S (f j)) (filter P (jobs d)),
                           snd (set_where P f d))))"

definition terminal_parent :: "job_status \<Rightarrow> bool" where
  "terminal_parent s \<longleftrightarrow> s \<in> {Cancelled, Dead, DeadLetter}"

text \<open>A parked job whose parent is gone or terminal.\<close>

definition orphaned :: "job_node list \<Rightarrow> job_node \<Rightarrow> bool" where
  "orphaned js child \<longleftrightarrow>
     nd_status child = Parked \<and> nd_parent_job_id child \<noteq> [] \<and>
     (let parents = filter (\<lambda>p. nd_id p = nd_parent_job_id child) js
      in parents = [] \<or> list_ex (\<lambda>p. terminal_parent (nd_status p)) parents)"

definition cancel_orphaned_parked_jobs :: "instant \<Rightarrow> db \<Rightarrow> nat answer \<times> db" where
  "cancel_orphaned_parked_jobs now =
     run_query (\<lambda>d. set_where (orphaned (jobs d))
       (\<lambda>j. j\<lparr>nd_status := Cancelled, nd_updated_at := now\<rparr>) d)"

text \<open>\<open>cancel_parked_children\<close>: one generation per query, at most 64 of them.\<close>

definition cancel_generation ::
  "instant \<Rightarrow> string list \<Rightarrow> db \<Rightarrow> string list answer \<times> db" where
  "cancel_generation now frontier =
     (let P = (\<lambda>j. nd_status j = Parked \<and> nd_parent_job_id j \<in> set frontier)
      in run_query (\<lambda>d. (map nd_id (filter P (jobs d)),
           snd (set_where P (\<lambda>j. j\<lparr>nd_status := Cancelled, nd_updated_at := now\<rparr>) d))))"

fun cancel_generations ::
  "nat \<Rightarrow> instant \<Rightarrow> string list \<Rightarrow> nat \<Rightarrow> db \<Rightarrow> nat answer \<times> db" where
  "cancel_generations 0 now frontier done_so_far d = (Inr done_so_far, d)"
| "cancel_generations (Suc n) now frontier done_so_far d =
     (if frontier = [] then (Inr done_so_far, d)
      else (case cancel_generation now frontier d of
              (Inl e, d') \<Rightarrow> (Inl e, d')
            | (Inr ids, d') \<Rightarrow> cancel_generations n now ids (done_so_far + length ids) d'))"

definition cancel_parked_children :: "instant \<Rightarrow> string \<Rightarrow> db \<Rightarrow> nat answer \<times> db" where
  "cancel_parked_children now parent d = cancel_generations 64 now [parent] 0 d"

subsection \<open>The contract of the guarded writes\<close>

text \<open>
  Every guarded write moves one job from the statuses it accepts to another status, keeps what
  identifies the job, and cannot hit the job it has just moved.
\<close>

locale guarded_write =
  fixes op :: "string \<Rightarrow> db \<Rightarrow> bool answer \<times> db"
    and accepts :: job_status
    and yields :: job_status
    and upd :: "job_node \<Rightarrow> job_node"
  assumes op_def: "op i = count_updated (\<lambda>j. nd_id j = i \<and> nd_status j = accepts) upd"
    and upd_id: "nd_id (upd j) = nd_id j"
    and upd_parent: "nd_parent_job_id (upd j) = nd_parent_job_id j"
    and upd_cap: "nd_max_attempts (upd j) = nd_max_attempts j"
    and upd_status: "nd_status (upd j) = yields"
    and moves: "accepts \<noteq> yields"
begin

lemma hit:
  assumes "op i d = (Inr True, d')"
  shows "\<exists>j \<in> set (jobs d). nd_id j = i \<and> nd_status j = accepts"
    and "jobs d' = update_where (\<lambda>j. nd_id j = i \<and> nd_status j = accepts) upd (jobs d)"
  using assms
  by (cases "\<lambda>j :: job_node. nd_id j = i \<and> nd_status j = accepts" upd d rule: count_updated_cases;
      force simp: op_def count_where_pos)+

lemma miss: "fst (op i d) \<noteq> Inr True \<Longrightarrow> jobs (snd (op i d)) = jobs d"
  by (cases "\<lambda>j :: job_node. nd_id j = i \<and> nd_status j = accepts" upd d rule: count_updated_cases)
    (simp_all add: op_def update_where_none)

lemma cases_jobs:
  obtains "jobs (snd (op i d)) = jobs d"
  | "jobs (snd (op i d)) = update_where (\<lambda>j. nd_id j = i \<and> nd_status j = accepts) upd (jobs d)"
  using hit(2)[of i d] miss[of i d] by (metis prod.exhaust_sel)

lemma other_jobs: "j \<in> set (jobs d) \<Longrightarrow> nd_id j \<noteq> i \<or> nd_status j \<noteq> accepts \<Longrightarrow> j \<in> set (jobs (snd (op i d)))"
  by (rule cases_jobs[of i d]) (auto intro: in_update_where_keep)

lemma ids_kept: "map nd_id (jobs (snd (op i d))) = map nd_id (jobs d)"
  by (rule cases_jobs[of i d]) (simp_all add: map_update_where upd_id)

text \<open>The write is a compare-and-set: of two in a row on one job at most one succeeds.\<close>

lemma once: "op i d = (Inr True, d') \<Longrightarrow> fst (op i d') \<noteq> Inr True"
proof
  assume h: "op i d = (Inr True, d')" and again: "fst (op i d') = Inr True"
  from again obtain d'' where "op i d' = (Inr True, d'')" by (cases "op i d'") auto
  then obtain j where "j \<in> set (jobs d')" "nd_id j = i" "nd_status j = accepts"
    using hit(1) by blast
  then show False
    using hit(2)[OF h] moves by (auto simp: update_where_def upd_status split: if_splits)
qed

end

interpretation started: guarded_write "set_job_started now" Queued Running
    "\<lambda>j. j\<lparr>nd_status := Running, nd_started_at := Some now, nd_updated_at := now,
         nd_attempt_count := nd_attempt_count j + 1\<rparr>" for now
  by unfold_locales (simp_all add: set_job_started_def)

interpretation completed: guarded_write "\<lambda>i. set_job_completed now i res" Running Completed
    "\<lambda>j. j\<lparr>nd_status := Completed, nd_completed_at := Some now, nd_updated_at := now,
         nd_result_json := res,
         nd_duration_ms := map_option (\<lambda>s. nat ((now - s) div 1000000)) (nd_started_at j)\<rparr>"
    for now res
  by unfold_locales (simp_all add: set_job_completed_def)

interpretation skipped: guarded_write "\<lambda>i. set_job_skipped now i reason" Running Cancelled
    "\<lambda>j. j\<lparr>nd_status := Cancelled, nd_completed_at := Some now, nd_updated_at := now,
         nd_error := Some reason\<rparr>" for now reason
  by unfold_locales (simp_all add: set_job_skipped_def)

interpretation requeued: guarded_write "\<lambda>i. requeue_for_retry now i err" Running Queued
    "\<lambda>j. j\<lparr>nd_status := Queued, nd_updated_at := now, nd_error := Some err\<rparr>" for now err
  by unfold_locales (simp_all add: requeue_for_retry_def)

interpretation failed: guarded_write "\<lambda>i. set_job_failed now i err" Running Failed
    "\<lambda>j. j\<lparr>nd_status := Failed, nd_completed_at := Some now, nd_updated_at := now,
         nd_error := Some err\<rparr>" for now err
  by unfold_locales (simp_all add: set_job_failed_def)

interpretation dead: guarded_write "\<lambda>i. set_job_dead now i err" Running DeadLetter
    "\<lambda>j. j\<lparr>nd_status := DeadLetter, nd_completed_at := Some now, nd_updated_at := now,
         nd_error := Some err, nd_dead_lettered_at := Some now,
         nd_dead_letter_reason := err\<rparr>" for now err
  by unfold_locales (simp_all add: set_job_dead_def)

interpretation revived: guarded_write "retry_dead_letter now" DeadLetter Queued
    "\<lambda>j. j\<lparr>nd_status := Queued, nd_updated_at := now, nd_error := None,
         nd_attempt_count := 0, nd_dead_lettered_at := None, nd_dead_letter_reason := []\<rparr>" for now
  by unfold_locales (simp_all add: retry_dead_letter_def)

subsection \<open>A created job reads back\<close>

text \<open>What is relied on of \<open>serde_json\<close>: printing a value and parsing it gives the value, and it
  does not print as nothing.\<close>

definition serde_roundtrip :: "serde \<Rightarrow> json \<Rightarrow> bool" where
  "serde_roundtrip S v \<longleftrightarrow> from_str S (to_str S v) = Some v \<and> to_str S v \<noteq> []"

lemma node_to_agent_job_new [simp]:
  "pred_option (serde_roundtrip S) (js_arguments a) \<Longrightarrow> arguments (node_to_agent_job C S (new_job_node S now uid st a)) = js_arguments a"
  by (auto simp: node_to_agent_job_def new_job_node_def parse_nonempty_def serde_roundtrip_def
      split: option.splits)

lemma find_appended:
  "(\<And>j. j \<in> set js \<Longrightarrow> nd_id j \<noteq> nd_id n) \<Longrightarrow> find (\<lambda>j. nd_id j = nd_id n) (js @ [n]) = Some n"
  by (induction js) auto

text \<open>The job a caller asked for, as it should read: every field said once.\<close>

definition asked_job :: "chrono \<Rightarrow> instant \<Rightarrow> string \<Rightarrow> job_spec \<Rightarrow> agent_job" where
  "asked_job C now uid a =
     \<lparr>job_id = uid, tool_name = js_tool_name a, arguments = js_arguments a, priority = js_priority a, status = Queued,
      created_at = to_rfc3339 C now, updated_at = to_rfc3339 C now, started_at = None, completed_at = None,
      job_result = None, job_error = None, attempt_count = 0, max_attempts = js_max_attempts a,
      session_id = Option.bind (js_session_id a) opt_nonempty, parent_job_id = Option.bind (js_parent_job_id a) opt_nonempty,
      provider_hint = Option.bind (js_provider_hint a) opt_nonempty,
      context_profile = Option.bind (js_context_profile a) opt_nonempty, prev_result = None, prev_result_raw = None,
      progress_percent = None, progress_message = None, progress_metadata = None, progress_updated_at = None,
      expires_at = map_option (\<lambda>s. to_rfc3339 C (now + seconds (int s))) (js_ttl_secs a),
      ttl_secs = (if js_ttl_secs a = Some 0 then None else js_ttl_secs a), dead_lettered_at = None,
      dead_letter_reason = None, job_description = Option.bind (js_description a) opt_nonempty, duration_ms = None\<rparr>"

lemma empty_unless_given: "opt_nonempty (or_empty x) = Option.bind x opt_nonempty"
  by (cases x) (simp_all add: or_empty_def opt_nonempty_def)

lemma asked_job_read:
  assumes "pred_option (serde_roundtrip S) (js_arguments a)"
  shows "node_to_agent_job C S (new_job_node S now uid Queued a) = asked_job C now uid a"
proof (rule agent_job.equality)
  show "arguments (node_to_agent_job C S (new_job_node S now uid Queued a)) = arguments (asked_job C now uid a)"
    by (simp only: node_to_agent_job_new[OF assms] asked_job_def agent_job.simps)
qed (auto simp: asked_job_def node_to_agent_job_def new_job_node_def empty_unless_given node_ts_def parse_nonempty_def
    opt_nonempty_def or_empty_def option.map_comp comp_def split: option.splits)

text \<open>Claim C36. A created job is what was asked for in every field, and it reads back under its id as that: queued,
  no attempt made, its arguments intact, its parent, session, profile, hint and description those given (the
  empty text read as absent), its expiry the given seconds after its creation; nothing else in the graph changes.\<close>

theorem create_then_get:
  assumes "pred_option (serde_roundtrip S) (js_arguments a)" and "faults d = []" and "uid \<notin> nd_id ` set (jobs d)"
  shows "\<exists>d'. create_agent_job C S now uid a d = (Inr (asked_job C now uid a), d') \<and>
    fst (get_agent_job C S uid d') = Inr (Some (asked_job C now uid a)) \<and>
    (\<exists>n. nd_id n = uid \<and> d' = d\<lparr>jobs := jobs d @ [n]\<rparr>)"
proof -
  let ?n = "new_job_node S now uid Queued a"
  have uid: "nd_id ?n = uid" by (simp add: new_job_node_def)
  have "create_agent_job C S now uid a d = (Inr (asked_job C now uid a), d\<lparr>jobs := jobs d @ [?n]\<rparr>)"
    using assms(2) by (simp add: create_agent_job_def insert_job_def asked_job_read[OF assms(1)] Let_def)
  moreover have "find (\<lambda>j. nd_id j = uid) (jobs d @ [?n]) = Some ?n"
    using find_appended[of "jobs d" ?n] assms(3) uid by auto
  then have "fst (get_agent_job C S uid (d\<lparr>jobs := jobs d @ [?n]\<rparr>)) = Inr (Some (asked_job C now uid a))"
    using assms(2) by (simp add: get_agent_job_def asked_job_read[OF assms(1)])
  ultimately show ?thesis using uid by blast
qed

subsection \<open>Cancelling a chain\<close>

text \<open>The parked jobs downstream of the jobs with the given ids.\<close>

inductive descends :: "job_node list \<Rightarrow> string set \<Rightarrow> job_node \<Rightarrow> bool" for js F where
  child: "j \<in> set js \<Longrightarrow> nd_status j = Parked \<Longrightarrow> nd_parent_job_id j \<in> F \<Longrightarrow> descends js F j"
| step: "j \<in> set js \<Longrightarrow> nd_status j = Parked \<Longrightarrow> descends js F k \<Longrightarrow>
    nd_parent_job_id j = nd_id k \<Longrightarrow> descends js F j"

inductive_cases descendsE: "descends js F j"

definition cancelled_at :: "instant \<Rightarrow> job_node \<Rightarrow> job_node" where
  "cancelled_at now j = j\<lparr>nd_status := Cancelled, nd_updated_at := now\<rparr>"

lemma cancelled_at_simps [simp]:
  "nd_id (cancelled_at now j) = nd_id j"
  "nd_status (cancelled_at now j) = Cancelled"
  "nd_parent_job_id (cancelled_at now j) = nd_parent_job_id j"
  by (simp_all add: cancelled_at_def)

lemma descends_parked: "descends js F j \<Longrightarrow> nd_status j = Parked \<and> j \<in> set js"
  by (auto elim: descendsE)

lemma descends_empty [simp]: "\<not> descends js {} j"
proof
  assume "descends js {} j"
  then show False by (induction rule: descends.induct) auto
qed

definition in_generation :: "string set \<Rightarrow> job_node \<Rightarrow> bool" where
  "in_generation F j \<longleftrightarrow> nd_status j = Parked \<and> nd_parent_job_id j \<in> F"

lemma descends_split:
  fixes js F now
  defines "js1 \<equiv> update_where (in_generation F) (cancelled_at now) js"
    and "ids \<equiv> nd_id ` {j \<in> set js. in_generation F j}"
  assumes x: "x \<in> set js" "\<not> in_generation F x"
  shows "descends js F x \<longleftrightarrow> descends js1 ids x"
proof
  assume "descends js F x"
  then show "descends js1 ids x" using x
  proof (induction rule: descends.induct)
    case (child j)
    then show ?case by (simp add: in_generation_def)
  next
    case (step j k)
    then have j: "j \<in> set js1" by (simp add: js1_def in_update_where_keep)
    show ?case
    proof (cases "in_generation F k")
      case True
      with step j descends_parked[of js F k] show ?thesis
        by (intro descends.child) (auto simp: ids_def)
    next
      case False
      with step j descends_parked[of js F k] show ?thesis by (intro descends.step[of j _ _ k]) auto
    qed
  qed
next
  assume "descends js1 ids x"
  then show "descends js F x"
  proof (induction rule: descends.induct)
    case (child j)
    then have "j \<in> set js" by (auto simp: js1_def elim!: set_update_whereE)
    with child show ?case
      by (auto simp: ids_def in_generation_def intro: descends.intros)
  next
    case (step j k)
    then have "j \<in> set js" by (auto simp: js1_def elim!: set_update_whereE)
    with step show ?case by (blast intro: descends.step)
  qed
qed

lemma cancel_generation_Nil:
  assumes "faults d = []"
  shows "cancel_generation now F d =
    (Inr (map nd_id (filter (in_generation (set F)) (jobs d))),
     d\<lparr>jobs := update_where (in_generation (set F)) (cancelled_at now) (jobs d)\<rparr>)"
  using assms
  by (simp add: cancel_generation_def Let_def set_where_def in_generation_def[abs_def] cancelled_at_def[abs_def])

lemma one_generation:
  "update_where (descends (update_where (in_generation F) (cancelled_at now) js)
      (nd_id ` {j \<in> set js. in_generation F j})) (cancelled_at now)
    (update_where (in_generation F) (cancelled_at now) js) =
   update_where (descends js F) (cancelled_at now) js"
proof -
  have "(if descends (update_where (in_generation F) (cancelled_at now) js)
            (nd_id ` {j \<in> set js. in_generation F j}) y then cancelled_at now y else y) =
        (if descends js F x then cancelled_at now x else x)"
    if x: "x \<in> set js" and y: "y = (if in_generation F x then cancelled_at now x else x)" for x y
  proof (cases "in_generation F x")
    case True
    then have "descends js F x"
      using x by (auto simp: in_generation_def intro: descends.child)
    moreover have "\<not> descends ks I (cancelled_at now x)" for ks I
      by (auto dest: descends_parked)
    ultimately show ?thesis using True y by simp
  next
    case False
    then show ?thesis using descends_split[OF x False] y by simp
  qed
  then show ?thesis by (auto simp: update_where_def)
qed

lemma count_where_mono:
  "(\<And>x. x \<in> set xs \<Longrightarrow> P x \<Longrightarrow> Q x) \<Longrightarrow> count_where P xs \<le> count_where Q xs"
  by (induction xs) (auto simp: count_where_def)

lemma count_where_split:
  "(\<And>x. x \<in> set xs \<Longrightarrow> P x \<Longrightarrow> Q x) \<Longrightarrow>
     count_where Q xs = count_where P xs + count_where (\<lambda>x. Q x \<and> \<not> P x) xs"
  by (induction xs) (auto simp: count_where_def)

lemma count_where_cong:
  "(\<And>x. x \<in> set xs \<Longrightarrow> P x = Q x) \<Longrightarrow> count_where P xs = count_where Q xs"
  by (induction xs) (auto simp: count_where_def)

lemma descendants_of_generation:
  fixes js F now
  defines "js1 \<equiv> update_where (in_generation F) (cancelled_at now) js"
    and "ids \<equiv> nd_id ` {j \<in> set js. in_generation F j}"
  shows "count_where (descends js F) js =
    count_where (in_generation F) js + count_where (descends js1 ids) js1"
proof -
  have "count_where (descends js1 ids) js1 =
      count_where (\<lambda>x. descends js1 ids (if in_generation F x then cancelled_at now x else x)) js"
    by (simp add: js1_def count_where_def update_where_def filter_map comp_def)
  also have "\<dots> = count_where (\<lambda>x. descends js F x \<and> \<not> in_generation F x) js"
  proof (rule count_where_cong)
    fix x assume x: "x \<in> set js"
    show "descends js1 ids (if in_generation F x then cancelled_at now x else x) =
      (descends js F x \<and> \<not> in_generation F x)"
    proof (cases "in_generation F x")
      case True
      then show ?thesis by (auto dest: descends_parked)
    next
      case False
      then show ?thesis using descends_split[OF x False] by (simp add: js1_def ids_def)
    qed
  qed
  moreover have "count_where (descends js F) js =
      count_where (in_generation F) js + count_where (\<lambda>x. descends js F x \<and> \<not> in_generation F x) js"
    by (rule count_where_split) (auto simp: in_generation_def intro: descends.child)
  ultimately show ?thesis by simp
qed

lemma cancel_generations_spec:
  assumes "faults d = []"
    and "set F = {} \<or> count_where (descends (jobs d) (set F)) (jobs d) < n"
  shows "cancel_generations n now F t d =
    (Inr (t + count_where (descends (jobs d) (set F)) (jobs d)),
     d\<lparr>jobs := update_where (descends (jobs d) (set F)) (cancelled_at now) (jobs d)\<rparr>)"
  using assms
proof (induction n now F t d rule: cancel_generations.induct)
  case (1 now F t d)
  then show ?case
    by (simp add: count_where_def update_where_def)
next
  case (2 n now F t d)
  show ?case
  proof (cases "F = []")
    case True
    then show ?thesis by (simp add: count_where_def update_where_def)
  next
    case False
    let ?js = "jobs d"
    let ?js1 = "update_where (in_generation (set F)) (cancelled_at now) ?js"
    let ?d1 = "d\<lparr>jobs := ?js1\<rparr>"
    let ?ids = "map nd_id (filter (in_generation (set F)) ?js)"
    have ids: "set ?ids = nd_id ` {j \<in> set ?js. in_generation (set F) j}" by auto
    have len: "length ?ids = count_where (in_generation (set F)) ?js"
      by (simp add: count_where_def)
    have cnt: "count_where (descends ?js (set F)) ?js =
        length ?ids + count_where (descends ?js1 (set ?ids)) ?js1"
      using descendants_of_generation[of ?js "set F" now] by (simp only: ids len)
    have small: "set ?ids = {} \<or> count_where (descends (jobs ?d1) (set ?ids)) (jobs ?d1) < n"
    proof (cases "?ids = []")
      case False
      then have "0 < length ?ids" by (metis length_greater_0_conv)
      moreover have "count_where (descends ?js (set F)) ?js < Suc n"
        using "2.prems"(2) \<open>F \<noteq> []\<close> by simp
      ultimately have "count_where (descends ?js1 (set ?ids)) ?js1 < n"
        using cnt by linarith
      then show ?thesis by simp
    qed simp
    have gen: "cancel_generation now F d = (Inr ?ids, ?d1)"
      using "2.prems"(1) by (rule cancel_generation_Nil)
    have "cancel_generations n now ?ids (t + length ?ids) ?d1 =
        (Inr (t + length ?ids + count_where (descends ?js1 (set ?ids)) ?js1),
         ?d1\<lparr>jobs := update_where (descends ?js1 (set ?ids)) (cancelled_at now) ?js1\<rparr>)"
      using "2.IH"[OF False gen[symmetric] refl] "2.prems"(1) small by simp
    moreover have "update_where (descends ?js1 (set ?ids)) (cancelled_at now) ?js1 =
        update_where (descends ?js (set F)) (cancelled_at now) ?js"
      unfolding ids by (rule one_generation)
    ultimately show ?thesis
      using False gen cnt by (simp del: set_map set_filter)
  qed
qed

text \<open>The parked jobs at most so many generations downstream.\<close>

fun downstream :: "nat \<Rightarrow> job_node list \<Rightarrow> string set \<Rightarrow> job_node \<Rightarrow> bool" where
  "downstream 0 js F j \<longleftrightarrow> False"
| "downstream (Suc n) js F j \<longleftrightarrow> j \<in> set js \<and> nd_status j = Parked \<and>
     (nd_parent_job_id j \<in> F \<or> (\<exists>k \<in> set js. downstream n js F k \<and> nd_parent_job_id j = nd_id k))"

lemma within_parked: "downstream n js F j \<Longrightarrow> nd_status j = Parked \<and> j \<in> set js"
  by (cases n) auto

lemma within_more: "downstream n js F j \<Longrightarrow> downstream (Suc n) js F j"
proof (induction n arbitrary: j)
  case (Suc n)
  then show ?case by (subst downstream.simps) (use downstream.simps(2)[of n js F j] in blast)
qed simp

lemma within_empty [simp]: "\<not> downstream n js {} j"
  by (induction n arbitrary: j) auto

lemma within_split:
  fixes js F now
  defines "js1 \<equiv> update_where (in_generation F) (cancelled_at now) js"
    and "ids \<equiv> nd_id ` {j \<in> set js. in_generation F j}"
  assumes x: "x \<in> set js" "\<not> in_generation F x"
  shows "downstream (Suc n) js F x \<longleftrightarrow> downstream n js1 ids x"
proof
  show "downstream (Suc n) js F x \<Longrightarrow> downstream n js1 ids x" using x
  proof (induction n arbitrary: x)
    case 0
    then show ?case by (simp add: in_generation_def)
  next
    case (Suc n)
    then have p: "nd_status x = Parked" "nd_parent_job_id x \<notin> F"
      by (auto simp: in_generation_def)
    with Suc.prems(1) obtain k where k: "k \<in> set js" "downstream (Suc n) js F k" "nd_parent_job_id x = nd_id k" by auto
    have "x \<in> set js1" using Suc.prems by (simp add: js1_def in_update_where_keep)
    moreover have "nd_id k \<in> ids \<or> (k \<in> set js1 \<and> downstream n js1 ids k)"
    proof (cases "in_generation F k")
      case False
      with Suc.IH[OF k(2,1)] k(1) show ?thesis by (simp add: js1_def in_update_where_keep)
    qed (use k in \<open>auto simp: ids_def\<close>)
    ultimately show ?case using p k(3) by (auto simp del: downstream.simps(2) simp: downstream.simps(2)[of n js1 ids x])
  qed
  show "downstream n js1 ids x \<Longrightarrow> downstream (Suc n) js F x"
  proof (induction n arbitrary: x)
    case (Suc n)
    have old: "j \<in> set js" if "j \<in> set js1" "nd_status j = Parked" for j
      using that by (auto simp: js1_def elim!: set_update_whereE)
    have x: "x \<in> set js" "nd_status x = Parked" using within_parked[OF Suc.prems] old by auto
    consider "nd_parent_job_id x \<in> ids" | k where "downstream n js1 ids k" "nd_parent_job_id x = nd_id k"
      using Suc.prems by auto
    then show ?case
    proof cases
      case 1
      then obtain k where "k \<in> set js" "in_generation F k" "nd_parent_job_id x = nd_id k" by (auto simp: ids_def)
      then have "downstream (Suc n) js F k" by (simp add: in_generation_def)
      with x \<open>k \<in> set js\<close> \<open>nd_parent_job_id x = nd_id k\<close> show ?thesis by (subst downstream.simps) blast
    next
      case 2
      then have "downstream (Suc n) js F k" by (intro Suc.IH)
      with x 2(2) within_parked[OF this] show ?thesis by (subst downstream.simps) blast
    qed
  qed simp
qed

lemma within_generation: "in_generation F x \<Longrightarrow> x \<in> set js \<Longrightarrow> downstream (Suc n) js F x"
  by (simp add: in_generation_def)

lemma cancelled_not_within: "\<not> downstream n js F (cancelled_at now x)"
  by (auto dest: within_parked)

lemma within_one_more:
  fixes js F now n
  defines "js1 \<equiv> update_where (in_generation F) (cancelled_at now) js"
    and "ids \<equiv> nd_id ` {j \<in> set js. in_generation F j}"
  shows "update_where (downstream n js1 ids) (cancelled_at now) js1 = update_where (downstream (Suc n) js F) (cancelled_at now) js"
    and "count_where (downstream (Suc n) js F) js = count_where (in_generation F) js + count_where (downstream n js1 ids) js1"
proof -
  have "(if downstream n js1 ids y then cancelled_at now y else y) = (if downstream (Suc n) js F x then cancelled_at now x else x)"
    if x: "x \<in> set js" and y: "y = (if in_generation F x then cancelled_at now x else x)" for x y
  proof (cases "in_generation F x")
    case True
    then show ?thesis using within_generation[OF True x, of n] cancelled_not_within y by auto
  next
    case False
    then show ?thesis using within_split[OF x False, of n now] y by (simp add: js1_def ids_def del: downstream.simps)
  qed
  then show "update_where (downstream n js1 ids) (cancelled_at now) js1 = update_where (downstream (Suc n) js F) (cancelled_at now) js"
    unfolding js1_def by (auto simp: update_where_def simp del: downstream.simps)
  have "count_where (downstream n js1 ids) js1 =
      count_where (\<lambda>x. downstream n js1 ids (if in_generation F x then cancelled_at now x else x)) js"
    by (simp add: js1_def count_where_def update_where_def filter_map comp_def)
  also have "\<dots> = count_where (\<lambda>x. downstream (Suc n) js F x \<and> \<not> in_generation F x) js"
  proof (rule count_where_cong)
    fix x assume x: "x \<in> set js"
    show "downstream n js1 ids (if in_generation F x then cancelled_at now x else x) =
      (downstream (Suc n) js F x \<and> \<not> in_generation F x)"
      using within_split[OF x, of F n now] cancelled_not_within by (cases "in_generation F x") (auto simp: js1_def ids_def simp del: downstream.simps)
  qed
  moreover have "count_where (downstream (Suc n) js F) js =
      count_where (in_generation F) js + count_where (\<lambda>x. downstream (Suc n) js F x \<and> \<not> in_generation F x) js"
    by (rule count_where_split) (rule within_generation)
  ultimately show "count_where (downstream (Suc n) js F) js = count_where (in_generation F) js + count_where (downstream n js1 ids) js1"
    by simp
qed

lemma cancel_generations_within:
  "faults d = [] \<Longrightarrow> cancel_generations n now F t d =
    (Inr (t + count_where (downstream n (jobs d) (set F)) (jobs d)),
     d\<lparr>jobs := update_where (downstream n (jobs d) (set F)) (cancelled_at now) (jobs d)\<rparr>)"
proof (induction n now F t d rule: cancel_generations.induct)
  case (1 now F t d)
  then show ?case by (simp add: count_where_def update_where_def)
next
  case (2 n now F t d)
  show ?case
  proof (cases "F = []")
    case True
    then show ?thesis by (simp add: count_where_def update_where_def del: downstream.simps)
  next
    case False
    let ?js = "jobs d"
    let ?js1 = "update_where (in_generation (set F)) (cancelled_at now) ?js"
    let ?d1 = "d\<lparr>jobs := ?js1\<rparr>"
    let ?ids = "map nd_id (filter (in_generation (set F)) ?js)"
    have ids: "set ?ids = nd_id ` {j \<in> set ?js. in_generation (set F) j}" by auto
    have len: "length ?ids = count_where (in_generation (set F)) ?js" by (simp add: count_where_def)
    have gen: "cancel_generation now F d = (Inr ?ids, ?d1)" using "2.prems" by (rule cancel_generation_Nil)
    have "cancel_generations n now ?ids (t + length ?ids) ?d1 =
        (Inr (t + length ?ids + count_where (downstream n ?js1 (set ?ids)) ?js1),
         ?d1\<lparr>jobs := update_where (downstream n ?js1 (set ?ids)) (cancelled_at now) ?js1\<rparr>)"
      using "2.IH"[OF False gen[symmetric] refl] "2.prems" by simp
    then show ?thesis
      using False gen within_one_more[where js = ?js and F = "set F" and n = n and now = now, folded ids]
      by (simp del: set_map set_filter downstream.simps add: count_where_def)
  qed
qed

lemma descendants_le_parked:
  "count_where (descends js F) js \<le> count_where (\<lambda>j. nd_status j = Parked) js"
  by (rule count_where_mono) (simp add: descends_parked)

subsection \<open>A small graph, for examples\<close>

definition sample_spec :: job_spec where
  "sample_spec =
     \<lparr>js_tool_name = ''reason'', js_arguments = Some JNull, js_priority = 1, js_max_attempts = 3,
      js_session_id = None, js_parent_job_id = None, js_provider_hint = Some [],
      js_context_profile = None, js_description = None, js_ttl_secs = None\<rparr>"

definition sample_node :: "string \<Rightarrow> job_status \<Rightarrow> string \<Rightarrow> nat \<Rightarrow> job_node" where
  "sample_node i st parent attempts =
     \<lparr>nd_id = i, nd_tool_name = ''reason'', nd_args_json = [], nd_priority = 1, nd_status = st,
      nd_created_at = 0, nd_updated_at = 0, nd_started_at = Some 0, nd_completed_at = None,
      nd_result_json = [], nd_error = None, nd_attempt_count = attempts, nd_max_attempts = 3,
      nd_session_id = [], nd_parent_job_id = parent, nd_provider_hint = [],
      nd_context_profile = [], nd_prev_result_json = [], nd_prev_result_raw_json = [],
      nd_progress_percent = None, nd_progress_message = None, nd_progress_metadata = [],
      nd_progress_updated_at = None, nd_expires_at = None, nd_ttl_secs = 0,
      nd_dead_lettered_at = None, nd_dead_letter_reason = [], nd_description = [],
      nd_duration_ms = None\<rparr>"

definition graph_of :: "job_node list \<Rightarrow> db" where
  "graph_of js =
     \<lparr>jobs = js, tasks = [], note_nodes = [], notifications = [], workflows = [],
      faults = []\<rparr>"

lemma sample_node_simps [simp]:
  "nd_id (sample_node i st p n) = i"
  "nd_status (sample_node i st p n) = st"
  "nd_parent_job_id (sample_node i st p n) = p"
  "nd_attempt_count (sample_node i st p n) = n"
  "nd_max_attempts (sample_node i st p n) = 3"
  "nd_completed_at (sample_node i st p n) = None"
  "nd_priority (sample_node i st p n) = 1"
  "nd_created_at (sample_node i st p n) = 0"
  by (simp_all add: sample_node_def)

lemma graph_of_simps [simp]:
  "jobs (graph_of js) = js"
  "faults (graph_of js) = []"
  "tasks (graph_of js) = []"
  by (simp_all add: graph_of_def)

theorem create_then_get_witness:
  fixes a d'
  defines "a \<equiv> sample_spec\<lparr>js_parent_job_id := Some ''p'', js_description := Some ''why''\<rparr>"
    and "d' \<equiv> snd (create_agent_job sample_chrono sample_serde 0 ''u'' a (graph_of []))"
  shows "fst (get_agent_job sample_chrono sample_serde ''u'' d') = Inr (Some (asked_job sample_chrono 0 ''u'' a)) \<and>
    parent_job_id (asked_job sample_chrono 0 ''u'' a) = Some ''p'' \<and>
    arguments (asked_job sample_chrono 0 ''u'' a) = Some JNull"
proof -
  have "pred_option (serde_roundtrip sample_serde) (js_arguments a)"
    by (simp add: serde_roundtrip_def sample_serde_def sample_spec_def a_def)
  from create_then_get[OF this, of "graph_of []" "''u''" sample_chrono 0]
  have "fst (get_agent_job sample_chrono sample_serde ''u'' d') = Inr (Some (asked_job sample_chrono 0 ''u'' a))"
    by (auto simp: d'_def)
  then show ?thesis by (simp add: asked_job_def a_def sample_spec_def opt_nonempty_def)
qed

definition chain_of_three :: "job_node list" where
  "chain_of_three =
     [sample_node ''a'' Running [] 1, sample_node ''b'' Parked ''a'' 0,
      sample_node ''c'' Parked ''b'' 0]"

subsection \<open>The properties of the store\<close>

text \<open>Claim C17. Cancelling below a job cancels exactly the parked jobs at most 64 generations below it, leaves
  everything else as it is and reports how many it cancelled. While fewer than 64 jobs are parked below, these
  are the whole chain. A job 65 generations down stays parked.\<close>

theorem cancel_cascade:
  assumes "faults d = []"
  shows "cancel_parked_children now p d =
      (Inr (count_where (downstream 64 (jobs d) {p}) (jobs d)),
       d\<lparr>jobs := update_where (downstream 64 (jobs d) {p}) (cancelled_at now) (jobs d)\<rparr>) \<and>
    (count_where (descends (jobs d) {p}) (jobs d) < 64 \<longrightarrow>
     cancel_parked_children now p d =
      (Inr (count_where (descends (jobs d) {p}) (jobs d)),
       d\<lparr>jobs := update_where (descends (jobs d) {p}) (cancelled_at now) (jobs d)\<rparr>))"
  using cancel_generations_spec[of d "[p]" 64 now 0] cancel_generations_within[of d 64 now "[p]" 0] assms
  by (simp add: cancel_parked_children_def)

theorem cancel_cascade_witness:
  "count_where (descends chain_of_three {''a''}) chain_of_three < 64 \<and>
   cancel_parked_children 5 ''a'' (graph_of chain_of_three) =
     (Inr (count_where (descends chain_of_three {''a''}) chain_of_three),
      graph_of (update_where (descends chain_of_three {''a''}) (cancelled_at 5) chain_of_three))"
proof -
  have small: "count_where (descends chain_of_three {''a''}) chain_of_three < 64"
    using descendants_le_parked[of chain_of_three "{''a''}"]
    by (simp add: chain_of_three_def count_where_def)
  then show ?thesis
    using conjunct2[OF cancel_cascade[of "graph_of chain_of_three" 5 "''a''"], THEN mp] by (simp add: graph_of_def)
qed

text \<open>Recovery leaves no job running: a job that was running is queued again exactly
  when it has attempts left, and is dead otherwise, its attempt count unchanged; every other job
  keeps its state. The count it answers is that of the jobs queued again.\<close>

theorem recovery_respects_the_cap:
  assumes "faults d = []" and "reset_running_agent_jobs now d = (r, d')"
  shows "length (jobs d') = length (jobs d) \<and>
    (\<forall>k < length (jobs d).
       let j = jobs d ! k; j' = jobs d' ! k in
         nd_id j' = nd_id j \<and> nd_attempt_count j' = nd_attempt_count j \<and>
         nd_status j' \<noteq> Running \<and>
         (nd_status j \<noteq> Running \<longrightarrow> j' = j) \<and>
         (nd_status j = Running \<longrightarrow>
            nd_status j' = (if nd_attempt_count j < nd_max_attempts j then Queued else Dead)))"
proof -
  have "jobs d' = update_where (\<lambda>j. nd_status j = Running) (recovered now) (jobs d)"
    using assms by (auto simp: reset_running_agent_jobs_def)
  then show ?thesis by (auto simp: Let_def recovered_def update_where_def)
qed

theorem recovery_respects_the_cap_witness:
  "nd_status (jobs (snd (reset_running_agent_jobs 9 (graph_of [sample_node ''a'' Running [] 3,
      sample_node ''b'' Running [] 1]))) ! 0) = Dead \<and>
   nd_status (jobs (snd (reset_running_agent_jobs 9 (graph_of [sample_node ''a'' Running [] 3,
      sample_node ''b'' Running [] 1]))) ! 1) = Queued"
  (is "nd_status (jobs (snd ?r) ! 0) = Dead \<and> _")
proof -
  let ?d = "graph_of [sample_node ''a'' Running [] 3, sample_node ''b'' Running [] 1]"
  have "reset_running_agent_jobs 9 ?d = (fst ?r, snd ?r)" by simp
  from recovery_respects_the_cap[OF _ this] have
    "\<forall>k < 2. nd_status (jobs (snd ?r) ! k) =
       (if nd_attempt_count (jobs ?d ! k) < nd_max_attempts (jobs ?d ! k) then Queued else Dead)"
    by (auto simp: Let_def less_2_cases_iff)
  then show ?thesis by (simp add: less_2_cases_iff)
qed

lemma delete_all_jobs:
  "set (jobs (snd (delete_all Ps d))) \<subseteq> set (jobs d) \<and>
   (\<forall>j \<in> set (jobs d). (\<forall>P \<in> set Ps. \<not> P j) \<longrightarrow> j \<in> set (jobs (snd (delete_all Ps d))))"
proof (induction Ps arbitrary: d)
  case Nil
  then show ?case by simp
next
  case (Cons P Ps)
  show ?case
  proof (cases "delete_where P" d rule: run_query_cases)
    case (refused e)
    then show ?thesis by simp
  next
    case answered
    have "jobs (snd (delete_all (P # Ps) d)) =
        jobs (snd (delete_all Ps (snd (delete_where P (used_fault d)))))"
      by (simp add: answered split: prod.splits sum.splits)
    then show ?thesis
      using Cons.IH[of "snd (delete_where P (used_fault d))"] by auto
  qed
qed

text \<open>A job that was at its attempt cap when the process stopped, in its first run, is
  made \<open>dead\<close> by recovery without a completion time, and no cleanup ever removes it: the cleanup
  of dead jobs compares a completion time that is not there.\<close>

theorem recovered_dead_job_is_never_cleaned:
  assumes "faults d = []" and "j \<in> set (jobs d)" and "nd_status j = Running"
    and "nd_max_attempts j \<le> nd_attempt_count j" and "nd_completed_at j = None"
    and "reset_running_agent_jobs now d = (r, d')"
    and "cleanup_old_jobs later c k d' = (r', d'')"
  shows "recovered now j \<in> set (jobs d'') \<and> nd_status (recovered now j) = Dead"
proof -
  have "jobs d' = update_where (\<lambda>j. nd_status j = Running) (recovered now) (jobs d)"
    using assms(1,6) by (auto simp: reset_running_agent_jobs_def)
  then have mem: "recovered now j \<in> set (jobs d')"
    using assms(2,3) by (simp add: in_update_where_hit)
  have st: "nd_status (recovered now j) = Dead" "nd_completed_at (recovered now j) = None"
    using assms(4,5) by (simp_all add: recovered_def)
  then have "\<forall>P \<in> set [cleanup_completed x, cleanup_dead y, cleanup_cancelled x, cleanup_failed y].
      \<not> P (recovered now j)" for x y
    by (simp add: cleanup_completed_def cleanup_dead_def cleanup_cancelled_def cleanup_failed_def
        at_or_before_def)
  then have "recovered now j \<in> set (jobs (snd (cleanup_old_jobs later c k d')))"
    using delete_all_jobs mem unfolding cleanup_old_jobs_def Let_def by blast
  then show ?thesis using st assms(7) by simp
qed

theorem recovered_dead_job_is_never_cleaned_witness:
  "recovered 5 (sample_node ''a'' Running [] 3) \<in>
     set (jobs (snd (cleanup_old_jobs (seconds 99999999) 86400 604800
       (snd (reset_running_agent_jobs 5 (graph_of [sample_node ''a'' Running [] 3]))))))"
proof -
  let ?j = "sample_node ''a'' Running [] 3"
  let ?r = "reset_running_agent_jobs 5 (graph_of [?j])"
  let ?c = "cleanup_old_jobs (seconds 99999999) 86400 604800 (snd ?r)"
  have "recovered 5 ?j \<in> set (jobs (snd ?c)) \<and> nd_status (recovered 5 ?j) = Dead"
    by (rule recovered_dead_job_is_never_cleaned[where r = "fst ?r" and r' = "fst ?c"
          and d = "graph_of [?j]" and d' = "snd ?r"]) simp_all
  then show ?thesis by simp
qed

text \<open>A cancelled job stays as it is whatever its running step reports: none of the
  writes that end or restart a run changes it or answers that it did.\<close>

theorem cancelled_job_stays_cancelled:
  assumes "faults d = []" and "j \<in> set (jobs d)" and "nd_status j = Cancelled"
    and "inj_on nd_id (set (jobs d))"
    and "w \<in> {set_job_started now, \<lambda>i. set_job_completed now i res,
      \<lambda>i. set_job_skipped now i res, \<lambda>i. requeue_for_retry now i res,
      \<lambda>i. set_job_failed now i res, \<lambda>i. set_job_dead now i res, retry_dead_letter now}"
  shows "w (nd_id j) d = (Inr False, d)"
proof -
  have only: "count_where (\<lambda>k. nd_id k = nd_id j \<and> nd_status k = st) (jobs d) = 0"
    if "st \<noteq> Cancelled" for st
    using assms(2,3,4) that by (auto simp: count_where_zero dest: inj_onD)
  have "count_updated (\<lambda>k. nd_id k = nd_id j \<and> nd_status k = st) f d = (Inr False, d)"
    if "st \<noteq> Cancelled" for st f
    using assms(1) only[OF that]
    by (simp add: count_updated_def set_where_def update_where_none)
  then show ?thesis
    using assms(5)
    by (auto simp: started.op_def completed.op_def skipped.op_def requeued.op_def failed.op_def
        dead.op_def revived.op_def)
qed

theorem cancelled_job_stays_cancelled_witness:
  "set_job_completed 7 ''a'' ''x'' (graph_of [sample_node ''a'' Cancelled [] 1]) =
     (Inr False, graph_of [sample_node ''a'' Cancelled [] 1])"
  using cancelled_job_stays_cancelled[of "graph_of [sample_node ''a'' Cancelled [] 1]"
      "sample_node ''a'' Cancelled [] 1" "\<lambda>i. set_job_completed 7 i ''x''" 7 "''x''"]
  by simp

lemma before_or_same_linear:
  "\<not> before_or_same a b \<Longrightarrow> before_or_same b a"
  "before_or_same a b \<Longrightarrow> before_or_same b c \<Longrightarrow> before_or_same a c"
  by (auto simp: before_or_same_def)

definition in_queue_order :: "job_node \<Rightarrow> job_node \<Rightarrow> bool" where
  "in_queue_order a b \<longleftrightarrow>
     nd_priority b < nd_priority a \<or>
     nd_priority a = nd_priority b \<and> nd_created_at a \<le> nd_created_at b"

lemma in_queue_order: "before_or_same (queued_order a) (queued_order b) \<longleftrightarrow> in_queue_order a b"
  by (auto simp: before_or_same_def queued_order_def in_queue_order_def)

lemma sorted_insert_ordered:
  "sorted_wrt in_queue_order xs \<Longrightarrow> sorted_wrt in_queue_order (insert_ordered x xs)"
  by (induction xs) (auto simp: in_queue_order in_queue_order_def)

lemma mset_insert_ordered: "mset (insert_ordered x xs) = add_mset x (mset xs)"
  by (induction xs) auto

lemma sorted_sort_queued: "sorted_wrt in_queue_order (sort_queued xs)"
  by (induction xs) (simp_all add: sort_queued_def sorted_insert_ordered)

lemma mset_sort_queued: "mset (sort_queued xs) = mset xs"
  by (induction xs) (simp_all add: sort_queued_def mset_insert_ordered)

text \<open>The jobs loaded into the heap are exactly the queued ones, each once, higher
  priorities first and older first within a priority; a parked job is never among them.\<close>

theorem list_queued_is_the_queue:
  assumes "faults d = []"
  shows "\<exists>ns. fst (list_queued_agent_jobs C S d) = Inr (map (node_to_agent_job C S) ns) \<and>
    snd (list_queued_agent_jobs C S d) = d \<and>
    sorted_wrt in_queue_order ns \<and>
    mset ns = filter_mset (\<lambda>j. nd_status j = Queued) (mset (jobs d))"
  using assms
  by (intro exI[of _ "sort_queued (filter (\<lambda>j. nd_status j = Queued) (jobs d))"])
    (simp add: list_queued_agent_jobs_def sorted_sort_queued mset_sort_queued)

theorem list_queued_is_the_queue_witness:
  "\<exists>ns. fst (list_queued_agent_jobs sample_chrono sample_serde (graph_of chain_of_three)) =
      Inr (map (node_to_agent_job sample_chrono sample_serde) ns) \<and>
    mset ns = {#}"
  using list_queued_is_the_queue[of "graph_of chain_of_three" sample_chrono sample_serde]
  by (auto simp: chain_of_three_def)

end
