(* ===== verification/Task_Store.thy ===== *)
theory Task_Store
  imports Job_Store
begin

text \<open>
  The tasks, notes and notifications the queue writes
  (\<open>crates/repository/src/task.rs\<close>, \<open>crates/repository/src/client.rs\<close> and the two dedupe queries
  of \<open>crates/work/src/queue.rs\<close> and \<open>queue/gates.rs\<close>). Links between notes and tasks are not kept.
\<close>

fun task_status_str :: "task_status \<Rightarrow> string" where
  "task_status_str TCreated = ''created''"
| "task_status_str TInProgress = ''in_progress''"
| "task_status_str TCompleted = ''completed''"
| "task_status_str TFailed = ''failed''"
| "task_status_str TBlocked = ''blocked''"

definition task_status_of :: "string \<Rightarrow> task_status" where
  "task_status_of s =
     (if s = ''in_progress'' then TInProgress else if s = ''completed'' then TCompleted
      else if s = ''failed'' then TFailed else if s = ''blocked'' then TBlocked else TCreated)"

lemma task_status_roundtrip [simp]: "task_status_of (task_status_str st) = st"
  by (cases st) (simp_all add: task_status_of_def)

definition task_inputs :: "serde \<Rightarrow> task_node \<Rightarrow> json_map option" where
  "task_inputs S t = Option.bind (Option.bind (tk_inputs_json t) (from_str S)) as_object"

definition get_task :: "string \<Rightarrow> db \<Rightarrow> task_node option answer \<times> db" where
  "get_task i = run_query (read_only (\<lambda>d. find (\<lambda>t. tk_id t = i) (tasks d)))"

definition create_run ::
  "serde \<Rightarrow> instant \<Rightarrow> string \<Rightarrow> string \<Rightarrow> string option \<Rightarrow> string option \<Rightarrow> string option \<Rightarrow>
   json option \<Rightarrow> string \<Rightarrow> db \<Rightarrow> string answer \<times> db" where
  "create_run S now uid goal ctx criteria flow inputs st d =
     (let inputs_json = (case inputs of
            Some (JObj m) \<Rightarrow> if m = [] then None else Some (to_str S (JObj m))
          | _ \<Rightarrow> None);
          t = \<lparr>tk_id = uid, tk_goal = goal, tk_context = ctx, tk_success_criteria = criteria,
               tk_workflow = flow, tk_inputs_json = inputs_json, tk_status = task_status_of st,
               tk_created_at = now, tk_updated_at = now\<rparr>
      in case run_query (\<lambda>d. ((), d\<lparr>tasks := tasks d @ [t]\<rparr>)) d of
           (Inl e, d') \<Rightarrow> (Inl e, d')
         | (Inr _, d') \<Rightarrow> (Inr uid, d'))"

definition set_tasks_where ::
  "(task_node \<Rightarrow> bool) \<Rightarrow> (task_node \<Rightarrow> task_node) \<Rightarrow> db \<Rightarrow> nat \<times> db" where
  "set_tasks_where P f d =
     (count_where P (tasks d), d\<lparr>tasks := update_where P f (tasks d)\<rparr>)"

definition update_task_status ::
  "instant \<Rightarrow> string \<Rightarrow> task_status \<Rightarrow> db \<Rightarrow> unit answer \<times> db" where
  "update_task_status now i st d =
     (case run_query (set_tasks_where (\<lambda>t. tk_id t = i)
             (\<lambda>t. t\<lparr>tk_status := st, tk_updated_at := now\<rparr>)) d of
        (Inl e, d') \<Rightarrow> (Inl e, d')
      | (Inr _, d') \<Rightarrow> (Inr (), d'))"

definition failure_mark :: string where
  "failure_mark = [CHR 0x0A, CHR 0x0A] @ ''[FAILURE] ''"

definition fail_task_with_reason ::
  "instant \<Rightarrow> string \<Rightarrow> string \<Rightarrow> db \<Rightarrow> bool answer \<times> db" where
  "fail_task_with_reason now i why d =
     (case run_query (set_tasks_where
             (\<lambda>t. tk_id t = i \<and> tk_status t \<in> {TCreated, TInProgress})
             (\<lambda>t. t\<lparr>tk_status := TFailed, tk_updated_at := now,
                   tk_context := Some (or_empty (tk_context t) @ failure_mark @ why)\<rparr>)) d of
        (Inl e, d') \<Rightarrow> (Inl e, d')
      | (Inr n, d') \<Rightarrow> (Inr (0 < n), d'))"

text \<open>The reflection of a dead job links to no task.\<close>

definition store_reflection_note :: "instant \<Rightarrow> string \<Rightarrow> db \<Rightarrow> unit answer \<times> db" where
  "store_reflection_note now text =
     run_query (\<lambda>d. ((), d\<lparr>note_nodes := note_nodes d @
       [\<lparr>note_content = text, note_type = ''reflection'', note_source_context = [],
         note_created_at = now\<rparr>]\<rparr>))"

definition create_notification ::
  "instant \<Rightarrow> string \<Rightarrow> string \<Rightarrow> db \<Rightarrow> unit answer \<times> db" where
  "create_notification now message ctx =
     run_query (\<lambda>d. ((), d\<lparr>notifications := notifications d @
       [\<lparr>nf_message = message, nf_context = ctx, nf_created_at = now\<rparr>]\<rparr>))"

text \<open>\<open>recently_meta_learned\<close>, and the dedupe of a quota notification: an error reads as no.\<close>

definition recently_meta_learned :: "instant \<Rightarrow> string \<Rightarrow> db \<Rightarrow> bool \<times> db" where
  "recently_meta_learned now tool d =
     (case run_query (read_only (\<lambda>d. count_where
             (\<lambda>n. note_type n = ''meta_learning_result'' \<and>
                  note_source_context n = ''dead_job:'' @ tool \<and>
                  now - hours 24 \<le> note_created_at n) (note_nodes d))) d of
        (Inl e, d') \<Rightarrow> (False, d')
      | (Inr n, d') \<Rightarrow> (0 < n, d'))"

definition already_notified :: "instant \<Rightarrow> string \<Rightarrow> db \<Rightarrow> bool \<times> db" where
  "already_notified now ctx d =
     (case run_query (read_only (\<lambda>d. count_where
             (\<lambda>n. nf_context n = ctx \<and> now - hours 24 \<le> nf_created_at n) (notifications d))) d of
        (Inl e, d') \<Rightarrow> (False, d')
      | (Inr n, d') \<Rightarrow> (0 < n, d'))"

lemma jobs_task_ops [simp]:
  "jobs (snd (update_task_status now i st d)) = jobs d"
  "jobs (snd (fail_task_with_reason now i why d)) = jobs d"
  "jobs (snd (store_reflection_note now text d)) = jobs d"
  "jobs (snd (create_notification now message ctx d)) = jobs d"
  "jobs (snd (recently_meta_learned now tool d)) = jobs d"
  "jobs (snd (already_notified now ctx d)) = jobs d"
  "jobs (snd (get_task i d)) = jobs d"
  "jobs (snd (create_run S now uid goal c cr flow ins s d)) = jobs d"
  by (auto simp: update_task_status_def fail_task_with_reason_def store_reflection_note_def
      create_notification_def recently_meta_learned_def already_notified_def get_task_def create_run_def
      run_query_def set_tasks_where_def read_only_def Let_def split: list.splits option.splits)

lemma faults_task_ops [simp]:
  assumes "faults d = []"
  shows "faults (snd (update_task_status now i st d)) = []"
    "faults (snd (fail_task_with_reason now i why d)) = []"
    "faults (snd (store_reflection_note now text d)) = []"
    "faults (snd (create_notification now message ctx d)) = []"
    "faults (snd (recently_meta_learned now tool d)) = []"
    "faults (snd (already_notified now ctx d)) = []"
    "faults (snd (get_task i d)) = []"
    "faults (snd (create_run S now uid goal c cr flow ins s d)) = []"
  using assms
  by (auto simp: update_task_status_def fail_task_with_reason_def store_reflection_note_def
      create_notification_def recently_meta_learned_def already_notified_def get_task_def create_run_def
      set_tasks_where_def read_only_def Let_def)

lemma task_ids_ops [simp]:
  "map tk_id (tasks (snd (get_task i d))) = map tk_id (tasks d)"
  "map tk_id (tasks (snd (update_task_status now i st d))) = map tk_id (tasks d)"
proof -
  show "map tk_id (tasks (snd (get_task i d))) = map tk_id (tasks d)"
    by (cases "read_only (\<lambda>d. find (\<lambda>t. tk_id t = i) (tasks d))" d rule: run_query_cases)
      (simp_all add: get_task_def)
  show "map tk_id (tasks (snd (update_task_status now i st d))) = map tk_id (tasks d)"
    by (cases "set_tasks_where (\<lambda>t. tk_id t = i) (\<lambda>t. t\<lparr>tk_status := st, tk_updated_at := now\<rparr>)" d
        rule: run_query_cases) (simp_all add: update_task_status_def set_tasks_where_def map_update_where)
qed

lemma get_task_answer:
  "get_task i d = (Inr r, d') \<Longrightarrow> r = find (\<lambda>t. tk_id t = i) (tasks d)"
  by (cases "read_only (\<lambda>d. find (\<lambda>t. tk_id t = i) (tasks d))" d rule: run_query_cases)
    (simp_all add: get_task_def)

end
