(* ===== verification/Queue_Chain.thy ===== *)
theory Queue_Chain
  imports Model_Router Task_Store
begin

text \<open>
  The queue's state and the submission of a chain (\<open>crates/work/src/queue.rs\<close>). The Neo4j graph is
  \<open>q_db\<close>; the heap, the tombstones, the lanes' free slots, the running jobs and the events sent are
  the in-memory part. What an operation reads of its surroundings (the clock, fresh ids, the tool
  registry, the catalog's answers, the models' routing) is the record \<open>qenv\<close>: fresh ids are
  \<open>qe_uid E 0\<close>, \<open>qe_uid E 1\<close>, ... in the order they are drawn.
\<close>

datatype lane = LocalLane | AnthropicLane | GeminiLane

record worker_config =
  max_concurrent :: nat
  max_concurrent_local :: nat
  max_concurrent_anthropic :: nat
  max_concurrent_gemini :: nat
  wc_enabled :: bool
  poll_interval_secs :: nat

definition default_worker_config :: worker_config where
  "default_worker_config =
     \<lparr>max_concurrent = 5, max_concurrent_local = 2, max_concurrent_anthropic = 2,
      max_concurrent_gemini = 5, wc_enabled = True, poll_interval_secs = 30\<rparr>"

fun lane_slots :: "lane \<Rightarrow> nat" where
  "lane_slots LocalLane = 2"
| "lane_slots AnthropicLane = 2"
| "lane_slots GeminiLane = 5"

datatype brain_event =
    JobCompleted string string "string option" "string option"
  | JobFailed string string "string option" string
  | JobDead string string "string option" string
  | AgentChatInitiated string string "string option"

record queue =
  q_db :: db
  q_heap :: job_heap
  q_tombstones :: "string set"
  q_config :: worker_config
  q_permits :: "lane \<Rightarrow> nat" \<comment> \<open>free slots\<close>
  q_running :: "agent_job list" \<comment> \<open>spawned, holding a slot\<close>
  q_notified :: bool
  q_events :: "brain_event list"
  q_gpu_deferred :: nat
  q_orphan_audit :: int
  q_next_uid :: nat

definition new_queue :: "db \<Rightarrow> queue" where
  "new_queue d =
     \<lparr>q_db = d, q_heap = [], q_tombstones = {}, q_config = default_worker_config,
      q_permits = lane_slots, q_running = [], q_notified = False, q_events = [],
      q_gpu_deferred = 0, q_orphan_audit = - 1, q_next_uid = 0\<rparr>"

text \<open>What the distiller is asked: the tool, the budget, the focus and the text.\<close>

record distill_request =
  dr_tool :: string
  dr_max_chars :: nat
  dr_focus :: string
  dr_input :: string

record qenv =
  qe_chrono :: chrono
  qe_serde :: serde
  qe_now :: instant
  qe_uid :: "nat \<Rightarrow> string"
  qe_world :: llm_world
  qe_handler :: bool \<comment> \<open>the tool handler is installed\<close>
  qe_has_tool :: "string \<Rightarrow> bool"
  qe_telemetry :: bool
  qe_list_models :: "json list option"
  qe_select_models :: "string list \<Rightarrow> json list option"
  qe_recent_errors :: "string list option"
  qe_gpu_leased :: bool
  qe_distiller :: "(distill_request \<Rightarrow> string option) option"
  qe_one_decimal :: "rfloat \<Rightarrow> string"
  qe_chat_session :: "string option"

definition env_catalog :: "qenv \<Rightarrow> catalog_model list" where
  "env_catalog E = (if qe_telemetry E then catalog_models (qe_list_models E) else [])"

subsection \<open>A chain's steps\<close>

record chain_step =
  cs_id :: "string option"
  cs_tool_name :: string
  cs_arguments :: "json option"
  cs_priority :: "nat option"
  cs_max_attempts :: "nat option"
  cs_provider_hint :: "string option"
  cs_context_profile :: "string option"
  cs_ttl_secs :: "nat option"
  cs_description :: "string option"
  cs_confidence_threshold :: "rat option"
  cs_is_evaluator :: bool
  cs_min_score :: "rat option"
  cs_evaluator_task_id :: "string option"
  cs_required_capabilities :: "string list option"
  cs_model :: "string option"
  cs_data_class :: "data_class option"
  cs_paid :: bool
  cs_distill_prev :: bool
  cs_distill_max_chars :: "nat option"
  cs_distill_focus :: "string option"
  cs_optional :: bool
  cs_when :: "string option"

definition new_step :: "string \<Rightarrow> chain_step" where
  "new_step tool =
     \<lparr>cs_id = None, cs_tool_name = tool, cs_arguments = None, cs_priority = None,
      cs_max_attempts = None, cs_provider_hint = None, cs_context_profile = None,
      cs_ttl_secs = None, cs_description = None, cs_confidence_threshold = None,
      cs_is_evaluator = False, cs_min_score = None, cs_evaluator_task_id = None,
      cs_required_capabilities = None, cs_model = None, cs_data_class = None, cs_paid = False,
      cs_distill_prev = False, cs_distill_max_chars = None, cs_distill_focus = None,
      cs_optional = False, cs_when = None\<rparr>"

definition default_distill_max_chars :: nat where
  "default_distill_max_chars = 2000"

definition pinned_model :: "chain_step \<Rightarrow> string option" where
  "pinned_model step = Option.bind (cs_model step) (\<lambda>m. opt_nonempty (trim m))"

definition step_provider_hint ::
  "provider_table \<Rightarrow> chain_step \<Rightarrow> catalog_model list \<Rightarrow> string option" where
  "step_provider_hint table step catalog =
     (case Option.bind (pinned_model step) (find_model catalog) of
        Some row \<Rightarrow> Some (provider_hint_for table (cm_provider row))
      | None \<Rightarrow> cs_provider_hint step)"

text \<open>Fields put into the arguments, which become an object when there are none; arguments that are
  not an object stay as they are.\<close>

definition inject :: "(string \<times> json) list \<Rightarrow> json option \<Rightarrow> json option" where
  "inject kvs a =
     Some (case or_default (JObj []) a of
             JObj m \<Rightarrow> JObj (foldl (\<lambda>m (k, v). map_insert k v m) m kvs)
           | v \<Rightarrow> v)"

definition inject_when :: "bool \<Rightarrow> (string \<times> json) list \<Rightarrow> json option \<Rightarrow> json option" where
  "inject_when b kvs a = (if b then inject kvs a else a)"

definition some_field :: "string \<Rightarrow> string option \<Rightarrow> (string \<times> json) list" where
  "some_field k v = (case v of Some s \<Rightarrow> [(k, JStr s)] | None \<Rightarrow> [])"

definition metadata_args :: "chain_step \<Rightarrow> json option" where
  "metadata_args step =
     (let a0 = inject_when (cs_is_evaluator step)
            ((''__evaluator_min_score'', JFloat (or_default (7 / 2) (cs_min_score step))) #
             some_field ''__evaluator_task_id'' (cs_evaluator_task_id step)) (cs_arguments step);
          caps = or_default [] (cs_required_capabilities step);
          a1 = inject_when (caps \<noteq> []) [(''__required_capabilities'', JArr (map JStr caps))] a0;
          a2 = inject_when (pinned_model step \<noteq> None) (some_field ''__model'' (pinned_model step)) a1;
          a3 = inject_when (cs_data_class step \<noteq> None)
                 (some_field ''__data_class'' (map_option data_class_str (cs_data_class step))) a2;
          a4 = inject_when (cs_paid step) [(''__paid'', JBool True)] a3;
          a5 = inject_when (cs_distill_prev step)
                 ([(''__distill_prev'', JBool True),
                   (''__distill_max_chars'',
                      JInt (int (or_default default_distill_max_chars (cs_distill_max_chars step))))] @
                  some_field ''__distill_focus'' (cs_distill_focus step)) a4
      in inject_when (cs_optional step) [(''__optional'', JBool True)] a5)"

definition step_jobs_args :: "serde \<Rightarrow> json_map \<Rightarrow> json option \<Rightarrow> json option" where
  "step_jobs_args S step_jobs a =
     (case a of
        Some (JObj m) \<Rightarrow>
          if step_jobs \<noteq> [] \<and> str_contains (to_str S (JObj m)) ''{{steps.''
          then Some (JObj (map_insert ''__step_jobs'' (JObj step_jobs) m)) else a
      | _ \<Rightarrow> a)"

definition effective_args ::
  "serde \<Rightarrow> json_map \<Rightarrow> string option \<Rightarrow> chain_step \<Rightarrow> json option" where
  "effective_args S step_jobs owner step =
     inject_when (owner \<noteq> None) (some_field ''__owner_task_id'' owner)
       (step_jobs_args S step_jobs (metadata_args step))"

definition step_spec ::
  "qenv \<Rightarrow> string option \<Rightarrow> string option \<Rightarrow> catalog_model list \<Rightarrow> json_map \<Rightarrow> string option \<Rightarrow>
   chain_step \<Rightarrow> job_spec" where
  "step_spec E session owner catalog step_jobs parent step =
     \<lparr>js_tool_name = cs_tool_name step,
      js_arguments = effective_args (qe_serde E) step_jobs owner step,
      js_priority = or_default 1 (cs_priority step),
      js_max_attempts = or_default 3 (cs_max_attempts step),
      js_session_id = session, js_parent_job_id = parent,
      js_provider_hint = step_provider_hint (lw_table (qe_world E)) step catalog,
      js_context_profile = cs_context_profile step, js_description = cs_description step,
      js_ttl_secs = cs_ttl_secs step\<rparr>"

definition name_step_job :: "chain_step \<Rightarrow> string \<Rightarrow> json_map \<Rightarrow> json_map" where
  "name_step_job step i step_jobs =
     (case Option.bind (cs_id step) opt_nonempty of
        Some sid \<Rightarrow> map_insert sid (JStr i) step_jobs
      | None \<Rightarrow> step_jobs)"

text \<open>The loop: the ids so far, the jobs of the named steps, the first job's record.\<close>

fun enqueue_steps ::
  "qenv \<Rightarrow> string option \<Rightarrow> string option \<Rightarrow> catalog_model list \<Rightarrow> chain_step list \<Rightarrow> string list \<Rightarrow>
   json_map \<Rightarrow> agent_job option \<Rightarrow> queue \<Rightarrow> (string + string list \<times> agent_job option) \<times> queue" where
  "enqueue_steps E session owner catalog [] ids step_jobs first q = (Inr (ids, first), q)"
| "enqueue_steps E session owner catalog (step # steps) ids step_jobs first q =
     (let C = qe_chrono E; S = qe_serde E; uid = qe_uid E (q_next_uid q);
          q = q\<lparr>q_next_uid := Suc (q_next_uid q)\<rparr>
      in if ids = []
         then (case create_agent_job C S (qe_now E) uid
                      (step_spec E session owner catalog step_jobs None step) (q_db q) of
                 (Inl e, d) \<Rightarrow> (Inl (repository_error_display e), q\<lparr>q_db := d\<rparr>)
               | (Inr job, d) \<Rightarrow>
                   enqueue_steps E session owner catalog steps [job_id job]
                     (name_step_job step (job_id job) step_jobs) (Some job) (q\<lparr>q_db := d\<rparr>))
         else (case create_agent_job_parked S (qe_now E) uid
                      (step_spec E session owner catalog step_jobs (Some (last ids)) step) (q_db q) of
                 (Inl e, d) \<Rightarrow> (Inl (repository_error_display e), q\<lparr>q_db := d\<rparr>)
               | (Inr i, d) \<Rightarrow>
                   enqueue_steps E session owner catalog steps (ids @ [i])
                     (name_step_job step i step_jobs) first (q\<lparr>q_db := d\<rparr>)))"

definition push_jobs :: "agent_job list \<Rightarrow> queue \<Rightarrow> queue" where
  "push_jobs js q = q\<lparr>q_heap := foldl (\<lambda>h j. heap_push (prioritize j) h) (q_heap q) js\<rparr>"

definition notify_one :: "queue \<Rightarrow> queue" where
  "notify_one q = q\<lparr>q_notified := True\<rparr>"

definition enqueue_chain_owned ::
  "qenv \<Rightarrow> chain_step list \<Rightarrow> string option \<Rightarrow> string option \<Rightarrow> queue \<Rightarrow> (string + string list) \<times> queue" where
  "enqueue_chain_owned E steps session owner q =
     (if steps = [] then (Inl ''Chain must contain at least one step'', q)
      else let catalog = (if list_ex (\<lambda>s. pinned_model s \<noteq> None) steps \<and> qe_handler E
                          then env_catalog E else [])
           in (case enqueue_steps E session owner catalog steps [] [] None q of
                 (Inl e, q') \<Rightarrow> (Inl e, q')
               | (Inr (ids, first), q') \<Rightarrow>
                   (Inr ids, case first of
                               Some job \<Rightarrow> notify_one (push_jobs [job] q')
                             | None \<Rightarrow> q')))"

definition enqueue_chain ::
  "qenv \<Rightarrow> chain_step list \<Rightarrow> string option \<Rightarrow> queue \<Rightarrow> (string + string list) \<times> queue" where
  "enqueue_chain E steps session q = enqueue_chain_owned E steps session None q"

lemma push_jobs_heap [simp]: "q_heap (push_jobs js q) = q_heap q @ map prioritize js"
proof -
  have "foldl (\<lambda>h j. heap_push (prioritize j) h) h js = h @ map prioritize js" for h
    by (induction js arbitrary: h) (simp_all add: heap_push_def)
  then show ?thesis by (simp add: push_jobs_def)
qed

lemma push_jobs_simps [simp]:
  "q_db (push_jobs js q) = q_db q" "q_running (push_jobs js q) = q_running q"
  "q_permits (push_jobs js q) = q_permits q" "q_next_uid (push_jobs js q) = q_next_uid q"
  "q_tombstones (push_jobs js q) = q_tombstones q" "q_events (push_jobs js q) = q_events q"
  "q_config (push_jobs js q) = q_config q" "q_notified (push_jobs js q) = q_notified q"
  by (simp_all add: push_jobs_def)

lemma notify_one_simps [simp]:
  "q_db (notify_one q) = q_db q" "q_running (notify_one q) = q_running q"
  "q_permits (notify_one q) = q_permits q" "q_next_uid (notify_one q) = q_next_uid q"
  "q_tombstones (notify_one q) = q_tombstones q" "q_events (notify_one q) = q_events q"
  "q_config (notify_one q) = q_config q" "q_heap (notify_one q) = q_heap q"
  by (simp_all add: notify_one_def)

subsection \<open>What a chain becomes\<close>

text \<open>The nodes of the steps from the one at hand on.\<close>

fun step_nodes ::
  "qenv \<Rightarrow> string option \<Rightarrow> string option \<Rightarrow> catalog_model list \<Rightarrow> chain_step list \<Rightarrow> string option \<Rightarrow>
   json_map \<Rightarrow> nat \<Rightarrow> job_node list" where
  "step_nodes E session owner catalog [] parent step_jobs n = []"
| "step_nodes E session owner catalog (step # steps) parent step_jobs n =
     new_job_node (qe_serde E) (qe_now E) (qe_uid E n) (if parent = None then Queued else Parked)
       (step_spec E session owner catalog step_jobs parent step) #
     step_nodes E session owner catalog steps (Some (qe_uid E n))
       (name_step_job step (qe_uid E n) step_jobs) (Suc n)"

lemma new_job_node_simps [simp]:
  "nd_id (new_job_node S now uid st a) = uid" "nd_status (new_job_node S now uid st a) = st"
  "nd_tool_name (new_job_node S now uid st a) = js_tool_name a"
  "nd_parent_job_id (new_job_node S now uid st a) = or_empty (js_parent_job_id a)"
  "nd_attempt_count (new_job_node S now uid st a) = 0"
  "nd_max_attempts (new_job_node S now uid st a) = js_max_attempts a"
  by (simp_all add: new_job_node_def)

lemma job_id_node_to_agent_job [simp]: "job_id (node_to_agent_job C S n) = nd_id n"
  by (simp add: node_to_agent_job_def)

lemma enqueue_parked_steps:
  "faults (q_db q) = [] \<Longrightarrow> ids \<noteq> [] \<Longrightarrow>
   enqueue_steps E session owner catalog steps ids step_jobs first q =
     (let ns = step_nodes E session owner catalog steps (Some (last ids)) step_jobs (q_next_uid q)
      in (Inr (ids @ map nd_id ns, first),
          q\<lparr>q_db := (q_db q)\<lparr>jobs := jobs (q_db q) @ ns\<rparr>,
            q_next_uid := q_next_uid q + length steps\<rparr>))"
proof (induction steps arbitrary: ids step_jobs q)
  case Nil
  then show ?case by simp
next
  case (Cons step steps)
  then show ?case by (simp add: create_agent_job_parked_def insert_job_def Let_def)
qed

lemma length_step_nodes [simp]:
  "length (step_nodes E session owner catalog steps parent step_jobs n) = length steps"
  by (induction steps arbitrary: parent step_jobs n) simp_all

lemma step_nodes_nth:
  "i < length steps \<Longrightarrow>
   nd_tool_name (step_nodes E session owner catalog steps parent sj n ! i) = cs_tool_name (steps ! i) \<and>
   nd_id (step_nodes E session owner catalog steps parent sj n ! i) = qe_uid E (n + i) \<and>
   nd_status (step_nodes E session owner catalog steps parent sj n ! i) =
     (if i = 0 \<and> parent = None then Queued else Parked) \<and>
   nd_parent_job_id (step_nodes E session owner catalog steps parent sj n ! i) =
     (if i = 0 then or_empty parent else qe_uid E (n + i - 1)) \<and>
   nd_attempt_count (step_nodes E session owner catalog steps parent sj n ! i) = 0"
proof (induction steps arbitrary: parent sj n i)
  case (Cons step steps)
  show ?case
  proof (cases i)
    case 0
    then show ?thesis by (simp add: step_spec_def)
  next
    case (Suc k)
    then show ?thesis
      using Cons.IH[of k "Some (qe_uid E n)" "name_step_job step (qe_uid E n) sj" "Suc n"] Cons.prems
      by (cases k) (simp_all add: or_empty_def)
  qed
qed simp

lemma enqueue_ok:
  assumes "faults (q_db q) = []" and "steps \<noteq> []"
  obtains catalog ns where
    "ns = step_nodes E session owner catalog steps None [] (q_next_uid q)"
    "enqueue_chain_owned E steps session owner q =
       (Inr (map nd_id ns),
        notify_one (push_jobs [node_to_agent_job (qe_chrono E) (qe_serde E) (hd ns)]
          (q\<lparr>q_db := (q_db q)\<lparr>jobs := jobs (q_db q) @ ns\<rparr>,
             q_next_uid := q_next_uid q + length steps\<rparr>)))"
proof -
  from assms(2) obtain step rest where steps: "steps = step # rest" by (cases steps) auto
  define catalog where "catalog = (if list_ex (\<lambda>s. pinned_model s \<noteq> None) steps \<and> qe_handler E
    then env_catalog E else [])"
  let ?ns = "step_nodes E session owner catalog steps None [] (q_next_uid q)"
  have "enqueue_chain_owned E steps session owner q =
       (Inr (map nd_id ?ns),
        notify_one (push_jobs [node_to_agent_job (qe_chrono E) (qe_serde E) (hd ?ns)]
          (q\<lparr>q_db := (q_db q)\<lparr>jobs := jobs (q_db q) @ ?ns\<rparr>,
             q_next_uid := q_next_uid q + length steps\<rparr>)))"
    unfolding enqueue_chain_owned_def Let_def catalog_def[symmetric]
    using assms(1) by (simp add: steps create_agent_job_def insert_job_def enqueue_parked_steps Let_def)
  with that show thesis by blast
qed


text \<open>Submitting a chain to a graph that answers stores one job per step, in order, each
  under its own fresh id and with no attempt used: the first is queued and in the heap, every later
  one is parked under the job of the step before it, and the ids come back in chain order. Nothing
  else in the graph or the heap changes.\<close>

theorem enqueue_builds_the_chain:
  assumes "faults (q_db q) = []" and "steps \<noteq> []"
  shows "\<exists>ns q'. enqueue_chain_owned E steps session owner q = (Inr (map nd_id ns), q') \<and>
    jobs (q_db q') = jobs (q_db q) @ ns \<and> length ns = length steps \<and>
    (\<forall>i < length steps.
       nd_id (ns ! i) = qe_uid E (q_next_uid q + i) \<and> nd_tool_name (ns ! i) = cs_tool_name (steps ! i) \<and>
       nd_attempt_count (ns ! i) = 0 \<and>
       nd_status (ns ! i) = (if i = 0 then Queued else Parked) \<and>
       nd_parent_job_id (ns ! i) = (if i = 0 then [] else nd_id (ns ! (i - 1)))) \<and>
    q_heap q' = q_heap q @ [prioritize (node_to_agent_job (qe_chrono E) (qe_serde E) (hd ns))] \<and>
    q_next_uid q' = q_next_uid q + length steps"
proof -
  obtain catalog ns where ns: "ns = step_nodes E session owner catalog steps None [] (q_next_uid q)"
    and q': "enqueue_chain_owned E steps session owner q =
       (Inr (map nd_id ns),
        notify_one (push_jobs [node_to_agent_job (qe_chrono E) (qe_serde E) (hd ns)]
          (q\<lparr>q_db := (q_db q)\<lparr>jobs := jobs (q_db q) @ ns\<rparr>,
             q_next_uid := q_next_uid q + length steps\<rparr>)))"
    using enqueue_ok[OF assms] by blast
  have "\<forall>i < length steps.
      nd_id (ns ! i) = qe_uid E (q_next_uid q + i) \<and> nd_tool_name (ns ! i) = cs_tool_name (steps ! i) \<and>
      nd_attempt_count (ns ! i) = 0 \<and> nd_status (ns ! i) = (if i = 0 then Queued else Parked) \<and>
      nd_parent_job_id (ns ! i) = (if i = 0 then [] else nd_id (ns ! (i - 1)))"
    unfolding ns using step_nodes_nth[of _ steps E session owner catalog None "[]" "q_next_uid q"]
    by (auto simp: or_empty_def)
  then show ?thesis
    using q' ns by (intro exI[of _ ns] exI conjI) (assumption | simp)+
qed

text \<open>A chain is not submitted as a whole: when the graph refuses the second step, the
  caller is told of an error but the first step's job stays in the graph, queued, and the next
  reload runs it as a chain of its own.\<close>

theorem half_submitted_chain_stays_queued:
  assumes "faults (q_db q) = None # Some e # fs"
    and "enqueue_chain_owned E (a # b # steps) session owner q = (r, q')"
  shows "r = Inl (''Neo4j error: '' @ e) \<and> q_heap q' = q_heap q \<and>
    (\<exists>n. jobs (q_db q') = jobs (q_db q) @ [n] \<and> nd_status n = Queued \<and>
       nd_tool_name n = cs_tool_name a \<and> nd_parent_job_id n = [])"
  using assms
  by (auto simp: enqueue_chain_owned_def create_agent_job_def create_agent_job_parked_def run_query_def
      insert_job_def step_spec_def or_empty_def Let_def)

lemma all_less_two: "(\<forall>i < Suc (Suc 0). P i) \<longleftrightarrow> P 0 \<and> P (Suc 0)"
  by (auto simp: less_Suc_eq)

definition sample_env :: qenv where
  "sample_env =
     \<lparr>qe_chrono = sample_chrono, qe_serde = sample_serde, qe_now = 0, qe_uid = (\<lambda>n. ''job-'' @ show_nat n),
      qe_world = sample_world, qe_handler = True, qe_has_tool = (\<lambda>t. t \<in> {''search'', ''reason''}),
      qe_telemetry = True, qe_list_models = Some [], qe_select_models = (\<lambda>_. Some []),
      qe_recent_errors = None, qe_gpu_leased = False, qe_distiller = None,
      qe_one_decimal = (\<lambda>_. ''2.0''), qe_chat_session = None\<rparr>"

definition sample_steps :: "chain_step list" where
  "sample_steps = [new_step ''search'', new_step ''reason'']"

lemma sample_uids: "qe_uid sample_env 0 = ''job-0''" "qe_uid sample_env 1 = ''job-1''"
  "qe_uid sample_env (Suc 0) = ''job-1''"
  by code_simp+

theorem enqueue_builds_the_chain_witness:
  "\<exists>q'. enqueue_chain_owned sample_env sample_steps None None (new_queue (graph_of [])) =
     (Inr [''job-0'', ''job-1''], q')"
proof -
  have "faults (q_db (new_queue (graph_of []))) = []" "sample_steps \<noteq> []"
    by (simp_all add: new_queue_def sample_steps_def)
  from enqueue_builds_the_chain[OF this, of sample_env None None]
  obtain ns :: "job_node list" and q' where e: "enqueue_chain_owned sample_env sample_steps None None (new_queue (graph_of [])) =
      (Inr (map nd_id ns), q')"
    and l: "length ns = length sample_steps"
    and i: "\<forall>i < length sample_steps.
      nd_id (ns ! i) = qe_uid sample_env (q_next_uid (new_queue (graph_of [])) + i)"
    by (elim exE conjE) blast
  have n: "length ns = 2" "nd_id (ns ! 0) = ''job-0''" "nd_id (ns ! 1) = ''job-1''"
    using l i[rule_format, of 0] i[rule_format, of 1]
    by (simp_all add: sample_steps_def new_queue_def sample_uids)
  have "map nd_id ns = [nd_id (ns ! 0), nd_id (ns ! 1)]"
    using n(1) by (intro nth_equalityI) (auto simp: less_Suc_eq numeral_2_eq_2)
  with e n show ?thesis by simp
qed

theorem half_submitted_chain_stays_queued_witness:
  "fst (enqueue_chain_owned sample_env sample_steps None None
     (new_queue ((graph_of [])\<lparr>faults := [None, Some ''connection lost'']\<rparr>))) =
   Inl ''Neo4j error: connection lost''"
  using half_submitted_chain_stays_queued[of "new_queue ((graph_of [])\<lparr>faults := [None, Some ''connection lost'']\<rparr>)"
      "''connection lost''" "[]" sample_env "new_step ''search''" "new_step ''reason''" "[]" None None
      "fst (enqueue_chain_owned sample_env sample_steps None None
         (new_queue ((graph_of [])\<lparr>faults := [None, Some ''connection lost'']\<rparr>)))"]
  by (simp add: new_queue_def sample_steps_def prod_eq_iff)

end
