(* ===== verification/Queue_Coordinator.thy ===== *)
theory Queue_Coordinator
  imports Queue_Chain
begin

text \<open>
  The coordinator's pass, recovery, the reload, the periodic audits and the operator's actions
  (\<open>crates/work/src/queue.rs\<close> and \<open>queue/ops.rs\<close>). A pass scans the heap once under one reading of the
  GPU lease; a spawned job is in \<open>q_running\<close> and holds a slot of its lane until \<open>finish_slot\<close>.
\<close>

subsection \<open>Lanes and the GPU lease\<close>

definition lane_of :: "string option \<Rightarrow> lane" where
  "lane_of hint =
     (if hint = Some ''anthropic'' then AnthropicLane
      else if hint = Some ''gemini'' then GeminiLane else LocalLane)"

definition job_lane :: "agent_job \<Rightarrow> lane" where
  "job_lane j = lane_of (provider_hint j)"

definition defers_during_gpu_lease :: "string option \<Rightarrow> json option \<Rightarrow> bool" where
  "defers_during_gpu_lease hint args \<longleftrightarrow>
     is_local_hint hint \<and> Option.bind args (\<lambda>a. json_get a ''__required_capabilities'') = None"

definition lease_jobs_go_free :: "env \<Rightarrow> bool" where
  "lease_jobs_go_free e = (case e ''GPU_LEASE_LOCAL_JOBS'' of Some v \<Rightarrow> trim v \<noteq> ''defer'' | None \<Rightarrow> True)"

definition waits_in_lease_mode :: "bool \<Rightarrow> string \<Rightarrow> bool" where
  "waits_in_lease_mode free tool \<longleftrightarrow> \<not> free \<or> tool \<in> {''ingest_media''}"

definition waits_for_lease :: "qenv \<Rightarrow> agent_job \<Rightarrow> bool" where
  "waits_for_lease E j \<longleftrightarrow>
     qe_gpu_leased E \<and> defers_during_gpu_lease (provider_hint j) (arguments j) \<and>
     waits_in_lease_mode (lease_jobs_go_free (lw_env (qe_world E))) (tool_name j)"

subsection \<open>One pass over the heap\<close>

text \<open>What a pass has done so far: the jobs set aside, how many of them wait for the lease, and (for
  the proofs) the entries it dropped as cancelled and the ones it started.\<close>

record scan =
  sc_blocked :: "prioritized_job list"
  sc_deferred :: nat
  sc_skipped :: "prioritized_job list"
  sc_started :: "prioritized_job list"

definition new_scan :: scan where
  "new_scan = \<lparr>sc_blocked = [], sc_deferred = 0, sc_skipped = [], sc_started = []\<rparr>"

function scan_heap :: "qenv \<Rightarrow> queue \<Rightarrow> scan \<Rightarrow> queue \<times> scan" where
  "scan_heap E q sc =
     (if \<not> wc_enabled (q_config q) then (q, sc)
      else case heap_pop (q_heap q) of
             None \<Rightarrow> (q, sc)
           | Some (p, h) \<Rightarrow>
               let q1 = q\<lparr>q_heap := h\<rparr>; j = pj_job p; l = job_lane j
               in if job_id j \<in> q_tombstones q
                  then scan_heap E (q1\<lparr>q_tombstones := q_tombstones q - {job_id j}\<rparr>)
                         (sc\<lparr>sc_skipped := sc_skipped sc @ [p]\<rparr>)
                  else if waits_for_lease E j
                  then scan_heap E q1 (sc\<lparr>sc_blocked := sc_blocked sc @ [p],
                                         sc_deferred := Suc (sc_deferred sc)\<rparr>)
                  else if q_permits q l = 0
                  then scan_heap E q1 (sc\<lparr>sc_blocked := sc_blocked sc @ [p]\<rparr>)
                  else scan_heap E (q1\<lparr>q_permits := (q_permits q)(l := q_permits q l - 1),
                                      q_running := q_running q @ [j]\<rparr>)
                         (sc\<lparr>sc_started := sc_started sc @ [p]\<rparr>))"
  by pat_completeness auto
termination
  by (relation "measure (\<lambda>(E, q, sc). length (q_heap q))") (auto dest!: heap_pop_length)

declare scan_heap.simps [simp del]

definition coordinator_pass :: "qenv \<Rightarrow> queue \<Rightarrow> queue" where
  "coordinator_pass E q =
     (case scan_heap E q new_scan of
        (q', sc) \<Rightarrow>
          q'\<lparr>q_gpu_deferred := sc_deferred sc,
             q_heap := foldl (\<lambda>h p. heap_push p h) (q_heap q') (sc_blocked sc)\<rparr>)"

text \<open>The spawned task's end: its slot is free again and the coordinator is woken.\<close>

definition finish_slot :: "agent_job \<Rightarrow> queue \<Rightarrow> queue" where
  "finish_slot j q =
     notify_one (q\<lparr>q_running := remove1 j (q_running q),
                   q_permits := (q_permits q)(job_lane j := Suc (q_permits q (job_lane j)))\<rparr>)"

subsection \<open>Reload, recovery, audits\<close>

definition reload_from_neo4j :: "qenv \<Rightarrow> queue \<Rightarrow> queue" where
  "reload_from_neo4j E q =
     (case list_queued_agent_jobs (qe_chrono E) (qe_serde E) (q_db q) of
        (Inl e, d) \<Rightarrow> q\<lparr>q_db := d\<rparr>
      | (Inr js, d) \<Rightarrow>
          let existing = set (map (\<lambda>p. job_id (pj_job p)) (q_heap q))
          in push_jobs (filter (\<lambda>j. job_id j \<notin> existing) js) (q\<lparr>q_db := d\<rparr>))"

definition recover :: "qenv \<Rightarrow> queue \<Rightarrow> queue" where
  "recover E q =
     (let d1 = snd (reset_running_agent_jobs (qe_now E) (q_db q));
          d2 = snd (cancel_orphaned_parked_jobs (qe_now E) d1)
      in case list_queued_agent_jobs (qe_chrono E) (qe_serde E) d2 of
           (Inl e, d3) \<Rightarrow> q\<lparr>q_db := d3\<rparr>
         | (Inr js, d3) \<Rightarrow>
             let q' = push_jobs js (q\<lparr>q_db := d3\<rparr>)
             in if q_heap q' \<noteq> [] then notify_one q' else q')"

definition orphan_audit :: "qenv \<Rightarrow> queue \<Rightarrow> queue" where
  "orphan_audit E q =
     (case cancel_orphaned_parked_jobs (qe_now E) (q_db q) of
        (Inl e, d) \<Rightarrow> q\<lparr>q_db := d\<rparr>
      | (Inr n, d) \<Rightarrow> q\<lparr>q_db := d, q_orphan_audit := int n\<rparr>)"

definition lift_result :: "repository_error + 'a \<Rightarrow> string + 'a" where
  "lift_result r = map_sum repository_error_display id r"

text \<open>An operation of the store alone: the queue keeps everything but the graph.\<close>

definition on_store :: "(db \<Rightarrow> 'a answer \<times> db) \<Rightarrow> queue \<Rightarrow> (string + 'a) \<times> queue" where
  "on_store f q = (case f (q_db q) of (r, d) \<Rightarrow> (lift_result r, q\<lparr>q_db := d\<rparr>))"

definition queue_expire :: "qenv \<Rightarrow> queue \<Rightarrow> (string + nat) \<times> queue" where
  "queue_expire E = on_store (expire_jobs (qe_now E))"

definition queue_retry_dead_letter :: "qenv \<Rightarrow> string \<Rightarrow> queue \<Rightarrow> (string + bool) \<times> queue" where
  "queue_retry_dead_letter E i = on_store (retry_dead_letter (qe_now E) i)"

definition queue_delete_dead_letter :: "string \<Rightarrow> queue \<Rightarrow> (string + bool) \<times> queue" where
  "queue_delete_dead_letter i = on_store (delete_dead_letter i)"

text \<open>A day of completed jobs, a week of failed and dead ones, thirty days of dead letters.\<close>

definition queue_cleanup :: "qenv \<Rightarrow> queue \<Rightarrow> (string + nat) \<times> queue" where
  "queue_cleanup E q =
     (case on_store (cleanup_old_jobs (qe_now E) (24 * 3600) (7 * 24 * 3600)) q of
        (Inl e, q1) \<Rightarrow> (Inl e, q1)
      | (Inr n, q1) \<Rightarrow>
          (case on_store (cleanup_old_dead_letter (qe_now E) (30 * 24 * 3600)) q1 of
             (Inl e, q2) \<Rightarrow> (Inl e, q2)
           | (Inr m, q2) \<Rightarrow> (Inr (n + m), q2)))"

subsection \<open>Cancel, retry, drain\<close>

definition cancel :: "qenv \<Rightarrow> string \<Rightarrow> queue \<Rightarrow> (string + bool) \<times> queue" where
  "cancel E i q =
     (case on_store (get_agent_job (qe_chrono E) (qe_serde E) i) q of
        (Inl e, q1) \<Rightarrow> (Inl e, q1)
      | (Inr None, q1) \<Rightarrow> (Inr False, q1)
      | (Inr (Some job), q1) \<Rightarrow>
          if status job \<in> {Completed, Dead, Cancelled} then (Inr False, q1)
          else (case on_store (update_agent_job_status (qe_now E) i Cancelled) q1 of
                  (Inl e, q2) \<Rightarrow> (Inl e, q2)
                | (Inr _, q2) \<Rightarrow>
                    let q3 = snd (on_store (cancel_parked_children (qe_now E) i) q2)
                    in (Inr True, q3\<lparr>q_tombstones := insert i (q_tombstones q3)\<rparr>)))"

definition retry :: "qenv \<Rightarrow> string \<Rightarrow> queue \<Rightarrow> (string + bool) \<times> queue" where
  "retry E i q =
     (case on_store (get_agent_job (qe_chrono E) (qe_serde E) i) q of
        (Inl e, q1) \<Rightarrow> (Inl e, q1)
      | (Inr None, q1) \<Rightarrow> (Inr False, q1)
      | (Inr (Some job), q1) \<Rightarrow>
          if status job \<notin> {Failed, Dead, Cancelled} then (Inr False, q1)
          else (case on_store (retry_agent_job (qe_now E) i) q1 of
                  (Inl e, q2) \<Rightarrow> (Inl e, q2)
                | (Inr _, q2) \<Rightarrow>
                    let q3 = q2\<lparr>q_tombstones := q_tombstones q2 - {i}\<rparr>
                    in (case on_store (get_agent_job (qe_chrono E) (qe_serde E) i) q3 of
                          (Inr (Some refreshed), q4) \<Rightarrow> (Inr True, notify_one (push_jobs [refreshed] q4))
                        | (_, q4) \<Rightarrow> (Inr True, q4))))"

definition cancel_all_queued :: "instant \<Rightarrow> db \<Rightarrow> string list answer \<times> db" where
  "cancel_all_queued now =
     (let P = (\<lambda>j. nd_status j = Queued)
      in run_query (\<lambda>d. (map nd_id (filter P (jobs d)),
           snd (set_where P (\<lambda>j. j\<lparr>nd_status := Cancelled, nd_updated_at := now\<rparr>) d))))"

definition drain :: "qenv \<Rightarrow> queue \<Rightarrow> (string + nat) \<times> queue" where
  "drain E q =
     (let ids = set (map (\<lambda>p. job_id (pj_job p)) (q_heap q));
          q1 = q\<lparr>q_heap := [], q_tombstones := q_tombstones q \<union> ids\<rparr>
      in case on_store (cancel_all_queued (qe_now E)) q1 of
           (Inl e, q2) \<Rightarrow> (Inl e, q2)
         | (Inr cancelled, q2) \<Rightarrow>
             (Inr (length cancelled),
              foldl (\<lambda>q i. snd (on_store (cancel_parked_children (qe_now E) i) q)) q2 cancelled))"

subsection \<open>What a pass does with every entry\<close>

lemma heap_pop_mset: "heap_pop h = Some (p, h') \<Longrightarrow> mset h = add_mset p (mset h')"
  using heap_pop_Some(1,2)[of h p h'] by simp

text \<open>The four ways a scan goes on.\<close>

lemma scan_heap_cases:
  obtains (stop) "scan_heap E q sc = (q, sc)" "\<not> wc_enabled (q_config q) \<or> q_heap q = []"
  | (skip) p h where "wc_enabled (q_config q)" "heap_pop (q_heap q) = Some (p, h)"
      "job_id (pj_job p) \<in> q_tombstones q"
      "scan_heap E q sc = scan_heap E
         (q\<lparr>q_heap := h, q_tombstones := q_tombstones q - {job_id (pj_job p)}\<rparr>)
         (sc\<lparr>sc_skipped := sc_skipped sc @ [p]\<rparr>)"
  | (lease) p h where "wc_enabled (q_config q)" "heap_pop (q_heap q) = Some (p, h)"
      "waits_for_lease E (pj_job p)" "job_id (pj_job p) \<notin> q_tombstones q"
      "scan_heap E q sc = scan_heap E (q\<lparr>q_heap := h\<rparr>)
         (sc\<lparr>sc_blocked := sc_blocked sc @ [p], sc_deferred := Suc (sc_deferred sc)\<rparr>)"
  | (full) p h where "wc_enabled (q_config q)" "heap_pop (q_heap q) = Some (p, h)"
      "\<not> waits_for_lease E (pj_job p)" "q_permits q (job_lane (pj_job p)) = 0"
      "job_id (pj_job p) \<notin> q_tombstones q"
      "scan_heap E q sc = scan_heap E (q\<lparr>q_heap := h\<rparr>) (sc\<lparr>sc_blocked := sc_blocked sc @ [p]\<rparr>)"
  | (start) p h where "wc_enabled (q_config q)" "heap_pop (q_heap q) = Some (p, h)"
      "\<not> waits_for_lease E (pj_job p)" "0 < q_permits q (job_lane (pj_job p))"
      "job_id (pj_job p) \<notin> q_tombstones q"
      "scan_heap E q sc = scan_heap E
         (q\<lparr>q_heap := h, q_permits := (q_permits q)(job_lane (pj_job p) := q_permits q (job_lane (pj_job p)) - 1),
            q_running := q_running q @ [pj_job p]\<rparr>)
         (sc\<lparr>sc_started := sc_started sc @ [p]\<rparr>)"
proof (cases "wc_enabled (q_config q)")
  case False
  then show thesis by (intro stop) (simp_all add: scan_heap.simps[of E q sc])
next
  case on: True
  show thesis
  proof (cases "heap_pop (q_heap q)")
    case None
    from None have empty: "q_heap q = []" by simp
    have "scan_heap E q sc = (q, sc)" by (subst scan_heap.simps) (simp only: None option.case if_cancel)
    with empty show thesis by (intro stop) simp_all
  next
    case (Some ph)
    obtain p h where ph: "ph = (p, h)" by (cases ph)
    note pop = Some[unfolded ph]
    let ?l = "job_lane (pj_job p)"
    consider "job_id (pj_job p) \<in> q_tombstones q"
      | "job_id (pj_job p) \<notin> q_tombstones q" "waits_for_lease E (pj_job p)"
      | "job_id (pj_job p) \<notin> q_tombstones q" "\<not> waits_for_lease E (pj_job p)" "q_permits q ?l = 0"
      | "job_id (pj_job p) \<notin> q_tombstones q" "\<not> waits_for_lease E (pj_job p)" "0 < q_permits q ?l"
      by auto
    then show thesis
    proof cases
      case 1
      show thesis using on pop 1 by (intro skip) (simp_all add: scan_heap.simps[of E q sc] Let_def)
    next
      case 2
      show thesis using on pop 2 by (intro lease) (simp_all add: scan_heap.simps[of E q sc] Let_def)
    next
      case 3
      show thesis using on pop 3 by (intro full) (simp_all add: scan_heap.simps[of E q sc] Let_def)
    next
      case 4
      show thesis using on pop 4 by (intro start) (simp_all add: scan_heap.simps[of E q sc] Let_def)
    qed
  qed
qed

text \<open>Induction over the entries a scan takes, one case per way it goes on.\<close>

lemma scan_heap_induct [case_names stop skip lease full start]:
  assumes "\<And>q sc. \<not> wc_enabled (q_config q) \<or> q_heap q = [] \<Longrightarrow> P q sc q sc"
    and "\<And>q sc p h q' sc'. heap_pop (q_heap q) = Some (p, h) \<Longrightarrow> job_id (pj_job p) \<in> q_tombstones q \<Longrightarrow>
      P (q\<lparr>q_heap := h, q_tombstones := q_tombstones q - {job_id (pj_job p)}\<rparr>)
        (sc\<lparr>sc_skipped := sc_skipped sc @ [p]\<rparr>) q' sc' \<Longrightarrow> P q sc q' sc'"
    and "\<And>q sc p h q' sc'. heap_pop (q_heap q) = Some (p, h) \<Longrightarrow> waits_for_lease E (pj_job p) \<Longrightarrow>
      job_id (pj_job p) \<notin> q_tombstones q \<Longrightarrow>
      P (q\<lparr>q_heap := h\<rparr>) (sc\<lparr>sc_blocked := sc_blocked sc @ [p], sc_deferred := Suc (sc_deferred sc)\<rparr>) q' sc' \<Longrightarrow>
      P q sc q' sc'"
    and "\<And>q sc p h q' sc'. heap_pop (q_heap q) = Some (p, h) \<Longrightarrow> \<not> waits_for_lease E (pj_job p) \<Longrightarrow>
      q_permits q (job_lane (pj_job p)) = 0 \<Longrightarrow> job_id (pj_job p) \<notin> q_tombstones q \<Longrightarrow>
     
      P (q\<lparr>q_heap := h\<rparr>) (sc\<lparr>sc_blocked := sc_blocked sc @ [p]\<rparr>) q' sc' \<Longrightarrow> P q sc q' sc'"
    and "\<And>q sc p h q' sc'. heap_pop (q_heap q) = Some (p, h) \<Longrightarrow> \<not> waits_for_lease E (pj_job p) \<Longrightarrow>
      0 < q_permits q (job_lane (pj_job p)) \<Longrightarrow> job_id (pj_job p) \<notin> q_tombstones q \<Longrightarrow>
      P (q\<lparr>q_heap := h, q_permits := (q_permits q)(job_lane (pj_job p) := q_permits q (job_lane (pj_job p)) - 1),
           q_running := q_running q @ [pj_job p]\<rparr>)
        (sc\<lparr>sc_started := sc_started sc @ [p]\<rparr>) q' sc' \<Longrightarrow> P q sc q' sc'"
    and "scan_heap E q sc = (q', sc')"
  shows "P q sc q' sc'"
  using assms(6)
proof (induction "length (q_heap q)" arbitrary: q sc rule: less_induct)
  case less
  show ?case
  proof (cases rule: scan_heap_cases[of E q sc])
    case stop
    with less.prems assms(1) show ?thesis by simp
  next
    case (skip p h)
    show ?thesis
      by (rule assms(2)[OF skip(2,3)], rule less.hyps) (use skip less.prems heap_pop_length[OF skip(2)] in auto)
  next
    case (lease p h)
    show ?thesis
      by (rule assms(3)[OF lease(2,3,4)], rule less.hyps) (use lease less.prems heap_pop_length[OF lease(2)] in auto)
  next
    case (full p h)
    show ?thesis
      by (rule assms(4)[OF full(2,3,4,5)], rule less.hyps) (use full less.prems heap_pop_length[OF full(2)] in auto)
  next
    case (start p h)
    show ?thesis
      by (rule assms(5)[OF start(2,3,4,5)], rule less.hyps) (use start less.prems heap_pop_length[OF start(2)] in auto)
  qed
qed

text \<open>What every way of going on keeps holds at the end.\<close>

lemma scan_heap_keeps [case_names start_holds skip lease full start]:
  assumes "I q sc"
    and "\<And>q sc p h. I q sc \<Longrightarrow> heap_pop (q_heap q) = Some (p, h) \<Longrightarrow> job_id (pj_job p) \<in> q_tombstones q \<Longrightarrow>
      I (q\<lparr>q_heap := h, q_tombstones := q_tombstones q - {job_id (pj_job p)}\<rparr>)
        (sc\<lparr>sc_skipped := sc_skipped sc @ [p]\<rparr>)"
    and "\<And>q sc p h. I q sc \<Longrightarrow> heap_pop (q_heap q) = Some (p, h) \<Longrightarrow> waits_for_lease E (pj_job p) \<Longrightarrow>
      job_id (pj_job p) \<notin> q_tombstones q \<Longrightarrow>
      I (q\<lparr>q_heap := h\<rparr>) (sc\<lparr>sc_blocked := sc_blocked sc @ [p], sc_deferred := Suc (sc_deferred sc)\<rparr>)"
    and "\<And>q sc p h. I q sc \<Longrightarrow> heap_pop (q_heap q) = Some (p, h) \<Longrightarrow> \<not> waits_for_lease E (pj_job p) \<Longrightarrow>
      q_permits q (job_lane (pj_job p)) = 0 \<Longrightarrow> job_id (pj_job p) \<notin> q_tombstones q \<Longrightarrow>
      I (q\<lparr>q_heap := h\<rparr>) (sc\<lparr>sc_blocked := sc_blocked sc @ [p]\<rparr>)"
    and "\<And>q sc p h. I q sc \<Longrightarrow> heap_pop (q_heap q) = Some (p, h) \<Longrightarrow> \<not> waits_for_lease E (pj_job p) \<Longrightarrow>
      0 < q_permits q (job_lane (pj_job p)) \<Longrightarrow> job_id (pj_job p) \<notin> q_tombstones q \<Longrightarrow>
      I (q\<lparr>q_heap := h, q_permits := (q_permits q)(job_lane (pj_job p) := q_permits q (job_lane (pj_job p)) - 1),
           q_running := q_running q @ [pj_job p]\<rparr>)
        (sc\<lparr>sc_started := sc_started sc @ [p]\<rparr>)"
    and "scan_heap E q sc = (q', sc')"
  shows "I q' sc'"
proof -
  have "I q sc \<longrightarrow> I q' sc'"
    by (rule scan_heap_induct[where E = E and q = q and sc = sc and q' = q' and sc' = sc'])
      (use assms(2-6) in blast)+
  with assms(1) show ?thesis by blast
qed

definition in_lane :: "lane \<Rightarrow> prioritized_job \<Rightarrow> bool" where
  "in_lane l p \<longleftrightarrow> job_lane (pj_job p) = l"

lemma scan_conserves:
  assumes "scan_heap E q new_scan = (q', sc)"
  shows "mset (q_heap q) = mset (q_heap q') + mset (sc_blocked sc) + mset (sc_started sc) + mset (sc_skipped sc)"
proof -
  let ?I = "\<lambda>r s. mset (q_heap q) = mset (q_heap r) + mset (sc_blocked s) + mset (sc_started s) + mset (sc_skipped s)"
  show ?thesis
    by (rule scan_heap_keeps[where I = ?I, OF _ _ _ _ _ assms])
      (auto simp: new_scan_def dest: heap_pop_mset)
qed

lemma scan_accounts:
  assumes "scan_heap E q new_scan = (q', sc)"
  shows "q_running q' = q_running q @ map pj_job (sc_started sc) \<and>
    (\<forall>l. q_permits q l = q_permits q' l + count_where (in_lane l) (sc_started sc)) \<and>
    q_config q' = q_config q \<and> q_db q' = q_db q \<and>
    q_tombstones q' = q_tombstones q - (\<lambda>p. job_id (pj_job p)) ` set (sc_skipped sc)"
proof -
  let ?I = "\<lambda>r s. q_running r = q_running q @ map pj_job (sc_started s) \<and>
    (\<forall>l. q_permits q l = q_permits r l + count_where (in_lane l) (sc_started s)) \<and>
    q_config r = q_config q \<and> q_db r = q_db q \<and>
    q_tombstones r = q_tombstones q - (\<lambda>p. job_id (pj_job p)) ` set (sc_skipped s)"
  show ?thesis
    by (rule scan_heap_keeps[where I = ?I, OF _ _ _ _ _ assms])
      (auto simp: new_scan_def count_where_def in_lane_def)
qed

text \<open>The entries set aside have no free slot, and in each lane the ones started come first.\<close>

lemma scan_blocks:
  assumes "scan_heap E q new_scan = (q', sc)"
  shows "(\<forall>p \<in> set (sc_blocked sc). waits_for_lease E (pj_job p) \<or> q_permits q' (job_lane (pj_job p)) = 0) \<and>
    (\<forall>p \<in> set (sc_started sc). \<not> waits_for_lease E (pj_job p)) \<and>
    (\<forall>p \<in> set (sc_started sc). \<forall>r \<in> set (sc_blocked sc) \<union> set (q_heap q').
       job_lane (pj_job r) = job_lane (pj_job p) \<longrightarrow> \<not> waits_for_lease E (pj_job r) \<longrightarrow> pj_cmp p r \<noteq> Less)"
proof -
  let ?I = "\<lambda>q' sc. (\<forall>p \<in> set (sc_blocked sc). waits_for_lease E (pj_job p) \<or> q_permits q' (job_lane (pj_job p)) = 0) \<and>
    (\<forall>p \<in> set (sc_started sc). \<not> waits_for_lease E (pj_job p)) \<and>
    (\<forall>p \<in> set (sc_started sc). \<forall>r \<in> set (sc_blocked sc) \<union> set (q_heap q').
       job_lane (pj_job r) = job_lane (pj_job p) \<longrightarrow> \<not> waits_for_lease E (pj_job r) \<longrightarrow> pj_cmp p r \<noteq> Less)"
  show ?thesis
  proof (rule scan_heap_keeps[where I = ?I, OF _ _ _ _ _ assms])
    show "?I q new_scan" by (simp add: new_scan_def)
  next
    fix q sc p h
    assume I: "?I q sc" and pop: "heap_pop (q_heap q) = Some (p, h)"
    have sub: "p \<in> set (q_heap q)" "set h \<subseteq> set (q_heap q)"
      and best: "\<And>r. r \<in> set (q_heap q) \<Longrightarrow> pj_cmp p r \<noteq> Less"
      using heap_pop_Some[OF pop] set_remove1_subset[of p "q_heap q"] by auto
    show "?I (q\<lparr>q_heap := h, q_tombstones := q_tombstones q - {job_id (pj_job p)}\<rparr>)
        (sc\<lparr>sc_skipped := sc_skipped sc @ [p]\<rparr>)"
      using I sub by auto
    show "?I (q\<lparr>q_heap := h\<rparr>) (sc\<lparr>sc_blocked := sc_blocked sc @ [p], sc_deferred := Suc (sc_deferred sc)\<rparr>)"
      if "waits_for_lease E (pj_job p)"
      using I sub that by auto
    show "?I (q\<lparr>q_heap := h\<rparr>) (sc\<lparr>sc_blocked := sc_blocked sc @ [p]\<rparr>)"
      if "q_permits q (job_lane (pj_job p)) = 0"
      using I sub that by auto
    show "?I (q\<lparr>q_heap := h, q_permits := (q_permits q)(job_lane (pj_job p) := q_permits q (job_lane (pj_job p)) - 1),
           q_running := q_running q @ [pj_job p]\<rparr>) (sc\<lparr>sc_started := sc_started sc @ [p]\<rparr>)"
      if can: "\<not> waits_for_lease E (pj_job p)" "0 < q_permits q (job_lane (pj_job p))"
    proof -
      have "\<forall>r \<in> set (sc_blocked sc) \<union> set h. job_lane (pj_job r) = job_lane (pj_job p) \<longrightarrow>
          \<not> waits_for_lease E (pj_job r) \<longrightarrow> pj_cmp p r \<noteq> Less"
      proof (intro ballI impI)
        fix r
        assume r: "r \<in> set (sc_blocked sc) \<union> set h" "job_lane (pj_job r) = job_lane (pj_job p)"
          "\<not> waits_for_lease E (pj_job r)"
        then have "r \<notin> set (sc_blocked sc)" using I can by force
        with r sub best show "pj_cmp p r \<noteq> Less" by blast
      qed
      moreover have "\<forall>p' \<in> set (sc_started sc). \<forall>r \<in> set (sc_blocked sc) \<union> set h.
          job_lane (pj_job r) = job_lane (pj_job p') \<longrightarrow> \<not> waits_for_lease E (pj_job r) \<longrightarrow> pj_cmp p' r \<noteq> Less"
        using I sub(2) by blast
      moreover have "\<forall>r \<in> set (sc_blocked sc). waits_for_lease E (pj_job r) \<or>
          ((q_permits q)(job_lane (pj_job p) := q_permits q (job_lane (pj_job p)) - 1)) (job_lane (pj_job r)) = 0"
        using I[THEN conjunct1] by (metis diff_0_eq_0 fun_upd_apply)
      ultimately show ?thesis using I can by (simp add: ball_Un)
    qed
  qed
qed

lemma scan_empties:
  assumes "scan_heap E q sc = (q', sc')" and "wc_enabled (q_config q)"
  shows "q_heap q' = []"
proof -
  have "wc_enabled (q_config q) \<longrightarrow> q_heap q' = []"
    by (rule scan_heap_induct[where E = E and q = q and sc = sc and q' = q' and sc' = sc'])
      (use assms(1) in auto)
  with assms(2) show ?thesis by simp
qed

lemma scan_skips:
  assumes "scan_heap E q new_scan = (q', sc)"
  shows "\<forall>p \<in> set (sc_skipped sc). job_id (pj_job p) \<in> q_tombstones q"
proof -
  let ?I = "\<lambda>r s. q_tombstones r \<subseteq> q_tombstones q \<and>
    (\<forall>p \<in> set (sc_skipped s). job_id (pj_job p) \<in> q_tombstones q)"
  have "?I q' sc"
    by (rule scan_heap_keeps[where I = ?I, OF _ _ _ _ _ assms]) (auto simp: new_scan_def)
  then show ?thesis by simp
qed

definition heap_ids :: "queue \<Rightarrow> string list" where
  "heap_ids q = map (\<lambda>p. job_id (pj_job p)) (q_heap q)"

lemma heap_pop_ids:
  assumes "heap_pop (q_heap q) = Some (p, h)" and "distinct (heap_ids q)"
  shows "distinct (map (\<lambda>p. job_id (pj_job p)) h)" and "\<forall>r \<in> set h. job_id (pj_job r) \<noteq> job_id (pj_job p)"
    and "set h \<subseteq> set (q_heap q)"
proof -
  let ?id = "\<lambda>p. job_id (pj_job p)"
  have "mset (map ?id (q_heap q)) = add_mset (?id p) (mset (map ?id h))"
    using heap_pop_mset[OF assms(1)] by simp
  then have "mset (map ?id (q_heap q)) = mset (map ?id (p # h))" by simp
  then have d: "distinct (map ?id (p # h))"
    using assms(2) unfolding heap_ids_def by (metis mset_eq_imp_distinct_iff)
  then show "distinct (map ?id h)" "\<forall>r \<in> set h. ?id r \<noteq> ?id p" by (force simp: image_iff)+
  show "set h \<subseteq> set (q_heap q)"
    using heap_pop_mset[OF assms(1)] by (metis set_mset_add_mset_insert set_mset_mset subset_insertI)
qed

lemma scan_tombstones:
  assumes "scan_heap E q new_scan = (q', sc)" and "distinct (heap_ids q)"
  shows "\<forall>p \<in> set (sc_started sc) \<union> set (sc_blocked sc). job_id (pj_job p) \<notin> q_tombstones q"
proof -
  let ?I = "\<lambda>r s. distinct (heap_ids r) \<and>
    (\<forall>p \<in> set (q_heap r). job_id (pj_job p) \<in> q_tombstones q \<longrightarrow> job_id (pj_job p) \<in> q_tombstones r) \<and>
    (\<forall>p \<in> set (sc_started s) \<union> set (sc_blocked s). job_id (pj_job p) \<notin> q_tombstones q)"
  have "?I q' sc"
  proof (rule scan_heap_keeps[where I = ?I, OF _ _ _ _ _ assms(1)])
    show "?I q new_scan" using assms(2) by (simp add: new_scan_def)
  next
    fix r s p h
    assume I: "?I r s" and pop: "heap_pop (q_heap r) = Some (p, h)"
    note ids = heap_pop_ids[OF pop I[THEN conjunct1]]
    have p: "p \<in> set (q_heap r)" by (rule heap_pop_Some(1)[OF pop])
    show "?I (r\<lparr>q_heap := h, q_tombstones := q_tombstones r - {job_id (pj_job p)}\<rparr>)
        (s\<lparr>sc_skipped := sc_skipped s @ [p]\<rparr>)"
      using I ids by (auto simp: heap_ids_def)
    assume fresh: "job_id (pj_job p) \<notin> q_tombstones r"
    show "?I (r\<lparr>q_heap := h\<rparr>) (s\<lparr>sc_blocked := sc_blocked s @ [p], sc_deferred := Suc (sc_deferred s)\<rparr>)"
      using I ids p fresh by (auto simp: heap_ids_def)
    show "?I (r\<lparr>q_heap := h\<rparr>) (s\<lparr>sc_blocked := sc_blocked s @ [p]\<rparr>)"
      using I ids p fresh by (auto simp: heap_ids_def)
    show "?I (r\<lparr>q_heap := h, q_permits := (q_permits r)(job_lane (pj_job p) := q_permits r (job_lane (pj_job p)) - 1),
           q_running := q_running r @ [pj_job p]\<rparr>) (s\<lparr>sc_started := sc_started s @ [p]\<rparr>)"
      using I ids p fresh by (auto simp: heap_ids_def)
  qed
  then show ?thesis by blast
qed

text \<open>The pass as a whole.\<close>

lemma coordinator_pass_scan:
  obtains q' sc where "scan_heap E q new_scan = (q', sc)"
    "coordinator_pass E q = q'\<lparr>q_gpu_deferred := sc_deferred sc, q_heap := q_heap q' @ sc_blocked sc\<rparr>"
proof -
  have "foldl (\<lambda>h p. heap_push p h) h ps = h @ ps" for h ps
    by (induction ps arbitrary: h) (simp_all add: heap_push_def)
  then show thesis
    using that by (cases "scan_heap E q new_scan") (simp add: coordinator_pass_def)
qed

text \<open>Claim C14. A pass with the worker enabled is work-conserving and keeps priorities. Every entry
  of the heap is started, dropped as cancelled, or still there, none lost and none doubled; an
  entry that is still there waits for the GPU lease or its lane has no free slot; and no entry left
  behind in a lane, unless it waits for the lease, ranks above one that was started there.\<close>

theorem a_pass_wastes_no_slot:
  assumes "wc_enabled (q_config q)" and "q' = coordinator_pass E q"
  shows "\<exists>started dropped.
    mset (q_heap q) = mset (q_heap q') + mset started + mset dropped \<and>
    q_running q' = q_running q @ map pj_job started \<and>
    (\<forall>p \<in> set dropped. job_id (pj_job p) \<in> q_tombstones q) \<and>
    (\<forall>r \<in> set (q_heap q'). waits_for_lease E (pj_job r) \<or> q_permits q' (job_lane (pj_job r)) = 0) \<and>
    (\<forall>p \<in> set started. \<not> waits_for_lease E (pj_job p) \<and>
       (\<forall>r \<in> set (q_heap q'). job_lane (pj_job r) = job_lane (pj_job p) \<longrightarrow>
          \<not> waits_for_lease E (pj_job r) \<longrightarrow> pj_cmp r p \<noteq> Greater))"
proof -
  obtain q1 sc where scan: "scan_heap E q new_scan = (q1, sc)"
    and pass: "coordinator_pass E q = q1\<lparr>q_gpu_deferred := sc_deferred sc, q_heap := q_heap q1 @ sc_blocked sc\<rparr>"
    by (rule coordinator_pass_scan)
  note scan_empties[OF scan assms(1)]
  with scan_conserves[OF scan] scan_accounts[OF scan] scan_blocks[OF scan] scan_skips[OF scan]
  show ?thesis
    unfolding assms(2) pass
    by (intro exI[of _ "sc_started sc"] exI[of _ "sc_skipped sc"]) (auto simp flip: pj_cmp_antisym)
qed

text \<open>A cancelled entry never starts. When no two entries of the heap are of the same job,
  a pass with the worker enabled starts none whose job has a tombstone and leaves none in the heap.\<close>

theorem a_pass_never_starts_a_cancelled_job:
  assumes "wc_enabled (q_config q)" and "distinct (heap_ids q)" and "q' = coordinator_pass E q"
  shows "\<exists>started. q_running q' = q_running q @ map pj_job started \<and>
    (\<forall>p \<in> set started \<union> set (q_heap q'). job_id (pj_job p) \<notin> q_tombstones q)"
proof -
  obtain q1 sc where scan: "scan_heap E q new_scan = (q1, sc)"
    and pass: "coordinator_pass E q = q1\<lparr>q_gpu_deferred := sc_deferred sc, q_heap := q_heap q1 @ sc_blocked sc\<rparr>"
    by (rule coordinator_pass_scan)
  from scan_empties[OF scan assms(1)] scan_accounts[OF scan] scan_tombstones[OF scan assms(2)]
  show ?thesis unfolding assms(3) pass by (intro exI[of _ "sc_started sc"]) auto
qed

definition sample_job :: "string \<Rightarrow> agent_job" where
  "sample_job i = node_to_agent_job sample_chrono sample_serde (sample_node i Queued [] 0)"

definition sample_queue :: queue where
  "sample_queue = (new_queue (graph_of []))
     \<lparr>q_heap := map (prioritize \<circ> sample_job) [''a'', ''b'', ''c''], q_tombstones := {''b''}\<rparr>"

lemma sample_queue_simps [simp]:
  "q_heap sample_queue = map (prioritize \<circ> sample_job) [''a'', ''b'', ''c'']"
  "q_tombstones sample_queue = {''b''}" "q_running sample_queue = []"
  "wc_enabled (q_config sample_queue)" "q_db sample_queue = graph_of []"
  "q_permits sample_queue = lane_slots"
  by (simp_all add: sample_queue_def new_queue_def default_worker_config_def)

lemma job_id_sample_job [simp]: "job_id (sample_job i) = i"
  by (simp add: sample_job_def)

lemma pj_job_prioritize [simp]: "pj_job (prioritize j) = j"
  by (simp add: prioritize_def)

lemma prioritize_inject [simp]: "prioritize a = prioritize b \<longleftrightarrow> a = b"
  by (metis pj_job_prioritize)

lemma sample_job_inject [simp]: "sample_job i = sample_job k \<longleftrightarrow> i = k"
  by (metis job_id_sample_job)

lemma sample_heap_ids [simp]: "heap_ids sample_queue = [''a'', ''b'', ''c'']"
  by (simp add: heap_ids_def)

theorem a_pass_wastes_no_slot_witness:
  "wc_enabled (q_config sample_queue) \<and>
   2 \<le> length (q_heap (coordinator_pass sample_env sample_queue)) +
        length (q_running (coordinator_pass sample_env sample_queue))"
proof -
  obtain started dropped where
    m: "mset (q_heap sample_queue) = mset (q_heap (coordinator_pass sample_env sample_queue)) + mset started + mset dropped"
    and run: "q_running (coordinator_pass sample_env sample_queue) = q_running sample_queue @ map pj_job started"
    and d: "\<forall>p \<in> set dropped. job_id (pj_job p) \<in> q_tombstones sample_queue"
    using a_pass_wastes_no_slot[of sample_queue "coordinator_pass sample_env sample_queue" sample_env] by auto
  have "set_mset (mset dropped) \<subseteq> set_mset (mset (q_heap sample_queue))" unfolding m by simp
  with d have "set dropped \<subseteq> {prioritize (sample_job ''b'')}" by force
  then have "mset dropped = replicate_mset (length dropped) (prioritize (sample_job ''b''))"
    by (induction dropped) auto
  moreover have "count (mset dropped) x \<le> count (mset (q_heap sample_queue)) x" for x
    unfolding m by simp
  ultimately have "length dropped \<le> count (mset (q_heap sample_queue)) (prioritize (sample_job ''b''))"
    by (metis count_replicate_mset)
  then have "length dropped \<le> 1" by simp
  moreover have "size (mset (q_heap sample_queue)) = 3" by simp
  ultimately show ?thesis using arg_cong[OF m, of size] run by simp
qed

theorem a_pass_never_starts_a_cancelled_job_witness:
  "''b'' \<notin> (\<lambda>p. job_id (pj_job p)) ` set (q_heap (coordinator_pass sample_env sample_queue)) \<and>
   ''b'' \<notin> job_id ` set (q_running (coordinator_pass sample_env sample_queue))"
  using a_pass_never_starts_a_cancelled_job[of sample_queue "coordinator_pass sample_env sample_queue" sample_env]
  by auto

end
