(* ===== verification/Workflows.thy ===== *)
theory Workflows
  imports Queue_Chain Templates
begin

text \<open>
  Starting and rendering a workflow's runs (\<open>crates/work/src/workflows.rs\<close>, with \<open>missing_inputs\<close> of
  \<open>crates/models/src/workflow.rs\<close> and the lookups of \<open>crates/repository/src/workflow.rs\<close>). A run is a
  task that names its workflow and inputs. Objects are read in the order of their keys.
\<close>

definition by_key :: "json_map \<Rightarrow> json_map" where
  "by_key m = sort_key fst m"

subsection \<open>Looking a workflow up\<close>

definition get_workflow_by_name :: "string \<Rightarrow> db \<Rightarrow> workflow option answer \<times> db" where
  "get_workflow_by_name n = run_query (read_only (\<lambda>d. find (\<lambda>w. wf_name w = n) (workflows d)))"

definition get_default_workflow :: "db \<Rightarrow> workflow option answer \<times> db" where
  "get_default_workflow =
     run_query (read_only (\<lambda>d. case sort_key wf_name (filter wf_is_default (workflows d)) of
       [] \<Rightarrow> None | w # _ \<Rightarrow> Some w))"

definition list_workflows :: "bool \<Rightarrow> db \<Rightarrow> workflow list answer \<times> db" where
  "list_workflows enabled_only =
     run_query (read_only (\<lambda>d. sort_key wf_name
       (filter (\<lambda>w. enabled_only \<longrightarrow> wf_enabled w) (workflows d))))"

definition blank_input :: "json option \<Rightarrow> bool" where
  "blank_input v \<longleftrightarrow>
     (case v of None \<Rightarrow> True | Some JNull \<Rightarrow> True | Some (JStr s) \<Rightarrow> trim s = [] | Some _ \<Rightarrow> False)"

definition missing_inputs :: "workflow \<Rightarrow> json_map \<Rightarrow> string list" where
  "missing_inputs w inputs =
     map wi_name (filter (\<lambda>i. blank_input (map_of inputs (wi_name i))) (filter wi_required (wf_inputs w)))"

definition quoted_workflow :: "string \<Rightarrow> string" where
  "quoted_workflow n = ''Workflow '' @ [CHR 39] @ n @ [CHR 39]"

text \<open>The checks on the workflow found, in the code's order.\<close>

definition check_runnable :: "workflow \<Rightarrow> json_map \<Rightarrow> string + workflow" where
  "check_runnable w inputs =
     (if \<not> wf_enabled w
      then Inl (quoted_workflow (wf_name w) @ '' is disabled'' @
             (case wf_paused_reason w of Some r \<Rightarrow> '' ('' @ r @ '')'' | None \<Rightarrow> []) @ ''.'')
      else case wf_unavailable w of
             Some why \<Rightarrow> Inl (quoted_workflow (wf_name w) @ '' cannot run: '' @ why @ ''.'')
           | None \<Rightarrow>
               (if missing_inputs w inputs \<noteq> []
                then Inl (quoted_workflow (wf_name w) @ '' needs input '' @
                       join_with '', '' (missing_inputs w inputs) @ '' (declares: '' @
                       join_with '', '' (map wi_name (wf_inputs w)) @ '').'')
                else Inr w))"

definition resolve :: "string option \<Rightarrow> json_map \<Rightarrow> db \<Rightarrow> (string + workflow) \<times> db" where
  "resolve name inputs d =
     (case Option.bind name (\<lambda>n. opt_nonempty (trim n)) of
        Some n \<Rightarrow>
          (case get_workflow_by_name n d of
             (Inl e, d1) \<Rightarrow> (Inl (repository_error_display e), d1)
           | (Inr (Some w), d1) \<Rightarrow> (check_runnable w inputs, d1)
           | (Inr None, d1) \<Rightarrow>
               (case list_workflows True d1 of
                  (r, d2) \<Rightarrow> (Inl (''No workflow named '' @ [CHR 39] @ n @ [CHR 39] @ ''. Enabled workflows: '' @
                    join_with '', '' (case r of Inr ws \<Rightarrow> map wf_name ws | Inl _ \<Rightarrow> []) @ ''.''), d2)))
      | None \<Rightarrow>
          (case get_default_workflow d of
             (Inl e, d1) \<Rightarrow> (Inl (repository_error_display e), d1)
           | (Inr None, d1) \<Rightarrow> (Inl ''No default workflow is set (a workflow file with `default: true`).'', d1)
           | (Inr (Some w), d1) \<Rightarrow> (check_runnable w inputs, d1)))"

subsection \<open>Starting a run\<close>

definition input_text :: "serde \<Rightarrow> json \<Rightarrow> string" where
  "input_text S v = (case v of JStr s \<Rightarrow> s | other \<Rightarrow> to_str S other)"

definition default_goal :: "serde \<Rightarrow> string \<Rightarrow> json_map \<Rightarrow> string" where
  "default_goal S name inputs =
     (let vals = map (input_text S \<circ> snd) (by_key inputs)
      in if vals = [] then name else name @ '': '' @ join_with '', '' vals)"

definition chat_session_input :: string where
  "chat_session_input = ''session''"

definition with_chat_session :: "workflow \<Rightarrow> json_map \<Rightarrow> string option \<Rightarrow> json_map" where
  "with_chat_session w inputs chat =
     (let given = (case Option.bind (map_of inputs chat_session_input) as_str of
                     Some s \<Rightarrow> trim s \<noteq> [] | None \<Rightarrow> False)
      in case chat of
           Some sid \<Rightarrow>
             if trim sid \<noteq> [] \<and> \<not> given \<and> list_ex (\<lambda>i. wi_name i = chat_session_input) (wf_inputs w)
             then map_insert chat_session_input (JStr sid) inputs else inputs
         | None \<Rightarrow> inputs)"

record started_run =
  sr_task_id :: string
  sr_workflow :: string

definition start_run ::
  "qenv \<Rightarrow> string \<Rightarrow> string option \<Rightarrow> json_map \<Rightarrow> string option \<Rightarrow> string option \<Rightarrow> string option \<Rightarrow> db \<Rightarrow>
   (string + started_run) \<times> db" where
  "start_run E uid name inputs goal ctx criteria d =
     (case resolve name inputs d of
        (Inl e, d1) \<Rightarrow> (Inl e, d1)
      | (Inr w, d1) \<Rightarrow>
          let ins = with_chat_session w inputs (qe_chat_session E);
              g = (case Option.bind goal (\<lambda>g. opt_nonempty (trim g)) of
                     Some g \<Rightarrow> g | None \<Rightarrow> default_goal (qe_serde E) (wf_name w) ins)
          in (case create_run (qe_serde E) (qe_now E) uid g ctx criteria (Some (wf_name w))
                     (Some (JObj ins)) ''created'' d1 of
                (Inl e, d2) \<Rightarrow> (Inl (repository_error_display e), d2)
              | (Inr i, d2) \<Rightarrow> (Inr \<lparr>sr_task_id = i, sr_workflow = wf_name w\<rparr>, d2)))"

definition is_slug_char :: "char \<Rightarrow> bool" where
  "is_slug_char c \<longleftrightarrow> is_digit c \<or> (let n = of_char c :: nat in 97 \<le> n \<and> n \<le> 122)"

definition is_slug :: "string \<Rightarrow> bool" where
  "is_slug s \<longleftrightarrow>
     (case s of [] \<Rightarrow> False | c # _ \<Rightarrow> is_slug_char c) \<and> list_all (\<lambda>c. is_slug_char c \<or> c = CHR ''-'') s"

subsection \<open>Reading the steps\<close>

text \<open>
  The derived \<open>Deserialize\<close> of \<open>ChainStep\<close>: a field that is missing has its default, a \<open>null\<close> is the
  \<open>None\<close> of an optional field and an error in any other, a number must fit its type, unknown fields
  are passed over. A step may also be an array of the fields in their order. What serde says of an
  error is the argument \<open>why\<close> of the readers.
\<close>

definition step_fields :: "string list" where
  "step_fields =
     [''id'', ''tool_name'', ''arguments'', ''priority'', ''max_attempts'', ''provider_hint'', ''context_profile'',
      ''ttl_secs'', ''description'', ''confidence_threshold'', ''is_evaluator'', ''min_score'',
      ''evaluator_task_id'', ''required_capabilities'', ''model'', ''data_class'', ''paid'', ''distill_prev'',
      ''distill_max_chars'', ''distill_focus'', ''optional'', ''when'']"

definition read_field :: "json_map \<Rightarrow> string \<Rightarrow> (json \<Rightarrow> 'a option) \<Rightarrow> 'a \<Rightarrow> 'a option" where
  "read_field m k p dflt = (case map_of m k of None \<Rightarrow> Some dflt | Some v \<Rightarrow> p v)"

definition read_opt :: "(json \<Rightarrow> 'a option) \<Rightarrow> json \<Rightarrow> 'a option option" where
  "read_opt p v = (if v = JNull then Some None else map_option Some (p v))"

definition read_uint :: "nat \<Rightarrow> json \<Rightarrow> nat option" where
  "read_uint limit v = Option.bind (as_u64 v) (\<lambda>n. if n \<le> limit then Some n else None)"

definition read_data_class :: "json \<Rightarrow> data_class option" where
  "read_data_class v =
     (let of_name = (\<lambda>s. if s = ''private'' then Some DPrivate else if s = ''public'' then Some DPublic else None)
      in case v of JStr s \<Rightarrow> of_name s | JObj [(s, JNull)] \<Rightarrow> of_name s | _ \<Rightarrow> None)"

definition step_of_map :: "json_map \<Rightarrow> chain_step option" where
  "step_of_map m =
     (let str = read_opt as_str; u32 = read_opt (read_uint (2 ^ 32 - 1)) in
      Option.bind (read_field m ''id'' str None) (\<lambda>i.
      Option.bind (read_field m ''tool_name'' as_str []) (\<lambda>tool.
      Option.bind (read_field m ''arguments'' (read_opt Some) None) (\<lambda>args.
      Option.bind (read_field m ''priority'' (read_opt (read_uint 255)) None) (\<lambda>prio.
      Option.bind (read_field m ''max_attempts'' u32 None) (\<lambda>attempts.
      Option.bind (read_field m ''provider_hint'' str None) (\<lambda>hint.
      Option.bind (read_field m ''context_profile'' str None) (\<lambda>profile.
      Option.bind (read_field m ''ttl_secs'' (read_opt as_u64) None) (\<lambda>ttl.
      Option.bind (read_field m ''description'' str None) (\<lambda>desc.
      Option.bind (read_field m ''confidence_threshold'' (read_opt as_f64) None) (\<lambda>conf.
      Option.bind (read_field m ''is_evaluator'' as_bool False) (\<lambda>evaluator.
      Option.bind (read_field m ''min_score'' (read_opt as_f64) None) (\<lambda>min_score.
      Option.bind (read_field m ''evaluator_task_id'' str None) (\<lambda>ev_task.
      Option.bind (read_field m ''required_capabilities''
         (read_opt (\<lambda>v. Option.bind (as_array v) text_list)) None) (\<lambda>caps.
      Option.bind (read_field m ''model'' str None) (\<lambda>model.
      Option.bind (read_field m ''data_class'' (read_opt read_data_class) None) (\<lambda>dc.
      Option.bind (read_field m ''paid'' as_bool False) (\<lambda>paid.
      Option.bind (read_field m ''distill_prev'' as_bool False) (\<lambda>distill.
      Option.bind (read_field m ''distill_max_chars'' (read_opt as_u64) None) (\<lambda>max_chars.
      Option.bind (read_field m ''distill_focus'' str None) (\<lambda>focus.
      Option.bind (read_field m ''optional'' as_bool False) (\<lambda>opt.
      Option.bind (read_field m ''when'' str None) (\<lambda>when.
        Some \<lparr>cs_id = i, cs_tool_name = tool, cs_arguments = args, cs_priority = prio,
          cs_max_attempts = attempts, cs_provider_hint = hint, cs_context_profile = profile,
          cs_ttl_secs = ttl, cs_description = desc, cs_confidence_threshold = conf,
          cs_is_evaluator = evaluator, cs_min_score = min_score, cs_evaluator_task_id = ev_task,
          cs_required_capabilities = caps, cs_model = model, cs_data_class = dc, cs_paid = paid,
          cs_distill_prev = distill, cs_distill_max_chars = max_chars, cs_distill_focus = focus,
          cs_optional = opt, cs_when = when\<rparr>)))))))))))))))))))))))"

definition chain_step_of_json :: "json \<Rightarrow> chain_step option" where
  "chain_step_of_json v =
     (case v of
        JObj m \<Rightarrow> step_of_map m
      | JArr vs \<Rightarrow> if length vs \<le> length step_fields then step_of_map (zip step_fields vs) else None
      | _ \<Rightarrow> None)"

fun all_some :: "'a option list \<Rightarrow> 'a list option" where
  "all_some [] = Some []"
| "all_some (x # xs) =
     (case x of None \<Rightarrow> None | Some a \<Rightarrow> map_option (\<lambda>as. a # as) (all_some xs))"

definition chain_steps_of_json :: "json \<Rightarrow> chain_step list option" where
  "chain_steps_of_json v = Option.bind (as_array v) (\<lambda>vs. all_some (map chain_step_of_json vs))"

subsection \<open>Rendering a run\<close>

text \<open>What the clock says, in local time.\<close>

record run_clock =
  clock_today :: string
  clock_now :: string
  clock_weekday :: string

definition step_applies :: "chain_step \<Rightarrow> bool" where
  "step_applies step =
     (case cs_when step of None \<Rightarrow> True | Some w \<Rightarrow> trim w \<noteq> [] \<and> \<not> str_contains w ''{{'')"

definition input_vars :: "serde \<Rightarrow> workflow \<Rightarrow> json_map \<Rightarrow> (string \<times> string) list" where
  "input_vars S w inputs =
     map (\<lambda>(k, v). (''inputs.'' @ k, input_text S v)) (by_key inputs) @
     map (\<lambda>i. (''inputs.'' @ wi_name i, [])) (filter (\<lambda>i. map_of inputs (wi_name i) = None) (wf_inputs w))"

definition run_vars ::
  "serde \<Rightarrow> run_clock \<Rightarrow> workflow \<Rightarrow> string \<Rightarrow> string \<Rightarrow> json_map \<Rightarrow> (string \<times> string) list" where
  "run_vars S clk w task goal inputs =
     [(''task_id'', task), (''goal'', goal), (''date'', clock_today clk), (''now'', clock_now clk),
      (''weekday'', clock_weekday clk)] @ input_vars S w inputs"

definition render_steps ::
  "serde \<Rightarrow> run_clock \<Rightarrow> (string \<Rightarrow> string) \<Rightarrow> (json \<Rightarrow> string) \<Rightarrow> workflow \<Rightarrow> string \<Rightarrow> string \<Rightarrow> json_map \<Rightarrow>
   string + chain_step list" where
  "render_steps S clk why_text why_value w task goal inputs =
     (case from_str S (wf_steps w) of
        None \<Rightarrow> Inl (quoted_workflow (wf_name w) @ '' steps JSON invalid: '' @ why_text (wf_steps w))
      | Some raw \<Rightarrow>
          let filled = substitute_template_vars raw (run_vars S clk w task goal inputs)
          in (case chain_steps_of_json filled of
                None \<Rightarrow> Inl (quoted_workflow (wf_name w) @ '' steps do not parse: '' @ why_value filled)
              | Some steps \<Rightarrow> Inr (filter step_applies steps)))"

subsection \<open>Which requests start a run\<close>

text \<open>The workflow a request means, and when it may run.\<close>

definition asked_workflow :: "string option \<Rightarrow> db \<Rightarrow> workflow option" where
  "asked_workflow name d =
     (case Option.bind name (\<lambda>n. opt_nonempty (trim n)) of
        Some n \<Rightarrow> find (\<lambda>w. wf_name w = n) (workflows d)
      | None \<Rightarrow> (case sort_key wf_name (filter wf_is_default (workflows d)) of [] \<Rightarrow> None | w # _ \<Rightarrow> Some w))"

definition runnable :: "workflow \<Rightarrow> json_map \<Rightarrow> bool" where
  "runnable w inputs \<longleftrightarrow> wf_enabled w \<and> wf_unavailable w = None \<and>
     (\<forall>i \<in> set (wf_inputs w). wi_required i \<longrightarrow> \<not> blank_input (map_of inputs (wi_name i)))"

lemma check_runnable_iff: "(\<exists>v. check_runnable w inputs = Inr v) \<longleftrightarrow> runnable w inputs"
  "check_runnable w inputs = Inr v \<Longrightarrow> v = w"
  by (auto simp: check_runnable_def runnable_def missing_inputs_def filter_empty_conv split: option.splits if_splits)

lemma resolve_runnable:
  assumes "faults d = []"
  shows "snd (resolve name inputs d) = d"
    and "fst (resolve name inputs d) = Inr w \<longleftrightarrow> asked_workflow name d = Some w \<and> runnable w inputs"
proof -
  have "check_runnable v inputs = Inr w \<longleftrightarrow> v = w \<and> runnable w inputs" for v
    using check_runnable_iff by metis
  then show "fst (resolve name inputs d) = Inr w \<longleftrightarrow> asked_workflow name d = Some w \<and> runnable w inputs"
    using assms by (auto simp: resolve_def asked_workflow_def get_workflow_by_name_def get_default_workflow_def
        list_workflows_def Let_def split: option.splits)
  show "snd (resolve name inputs d) = d"
    using assms by (auto simp: resolve_def get_workflow_by_name_def get_default_workflow_def
        list_workflows_def split: option.split list.split sum.split)
qed

text \<open>A request starts a run exactly when the workflow it names (the default one when it
  names none) exists, is enabled, is available and is given every required input; then the graph holds
  one new task for that workflow with these inputs, waiting for the scheduler. Otherwise the answer says
  why and the graph is as it was.\<close>

theorem a_run_starts_exactly_when_it_can:
  assumes "faults d = []"
    and "\<forall>w. serde_roundtrip (qe_serde E) (JObj (with_chat_session w inputs (qe_chat_session E)))"
  shows "case asked_workflow name d of
      Some w \<Rightarrow>
        if runnable w inputs
        then \<exists>t. start_run E uid name inputs goal ctx criteria d =
               (Inr \<lparr>sr_task_id = uid, sr_workflow = wf_name w\<rparr>, d\<lparr>tasks := tasks d @ [t]\<rparr>) \<and>
             tk_id t = uid \<and> tk_status t = TCreated \<and> tk_workflow t = Some (wf_name w) \<and> tk_context t = ctx \<and>
             or_default [] (task_inputs (qe_serde E) t) = with_chat_session w inputs (qe_chat_session E)
        else \<exists>why. start_run E uid name inputs goal ctx criteria d = (Inl why, d)
    | None \<Rightarrow> \<exists>why. start_run E uid name inputs goal ctx criteria d = (Inl why, d)"
proof -
  obtain r where r: "resolve name inputs d = (r, d)"
    using resolve_runnable(1)[OF assms(1)] by (metis prod.collapse)
  note ok = resolve_runnable(2)[OF assms(1), of name inputs, unfolded r fst_conv]
  show ?thesis
  proof (cases r)
    case (Inl e)
    then have "start_run E uid name inputs goal ctx criteria d = (Inl e, d)" by (simp add: start_run_def r)
    with ok Inl show ?thesis by (auto split: option.split)
  next
    case (Inr w)
    then have w: "asked_workflow name d = Some w" "runnable w inputs" using ok by auto
    let ?m = "with_chat_session w inputs (qe_chat_session E)"
    let ?t = "\<lparr>tk_id = uid, tk_goal = (case Option.bind goal (\<lambda>g. opt_nonempty (trim g)) of
        Some g \<Rightarrow> g | None \<Rightarrow> default_goal (qe_serde E) (wf_name w) ?m),
      tk_context = ctx, tk_success_criteria = criteria, tk_workflow = Some (wf_name w),
      tk_inputs_json = (if ?m = [] then None else Some (to_str (qe_serde E) (JObj ?m))),
      tk_status = TCreated, tk_created_at = qe_now E, tk_updated_at = qe_now E\<rparr>"
    have "start_run E uid name inputs goal ctx criteria d =
        (Inr \<lparr>sr_task_id = uid, sr_workflow = wf_name w\<rparr>, d\<lparr>tasks := tasks d @ [?t]\<rparr>)"
      using assms(1) by (simp add: start_run_def r Inr create_run_def Let_def task_status_of_def)
    moreover have "or_default [] (task_inputs (qe_serde E) ?t) = ?m"
      using assms(2) by (simp add: task_inputs_def or_default_def serde_roundtrip_def)
    ultimately show ?thesis using w by auto
  qed
qed

definition sample_flow :: workflow where
  "sample_flow =
     \<lparr>wf_id = ''w'', wf_name = ''digest'', wf_description = None, wf_enabled = True, wf_interval_seconds = None,
      wf_steps = ''null'', wf_inputs = [\<lparr>wi_name = ''day'', wi_description = None, wi_required = True\<rparr>],
      wf_checks = [], wf_evaluation_rubric = None, wf_is_default = True, wf_last_run_at = None,
      wf_next_run_at = None, wf_created_at = [], wf_updated_at = [], wf_managed_by = None,
      wf_paused_reason = None, wf_topic = None, wf_kind = None, wf_version = 1, wf_plugin = None,
      wf_unavailable = None\<rparr>"

definition flow_env :: qenv where
  "flow_env = sample_env\<lparr>qe_serde := \<lparr>from_str = (\<lambda>s. Some (JObj [(''day'', JStr ''monday'')])), to_str = (\<lambda>v. ''{}'')\<rparr>\<rparr>"

theorem a_run_starts_exactly_when_it_can_witness:
  "\<exists>t. start_run flow_env ''t1'' (Some '' digest '') [(''day'', JStr ''monday'')] None None None
     ((graph_of [])\<lparr>workflows := [sample_flow]\<rparr>) =
     (Inr \<lparr>sr_task_id = ''t1'', sr_workflow = ''digest''\<rparr>, (graph_of [])\<lparr>workflows := [sample_flow], tasks := [t]\<rparr>)"
proof -
  have "\<forall>w. serde_roundtrip (qe_serde flow_env) (JObj (with_chat_session w [(''day'', JStr ''monday'')] (qe_chat_session flow_env)))"
    by (simp add: flow_env_def sample_env_def with_chat_session_def serde_roundtrip_def)
  moreover have "trim '' digest '' = ''digest''" "trim ''monday'' \<noteq> []" by code_simp+
  ultimately show ?thesis
    using a_run_starts_exactly_when_it_can[where d = "(graph_of [])\<lparr>workflows := [sample_flow]\<rparr>" and E = flow_env
      and inputs = "[(''day'', JStr ''monday'')]" and name = "Some '' digest ''" and uid = "''t1''" and goal = None
      and ctx = None and criteria = None]
    by (auto simp: asked_workflow_def runnable_def blank_input_def sample_flow_def opt_nonempty_def graph_of_def)
qed

end
