(* ===== verification/Gates.thy ===== *)
theory Gates
  imports Workflows
begin

text \<open>
  What runs after a step (\<open>crates/work/src/queue/gates.rs\<close>, with the error classes of
  \<open>crates/work/src/queue.rs\<close>): the evaluator gate and its requeue, and meta-learning from a dead job.
\<close>

subsection \<open>The evaluator's score\<close>

definition clamp_score :: "rfloat \<Rightarrow> rfloat" where
  "clamp_score x =
     (case x of Num q \<Rightarrow> Num (if q < 1 then 1 else if 5 < q then 5 else q)
      | Inf neg \<Rightarrow> Num (if neg then 1 else 5)
      | NaN \<Rightarrow> NaN)"

definition line_score :: "string \<Rightarrow> rfloat option" where
  "line_score line =
     (case strip_prefix ''Score:'' (trim line) of
        None \<Rightarrow> None
      | Some rest \<Rightarrow> map_option clamp_score (parse_float (trim (takeWhile (\<lambda>c. c \<noteq> CHR ''/'') (trim rest)))))"

fun first_score :: "string list \<Rightarrow> rfloat option" where
  "first_score [] = None"
| "first_score (l # ls) = (case line_score l of Some x \<Rightarrow> Some x | None \<Rightarrow> first_score ls)"

definition parse_evaluator_score :: "string \<Rightarrow> rfloat option" where
  "parse_evaluator_score text =
     (case first_score (text_lines text) of
        Some x \<Rightarrow> Some x
      | None \<Rightarrow>
          let low = lower text
          in if str_contains low ''fully met'' then Some (Num 5)
             else if str_contains low ''partially met'' then Some (Num 3)
             else if str_contains low ''not met'' then Some (Num 1) else None)"

text \<open>\<open>score >= min\<close> on floats: a score that is no number reaches nothing.\<close>

definition score_reaches :: "rfloat \<Rightarrow> rat \<Rightarrow> bool" where
  "score_reaches x m \<longleftrightarrow> (case x of Num q \<Rightarrow> m \<le> q | Inf neg \<Rightarrow> \<not> neg | NaN \<Rightarrow> False)"

subsection \<open>Kinds of failure\<close>

definition job_arg :: "agent_job \<Rightarrow> string \<Rightarrow> json option" where
  "job_arg job key = Option.bind (arguments job) (\<lambda>a. json_get a key)"

definition step_model_error :: string where
  "step_model_error = ''Step model cannot run''"

definition contains_any :: "string \<Rightarrow> string list \<Rightarrow> bool" where
  "contains_any s needles \<longleftrightarrow> list_ex (str_contains s) needles"

definition is_transient_infra_error :: "string \<Rightarrow> bool" where
  "is_transient_infra_error err =
     contains_any (lower err)
       [''429'', ''too many requests'', ''rate limit'', ''quota'', ''run out of searches'', ''timed out'',
        ''timeout'', ''connection refused'', ''502'', ''503'', ''504'', ''service unavailable'',
        ''temporarily unavailable'']"

definition is_quota_exhausted_error :: "string \<Rightarrow> bool" where
  "is_quota_exhausted_error err =
     contains_any (lower err)
       [''run out of searches'', ''quota'', ''insufficient credits'', ''billing'', ''exceeded your current'']"

definition should_meta_learn :: "string \<Rightarrow> bool" where
  "should_meta_learn tool \<longleftrightarrow>
     tool \<notin> {''store_note'', ''update_task'', ''consolidate_memories'', ''synthesize_knowledge'', ''reason'',
       ''reflect_on_work'', ''prune_old_notes'', ''review_due_notes'', ''get_task'', ''list_tasks''}"

subsection \<open>Meta-learning\<close>

definition hypothesis_question :: "string \<Rightarrow> nat \<Rightarrow> string \<Rightarrow> string" where
  "hypothesis_question tool attempt err =
     ''You are a meta-learning system. Respond in English only.'' @ newline @
     ''A job running '' @ [CHR 39] @ tool @ [CHR 39] @ '' just died after '' @ show_nat attempt @
     '' attempts with error: '' @ err @ newline @ newline @
     ''Based on any related notes above:'' @ newline @
     ''1. ANALYZE: What is causing this failure?'' @ newline @
     ''2. HYPOTHESIZE: Form a specific, testable hypothesis.'' @ newline @
     ''3. TEST: Propose a concrete test to confirm/refute the hypothesis.'' @ newline @
     ''4. INTEGRATE: What single change would prevent this failure from recurring?''"

definition meta_step :: "string \<Rightarrow> string \<Rightarrow> json \<Rightarrow> string \<Rightarrow> chain_step" where
  "meta_step dead_tool tool args what =
     (new_step tool)\<lparr>cs_arguments := Some args, cs_priority := Some 0, cs_max_attempts := Some 2,
       cs_provider_hint := Some ''local'',
       cs_description := Some (''Meta-learn: '' @ what @ '' for '' @ [CHR 39] @ dead_tool @ [CHR 39])\<rparr>"

definition meta_learning_chain :: "string \<Rightarrow> nat \<Rightarrow> string \<Rightarrow> chain_step list" where
  "meta_learning_chain tool attempt err =
     [meta_step tool ''search_notes''
        (JObj [(''limit'', JInt 6), (''query'', JStr (''failure '' @ tool @ '' root cause error''))])
        ''gather evidence'',
      meta_step tool ''reason''
        (JObj [(''question'', JStr (hypothesis_question tool attempt err)), (''store_inference'', JBool True)])
        ''hypothesize root cause'',
      meta_step tool ''store_note''
        (JObj [(''content'', JStr ''{{_prev}}''), (''note_type'', JStr ''meta_learning_result''),
               (''provenance'', JStr ''synthesis_inference''), (''source_context'', JStr (''dead_job:'' @ tool))])
        ''store result'']"

definition maybe_meta_learn :: "qenv \<Rightarrow> agent_job \<Rightarrow> nat \<Rightarrow> string \<Rightarrow> queue \<Rightarrow> queue" where
  "maybe_meta_learn E job attempt err q =
     (if \<not> should_meta_learn (tool_name job) \<or> starts_with err step_model_error then q
      else if is_transient_infra_error err then q
      else (case recently_meta_learned (qe_now E) (tool_name job) (q_db q) of
              (recent, d) \<Rightarrow>
                let q1 = q\<lparr>q_db := d\<rparr>
                in if recent then q1
                   else snd (enqueue_chain E (meta_learning_chain (tool_name job) attempt err)
                               (session_id job) q1)))"

subsection \<open>The evaluator gate\<close>

definition retry_mark :: string where
  "retry_mark = ''RETRY '' @ em_dash"

definition retry_context :: "qenv \<Rightarrow> rfloat \<Rightarrow> string \<Rightarrow> string option \<Rightarrow> string" where
  "retry_context E score critique ctx =
     retry_mark @ '' previous attempt scored '' @ qe_one_decimal E score @ ''/5.'' @ newline @ newline @
     ''Evaluator critique:'' @ newline @ take_chars 800 critique @ newline @ newline @
     ''Original context: '' @ (case ctx of Some c \<Rightarrow> c | None \<Rightarrow> ''none'')"

definition handle_evaluator_requeue :: "qenv \<Rightarrow> string \<Rightarrow> rfloat \<Rightarrow> string \<Rightarrow> queue \<Rightarrow> queue" where
  "handle_evaluator_requeue E task_id score critique q =
     (case get_task task_id (q_db q) of
        (Inr (Some t), d1) \<Rightarrow>
          let retries = count_matches retry_mark (or_empty (tk_context t));
              d2 = snd (update_task_status (qe_now E) task_id TFailed d1)
          in if 3 \<le> retries then q\<lparr>q_db := d2\<rparr>
             else q\<lparr>q_db := snd (start_run E (qe_uid E (q_next_uid q)) (tk_workflow t)
                      (or_default [] (task_inputs (qe_serde E) t)) (Some (tk_goal t))
                      (Some (retry_context E score critique (tk_context t))) (tk_success_criteria t) d2),
                    q_next_uid := Suc (q_next_uid q)\<rparr>
      | (_, d1) \<Rightarrow> q\<lparr>q_db := d1\<rparr>)"

definition evaluator_gate :: "qenv \<Rightarrow> agent_job \<Rightarrow> string \<Rightarrow> queue \<Rightarrow> bool \<times> queue" where
  "evaluator_gate E job text q =
     (case Option.bind (job_arg job ''__evaluator_min_score'') as_f64 of
        None \<Rightarrow> (False, q)
      | Some min_score \<Rightarrow>
          (case parse_evaluator_score text of
             None \<Rightarrow> (False, q)
           | Some score \<Rightarrow>
               if score_reaches score min_score then (False, q)
               else
                 let q1 = q\<lparr>q_db := snd (cancel_parked_children (qe_now E) (job_id job) (q_db q))\<rparr>
                 in (True,
                     case Option.bind (job_arg job ''__evaluator_task_id'') as_str of
                       Some tid \<Rightarrow> handle_evaluator_requeue E tid score text q1
                     | None \<Rightarrow>
                         (case Option.bind (job_arg job ''__owner_task_id'') as_str of
                            Some owner \<Rightarrow>
                              q1\<lparr>q_db := snd (update_task_status (qe_now E) owner TFailed (q_db q1))\<rparr>
                          | None \<Rightarrow> q1))))"

subsection \<open>The evaluator's retries\<close>

text \<open>The prior retries are counted in the task's context. A lineage is a run, what is noted in its
  context later (a failure's reason is appended), and the run that replaces it.\<close>

definition retry_marks :: "task_node \<Rightarrow> nat" where
  "retry_marks t = count_matches retry_mark (or_empty (tk_context t))"

inductive retried :: "task_node \<Rightarrow> task_node \<Rightarrow> bool" where
  "find (\<lambda>t. tk_id t = i) (tasks (q_db q)) = Some t \<Longrightarrow>
    t' \<in> set (tasks (q_db (handle_evaluator_requeue E i score critique q))) \<Longrightarrow>
    tk_id t' \<notin> tk_id ` set (tasks (q_db q)) \<Longrightarrow> retried t t'"

inductive retry_lineage :: "nat \<Rightarrow> task_node \<Rightarrow> task_node \<Rightarrow> bool" where
  Start: "retry_lineage 0 t t"
| Noted: "retry_lineage n t u \<Longrightarrow> or_empty (tk_context v) = or_empty (tk_context u) @ extra \<Longrightarrow> retry_lineage n t v"
| Retried: "retry_lineage n t u \<Longrightarrow> retried u v \<Longrightarrow> retry_lineage (Suc n) t v"

inductive_cases retriedE: "retried t t'"

lemma retry_mark_nonempty [simp]: "retry_mark \<noteq> []"
  by (simp add: retry_mark_def)

lemma tasks_resolve [simp]: "tasks (snd (resolve name inputs d)) = tasks d"
  by (auto simp: resolve_def get_workflow_by_name_def get_default_workflow_def list_workflows_def
      run_query_def read_only_def split: option.split list.split sum.split)

lemma tasks_start_run:
  assumes "t \<in> set (tasks (snd (start_run E uid name inputs goal ctx criteria d)))"
  shows "t \<in> set (tasks d) \<or> tk_id t = uid \<and> tk_context t = ctx"
proof -
  obtain r d1 where "resolve name inputs d = (r, d1)" by fastforce
  moreover from this have "tasks d1 = tasks d" by (metis snd_conv tasks_resolve)
  ultimately show ?thesis using assms
    by (auto simp: start_run_def create_run_def run_query_def Let_def
       split: prod.splits sum.splits list.splits option.splits)
qed

lemma requeue_context:
  assumes "find (\<lambda>t. tk_id t = i) (tasks (q_db q)) = Some t"
    and "t' \<in> set (tasks (q_db (handle_evaluator_requeue E i score critique q)))"
    and "tk_id t' \<notin> tk_id ` set (tasks (q_db q))"
  shows "retry_marks t < 3 \<and> tk_context t' = Some (retry_context E score critique (tk_context t))"
proof -
  obtain r d1 where g: "get_task i (q_db q) = (r, d1)" by fastforce
  let ?d2 = "snd (update_task_status (qe_now E) i TFailed d1)"
  have "map tk_id (tasks d1) = map tk_id (tasks (q_db q))" by (metis g snd_conv task_ids_ops(1))
  then have ids: "map tk_id (tasks ?d2) = map tk_id (tasks (q_db q))" by simp
  have old: False if "t' \<in> set (tasks d)" "map tk_id (tasks d) = map tk_id (tasks (q_db q))" for d
    using that assms(3) by (metis imageI set_map)
  show ?thesis
  proof (cases r)
    case (Inl e)
    with assms(2) g old[of d1] \<open>map tk_id (tasks d1) = _\<close> show ?thesis by (simp add: handle_evaluator_requeue_def)
  next
    case (Inr a)
    then have r: "r = Inr (Some t)" using get_task_answer[of i "q_db q"] g assms(1) by simp
    have "retry_marks t < 3"
      using assms(2) old[OF _ ids] by (auto simp: handle_evaluator_requeue_def g r retry_marks_def Let_def split: if_splits)
    with assms(2) old[OF _ ids] show ?thesis
      by (auto simp: handle_evaluator_requeue_def g r retry_marks_def Let_def dest!: tasks_start_run)
  qed
qed

lemma retry_context_marks: "count_matches retry_mark (or_empty ctx) < count_matches retry_mark (retry_context E score critique ctx)"
proof -
  obtain rest where "retry_context E score critique ctx = retry_mark @ rest @ (case ctx of Some c \<Rightarrow> c | None \<Rightarrow> ''none'')"
    unfolding retry_context_def append_assoc[symmetric] by (metis append_assoc)
  moreover have "count_matches retry_mark (or_empty ctx) \<le> count_matches retry_mark (case ctx of Some c \<Rightarrow> c | None \<Rightarrow> ''none'')"
    by (cases ctx) (simp_all add: or_empty_def)
  ultimately show ?thesis
    using count_matches_suffix[OF retry_mark_nonempty, of "case ctx of Some c \<Rightarrow> c | None \<Rightarrow> ''none''" rest]
    by (simp add: count_matches_prefix)
qed

lemma retried_marks: "retried t t' \<Longrightarrow> retry_marks t < 3 \<and> retry_marks t < retry_marks t'"
  by (erule retriedE, drule (2) requeue_context) (simp add: retry_marks_def retry_context_marks)

text \<open>Claim C22. A run the evaluator sends back is retried at most three times, whatever the critiques and
  the notes added to the contexts say: each requeue leaves a task whose context carries one more mark
  than the failed one's, text added later takes none away, and three marks are never requeued.\<close>

theorem retries_are_bounded:
  assumes "retry_lineage n t u"
  shows "n \<le> 3"
proof -
  have "n \<le> 3 \<and> n \<le> retry_marks u"
    using assms
  proof (induction rule: retry_lineage.induct)
    case (Noted n t u v extra)
    then show ?case
      using count_matches_longer[OF retry_mark_nonempty, of "or_empty (tk_context u)" extra] by (simp add: retry_marks_def)
  next
    case (Retried n t u v)
    then show ?case using retried_marks[of u v] by linarith
  qed simp
  then show ?thesis ..
qed

text \<open>An evaluation that says \<open>not fully met\<close> and has no score line passes the gate: the verdict
  is looked for with \<open>contains("fully met")\<close> first, which reads it as a 5.\<close>

theorem not_fully_met_passes:
  assumes "first_score (text_lines txt) = None" and "str_contains (lower txt) ''not fully met''"
    and "Option.bind (job_arg job ''__evaluator_min_score'') as_f64 = Some m" and "m \<le> 5"
  shows "evaluator_gate E job txt q = (False, q)"
proof -
  have "''not fully met'' = ''not '' @ ''fully met''" by simp
  then have "str_contains (lower txt) ''fully met''" using assms(2) unfolding str_contains_iff by (metis append.assoc)
  with assms show ?thesis
    by (simp add: evaluator_gate_def parse_evaluator_score_def Let_def score_reaches_def)
qed

text \<open>Meta-learning can feed itself: the first step of its chain is \<open>search_notes\<close>, which the
  gate does not leave out, and the note that keeps a tool from being learned from twice a day is only
  stored by the chain's last step. A \<open>search_notes\<close> job that dies of an ordinary error submits a chain that
  begins with another one.\<close>

theorem meta_learning_feeds_itself:
  assumes "faults (q_db q) = []" and "tool_name job = ''search_notes''"
    and "\<not> is_transient_infra_error err" and "\<not> starts_with err step_model_error"
    and "\<not> (\<exists>n \<in> set (note_nodes (q_db q)). note_source_context n = ''dead_job:search_notes'')"
  shows "\<exists>steps. maybe_meta_learn E job attempt err q = snd (enqueue_chain E steps (session_id job) q) \<and>
    cs_tool_name (hd steps) = ''search_notes'' \<and> should_meta_learn (cs_tool_name (hd steps))"
proof -
  have "recently_meta_learned (qe_now E) (tool_name job) (q_db q) = (False, q_db q)"
    using assms(1,2,5) by (auto simp: recently_meta_learned_def count_where_zero)
  then have "maybe_meta_learn E job attempt err q =
      snd (enqueue_chain E (meta_learning_chain (tool_name job) attempt err) (session_id job) q)"
    using assms(2-4) by (simp add: maybe_meta_learn_def should_meta_learn_def Let_def)
  moreover have "cs_tool_name (hd (meta_learning_chain t attempt err)) = ''search_notes''" for t
    by (simp add: meta_learning_chain_def meta_step_def new_step_def)
  ultimately show ?thesis
    by (intro exI[of _ "meta_learning_chain (tool_name job) attempt err"]) (simp add: should_meta_learn_def)
qed

subsection \<open>Runs on a small graph\<close>

definition tried_task :: task_node where
  "tried_task =
     \<lparr>tk_id = ''t'', tk_goal = ''goal'', tk_context = None, tk_success_criteria = None,
      tk_workflow = Some ''digest'', tk_inputs_json = Some ''{}'', tk_status = TInProgress,
      tk_created_at = 0, tk_updated_at = 0\<rparr>"

definition tried_queue :: queue where
  "tried_queue = new_queue ((graph_of [])\<lparr>tasks := [tried_task], workflows := [sample_flow]\<rparr>)"

lemma tried_requeue:
  "\<exists>u. tasks (q_db (handle_evaluator_requeue flow_env ''t'' (Num 2) ''thin'' tried_queue)) =
     [tried_task\<lparr>tk_status := TFailed, tk_updated_at := 0\<rparr>, u] \<and> tk_id u = ''job-0''"
proof -
  have t: "trim ''digest'' = ''digest''" "trim ''goal'' = ''goal''" "trim ''monday'' \<noteq> []"
    "count_matches retry_mark [] = 0" "show_nat 0 = ''0''" by code_simp+
  show ?thesis
    by (simp add: handle_evaluator_requeue_def tried_queue_def tried_task_def new_queue_def get_task_def update_task_status_def
        set_tasks_where_def start_run_def resolve_def get_workflow_by_name_def graph_of_def sample_flow_def t Let_def
        check_runnable_def missing_inputs_def blank_input_def flow_env_def sample_env_def opt_nonempty_def
        task_inputs_def or_default_def with_chat_session_def create_run_def sample_uids)
qed

lemma tried_retried:
  "retry_lineage 1 tried_task (tasks (q_db (handle_evaluator_requeue flow_env ''t'' (Num 2) ''thin'' tried_queue)) ! 1)"
proof -
  obtain u where u: "tasks (q_db (handle_evaluator_requeue flow_env ''t'' (Num 2) ''thin'' tried_queue)) =
     [tried_task\<lparr>tk_status := TFailed, tk_updated_at := 0\<rparr>, u]" "tk_id u = ''job-0''"
    using tried_requeue by blast
  have "retried tried_task u"
    by (rule retried.intros[where q = tried_queue and i = "''t''" and E = flow_env and score = "Num 2" and critique = "''thin''"])
      (simp_all add: u, simp_all add: tried_queue_def new_queue_def tried_task_def)
  then show ?thesis
    using retry_lineage.Retried[OF retry_lineage.Start, of tried_task u] u(1) by simp
qed

theorem retries_are_bounded_witness:
  "retry_lineage 1 tried_task (tasks (q_db (handle_evaluator_requeue flow_env ''t'' (Num 2) ''thin'' tried_queue)) ! 1) \<and>
   (1 :: nat) \<le> 3"
  using tried_retried retries_are_bounded[OF tried_retried] by simp

definition scored_job :: agent_job where
  "scored_job = (node_to_agent_job sample_chrono sample_serde (sample_node ''a'' Running [] 1))
     \<lparr>arguments := Some (JObj [(''__evaluator_min_score'', JFloat (7 / 2))]), tool_name := ''search_notes''\<rparr>"

theorem not_fully_met_passes_witness:
  "fst (evaluator_gate flow_env scored_job ''The goal is NOT FULLY MET.'' tried_queue) = False"
proof -
  have "first_score (text_lines ''The goal is NOT FULLY MET.'') = None"
    "str_contains (lower ''The goal is NOT FULLY MET.'') ''not fully met''" by code_simp+
  moreover have "Option.bind (job_arg scored_job ''__evaluator_min_score'') as_f64 = Some (7 / 2)"
    by (simp add: scored_job_def job_arg_def)
  ultimately show ?thesis using not_fully_met_passes[of "''The goal is NOT FULLY MET.''" scored_job "7 / 2"] by simp
qed

theorem meta_learning_feeds_itself_witness:
  "\<exists>steps. maybe_meta_learn flow_env scored_job 2 ''no such index'' tried_queue =
      snd (enqueue_chain flow_env steps (session_id scored_job) tried_queue) \<and>
    cs_tool_name (hd steps) = ''search_notes''"
proof -
  have "\<not> is_transient_infra_error ''no such index''" "\<not> starts_with ''no such index'' step_model_error" by code_simp+
  then show ?thesis
    using meta_learning_feeds_itself[of tried_queue scored_job "''no such index''" flow_env 2]
    by (auto simp: tried_queue_def new_queue_def scored_job_def graph_of_def)
qed

end
