(* ===== verification/Queue_Jobs.thy ===== *)
theory Queue_Jobs
  imports Gates Queue_Coordinator
begin

text \<open>
  A job's run (\<open>crates/work/src/queue.rs\<close>): from the slot it was given to its end. The tool itself
  is not the queue's: \<open>begin_job\<close> ends where the tool is called and answers the call it makes,
  \<open>finish_job\<close> goes on from the tool's result, and anything may happen to the graph in between.
\<close>

subsection \<open>Handing on to the children\<close>

definition unpark_and_enqueue_children ::
  "qenv \<Rightarrow> string \<Rightarrow> string \<Rightarrow> string \<Rightarrow> queue \<Rightarrow> queue" where
  "unpark_and_enqueue_children E parent prev raw q =
     (case unpark_children (qe_chrono E) (qe_serde E) (qe_now E) parent prev raw (q_db q) of
        (Inl e, d) \<Rightarrow> q\<lparr>q_db := d\<rparr>
      | (Inr children, d) \<Rightarrow>
          if children = [] then q\<lparr>q_db := d\<rparr>
          else notify_one (push_jobs children (q\<lparr>q_db := d\<rparr>)))"

definition emit_job_event :: "brain_event \<Rightarrow> queue \<Rightarrow> queue" where
  "emit_job_event ev q = q\<lparr>q_events := q_events q @ [ev]\<rparr>"

definition section_unavailable :: string where
  "section_unavailable =
     ''. The chain continued without its result; say this section is unavailable.]''"

definition optional_step_failed_note :: "string \<Rightarrow> nat \<Rightarrow> nat \<Rightarrow> string \<Rightarrow> string" where
  "optional_step_failed_note tool attempt cap err =
     ''[OPTIONAL STEP FAILED '' @ em_dash @ '' '' @ [CHR 39] @ tool @ [CHR 39] @ '' died after '' @
     show_nat attempt @ ''/'' @ show_nat cap @ '' attempts: '' @ take_chars 300 err @ section_unavailable"

definition optional_step_skipped_note :: "string \<Rightarrow> string \<Rightarrow> string" where
  "optional_step_skipped_note tool why =
     ''[OPTIONAL STEP SKIPPED '' @ em_dash @ '' '' @ [CHR 39] @ tool @ [CHR 39] @ '' did not run: '' @ why @
     section_unavailable"

subsection \<open>A spent quota\<close>

definition warning_sign :: string where
  "warning_sign = [CHR 0xE2, CHR 0x9A, CHR 0xA0, CHR 0xEF, CHR 0xB8, CHR 0x8F]"

definition quota_message :: "string \<Rightarrow> string \<Rightarrow> string" where
  "quota_message tool err =
     warning_sign @ '' External API quota exhausted '' @ em_dash @ '' `'' @ tool @
     ''` is failing and dependent scheduled work (news briefs, research chains) will keep dying until it is restored.'' @
     newline @ newline @ ''Last error:'' @ newline @ take_chars 500 err @ newline @ newline @
     ''Run `get_search_usage` to see per-engine burn rate, then either restore the quota or reorder `SEARCH_ENGINE_ORDER`.''"

definition notify_quota_exhausted :: "qenv \<Rightarrow> string \<Rightarrow> string \<Rightarrow> queue \<Rightarrow> queue" where
  "notify_quota_exhausted E tool err q =
     (let ctx = ''quota_exhausted:'' @ tool
      in case already_notified (qe_now E) ctx (q_db q) of
           (already, d) \<Rightarrow>
             if already then q\<lparr>q_db := d\<rparr>
             else let message = quota_message tool err; uid = qe_uid E (q_next_uid q);
                      q1 = q\<lparr>q_next_uid := Suc (q_next_uid q)\<rparr>
                  in (case create_notification (qe_now E) message ctx d of
                        (Inl e, d2) \<Rightarrow> q1\<lparr>q_db := d2\<rparr>
                      | (Inr _, d2) \<Rightarrow> emit_job_event (AgentChatInitiated uid message None) (q1\<lparr>q_db := d2\<rparr>)))"

subsection \<open>Death, failure, success\<close>

definition is_optional :: "agent_job \<Rightarrow> bool" where
  "is_optional job = or_default False (Option.bind (job_arg job ''__optional'') as_bool)"

definition owner_task :: "agent_job \<Rightarrow> string option" where
  "owner_task job = Option.bind (job_arg job ''__owner_task_id'') as_str"

definition chain_death_reason :: "string \<Rightarrow> nat \<Rightarrow> nat \<Rightarrow> string \<Rightarrow> string" where
  "chain_death_reason tool attempt cap err =
     ''Chain step '' @ [CHR 39] @ tool @ [CHR 39] @ '' died after '' @ show_nat attempt @ ''/'' @ show_nat cap @
     '' attempts. Last error: '' @ take_chars 500 err"

definition dead_job_reflection :: "agent_job \<Rightarrow> nat \<Rightarrow> nat \<Rightarrow> string \<Rightarrow> string" where
  "dead_job_reflection job attempt cap err =
     ''Dead job: tool '' @ [CHR 39] @ tool_name job @ [CHR 39] @ '' (job_id: '' @ job_id job @ '') exhausted '' @
     show_nat attempt @ ''/'' @ show_nat cap @ '' attempts and was marked dead.'' @ newline @
     ''Last error: '' @ err @ newline @
     ''This is an automated failure record. Investigate the tool definition, '' @
     ''its input arguments, or any external dependencies to prevent recurrence.''"

text \<open>What follows a death once the job is dead-lettered, step by step.\<close>

definition settle_chain :: "qenv \<Rightarrow> agent_job \<Rightarrow> nat \<Rightarrow> nat \<Rightarrow> string \<Rightarrow> queue \<Rightarrow> queue" where
  "settle_chain E job attempt cap err q =
     (if is_optional job
      then unpark_and_enqueue_children E (job_id job)
             (optional_step_failed_note (tool_name job) attempt cap err) [] q
      else q\<lparr>q_db := snd (cancel_parked_children (qe_now E) (job_id job) (q_db q))\<rparr>)"

definition settle_owner :: "qenv \<Rightarrow> agent_job \<Rightarrow> nat \<Rightarrow> nat \<Rightarrow> string \<Rightarrow> queue \<Rightarrow> queue" where
  "settle_owner E job attempt cap err q =
     (case owner_task job of
        Some owner \<Rightarrow>
          if is_optional job then q
          else q\<lparr>q_db := snd (fail_task_with_reason (qe_now E) owner
                 (chain_death_reason (tool_name job) attempt cap err) (q_db q))\<rparr>
      | None \<Rightarrow> q)"

definition reflect_on_death :: "qenv \<Rightarrow> agent_job \<Rightarrow> nat \<Rightarrow> nat \<Rightarrow> string \<Rightarrow> queue \<Rightarrow> queue" where
  "reflect_on_death E job attempt cap err q =
     q\<lparr>q_db := snd (store_reflection_note (qe_now E) (dead_job_reflection job attempt cap err) (q_db q))\<rparr>"

definition notify_quota :: "qenv \<Rightarrow> agent_job \<Rightarrow> string \<Rightarrow> queue \<Rightarrow> queue" where
  "notify_quota E job err q =
     (if is_quota_exhausted_error err then notify_quota_exhausted E (tool_name job) err q else q)"

definition on_job_dead :: "qenv \<Rightarrow> agent_job \<Rightarrow> nat \<Rightarrow> nat \<Rightarrow> string \<Rightarrow> queue \<Rightarrow> queue" where
  "on_job_dead E job attempt cap err q =
     (case set_job_dead (qe_now E) (job_id job) err (q_db q) of
        (Inr True, d) \<Rightarrow>
          let q1 = settle_chain E job attempt cap err (q\<lparr>q_db := d\<rparr>);
              q2 = settle_owner E job attempt cap err q1;
              q3 = reflect_on_death E job attempt cap err q2;
              q4 = notify_quota E job err q3;
              q5 = maybe_meta_learn E job attempt err q4
          in emit_job_event (JobDead (job_id job) (tool_name job) (session_id job) err) q5
      | (_, d) \<Rightarrow> q\<lparr>q_db := d\<rparr>)"

definition failure_text :: "tool_call_result \<Rightarrow> string" where
  "failure_text r = (case tr_content r of Text t # _ \<Rightarrow> t | _ \<Rightarrow> ''Unknown error'')"

text \<open>The attempts so far and the cap: the graph's, else those of the entry that was popped.\<close>

definition attempts_now :: "qenv \<Rightarrow> agent_job \<Rightarrow> queue \<Rightarrow> (nat \<times> nat) \<times> queue" where
  "attempts_now E job q =
     (case get_agent_job (qe_chrono E) (qe_serde E) (job_id job) (q_db q) of
        (Inr (Some u), d) \<Rightarrow> ((attempt_count u, max_attempts u), q\<lparr>q_db := d\<rparr>)
      | (_, d) \<Rightarrow> ((attempt_count job + 1, max_attempts job), q\<lparr>q_db := d\<rparr>))"

definition on_job_failed :: "qenv \<Rightarrow> agent_job \<Rightarrow> tool_call_result \<Rightarrow> queue \<Rightarrow> queue" where
  "on_job_failed E job r q =
     (let err = failure_text r in
      case attempts_now E job q of
        ((attempt, cap), q1) \<Rightarrow>
          if cap \<le> attempt then on_job_dead E job attempt cap err q1
          else (case requeue_for_retry (qe_now E) (job_id job) err (q_db q1) of
                  (Inr True, d) \<Rightarrow>
                    emit_job_event (JobFailed (job_id job) (tool_name job) (session_id job) err)
                      (notify_one (q1\<lparr>q_db := d\<rparr>))
                | (_, d) \<Rightarrow> q1\<lparr>q_db := d\<rparr>))"

definition on_job_succeeded :: "qenv \<Rightarrow> agent_job \<Rightarrow> tool_call_result \<Rightarrow> queue \<Rightarrow> queue" where
  "on_job_succeeded E job r q =
     (let S = qe_serde E; text = extract_result_text S r
      in case set_job_completed (qe_now E) (job_id job) (to_str S (result_json r)) (q_db q) of
           (Inr True, d) \<Rightarrow>
             (case evaluator_gate E job text (q\<lparr>q_db := d\<rparr>) of
                (blocked, q1) \<Rightarrow>
                  let q2 = (if blocked then q1
                            else unpark_and_enqueue_children E (job_id job) text
                                   (structured_prev_to_preserve S r text) q1)
                  in emit_job_event (JobCompleted (job_id job) (tool_name job) (session_id job)
                       (Some (take_chars 200 text))) q2)
         | (_, d) \<Rightarrow> q\<lparr>q_db := d\<rparr>)"

definition finish_job :: "qenv \<Rightarrow> agent_job \<Rightarrow> tool_call_result \<Rightarrow> queue \<Rightarrow> queue" where
  "finish_job E job r q =
     (if or_default False (tr_is_error r) then on_job_failed E job r q else on_job_succeeded E job r q)"

subsection \<open>The arguments a step runs with\<close>

definition distill_input_cap :: nat where
  "distill_input_cap = 24000"

definition middle_omitted :: string where
  "middle_omitted = newline @ newline @ ''['' @ [CHR 0xE2, CHR 0x80, CHR 0xA6] @ '' middle omitted '' @
     [CHR 0xE2, CHR 0x80, CHR 0xA6] @ '']'' @ newline @ newline"

text \<open>The head and the tail of a text that is too long for the distiller.\<close>

definition distill_window :: "string \<Rightarrow> string" where
  "distill_window prev =
     (let n = char_count prev; head_len = distill_input_cap * 2 div 3; tail_len = distill_input_cap - head_len
      in if distill_input_cap < n
         then take_chars head_len prev @ middle_omitted @ drop_chars (n - tail_len) prev
         else prev)"

definition maybe_distill_prev :: "qenv \<Rightarrow> agent_job \<Rightarrow> string \<Rightarrow> string option" where
  "maybe_distill_prev E job prev =
     (if Option.bind (job_arg job ''__distill_prev'') as_bool \<noteq> Some True then None
      else
        let limit = or_default default_distill_max_chars (Option.bind (job_arg job ''__distill_max_chars'') as_u64);
            focus = or_default ''the findings, claims, and specifics the next step must reason over''
                      (Option.bind (job_arg job ''__distill_focus'') as_str)
        in if char_count prev \<le> limit then None
           else (case qe_distiller E of
                   None \<Rightarrow> None
                 | Some distil \<Rightarrow>
                     (case distil \<lparr>dr_tool = tool_name job, dr_max_chars = limit, dr_focus = focus,
                                   dr_input = distill_window prev\<rparr> of
                        None \<Rightarrow> None
                      | Some answer \<Rightarrow>
                          let short = trim answer
                          in if short = [] \<or> char_count prev \<le> char_count short then None else Some short)))"

fun status_debug_lower :: "job_status \<Rightarrow> string" where
  "status_debug_lower Queued = ''queued''"
| "status_debug_lower Running = ''running''"
| "status_debug_lower Completed = ''completed''"
| "status_debug_lower Failed = ''failed''"
| "status_debug_lower Dead = ''dead''"
| "status_debug_lower Parked = ''parked''"
| "status_debug_lower Cancelled = ''cancelled''"
| "status_debug_lower DeadLetter = ''deadletter''"

text \<open>\<open>r.pointer("/content/0/text")\<close>, as text.\<close>

definition stored_text :: "json \<Rightarrow> string option" where
  "stored_text r =
     (case json_get r ''content'' of
        Some (JArr (c # _)) \<Rightarrow> Option.bind (json_get c ''text'') as_str
      | Some (JObj m) \<Rightarrow> Option.bind (Option.bind (map_of m ''0'') (\<lambda>c. json_get c ''text'')) as_str
      | _ \<Rightarrow> None)"

definition step_output_of :: "serde \<Rightarrow> agent_job option answer \<Rightarrow> step_output" where
  "step_output_of S ans =
     (case ans of
        Inl e \<Rightarrow> Missing (''lookup failed: '' @ repository_error_display e)
      | Inr None \<Rightarrow> Missing ''job not found''
      | Inr (Some j) \<Rightarrow>
          if status j = Completed
          then (case Option.bind (job_result j) stored_text of
                  Some t \<Rightarrow> let r = success_text t; text = extract_result_text S r
                            in Done text (structured_prev_to_preserve S r text)
                | None \<Rightarrow> Missing ''completed with no result'')
          else Missing (status_debug_lower (status j) @
                 (case job_error j of Some e \<Rightarrow> '': '' @ take_chars 300 e | None \<Rightarrow> [])))"

fun named_outputs :: "qenv \<Rightarrow> json_map \<Rightarrow> step_outputs \<Rightarrow> queue \<Rightarrow> step_outputs \<times> queue" where
  "named_outputs E [] outs q = (outs, q)"
| "named_outputs E ((step, JStr i) # m) outs q =
     (case get_agent_job (qe_chrono E) (qe_serde E) i (q_db q) of
        (ans, d) \<Rightarrow> named_outputs E m (outs(step \<mapsto> step_output_of (qe_serde E) ans)) (q\<lparr>q_db := d\<rparr>))"
| "named_outputs E (_ # m) outs q = named_outputs E m outs q"

definition resolve_named_steps :: "qenv \<Rightarrow> agent_job \<Rightarrow> queue \<Rightarrow> agent_job \<times> queue" where
  "resolve_named_steps E job q =
     (case Option.bind (job_arg job ''__step_jobs'') as_object of
        None \<Rightarrow> (job, q)
      | Some m \<Rightarrow>
          (case named_outputs E m Map.empty q of
             (outs, q1) \<Rightarrow>
               (job\<lparr>arguments := map_option (\<lambda>a. substitute_step_refs (qe_serde E) a outs) (arguments job)\<rparr>, q1)))"

definition args_mention :: "serde \<Rightarrow> json option \<Rightarrow> string list \<Rightarrow> bool" where
  "args_mention S a needles = (case a of Some v \<Rightarrow> contains_any (to_str S v) needles | None \<Rightarrow> False)"

definition resolve_step_args :: "qenv \<Rightarrow> agent_job \<Rightarrow> queue \<Rightarrow> json option \<times> queue" where
  "resolve_step_args E job0 q =
     (case resolve_named_steps E job0 q of
        (job, q1) \<Rightarrow>
          (case prev_result job of
             None \<Rightarrow> (arguments job, q1)
           | Some prev \<Rightarrow>
               let S = qe_serde E; a = arguments job;
                   wants_whole = args_mention S a [''{{_prev}}'', ''{{result}}''];
                   wants_path = args_mention S a [''{{_prev.'', ''{{result.''];
                   a1 = (if wants_path
                         then map_option (\<lambda>v. substitute_prev_paths S v (or_default prev (prev_result_raw job))) a
                         else a);
                   a2 = (if wants_whole
                         then map_option (\<lambda>v. substitute_prev v (or_default prev (maybe_distill_prev E job prev))) a1
                         else a1)
               in (a2, q1)))"

subsection \<open>The start of a run\<close>

definition route_context_for :: "agent_job \<Rightarrow> route_context" where
  "route_context_for job =
     (new_context PBackground
        (case Option.bind (job_arg job ''__data_class'') as_str of Some s \<Rightarrow> parse_or_private s | None \<Rightarrow> DPrivate))
       \<lparr>rc_initiator := (if Option.bind (job_arg job ''__paid'') as_bool = Some True then IApproved else IBrain)\<rparr>"

definition select_step_model :: "qenv \<Rightarrow> agent_job \<Rightarrow> llm_config option" where
  "select_step_model E job =
     (let leased_local = qe_gpu_leased E \<and> defers_during_gpu_lease (provider_hint job) (arguments job);
          caps = (if leased_local then Some [''reasoning'']
                  else map_option (List.map_filter as_str)
                         (Option.bind (job_arg job ''__required_capabilities'') as_array))
      in case caps of
           None \<Rightarrow> None
         | Some cs \<Rightarrow>
             if cs = [] \<or> \<not> qe_telemetry E then None
             else resolve_model_config (qe_world E) (qe_select_models E cs) (qe_recent_errors E)
                    (default_config (lw_engine (qe_world E))) (route_context_for job))"

text \<open>The call the queue makes of a tool, with what it scopes around it.\<close>

record tool_call =
  tc_tool :: string
  tc_args :: "json option"
  tc_route :: route_context
  tc_selected :: "llm_config option"
  tc_local :: bool
  tc_pinned :: bool
  tc_owner :: "string option"

definition tool_call_of :: "agent_job \<Rightarrow> json option \<Rightarrow> llm_config option \<Rightarrow> tool_call" where
  "tool_call_of job args selected =
     \<lparr>tc_tool = tool_name job, tc_args = args, tc_route = route_context_for job, tc_selected = selected,
      tc_local = is_local_hint (provider_hint job), tc_pinned = (job_arg job ''__model'' \<noteq> None),
      tc_owner = owner_task job\<rparr>"

definition not_registered :: "string \<Rightarrow> string" where
  "not_registered tool =
     ''tool '' @ [CHR 39] @ tool @ [CHR 39] @
     '' is not registered (is its plugin off?); optional step skipped''"

definition skip_job :: "qenv \<Rightarrow> agent_job \<Rightarrow> queue \<Rightarrow> queue" where
  "skip_job E job q =
     (let why = not_registered (tool_name job);
          q1 = unpark_and_enqueue_children E (job_id job) (optional_step_skipped_note (tool_name job) why) [] q
      in q1\<lparr>q_db := snd (set_job_skipped (qe_now E) (job_id job) why (q_db q1))\<rparr>)"

definition run_started :: "qenv \<Rightarrow> agent_job \<Rightarrow> queue \<Rightarrow> tool_call option \<times> queue" where
  "run_started E job q =
     (case resolve_step_args E job q of
        (args, q1) \<Rightarrow>
          (case Option.bind (job_arg job ''__model'') as_str of
             Some model \<Rightarrow>
               (case pinned_config (qe_world E) (env_catalog E) model
                       (default_config (lw_engine (qe_world E))) (route_context_for job) of
                  Inr cfg \<Rightarrow> (Some (tool_call_of job args (Some cfg)), q1)
                | Inl why \<Rightarrow>
                    (case attempts_now E job q1 of
                       ((attempt, _), q2) \<Rightarrow>
                         (None, on_job_dead E job attempt (max_attempts job) (step_model_error @ '': '' @ why) q2)))
           | None \<Rightarrow> (Some (tool_call_of job args (select_step_model E job)), q1)))"

definition begin_job :: "qenv \<Rightarrow> agent_job \<Rightarrow> queue \<Rightarrow> tool_call option \<times> queue" where
  "begin_job E job q =
     (case set_job_started (qe_now E) (job_id job) (q_db q) of
        (Inr True, d) \<Rightarrow>
          let q1 = q\<lparr>q_db := d\<rparr>
          in if \<not> qe_handler E
             then (None, q1\<lparr>q_db := snd (set_job_failed (qe_now E) (job_id job) ''Tool handler not available'' d)\<rparr>)
             else if \<not> qe_has_tool E (tool_name job) \<and> is_optional job
             then (None, skip_job E job q1)
             else run_started E job q1
      | (_, d) \<Rightarrow> (None, q\<lparr>q_db := d\<rparr>))"

end
