(* ===== verification/Job_Runs.thy ===== *)
theory Job_Runs
  imports Queue_Jobs
begin

text \<open>
  What the end of a job's run does to its chain (\<open>on_job_succeeded\<close>, \<open>on_job_failed\<close> and \<open>on_job_dead\<close> of
  \<open>crates/work/src/queue.rs\<close>), when the graph answers: the hand-over to the children, the evaluator's stop,
  the retry and the death.
\<close>

subsection \<open>The effects of a run's end, when the graph answers\<close>

lemma guarded_write_hits:
  assumes "faults d = []" and "n \<in> set (jobs d)" and "P n"
  shows "count_updated P f d = (Inr True, d\<lparr>jobs := update_where P f (jobs d)\<rparr>)"
  using assms by (auto simp: count_updated_def set_where_def count_where_pos)

text \<open>The node of a run that is under way.\<close>

definition runs_as :: "agent_job \<Rightarrow> job_node \<Rightarrow> queue \<Rightarrow> bool" where
  "runs_as job n q \<longleftrightarrow> n \<in> set (jobs (q_db q)) \<and> nd_id n = job_id job \<and> nd_status n = Running"

definition waits_below :: "string \<Rightarrow> job_node \<Rightarrow> bool" where
  "waits_below i j \<longleftrightarrow> nd_parent_job_id j = i \<and> nd_status j = Parked"

definition handed :: "instant \<Rightarrow> string \<Rightarrow> string \<Rightarrow> job_node \<Rightarrow> job_node" where
  "handed now prev raw j =
     j\<lparr>nd_status := Queued, nd_updated_at := now, nd_prev_result_json := prev, nd_prev_result_raw_json := raw\<rparr>"

lemma waiting_unchanged:
  "(\<And>j. P j \<Longrightarrow> nd_status j \<noteq> Parked \<and> nd_status (f j) \<noteq> Parked) \<Longrightarrow>
     filter (waits_below p) (update_where P f js) = filter (waits_below p) js"
  by (induction js) (auto simp: waits_below_def)

lemma cancel_below:
  assumes "faults d = []" and "count_where (descends (jobs d) {p}) (jobs d) < 64"
  shows "snd (cancel_parked_children now p d) = d\<lparr>jobs := update_where (descends (jobs d) {p}) (cancelled_at now) (jobs d)\<rparr>"
  using cancel_generations_spec[of d "[p]" 64 now 0] assms by (simp add: cancel_parked_children_def)

lemma unpark_hands_on:
  assumes "faults (q_db q) = []"
  shows "jobs (q_db (unpark_and_enqueue_children E p prev raw q)) =
      update_where (waits_below p) (handed (qe_now E) prev raw) (jobs (q_db q))"
    and "q_heap (unpark_and_enqueue_children E p prev raw q) = q_heap q @
      map (\<lambda>j. prioritize (node_to_agent_job (qe_chrono E) (qe_serde E) (handed (qe_now E) prev raw j)))
        (filter (waits_below p) (jobs (q_db q)))"
    and "faults (q_db (unpark_and_enqueue_children E p prev raw q)) = []"
    and "tasks (q_db (unpark_and_enqueue_children E p prev raw q)) = tasks (q_db q)"
  using assms(1)
  by (auto simp: unpark_and_enqueue_children_def unpark_children_def waits_below_def[abs_def] handed_def[abs_def]
      comp_def Let_def split: list.split)

definition evaluation_blocks :: "agent_job \<Rightarrow> string \<Rightarrow> bool" where
  "evaluation_blocks job out \<longleftrightarrow>
     (case Option.bind (job_arg job ''__evaluator_min_score'') as_f64 of
        None \<Rightarrow> False
      | Some m \<Rightarrow> (case parse_evaluator_score out of None \<Rightarrow> False | Some s \<Rightarrow> \<not> score_reaches s m))"

lemma evaluator_gate_blocks:
  "fst (evaluator_gate E job out q) = evaluation_blocks job out"
  "\<not> evaluation_blocks job out \<Longrightarrow> evaluator_gate E job out q = (False, q)"
  by (auto simp: evaluator_gate_def evaluation_blocks_def Let_def split: option.splits)

definition completed_node :: "instant \<Rightarrow> string \<Rightarrow> job_node \<Rightarrow> job_node" where
  "completed_node now res j =
     j\<lparr>nd_status := Completed, nd_completed_at := Some now, nd_updated_at := now, nd_result_json := res,
       nd_duration_ms := map_option (\<lambda>s. nat ((now - s) div 1000000)) (nd_started_at j)\<rparr>"

lemma completion_write:
  assumes "faults (q_db q) = []" and "runs_as job n q"
  shows "set_job_completed now (job_id job) res (q_db q) =
    (Inr True, (q_db q)\<lparr>jobs := update_where (\<lambda>j. nd_id j = job_id job \<and> nd_status j = Running) (completed_node now res) (jobs (q_db q))\<rparr>)"
  using assms guarded_write_hits[of "q_db q" n] unfolding set_job_completed_def runs_as_def completed_node_def[abs_def] by auto

lemma success_hands_on:
  fixes E :: qenv and job :: agent_job and r :: tool_call_result and q :: queue
  assumes "faults (q_db q) = []" and "runs_as job n q" and "\<not> or_default False (tr_is_error r)"
    and "\<not> evaluation_blocks job (extract_result_text (qe_serde E) r)"
  defines "q' \<equiv> finish_job E job r q" and "out \<equiv> extract_result_text (qe_serde E) r"
  defines "raw \<equiv> structured_prev_to_preserve (qe_serde E) r out"
  shows "jobs (q_db q') = update_where (waits_below (job_id job)) (handed (qe_now E) out raw)
      (update_where (\<lambda>j. nd_id j = job_id job \<and> nd_status j = Running)
        (completed_node (qe_now E) (to_str (qe_serde E) (result_json r))) (jobs (q_db q)))"
    and "q_heap q' = q_heap q @ map (\<lambda>j. prioritize (node_to_agent_job (qe_chrono E) (qe_serde E) (handed (qe_now E) out raw j)))
      (filter (waits_below (job_id job)) (jobs (q_db q)))"
    and "faults (q_db q') = []"
proof -
  let ?q1 = "q\<lparr>q_db := (q_db q)\<lparr>jobs := update_where (\<lambda>j. nd_id j = job_id job \<and> nd_status j = Running)
    (completed_node (qe_now E) (to_str (qe_serde E) (result_json r))) (jobs (q_db q))\<rparr>\<rparr>"
  have q': "q_db q' = q_db (unpark_and_enqueue_children E (job_id job) out raw ?q1)"
    "q_heap q' = q_heap (unpark_and_enqueue_children E (job_id job) out raw ?q1)"
    using assms(3,4) evaluator_gate_blocks(2)[of job out E ?q1]
    by (simp_all add: q'_def finish_job_def on_job_succeeded_def completion_write[OF assms(1,2)] out_def raw_def Let_def emit_job_event_def)
  have "filter (waits_below p) (update_where (\<lambda>j. nd_id j = p' \<and> nd_status j = Running) (completed_node now res) js) =
      filter (waits_below p) js" for p p' now res js
    by (rule waiting_unchanged) (simp add: completed_node_def)
  note same = this
  show "jobs (q_db q') = update_where (waits_below (job_id job)) (handed (qe_now E) out raw)
      (update_where (\<lambda>j. nd_id j = job_id job \<and> nd_status j = Running)
        (completed_node (qe_now E) (to_str (qe_serde E) (result_json r))) (jobs (q_db q)))"
    and "q_heap q' = q_heap q @ map (\<lambda>j. prioritize (node_to_agent_job (qe_chrono E) (qe_serde E) (handed (qe_now E) out raw j)))
      (filter (waits_below (job_id job)) (jobs (q_db q)))"
    and "faults (q_db q') = []"
    using assms(1) unpark_hands_on[of ?q1 E "job_id job" out raw] by (simp_all add: q' same)
qed


text \<open>Arguments that take the previous output whole, by its own name, and nothing else from outside.\<close>

definition takes_prev :: "serde \<Rightarrow> json \<Rightarrow> bool" where
  "takes_prev S a \<longleftrightarrow>
     str_contains (to_str S a) ''{{_prev}}'' \<and>
     \<not> str_contains (to_str S a) ''{{_prev.'' \<and> \<not> str_contains (to_str S a) ''{{result.'' \<and>
     Option.bind (json_get a ''__step_jobs'') as_object = None \<and>
     Option.bind (json_get a ''__distill_prev'') as_bool \<noteq> Some True"

lemma args_taking_prev:
  assumes "arguments j = Some a" and "takes_prev (qe_serde E) a"
  shows "resolve_step_args E j q =
    (case prev_result j of Some p \<Rightarrow> (Some (substitute_prev a p), q) | None \<Rightarrow> (Some a, q))"
  using assms
  by (auto simp: resolve_step_args_def resolve_named_steps_def job_arg_def takes_prev_def args_mention_def contains_any_def
      maybe_distill_prev_def or_default_def Let_def split: option.split)

lemma a_child_is_handed_on:
  fixes E :: qenv and job :: agent_job and r :: tool_call_result and q :: queue
  assumes "faults (q_db q) = []" and "runs_as job n q" and "\<not> or_default False (tr_is_error r)"
    and "\<not> evaluation_blocks job (extract_result_text (qe_serde E) r)"
    and "c \<in> set (jobs (q_db q))" and "waits_below (job_id job) c"
  shows "\<exists>c' \<in> set (jobs (q_db (finish_job E job r q))). nd_id c' = nd_id c \<and> nd_status c' = Queued \<and>
      nd_args_json c' = nd_args_json c \<and> nd_prev_result_json c' = extract_result_text (qe_serde E) r \<and>
      prioritize (node_to_agent_job (qe_chrono E) (qe_serde E) c') \<in> set (q_heap (finish_job E job r q))"
proof -
  let ?out = "extract_result_text (qe_serde E) r"
  let ?h = "handed (qe_now E) ?out (structured_prev_to_preserve (qe_serde E) r ?out)"
  have "c \<in> set (update_where (\<lambda>j. nd_id j = job_id job \<and> nd_status j = Running) f (jobs (q_db q)))" for f
    using assms(5,6) by (intro in_update_where_keep) (simp_all add: waits_below_def)
  then have "?h c \<in> set (jobs (q_db (finish_job E job r q)))"
    using success_hands_on(1)[OF assms(1-4)] assms(6) by (simp add: in_update_where_hit)
  moreover have "prioritize (node_to_agent_job (qe_chrono E) (qe_serde E) (?h c)) \<in> set (q_heap (finish_job E job r q))"
    using success_hands_on(2)[OF assms(1-4)] assms(5,6) by auto
  ultimately show ?thesis by (intro bexI[of _ "?h c"]) (simp_all add: handed_def)
qed

text \<open>Claim C3. A step runs on the output of the step before it. When a job's run succeeds with a text that is not
  empty, the graph answers and no evaluation of the job blocks its chain, then a job parked under it whose stored
  arguments parse and take the whole of it (they have \<open>{{_prev}}\<close> and no path into it, name no earlier step and ask for
  no distilling) is queued and in the heap, and when it is taken from there its arguments are its own with the
  output's text in place of \<open>{{_prev}}\<close>. An empty output leaves the
  placeholder as it is (\<open>an_empty_output_leaves_the_placeholder\<close>), and a blocked chain goes another way.\<close>

theorem a_child_runs_on_its_parents_output:
  fixes E :: qenv and job :: agent_job and r :: tool_call_result and q :: queue
  assumes "faults (q_db q) = []" and "runs_as job n q" and "\<not> or_default False (tr_is_error r)"
    and "\<not> evaluation_blocks job (extract_result_text (qe_serde E) r)"
    and "c \<in> set (jobs (q_db q))" and "waits_below (job_id job) c"
    and "parse_nonempty (qe_serde E) (nd_args_json c) = Some a" and "takes_prev (qe_serde E) a"
    and "extract_result_text (qe_serde E) r \<noteq> []"
  shows "\<exists>p \<in> set (q_heap (finish_job E job r q)). job_id (pj_job p) = nd_id c \<and>
    status (pj_job p) = Queued \<and>
    fst (resolve_step_args E (pj_job p) q'') = Some (substitute_prev a (extract_result_text (qe_serde E) r))"
proof -
  obtain c' where c': "nd_id c' = nd_id c" "nd_status c' = Queued" "nd_args_json c' = nd_args_json c"
    "nd_prev_result_json c' = extract_result_text (qe_serde E) r"
    "prioritize (node_to_agent_job (qe_chrono E) (qe_serde E) c') \<in> set (q_heap (finish_job E job r q))"
    using a_child_is_handed_on[OF assms(1-6)] by blast
  then have "fst (resolve_step_args E (node_to_agent_job (qe_chrono E) (qe_serde E) c') q'') =
      Some (substitute_prev a (extract_result_text (qe_serde E) r))"
    using assms(7-9) args_taking_prev[of "node_to_agent_job (qe_chrono E) (qe_serde E) c'" a E q'']
    by (simp add: node_to_agent_job_def opt_nonempty_def)
  with c' show ?thesis by (intro bexI[OF _ c'(5)]) (simp add: prioritize_def node_to_agent_job_def)
qed

text \<open>An output that is empty is not handed on: a query that answers one empty or null column
  unwraps to the empty text, which the store reads back as no output, so the next step runs with the
  placeholder \<open>{{_prev}}\<close> itself in its arguments.\<close>

theorem an_empty_output_leaves_the_placeholder:
  fixes E :: qenv and job :: agent_job and r :: tool_call_result and q :: queue
  assumes "faults (q_db q) = []" and "runs_as job n q" and "\<not> or_default False (tr_is_error r)"
    and "\<not> evaluation_blocks job (extract_result_text (qe_serde E) r)"
    and "c \<in> set (jobs (q_db q))" and "waits_below (job_id job) c"
    and "parse_nonempty (qe_serde E) (nd_args_json c) = Some a" and "takes_prev (qe_serde E) a"
    and "extract_result_text (qe_serde E) r = []"
  shows "\<exists>p \<in> set (q_heap (finish_job E job r q)). job_id (pj_job p) = nd_id c \<and>
    status (pj_job p) = Queued \<and> fst (resolve_step_args E (pj_job p) q'') = Some a"
proof -
  obtain c' where c': "nd_id c' = nd_id c" "nd_status c' = Queued" "nd_args_json c' = nd_args_json c"
    "nd_prev_result_json c' = extract_result_text (qe_serde E) r"
    "prioritize (node_to_agent_job (qe_chrono E) (qe_serde E) c') \<in> set (q_heap (finish_job E job r q))"
    using a_child_is_handed_on[OF assms(1-6)] by blast
  then have "fst (resolve_step_args E (node_to_agent_job (qe_chrono E) (qe_serde E) c') q'') = Some a"
    using assms(7-9) args_taking_prev[of "node_to_agent_job (qe_chrono E) (qe_serde E) c'" a E q'']
    by (simp add: node_to_agent_job_def opt_nonempty_def)
  with c' show ?thesis by (intro bexI[OF _ c'(5)]) (simp add: prioritize_def node_to_agent_job_def)
qed


text \<open>What follows a death only adds.\<close>

definition adds_to :: "queue \<Rightarrow> queue \<Rightarrow> bool" where
  "adds_to q q' \<longleftrightarrow> (faults (q_db q) = [] \<longrightarrow> faults (q_db q') = [] \<and>
     set (jobs (q_db q)) \<subseteq> set (jobs (q_db q')) \<and> set (q_heap q) \<subseteq> set (q_heap q') \<and> tasks (q_db q') = tasks (q_db q))"

lemma adds_to_trans: "adds_to q1 q2 \<Longrightarrow> adds_to q2 q3 \<Longrightarrow> adds_to q1 q3"
  by (auto simp: adds_to_def)

lemma after_death_adds:
  "adds_to q (reflect_on_death E job attempt cap err q)"
  "adds_to q (notify_quota E job err q)"
  "adds_to q (maybe_meta_learn E job attempt err q)"
  "adds_to q (emit_job_event ev q)"
proof -
  show "adds_to q (reflect_on_death E job attempt cap err q)" "adds_to q (emit_job_event ev q)"
    by (simp_all add: adds_to_def reflect_on_death_def store_reflection_note_def emit_job_event_def)
  show "adds_to q (notify_quota E job err q)"
    by (auto simp: adds_to_def notify_quota_def notify_quota_exhausted_def already_notified_def
        create_notification_def emit_job_event_def Let_def)
  show "adds_to q (maybe_meta_learn E job attempt err q)"
  proof (cases "faults (q_db q) = []")
    case True
    have same: "recently_meta_learned (qe_now E) (tool_name job) (q_db q) =
        (fst (recently_meta_learned (qe_now E) (tool_name job) (q_db q)), q_db q)"
      using True by (simp add: recently_meta_learned_def)
    have "adds_to q (snd (enqueue_chain E (meta_learning_chain (tool_name job) attempt err) (session_id job) q))"
      by (rule enqueue_ok[OF True, of "meta_learning_chain (tool_name job) attempt err" E "session_id job" None])
        (auto simp: adds_to_def enqueue_chain_def True meta_learning_chain_def)
    then show ?thesis
      using same by (auto simp: maybe_meta_learn_def Let_def adds_to_def split: prod.splits)
  qed (simp add: adds_to_def)
qed

definition stops_below :: "agent_job \<Rightarrow> queue \<Rightarrow> queue \<Rightarrow> bool" where
  "stops_below job q q' \<longleftrightarrow>
     (\<forall>j \<in> set (jobs (q_db q)). descends (jobs (q_db q)) {job_id job} j \<longrightarrow>
        (\<exists>j' \<in> set (jobs (q_db q')). nd_id j' = nd_id j \<and> nd_status j' = Cancelled))"

text \<open>Writing the running job's end leaves what waits below it as it was.\<close>

lemma descends_update:
  assumes "\<And>j. P j \<Longrightarrow> nd_status j \<noteq> Parked" and "\<And>j. P j \<Longrightarrow> nd_status (f j) \<noteq> Parked"
  shows "descends (update_where P f js) F j \<longleftrightarrow> descends js F j"
proof
  assume "descends (update_where P f js) F j"
  then show "descends js F j"
  proof (induction rule: descends.induct)
    case (child j)
    then show ?case using assms by (intro descends.child) (auto elim: set_update_whereE)
  next
    case (step j k)
    then show ?case using assms by (intro descends.step[of j js F k]) (auto elim: set_update_whereE)
  qed
next
  assume "descends js F j"
  then show "descends (update_where P f js) F j"
  proof (induction rule: descends.induct)
    case (child j)
    then show ?case using assms by (intro descends.child in_update_where_keep) auto
  next
    case (step j k)
    then show ?case using assms by (intro descends.step[of j _ F k] in_update_where_keep) auto
  qed
qed

lemma count_descends_update:
  assumes "\<And>j. P j \<Longrightarrow> nd_status j \<noteq> Parked" and "\<And>j. P j \<Longrightarrow> nd_status (f j) \<noteq> Parked"
  shows "count_where (descends js F) (update_where P f js) = count_where (descends js F) js"
proof -
  have "descends js F (if P j then f j else j) = descends js F j" for j
    using assms descends_parked by (metis (full_types))
  then show ?thesis by (induction js) (auto simp: count_where_def update_where_def filter_map comp_def)
qed

lemma cancel_below_ended:
  assumes "faults (q_db q) = []" and "count_where (descends (jobs (q_db q)) {job_id job}) (jobs (q_db q)) < 64"
    and "\<And>j. nd_status (f j) \<noteq> Parked" and "\<And>j. nd_id (f j) = nd_id j"
  defines "d \<equiv> (q_db q)\<lparr>jobs := update_where (\<lambda>j. nd_id j = job_id job \<and> nd_status j = Running) f (jobs (q_db q))\<rparr>"
  shows "snd (cancel_parked_children now (job_id job) d) =
    d\<lparr>jobs := update_where (descends (jobs (q_db q)) {job_id job}) (cancelled_at now) (jobs d)\<rparr>"
proof -
  have same: "descends (jobs d) F = descends (jobs (q_db q)) F" for F
    unfolding d_def using assms(3) by (intro ext) (simp, intro descends_update, auto)
  have "count_where (descends (jobs (q_db q)) {job_id job}) (jobs d) = count_where (descends (jobs (q_db q)) {job_id job}) (jobs (q_db q))"
    unfolding d_def using assms(3) by (simp, intro count_descends_update) auto
  then have "count_where (descends (jobs d) {job_id job}) (jobs d) < 64"
    using assms(2) unfolding same by simp
  moreover have "faults d = []" using assms(1) by (simp add: d_def)
  ultimately show ?thesis using cancel_below[of d "job_id job" now] unfolding same by blast
qed

lemma cancelled_below:
  assumes "jobs (q_db q') = update_where (descends (jobs (q_db q)) {job_id job}) (cancelled_at now)
    (update_where (\<lambda>j. nd_id j = job_id job \<and> nd_status j = Running) f (jobs (q_db q)))"
  shows "stops_below job q q'"
  unfolding stops_below_def
proof (intro ballI impI)
  fix j assume j: "j \<in> set (jobs (q_db q))" "descends (jobs (q_db q)) {job_id job} j"
  then have "j \<in> set (update_where (\<lambda>j. nd_id j = job_id job \<and> nd_status j = Running) f (jobs (q_db q)))"
    by (intro in_update_where_keep) (auto dest: descends_parked)
  then have "cancelled_at now j \<in> set (jobs (q_db q'))"
    unfolding assms using j(2) by (rule in_update_where_hit)
  then show "\<exists>j' \<in> set (jobs (q_db q')). nd_id j' = nd_id j \<and> nd_status j' = Cancelled"
    by (intro bexI[of _ "cancelled_at now j"]) simp_all
qed


lemma jobs_start_run [simp]: "jobs (snd (start_run E uid name inputs goal ctx criteria d)) = jobs d"
proof -
  have "jobs (snd (resolve name inputs d)) = jobs d"
    by (auto simp: resolve_def get_workflow_by_name_def get_default_workflow_def list_workflows_def
        run_query_def read_only_def split: option.split list.split sum.split)
  then show ?thesis
    by (auto simp: start_run_def Let_def split: prod.split sum.split) (metis jobs_task_ops(8) snd_conv)+
qed

lemma evaluator_stop:
  assumes "faults (q_db q) = []" and "evaluation_blocks job out"
  shows "jobs (q_db (snd (evaluator_gate E job out q))) = jobs (snd (cancel_parked_children (qe_now E) (job_id job) (q_db q)))"
    and "q_heap (snd (evaluator_gate E job out q)) = q_heap q"
    and "fst (evaluator_gate E job out q)"
proof -
  have requeue: "jobs (q_db (handle_evaluator_requeue E i score critique p)) = jobs (q_db p) \<and>
      q_heap (handle_evaluator_requeue E i score critique p) = q_heap p" for i score critique p
  proof -
    obtain r d where g: "get_task i (q_db p) = (r, d)" by fastforce
    then have "jobs d = jobs (q_db p)" by (metis jobs_task_ops(7) snd_conv)
    then show ?thesis
      by (auto simp: handle_evaluator_requeue_def g Let_def jobs_start_run split: sum.split option.split)
  qed
  show "jobs (q_db (snd (evaluator_gate E job out q))) = jobs (snd (cancel_parked_children (qe_now E) (job_id job) (q_db q)))"
    and "q_heap (snd (evaluator_gate E job out q)) = q_heap q" and "fst (evaluator_gate E job out q)"
    using assms(2) by (auto simp: evaluator_gate_def evaluation_blocks_def Let_def requeue split: option.splits)
qed

text \<open>A failed evaluation stops its chain: the evaluator's job is completed, but every parked job
  below it is cancelled and none is put in the heap.\<close>

theorem a_failed_evaluation_stops_the_chain:
  assumes "faults (q_db q) = []" and "runs_as job n q" and "\<not> or_default False (tr_is_error r)"
    and "evaluation_blocks job (extract_result_text (qe_serde E) r)"
    and "count_where (descends (jobs (q_db q)) {job_id job}) (jobs (q_db q)) < 64"
  shows "stops_below job q (finish_job E job r q) \<and> q_heap (finish_job E job r q) = q_heap q \<and>
    (\<exists>n' \<in> set (jobs (q_db (finish_job E job r q))). nd_id n' = job_id job \<and> nd_status n' = Completed)"
proof -
  let ?f = "completed_node (qe_now E) (to_str (qe_serde E) (result_json r))"
  let ?js = "update_where (\<lambda>j. nd_id j = job_id job \<and> nd_status j = Running) ?f (jobs (q_db q))"
  let ?q1 = "q\<lparr>q_db := (q_db q)\<lparr>jobs := ?js\<rparr>\<rparr>"
  let ?g = "evaluator_gate E job (extract_result_text (qe_serde E) r) ?q1"
  have fin: "q_db (finish_job E job r q) = q_db (snd ?g)" "q_heap (finish_job E job r q) = q_heap (snd ?g)"
    using assms(3) evaluator_gate_blocks(1)[of E job "extract_result_text (qe_serde E) r" ?q1] assms(4)
    by (auto simp: finish_job_def on_job_succeeded_def completion_write[OF assms(1,2)] Let_def emit_job_event_def
        split: prod.split)
  have f: "nd_status (?f j) = Completed" "nd_id (?f j) = nd_id j" for j by (simp_all add: completed_node_def)
  have js: "jobs (q_db (finish_job E job r q)) = update_where (descends (jobs (q_db q)) {job_id job}) (cancelled_at (qe_now E)) ?js"
    unfolding fin using evaluator_stop(1)[of ?q1 job "extract_result_text (qe_serde E) r" E] assms(1,4)
      cancel_below_ended[OF assms(1,5), of ?f "qe_now E"] f by simp
  have "?f n \<in> set ?js" using assms(2) by (intro in_update_where_hit) (simp_all add: runs_as_def)
  then have "?f n \<in> set (jobs (q_db (finish_job E job r q)))"
    unfolding js by (rule in_update_where_keep) (auto simp: f dest: descends_parked)
  moreover have "q_heap (finish_job E job r q) = q_heap q"
    unfolding fin using evaluator_stop(2)[of ?q1 job "extract_result_text (qe_serde E) r" E] assms(1,4) by simp
  ultimately show ?thesis
    using cancelled_below[OF js] f assms(2) by (auto simp: runs_as_def intro!: bexI[of _ "?f n"])
qed


definition dead_node :: "instant \<Rightarrow> string \<Rightarrow> job_node \<Rightarrow> job_node" where
  "dead_node now err j =
     j\<lparr>nd_status := DeadLetter, nd_completed_at := Some now, nd_updated_at := now, nd_error := Some err,
       nd_dead_lettered_at := Some now, nd_dead_letter_reason := err\<rparr>"

definition fails_owner :: "agent_job \<Rightarrow> queue \<Rightarrow> queue \<Rightarrow> bool" where
  "fails_owner job q q' \<longleftrightarrow>
     (\<forall>ow \<in> set_option (owner_task job). \<forall>t \<in> set (tasks (q_db q)). tk_id t = ow \<longrightarrow> tk_status t \<in> {TCreated, TInProgress} \<longrightarrow>
        (\<exists>t' \<in> set (tasks (q_db q')). tk_id t' = ow \<and> tk_status t' = TFailed))"

lemma death_settles:
  assumes "faults (q_db q) = []" and "runs_as job n q"
    and "count_where (descends (jobs (q_db q)) {job_id job}) (jobs (q_db q)) < 64"
  shows "(\<exists>n' \<in> set (jobs (q_db (on_job_dead E job attempt cap err q))). nd_id n' = job_id job \<and> nd_status n' = DeadLetter) \<and>
    (if is_optional job
     then \<forall>c \<in> set (jobs (q_db q)). waits_below (job_id job) c \<longrightarrow>
       (\<exists>p \<in> set (q_heap (on_job_dead E job attempt cap err q)). job_id (pj_job p) = nd_id c \<and>
          prev_result (pj_job p) = Some (optional_step_failed_note (tool_name job) attempt cap err))
     else stops_below job q (on_job_dead E job attempt cap err q) \<and>
       fails_owner job q (on_job_dead E job attempt cap err q))"
proof -
  let ?f = "dead_node (qe_now E) err"
  let ?js = "update_where (\<lambda>j. nd_id j = job_id job \<and> nd_status j = Running) ?f (jobs (q_db q))"
  let ?q0 = "q\<lparr>q_db := (q_db q)\<lparr>jobs := ?js\<rparr>\<rparr>"
  let ?q1 = "settle_chain E job attempt cap err ?q0"
  let ?q2 = "settle_owner E job attempt cap err ?q1"
  let ?q' = "on_job_dead E job attempt cap err q"
  let ?note = "optional_step_failed_note (tool_name job) attempt cap err"
  have f: "nd_status (?f j) = DeadLetter" "nd_id (?f j) = nd_id j" for j by (simp_all add: dead_node_def)
  have dead: "set_job_dead (qe_now E) (job_id job) err (q_db q) = (Inr True, (q_db q)\<lparr>jobs := ?js\<rparr>)"
    using assms guarded_write_hits[of "q_db q" n] unfolding set_job_dead_def runs_as_def dead_node_def[abs_def] by auto
  have "?q' = emit_job_event (JobDead (job_id job) (tool_name job) (session_id job) err)
      (maybe_meta_learn E job attempt err (notify_quota E job err (reflect_on_death E job attempt cap err ?q2)))"
    by (simp add: on_job_dead_def dead Let_def)
  then have "adds_to ?q2 ?q'"
    by (simp only:) (rule adds_to_trans[OF after_death_adds(1) adds_to_trans[OF after_death_adds(2)
      adds_to_trans[OF after_death_adds(3) after_death_adds(4)]]])
  moreover have cancelled: "snd (cancel_parked_children (qe_now E) (job_id job) (q_db ?q0)) =
      (q_db ?q0)\<lparr>jobs := update_where (descends (jobs (q_db q)) {job_id job}) (cancelled_at (qe_now E)) ?js\<rparr>"
    using cancel_below_ended[OF assms(1,3), of ?f "qe_now E"] f by simp
  have q1: "faults (q_db ?q1) = [] \<and> tasks (q_db ?q1) = tasks (q_db q)"
    using assms(1) unpark_hands_on(3,4)[of ?q0 E] cancelled by (simp add: settle_chain_def)
  then have "faults (q_db ?q2) = []" by (simp add: settle_owner_def split: option.split)
  ultimately have kept: "set (jobs (q_db ?q2)) \<subseteq> set (jobs (q_db ?q'))" "set (q_heap ?q2) \<subseteq> set (q_heap ?q')"
    "tasks (q_db ?q') = tasks (q_db ?q2)" by (auto simp: adds_to_def)
  have q2: "jobs (q_db ?q2) = jobs (q_db ?q1)" "q_heap ?q2 = q_heap ?q1"
    by (simp_all add: settle_owner_def split: option.split)
  have hit: "?f n \<in> set ?js" using assms(2) by (intro in_update_where_hit) (simp_all add: runs_as_def)
  have n: "nd_id (?f n) = job_id job" using assms(2) f by (simp add: runs_as_def)
  show ?thesis
  proof (cases "is_optional job")
    case True
    then have settled: "?q1 = unpark_and_enqueue_children E (job_id job) ?note [] ?q0" by (simp add: settle_chain_def)
    have "?f n \<in> set (jobs (q_db ?q1))"
      unfolding settled using assms(1) hit f
      by (simp add: unpark_hands_on(1)) (rule in_update_where_keep, auto simp: waits_below_def)
    moreover have "filter (waits_below (job_id job)) ?js = filter (waits_below (job_id job)) (jobs (q_db q))"
      by (rule waiting_unchanged) (simp add: f)
    moreover have "q_heap ?q1 = q_heap q @ map (\<lambda>j. prioritize (node_to_agent_job (qe_chrono E) (qe_serde E)
        (handed (qe_now E) ?note [] j))) (filter (waits_below (job_id job)) ?js)"
      unfolding settled using assms(1) by (simp add: unpark_hands_on(2))
    ultimately have mem: "prioritize (node_to_agent_job (qe_chrono E) (qe_serde E) (handed (qe_now E) ?note [] c)) \<in> set (q_heap ?q')"
      if "c \<in> set (jobs (q_db q))" "waits_below (job_id job) c" for c
      using that kept(2) q2(2) by auto
    have "?note \<noteq> []" by (simp add: optional_step_failed_note_def)
    then have "\<exists>p \<in> set (q_heap ?q'). job_id (pj_job p) = nd_id c \<and> prev_result (pj_job p) = Some ?note"
      if "c \<in> set (jobs (q_db q))" "waits_below (job_id job) c" for c
      by (intro bexI[OF _ mem[OF that]]) (simp add: handed_def prioritize_def node_to_agent_job_def opt_nonempty_def)
    moreover have "?f n \<in> set (jobs (q_db ?q'))" using \<open>?f n \<in> set (jobs (q_db ?q1))\<close> kept(1) q2(1) by auto
    then have "\<exists>n' \<in> set (jobs (q_db ?q')). nd_id n' = job_id job \<and> nd_status n' = DeadLetter"
      using n f(1) by (intro bexI[of _ "?f n"]) simp_all
    ultimately show ?thesis using True by simp
  next
    case False
    then have js: "jobs (q_db ?q1) = update_where (descends (jobs (q_db q)) {job_id job}) (cancelled_at (qe_now E)) ?js"
      using cancelled by (simp add: settle_chain_def)
    have "?f n \<in> set (jobs (q_db ?q1))"
      unfolding js using hit by (rule in_update_where_keep) (auto simp: f dest: descends_parked)
    moreover have "stops_below job q ?q1" by (rule cancelled_below[OF js])
    then have "stops_below job q ?q'" using kept(1) q2(1) by (fastforce simp: stops_below_def)
    moreover have "fails_owner job q ?q'"
      unfolding fails_owner_def kept(3)
    proof (intro ballI impI)
      fix ow t assume ow: "ow \<in> set_option (owner_task job)" "t \<in> set (tasks (q_db q))" "tk_id t = ow"
        "tk_status t \<in> {TCreated, TInProgress}"
      let ?P = "\<lambda>t. tk_id t = ow \<and> tk_status t \<in> {TCreated, TInProgress}"
      let ?g = "\<lambda>t. t\<lparr>tk_status := TFailed, tk_updated_at := qe_now E, tk_context := Some (or_empty (tk_context t) @
        failure_mark @ chain_death_reason (tool_name job) attempt cap err)\<rparr>"
      have "tasks (q_db ?q2) = update_where ?P ?g (tasks (q_db q))"
        using ow(1) False q1 by (auto simp: settle_owner_def fail_task_with_reason_def set_tasks_where_def)
      moreover have "?g t \<in> set (update_where ?P ?g (tasks (q_db q)))"
        by (rule in_update_where_hit) (use ow in auto)
      ultimately have "?g t \<in> set (tasks (q_db ?q2))" by simp
      then show "\<exists>t' \<in> set (tasks (q_db ?q2)). tk_id t' = ow \<and> tk_status t' = TFailed"
        using ow(3) by (intro bexI[of _ "?g t"]) simp_all
    qed
    moreover have "?f n \<in> set (jobs (q_db ?q'))" using \<open>?f n \<in> set (jobs (q_db ?q1))\<close> kept(1) q2(1) by auto
    then have "\<exists>n' \<in> set (jobs (q_db ?q')). nd_id n' = job_id job \<and> nd_status n' = DeadLetter"
      using n f(1) by (intro bexI[of _ "?f n"]) simp_all
    ultimately show ?thesis using False by simp
  qed
qed

text \<open>Claim C7. A failed run is retried or ends its chain. While the job has attempts left it is queued
  again with the error, and nothing else changes, its children wait on. On its last attempt it is
  dead-lettered: an optional step's children go on, told that the step is missing; otherwise every
  parked job below is cancelled and the task that owns the chain, if it is still open, fails.\<close>

theorem a_failed_run_is_retried_or_ends_its_chain:
  assumes "faults (q_db q) = []" and "runs_as job n q" and "or_default False (tr_is_error r)"
    and "distinct (map nd_id (jobs (q_db q)))"
    and "count_where (descends (jobs (q_db q)) {job_id job}) (jobs (q_db q)) < 64"
  shows "if nd_attempt_count n < nd_max_attempts n
    then jobs (q_db (finish_job E job r q)) =
        update_where (\<lambda>j. j = n) (\<lambda>j. j\<lparr>nd_status := Queued, nd_updated_at := qe_now E, nd_error := Some (failure_text r)\<rparr>)
          (jobs (q_db q)) \<and> q_heap (finish_job E job r q) = q_heap q
    else (\<exists>n' \<in> set (jobs (q_db (finish_job E job r q))). nd_id n' = job_id job \<and> nd_status n' = DeadLetter) \<and>
      (if is_optional job
       then \<forall>c \<in> set (jobs (q_db q)). waits_below (job_id job) c \<longrightarrow>
         (\<exists>p \<in> set (q_heap (finish_job E job r q)). job_id (pj_job p) = nd_id c \<and>
            prev_result (pj_job p) = Some (optional_step_failed_note (tool_name job) (nd_attempt_count n) (nd_max_attempts n) (failure_text r)))
       else stops_below job q (finish_job E job r q) \<and> fails_owner job q (finish_job E job r q))"
proof -
  have n: "n \<in> set (jobs (q_db q))" "nd_id n = job_id job" "nd_status n = Running"
    using assms(2) by (simp_all add: runs_as_def)
  have the_n: "j = n" if "j \<in> set (jobs (q_db q))" "nd_id j = job_id job" for j
    using that n(1,2) assms(4) by (metis distinct_map inj_onD)
  have "find (\<lambda>j. nd_id j = job_id job) (jobs (q_db q)) = Some n"
  proof (cases "find (\<lambda>j. nd_id j = job_id job) (jobs (q_db q))")
    case None
    with n show ?thesis by (auto simp: find_None_iff)
  next
    case (Some m)
    then have "m \<in> set (jobs (q_db q))" "nd_id m = job_id job" by (auto simp: find_Some_iff)
    with Some show ?thesis using the_n by simp
  qed
  then have now: "attempts_now E job q = ((nd_attempt_count n, nd_max_attempts n), q)"
    using assms(1) by (simp add: attempts_now_def get_agent_job_def node_to_agent_job_def)
  show ?thesis
  proof (cases "nd_attempt_count n < nd_max_attempts n")
    case True
    let ?f = "\<lambda>j. j\<lparr>nd_status := Queued, nd_updated_at := qe_now E, nd_error := Some (failure_text r)\<rparr>"
    have "requeue_for_retry (qe_now E) (job_id job) (failure_text r) (q_db q) =
        (Inr True, (q_db q)\<lparr>jobs := update_where (\<lambda>j. nd_id j = job_id job \<and> nd_status j = Running) ?f (jobs (q_db q))\<rparr>)"
      using assms(1) n guarded_write_hits[of "q_db q" n] unfolding requeue_for_retry_def by auto
    moreover have "update_where (\<lambda>j. nd_id j = job_id job \<and> nd_status j = Running) ?f (jobs (q_db q)) =
        update_where (\<lambda>j. j = n) ?f (jobs (q_db q))"
      using the_n n(3) unfolding update_where_def n(2)[symmetric] by (intro map_cong) auto
    ultimately show ?thesis
      using True assms(3) by (simp add: finish_job_def on_job_failed_def now emit_job_event_def Let_def)
  next
    case False
    then have "finish_job E job r q = on_job_dead E job (nd_attempt_count n) (nd_max_attempts n) (failure_text r) q"
      using assms(3) by (simp add: finish_job_def on_job_failed_def now Let_def)
    with False show ?thesis using death_settles[OF assms(1,2,5)] by simp
  qed
qed


subsection \<open>Runs on a small chain\<close>

definition quoting_serde :: serde where
  "quoting_serde =
     \<lparr>from_str = (\<lambda>s. if s = ''args'' then Some (JObj [(''q'', JStr ''on {{_prev}}'')])
        else if s = ''rows'' then Some (JObj [(''rows'', JArr [JObj [(''c'', JStr [])]])]) else None),
      to_str = (\<lambda>v. ''on {{_prev}}'')\<rparr>"

definition chain_env :: qenv where
  "chain_env = sample_env\<lparr>qe_serde := quoting_serde\<rparr>"

definition running_chain :: "nat \<Rightarrow> queue" where
  "running_chain attempts = new_queue (graph_of
     [sample_node ''a'' Running [] attempts, (sample_node ''b'' Parked ''a'' 0)\<lparr>nd_args_json := ''args''\<rparr>])"

definition chain_job :: agent_job where
  "chain_job = node_to_agent_job sample_chrono sample_serde (sample_node ''a'' Running [] 1)"

definition judged_job :: agent_job where
  "judged_job = chain_job\<lparr>arguments := Some (JObj [(''__evaluator_min_score'', JInt 3)])\<rparr>"

lemma chain_simps:
  "faults (q_db (running_chain n)) = []"
  "jobs (q_db (running_chain n)) = [sample_node ''a'' Running [] n, (sample_node ''b'' Parked ''a'' 0)\<lparr>nd_args_json := ''args''\<rparr>]"
  "job_id chain_job = ''a''" "arguments chain_job = None" "qe_serde chain_env = quoting_serde"
  by (simp_all add: running_chain_def new_queue_def chain_job_def chain_env_def node_to_agent_job_def
      sample_node_def parse_nonempty_def)

lemma chain_runs: "runs_as chain_job (sample_node ''a'' Running [] n) (running_chain n)"
  "runs_as judged_job (sample_node ''a'' Running [] n) (running_chain n)"
  by (simp_all add: runs_as_def chain_simps judged_job_def)

lemma chain_waits: "waits_below ''a'' ((sample_node ''b'' Parked ''a'' 0)\<lparr>nd_args_json := ''args''\<rparr>)"
  by (simp add: waits_below_def)

lemma quoting_takes: "takes_prev quoting_serde (JObj [(''q'', JStr ''on {{_prev}}'')])"
proof -
  have "str_contains ''on {{_prev}}'' ''{{_prev}}''" "\<not> str_contains ''on {{_prev}}'' ''{{_prev.''"
    "\<not> str_contains ''on {{_prev}}'' ''{{result.''" by code_simp+
  then show ?thesis by (simp add: takes_prev_def quoting_serde_def)
qed

theorem a_child_runs_on_its_parents_output_witness:
  "\<exists>p. p \<in> set (q_heap (finish_job chain_env chain_job (success_text ''done'') (running_chain 1))) \<and> job_id (pj_job p) = ''b'' \<and>
     fst (resolve_step_args chain_env (pj_job p) (running_chain 1)) = Some (JObj [(''q'', JStr ''on done'')])"
proof -
  have out: "extract_result_text quoting_serde (success_text ''done'') = ''done''"
    by (simp add: extract_result_text_def success_text_def first_text_def quoting_serde_def result_success_def)
  moreover have "\<not> evaluation_blocks chain_job ''done''"
    by (simp add: evaluation_blocks_def job_arg_def chain_simps)
  moreover have "substitute_prev (JObj [(''q'', JStr ''on {{_prev}}'')]) ''done'' = JObj [(''q'', JStr ''on done'')]"
    by code_simp
  ultimately show ?thesis
    using a_child_runs_on_its_parents_output[of "running_chain 1" chain_job "sample_node ''a'' Running [] 1" "success_text ''done''"
        chain_env "(sample_node ''b'' Parked ''a'' 0)\<lparr>nd_args_json := ''args''\<rparr>" "JObj [(''q'', JStr ''on {{_prev}}'')]" "running_chain 1"]
      chain_runs(1)[of 1] chain_waits quoting_takes
    by (auto simp: chain_simps success_text_def result_success_def or_default_def parse_nonempty_def quoting_serde_def)
qed

theorem an_empty_output_leaves_the_placeholder_witness:
  "\<exists>p. p \<in> set (q_heap (finish_job chain_env chain_job (success_text ''rows'') (running_chain 1))) \<and> job_id (pj_job p) = ''b'' \<and>
     fst (resolve_step_args chain_env (pj_job p) (running_chain 1)) = Some (JObj [(''q'', JStr ''on {{_prev}}'')])"
proof -
  have out: "extract_result_text quoting_serde (success_text ''rows'') = []"
    by (simp add: extract_result_text_def success_text_def first_text_def quoting_serde_def result_success_def
        unwrap_single_column_rows_def column_text_def)
  moreover have "\<not> evaluation_blocks chain_job []"
    by (simp add: evaluation_blocks_def job_arg_def chain_simps)
  ultimately show ?thesis
    using an_empty_output_leaves_the_placeholder[of "running_chain 1" chain_job "sample_node ''a'' Running [] 1" "success_text ''rows''"
        chain_env "(sample_node ''b'' Parked ''a'' 0)\<lparr>nd_args_json := ''args''\<rparr>" "JObj [(''q'', JStr ''on {{_prev}}'')]" "running_chain 1"]
      chain_runs(1)[of 1] chain_waits quoting_takes
    by (auto simp: chain_simps success_text_def result_success_def or_default_def parse_nonempty_def quoting_serde_def)
qed

lemma few_below: "count_where (descends (jobs (q_db (running_chain n))) F) (jobs (q_db (running_chain n))) < 64"
  using descendants_le_parked[of "jobs (q_db (running_chain n))" F]
  by (simp add: chain_simps count_where_def)

theorem a_failed_evaluation_stops_the_chain_witness:
  "stops_below judged_job (running_chain 1) (finish_job chain_env judged_job (success_text ''Score: 2/5'') (running_chain 1))"
proof -
  have out: "extract_result_text quoting_serde (success_text ''Score: 2/5'') = ''Score: 2/5''"
    by (simp add: extract_result_text_def success_text_def first_text_def quoting_serde_def result_success_def)
  have "parse_evaluator_score ''Score: 2/5'' = Some (Num 2)" by code_simp
  then have "evaluation_blocks judged_job ''Score: 2/5''"
    by (simp add: evaluation_blocks_def judged_job_def job_arg_def score_reaches_def)
  then show ?thesis
    using a_failed_evaluation_stops_the_chain[of "running_chain 1" judged_job "sample_node ''a'' Running [] 1"
        "success_text ''Score: 2/5''" chain_env] chain_runs(2)[of 1] few_below out
    by (simp add: chain_simps success_text_def result_success_def or_default_def)
qed

theorem a_failed_run_is_retried_or_ends_its_chain_witness:
  "nd_status (hd (jobs (q_db (finish_job chain_env chain_job (error_result ''boom'') (running_chain 1))))) = Queued"
  using a_failed_run_is_retried_or_ends_its_chain[of "running_chain 1" chain_job "sample_node ''a'' Running [] 1"
      "error_result ''boom''" chain_env] chain_runs(1)[of 1] few_below
  by (simp add: chain_simps error_result_def or_default_def)

end
