(* ===== verification/Lifecycle.thy ===== *)
theory Lifecycle
  imports Job_Store
begin

text \<open>
  The abstract specification of a job's life: what may happen to one job in one query, and what may
  happen to the store of all jobs. Every query of \<open>Job_Store\<close> is a step of it, for any schedule of
  faults; \<open>Queue_System\<close> lifts this to the whole queue.
\<close>

subsection \<open>One job\<close>

text \<open>What a job is stays what it is: its work, its place in its chain and its cap.\<close>

definition same_work :: "job_node \<Rightarrow> job_node \<Rightarrow> bool" where
  "same_work a b \<longleftrightarrow>
     nd_id a = nd_id b \<and> nd_tool_name a = nd_tool_name b \<and> nd_args_json a = nd_args_json b \<and>
     nd_parent_job_id a = nd_parent_job_id b \<and> nd_max_attempts a = nd_max_attempts b \<and>
     nd_priority a = nd_priority b \<and> nd_session_id a = nd_session_id b \<and> nd_created_at a = nd_created_at b"

text \<open>The flag \<open>s\<close> says that the graph answers every query: then a failed run is only queued again while
  attempts are left.\<close>

inductive lifecycle :: "bool \<Rightarrow> job_node \<Rightarrow> job_node \<Rightarrow> bool" for s where
  Start: "same_work a b \<Longrightarrow> nd_status a = Queued \<Longrightarrow> nd_status b = Running \<Longrightarrow>
    nd_attempt_count b = Suc (nd_attempt_count a) \<Longrightarrow> lifecycle s a b"
| Settle: "same_work a b \<Longrightarrow> nd_status a = Running \<Longrightarrow>
    nd_status b \<in> {Completed, Failed, Dead, DeadLetter} \<Longrightarrow>
    nd_attempt_count b = nd_attempt_count a \<Longrightarrow> lifecycle s a b"
| Requeue: "same_work a b \<Longrightarrow> nd_status a = Running \<Longrightarrow> nd_status b = Queued \<Longrightarrow>
    nd_attempt_count b = nd_attempt_count a \<Longrightarrow>
    (s \<Longrightarrow> nd_attempt_count a < nd_max_attempts a) \<Longrightarrow> lifecycle s a b"
| Unpark: "same_work a b \<Longrightarrow> nd_status a = Parked \<Longrightarrow> nd_status b = Queued \<Longrightarrow>
    nd_attempt_count b = nd_attempt_count a \<Longrightarrow> lifecycle s a b"
| Cancel: "same_work a b \<Longrightarrow> nd_status a \<notin> {Completed, Dead, Cancelled} \<Longrightarrow> nd_status b = Cancelled \<Longrightarrow>
    nd_attempt_count b = nd_attempt_count a \<Longrightarrow> lifecycle s a b"
| Retry: "same_work a b \<Longrightarrow> nd_status a \<in> {Failed, Dead, Cancelled, DeadLetter} \<Longrightarrow> nd_status b = Queued \<Longrightarrow>
    nd_attempt_count b = 0 \<Longrightarrow> lifecycle s a b"

inductive_cases lifecycleE: "lifecycle s a b"

definition ended :: "job_status \<Rightarrow> bool" where
  "ended s \<longleftrightarrow> s \<in> {Completed, Failed, Dead, Cancelled, DeadLetter}"

lemma lifecycle_same_work: "lifecycle s a b \<Longrightarrow> same_work a b"
  by (erule lifecycleE)

lemma lifecycle_id: "lifecycle s a b \<Longrightarrow> nd_id b = nd_id a"
  using lifecycle_same_work[of s a b] by (simp add: same_work_def)

lemma completed_is_final: "lifecycle s a b \<Longrightarrow> nd_status a \<noteq> Completed"
  by (erule lifecycleE) auto

lemma nothing_runs_unqueued: "lifecycle s a b \<Longrightarrow> nd_status b = Running \<Longrightarrow> nd_status a = Queued"
  by (erule lifecycleE) auto

subsection \<open>The store\<close>

inductive settles1 :: "bool \<Rightarrow> job_node list \<Rightarrow> job_node list \<Rightarrow> bool" for s where
  upd: "(\<And>j. j \<in> set js \<Longrightarrow> P j \<Longrightarrow> lifecycle s j (f j)) \<Longrightarrow> settles1 s js (update_where P f js)"
| del: "(\<And>j. j \<in> set js \<Longrightarrow> P j \<Longrightarrow> ended (nd_status j)) \<Longrightarrow> settles1 s js (filter (\<lambda>j. \<not> P j) js)"

abbreviation settles :: "bool \<Rightarrow> job_node list \<Rightarrow> job_node list \<Rightarrow> bool" where
  "settles s \<equiv> (settles1 s)\<^sup>*\<^sup>*"

text \<open>A new job comes under an id that none of the jobs has and that is not of the used ones \<open>K\<close>; it
  waits, and has made no attempt.\<close>

inductive evolves1 :: "bool \<Rightarrow> string set \<Rightarrow> job_node list \<Rightarrow> job_node list \<Rightarrow> bool" for s K where
  settle: "settles1 s js js' \<Longrightarrow> evolves1 s K js js'"
| create: "nd_id n \<notin> K \<union> nd_id ` set js \<Longrightarrow> nd_status n \<in> {Queued, Parked} \<Longrightarrow> nd_attempt_count n = 0 \<Longrightarrow>
    evolves1 s K js (js @ [n])"

abbreviation evolves :: "bool \<Rightarrow> string set \<Rightarrow> job_node list \<Rightarrow> job_node list \<Rightarrow> bool" where
  "evolves s K \<equiv> (evolves1 s K)\<^sup>*\<^sup>*"

lemma distinct_ids_eq:
  "distinct (map nd_id js) \<Longrightarrow> a \<in> set js \<Longrightarrow> b \<in> set js \<Longrightarrow> nd_id a = nd_id b \<Longrightarrow> a = b"
  by (metis distinct_map inj_onD)

lemma settles_evolves: "settles s js js' \<Longrightarrow> evolves s K js js'"
  by (induction rule: rtranclp_induct) (auto intro: evolves1.settle rtranclp.rtrancl_into_rtrancl)

lemma evolves_mono: "evolves s K' js js' \<Longrightarrow> K \<subseteq> K' \<Longrightarrow> evolves s K js js'"
  by (erule rtranclp_mono[THEN predicate2D, rotated]) (auto elim!: evolves1.cases intro: evolves1.intros)

lemma settles1_ids:
  assumes "settles1 s js js'"
  shows "nd_id ` set js' \<subseteq> nd_id ` set js" and "distinct (map nd_id js) \<Longrightarrow> distinct (map nd_id js')"
proof -
  have "map nd_id (update_where P f js) = map nd_id js"
    if "\<And>j. j \<in> set js \<Longrightarrow> P j \<Longrightarrow> lifecycle s j (f j)" for P f
    using that by (intro map_update_where) (auto dest: lifecycle_id)
  then have "nd_id ` set (update_where P f js) = nd_id ` set js"
    if "\<And>j. j \<in> set js \<Longrightarrow> P j \<Longrightarrow> lifecycle s j (f j)" for P f
    using that by (metis set_map)
  with assms show "nd_id ` set js' \<subseteq> nd_id ` set js"
    by (cases rule: settles1.cases) auto
  show "distinct (map nd_id js')" if d: "distinct (map nd_id js)"
    using assms
  proof (cases rule: settles1.cases)
    case (upd P f)
    then have "map nd_id (update_where P f js) = map nd_id js"
      by (intro map_update_where) (auto dest: lifecycle_id)
    with upd d show ?thesis by simp
  next
    case (del P)
    with d show ?thesis by (simp add: distinct_map_filter)
  qed
qed

lemma settles_ids:
  assumes "settles s js js'"
  shows "nd_id ` set js' \<subseteq> nd_id ` set js \<and> (distinct (map nd_id js) \<longrightarrow> distinct (map nd_id js'))"
  using assms
proof (induction rule: rtranclp_induct)
  case (step js1 js2)
  with settles1_ids[OF step(2)] show ?case by auto
qed simp

text \<open>The history of a job is a path in its life.\<close>

lemma settles1_history:
  assumes "settles1 s js js'" and "j' \<in> set js'"
  shows "\<exists>j \<in> set js. (lifecycle s)\<^sup>*\<^sup>* j j'"
  using assms
proof (cases rule: settles1.cases)
  case (upd P f)
  from assms(2)[unfolded upd(1)] show ?thesis
    by (rule set_update_whereE) (use upd(2) in blast)+
next
  case (del P)
  with assms(2) show ?thesis by auto
qed

lemma lifecycle_path_id: "(lifecycle s)\<^sup>*\<^sup>* a b \<Longrightarrow> nd_id b = nd_id a"
  by (induction rule: rtranclp_induct) (auto dest: lifecycle_id)

lemma evolves_history:
  assumes "evolves s K js js'" and "j' \<in> set js'"
  shows "(\<exists>j \<in> set js. (lifecycle s)\<^sup>*\<^sup>* j j') \<or>
    (\<exists>n. nd_id n \<notin> K \<and> nd_status n \<in> {Queued, Parked} \<and> nd_attempt_count n = 0 \<and> (lifecycle s)\<^sup>*\<^sup>* n j')"
  using assms
proof (induction arbitrary: j' rule: rtranclp_induct)
  case (step js1 js2)
  from step(2) show ?case
  proof (cases rule: evolves1.cases)
    case settle
    with settles1_history step.prems obtain j1 where "j1 \<in> set js1" "(lifecycle s)\<^sup>*\<^sup>* j1 j'" by blast
    then show ?thesis using step.IH[of j1] by (meson rtranclp_trans)
  next
    case (create n)
    with step.prems consider "j' \<in> set js1" | "j' = n" by auto
    then show ?thesis using step.IH create by cases blast+
  qed
qed blast

lemma completed_path: "(lifecycle s)\<^sup>*\<^sup>* a b \<Longrightarrow> nd_status a = Completed \<Longrightarrow> b = a"
  by (erule converse_rtranclpE) (auto dest: completed_is_final)

text \<open>Each query is a step of the store, and only the schedule makes a query fail.\<close>

definition store_step :: "bool \<Rightarrow> db \<Rightarrow> db \<Rightarrow> bool" where
  "store_step s d d' \<longleftrightarrow> settles s (jobs d) (jobs d') \<and> (faults d = [] \<longrightarrow> faults d' = [])"

lemma store_step_refl [simp]: "store_step s d d"
  by (simp add: store_step_def)

lemma store_step_trans [trans]: "store_step s d d' \<Longrightarrow> store_step s d' d'' \<Longrightarrow> store_step s d d''"
  by (auto simp: store_step_def)

named_theorems settle_intros \<open>queries that only move or delete jobs\<close>

lemma run_query_step:
  assumes "\<And>d'. jobs d' = jobs d \<Longrightarrow>
      settles s (jobs d) (jobs (snd (q d'))) \<and> faults (snd (q d')) = faults d'"
  shows "store_step s d (snd (run_query q d))"
  using assms[of "used_fault d"]
  by (cases q d rule: run_query_cases) (auto simp: store_step_def)

lemma read_step [settle_intros]: "store_step s d (snd (run_query (read_only g) d))"
  by (rule run_query_step) simp

lemma set_where_settles:
  "(\<And>j. P j \<Longrightarrow> lifecycle s j (f j)) \<Longrightarrow> jobs d' = jobs d \<Longrightarrow>
     settles s (jobs d) (jobs (snd (set_where P f d'))) \<and> faults (snd (set_where P f d')) = faults d'"
  by (auto intro: settles1.upd)

lemma delete_where_settles:
  "(\<And>j. P j \<Longrightarrow> ended (nd_status j)) \<Longrightarrow> jobs d' = jobs d \<Longrightarrow>
     settles s (jobs d) (jobs (snd (delete_where P d'))) \<and> faults (snd (delete_where P d')) = faults d'"
  by (auto intro: settles1.del)

lemma count_updated_step:
  assumes "\<And>j. P j \<Longrightarrow> lifecycle s j (f j)"
  shows "store_step s d (snd (count_updated P f d))"
  by (cases P f d rule: count_updated_cases) (auto simp: store_step_def intro: settles1.upd assms)

lemma guarded_writes_step [settle_intros]:
  "store_step s d (snd (set_job_started now i d))"
  "store_step s d (snd (set_job_completed now i res d))"
  "store_step s d (snd (set_job_skipped now i reason d))"
  "store_step s d (snd (set_job_failed now i err d))"
  "store_step s d (snd (set_job_dead now i err d))"
  "store_step s d (snd (retry_dead_letter now i d))"
  unfolding set_job_started_def set_job_completed_def set_job_skipped_def
    set_job_failed_def set_job_dead_def retry_dead_letter_def
  by (rule count_updated_step; fastforce simp: same_work_def intro: lifecycle.intros)+

lemma requeue_step:
  assumes "\<And>j. s \<Longrightarrow> j \<in> set (jobs d) \<Longrightarrow> nd_id j = i \<Longrightarrow> nd_status j = Running \<Longrightarrow>
    nd_attempt_count j < nd_max_attempts j"
  shows "store_step s d (snd (requeue_for_retry now i err d))"
proof -
  let ?P = "\<lambda>j :: job_node. nd_id j = i \<and> nd_status j = Running"
  let ?f = "\<lambda>j :: job_node. j\<lparr>nd_status := Queued, nd_updated_at := now, nd_error := Some err\<rparr>"
  have "settles1 s (jobs d) (update_where ?P ?f (jobs d))"
    by (rule settles1.upd, rule lifecycle.Requeue) (use assms in \<open>auto simp: same_work_def\<close>)
  then show ?thesis unfolding requeue_for_retry_def
    by (cases ?P ?f d rule: count_updated_cases) (auto simp: store_step_def)
qed

lemma cancelling_lifecycle:
  "nd_status j \<notin> {Completed, Dead, Cancelled} \<Longrightarrow>
     lifecycle s j (j\<lparr>nd_status := Cancelled, nd_updated_at := now\<rparr>)"
  by (rule lifecycle.Cancel) (simp_all add: same_work_def)

lemma unpark_step [settle_intros]:
  "store_step s d (snd (unpark_children C S now parent prev raw d))"
  unfolding unpark_children_def Let_def
  by (rule run_query_step)
    (auto simp: same_work_def intro!: settles1.upd lifecycle.Unpark)

lemma cancel_generation_step: "store_step s d (snd (cancel_generation now F d))"
  unfolding cancel_generation_def Let_def
  by (rule run_query_step) (auto intro!: settles1.upd cancelling_lifecycle)

lemma cancel_generations_step: "store_step s d (snd (cancel_generations n now F t d))"
proof (induction n now F t d rule: cancel_generations.induct)
  case (2 n now F t d)
  show ?case
  proof (cases "cancel_generation now F d")
    case (Pair r d')
    with cancel_generation_step[of s d now F] have "store_step s d d'" by simp
    then show ?thesis using "2.IH" Pair
      by (auto split: sum.splits intro: store_step_trans)
  qed
qed simp

lemma cancel_parked_step [settle_intros]: "store_step s d (snd (cancel_parked_children now parent d))"
  unfolding cancel_parked_children_def by (rule cancel_generations_step)

lemma orphans_step [settle_intros]: "store_step s d (snd (cancel_orphaned_parked_jobs now d))"
  unfolding cancel_orphaned_parked_jobs_def
  by (rule run_query_step, rule set_where_settles) (auto simp: orphaned_def intro!: cancelling_lifecycle)

lemma expire_step [settle_intros]: "store_step s d (snd (expire_jobs now d))"
  unfolding expire_jobs_def
  by (rule run_query_step, rule set_where_settles) (auto simp: same_work_def intro!: lifecycle.Cancel)

lemma reset_step [settle_intros]: "store_step s d (snd (reset_running_agent_jobs now d))"
  unfolding reset_running_agent_jobs_def
  by (rule run_query_step, simp, rule r_into_rtranclp, rule settles1.upd)
    (auto simp: same_work_def recovered_def intro: lifecycle.Settle lifecycle.Requeue)

lemma cleanup_dead_letter_step [settle_intros]:
  "store_step s d (snd (cleanup_old_dead_letter now secs d))"
  unfolding cleanup_old_dead_letter_def
  by (rule run_query_step, rule delete_where_settles) (auto simp: ended_def)

lemma delete_all_step:
  "(\<And>P j. P \<in> set Ps \<Longrightarrow> P j \<Longrightarrow> ended (nd_status j)) \<Longrightarrow> store_step s d (snd (delete_all Ps d))"
proof (induction Ps d rule: delete_all.induct)
  case (2 P Ps d)
  have one: "store_step s d (snd (run_query (delete_where P) d))"
    by (rule run_query_step, rule delete_where_settles) (use "2.prems" in auto)
  show ?case
  proof (cases "run_query (delete_where P) d")
    case (Pair r d')
    with one have "store_step s d d'" by simp
    moreover have "store_step s d' (snd (delete_all Ps d'))" if "r = Inr n" for n
      using "2.IH"[OF Pair[unfolded that, symmetric] refl] "2.prems" by auto
    ultimately show ?thesis using Pair
      by (auto split: sum.splits prod.splits intro: store_step_trans)
  qed
qed simp

lemma cleanup_step [settle_intros]: "store_step s d (snd (cleanup_old_jobs now a b d))"
  unfolding cleanup_old_jobs_def Let_def
  by (rule delete_all_step)
    (auto simp: cleanup_completed_def cleanup_dead_def cleanup_cancelled_def cleanup_failed_def ended_def)

lemma delete_dead_letter_step [settle_intros]: "store_step s d (snd (delete_dead_letter i d))"
proof -
  have "store_step s d (snd (run_query (delete_where (\<lambda>j. nd_id j = i \<and> nd_status j = DeadLetter)) d))"
    by (rule run_query_step, rule delete_where_settles) (auto simp: ended_def)
  then show ?thesis by (auto simp: delete_dead_letter_def split: prod.splits sum.splits)
qed

lemma reads_step [settle_intros]:
  "store_step s d (snd (get_agent_job C S i d))"
  "store_step s d (snd (list_queued_agent_jobs C S d))"
  unfolding get_agent_job_def list_queued_agent_jobs_def by (rule read_step)+

end
