(* ===== verification/Queue_System.thy ===== *)
theory Queue_System
  imports Queue_Jobs Lifecycle
begin

text \<open>
  The queue as a whole: every operation, in any order and with any other one between the start and
  the end of a run, as a step relation; that each step is a step of \<open>Lifecycle\<close>; and what follows
  for every state the queue can reach.
\<close>

subsection \<open>What every handler keeps\<close>

text \<open>
  \<open>U\<close> is the source of fresh ids. A handler moves jobs as \<open>Lifecycle\<close> allows, leaves the lanes' slots
  and the running jobs alone, and makes no query fail that the schedule does not.
\<close>

definition used_ids :: "(nat \<Rightarrow> string) \<Rightarrow> queue \<Rightarrow> string set" where
  "used_ids U q = U ` {..<q_next_uid q}"

definition ids_ok :: "(nat \<Rightarrow> string) \<Rightarrow> queue \<Rightarrow> bool" where
  "ids_ok U q \<longleftrightarrow>
     distinct (map nd_id (jobs (q_db q))) \<and> nd_id ` set (jobs (q_db q)) \<subseteq> used_ids U q"

lemma used_ids_mono: "q_next_uid q \<le> q_next_uid q' \<Longrightarrow> used_ids U q \<subseteq> used_ids U q'"
  by (auto simp: used_ids_def)

definition handles :: "bool \<Rightarrow> (nat \<Rightarrow> string) \<Rightarrow> queue \<Rightarrow> queue \<Rightarrow> bool" where
  "handles s U q q' \<longleftrightarrow>
     (ids_ok U q \<longrightarrow> (s \<longrightarrow> faults (q_db q) = []) \<longrightarrow> evolves s (used_ids U q) (jobs (q_db q)) (jobs (q_db q')) \<and> ids_ok U q') \<and>
     q_next_uid q \<le> q_next_uid q' \<and>
     q_permits q' = q_permits q \<and> q_running q' = q_running q \<and> q_config q' = q_config q \<and>
     (faults (q_db q) = [] \<longrightarrow> faults (q_db q') = [])"

lemma handles_refl [simp]: "handles s U q q"
  by (simp add: handles_def)

lemma handles_trans [trans]: "handles s U q q' \<Longrightarrow> handles s U q' q'' \<Longrightarrow> handles s U q q''"
  by (auto simp: handles_def intro: rtranclp_trans[OF _ evolves_mono[OF _ used_ids_mono]])

lemma handles_guarded:
  assumes "ids_ok U q \<Longrightarrow> (s \<Longrightarrow> faults (q_db q) = []) \<Longrightarrow> handles s U q q'" and "q_next_uid q \<le> q_next_uid q'"
    and "q_permits q' = q_permits q" "q_running q' = q_running q" "q_config q' = q_config q"
    and "faults (q_db q) = [] \<Longrightarrow> faults (q_db q') = []"
  shows "handles s U q q'"
  using assms by (auto simp: handles_def)

named_theorems handles_intros \<open>what each operation of the queue keeps\<close>

lemma handles_store:
  assumes "store_step s (q_db q) (q_db q')" and "q_next_uid q \<le> q_next_uid q'"
    and "q_permits q' = q_permits q" "q_running q' = q_running q" "q_config q' = q_config q"
  shows "handles s U q q'"
proof -
  have "ids_ok U q'" if ok: "ids_ok U q"
  proof -
    have "settles s (jobs (q_db q)) (jobs (q_db q'))" using assms(1) by (simp add: store_step_def)
    note ids = settles_ids[OF this]
    have "used_ids U q \<subseteq> used_ids U q'" using assms(2) by (rule used_ids_mono)
    moreover have "distinct (map nd_id (jobs (q_db q)))" "nd_id ` set (jobs (q_db q)) \<subseteq> used_ids U q"
      using ok by (simp_all add: ids_ok_def)
    ultimately show ?thesis
      unfolding ids_ok_def using ids by (meson subset_trans)
  qed
  moreover have "evolves s K (jobs (q_db q)) (jobs (q_db q'))" for K
    using assms(1) by (simp add: store_step_def settles_evolves)
  ultimately show ?thesis
    using assms by (simp add: handles_def store_step_def)
qed

lemma handles_db [handles_intros]: "store_step s (q_db q) d \<Longrightarrow> handles s U q (q\<lparr>q_db := d\<rparr>)"
  by (rule handles_store) simp_all

lemma handles_push [handles_intros]: "handles s U q (push_jobs js q)"
  by (rule handles_store) simp_all

lemma handles_notify [handles_intros]: "handles s U q (notify_one q)"
  by (rule handles_store) (simp_all add: notify_one_def)

lemma handles_emit [handles_intros]: "handles s U q (emit_job_event ev q)"
  by (rule handles_store) (simp_all add: emit_job_event_def)

lemma handles_push_notify: "handles s U q (notify_one (push_jobs js q))"
  using handles_push handles_notify by (rule handles_trans)

text \<open>The tasks' and the workflows' queries leave the jobs alone.\<close>

lemma task_ops_step [settle_intros]:
  "store_step s d (snd (update_task_status now i st d))"
  "store_step s d (snd (fail_task_with_reason now i why d))"
  "store_step s d (snd (store_reflection_note now text d))"
  "store_step s d (snd (create_notification now message ctx d))"
  "store_step s d (snd (recently_meta_learned now tool d))"
  "store_step s d (snd (already_notified now ctx d))"
  "store_step s d (snd (get_task i d))"
  "store_step s d (snd (create_run S now uid goal c cr flow ins sta d))"
  by (simp_all add: store_step_def jobs_task_ops faults_task_ops)

lemma workflow_reads_step [settle_intros]:
  "store_step s d (snd (get_workflow_by_name n d))" "store_step s d (snd (get_default_workflow d))"
  "store_step s d (snd (list_workflows b d))"
  unfolding get_workflow_by_name_def get_default_workflow_def list_workflows_def by (rule read_step)+

lemma resolve_step: "store_step s d (snd (resolve name inputs d))"
  unfolding resolve_def split_beta
  by (auto split: sum.split option.split intro: workflow_reads_step store_step_trans)

lemma start_run_step [settle_intros]:
  "store_step s d (snd (start_run E uid name inputs goal ctx criteria d))"
  unfolding start_run_def split_beta Let_def
  by (auto split: sum.split intro: resolve_step task_ops_step(8) store_step_trans)

subsection \<open>The handlers\<close>

lemma handles_on_store:
  "store_step s (q_db q) (snd (f (q_db q))) \<Longrightarrow> handles s U q (snd (on_store f q))"
  by (simp add: on_store_def split_beta handles_db)

text \<open>A job created under a fresh id.\<close>

lemma snd_create_agent_job:
  "snd (create_agent_job C S now uid a d) = snd (run_query (insert_job (new_job_node S now uid Queued a)) d)"
  "snd (create_agent_job_parked S now uid a d) = snd (run_query (insert_job (new_job_node S now uid Parked a)) d)"
  unfolding create_agent_job_def create_agent_job_parked_def Let_def
  by (simp_all split: prod.split sum.split)

lemma handles_create:
  assumes U: "inj U" and n: "nd_id n = U (q_next_uid q)" "nd_status n \<in> {Queued, Parked}" "nd_attempt_count n = 0"
  shows "handles s U q (q\<lparr>q_next_uid := Suc (q_next_uid q), q_db := snd (run_query (insert_job n) (q_db q))\<rparr>)"
proof (cases "insert_job n" "q_db q" rule: run_query_cases)
  case (refused e)
  then show ?thesis by (intro handles_store) (auto simp: store_step_def)
next
  case answered
  have fresh: "nd_id n \<notin> used_ids U q"
    unfolding n(1) used_ids_def by (simp add: inj_image_mem_iff[OF U])
  then have "nd_id n \<notin> used_ids U q \<union> nd_id ` set (jobs (q_db q))" if "ids_ok U q"
    using that by (auto simp: ids_ok_def)
  then have "evolves s (used_ids U q) (jobs (q_db q)) (jobs (q_db q) @ [n])"
    and "nd_id n \<notin> nd_id ` set (jobs (q_db q))" if "ids_ok U q"
    using that n(2,3) by (auto intro!: r_into_rtranclp[of "evolves1 s K" for K] evolves1.create)
  moreover have "used_ids U (q\<lparr>q_next_uid := Suc (q_next_uid q), q_db := d\<rparr>) = insert (nd_id n) (used_ids U q)" for d
    by (simp add: used_ids_def lessThan_Suc n(1))
  ultimately show ?thesis
    using answered by (auto simp: handles_def insert_job_def ids_ok_def)
qed

lemma enqueue_steps_handles:
  assumes "inj U" and "qe_uid E = U"
  shows "handles s U q (snd (enqueue_steps E session owner catalog steps ids step_jobs first q))"
proof (induction steps arbitrary: ids step_jobs first q)
  case (Cons step steps)
  let ?n = "new_job_node (qe_serde E) (qe_now E) (qe_uid E (q_next_uid q))"
  let ?q = "\<lambda>st a. q\<lparr>q_next_uid := Suc (q_next_uid q), q_db := snd (run_query (insert_job (?n st a)) (q_db q))\<rparr>"
  have created: "handles s U q (?q st a)" if "st \<in> {Queued, Parked}" for st a
    using that assms by (intro handles_create) simp_all
  have "handles s U q (snd (enqueue_steps E session owner catalog steps ids' sj' first' (?q st a)))"
    if "st \<in> {Queued, Parked}" for st a ids' sj' first'
    using created[OF that] Cons.IH by (rule handles_trans)
  note rest = this
  show ?case
  proof (cases "ids = []")
    case True
    obtain r d where c: "create_agent_job (qe_chrono E) (qe_serde E) (qe_now E) (qe_uid E (q_next_uid q))
        (step_spec E session owner catalog step_jobs None step) (q_db q) = (r, d)" by fastforce
    then have "d = snd (run_query (insert_job (?n Queued (step_spec E session owner catalog step_jobs None step))) (q_db q))"
      by (metis snd_conv snd_create_agent_job(1))
    with True c created[of Queued] rest[of Queued] show ?thesis by (cases r) simp_all
  next
    case False
    obtain r d where c: "create_agent_job_parked (qe_serde E) (qe_now E) (qe_uid E (q_next_uid q))
        (step_spec E session owner catalog step_jobs (Some (last ids)) step) (q_db q) = (r, d)" by fastforce
    then have "d = snd (run_query (insert_job (?n Parked (step_spec E session owner catalog step_jobs (Some (last ids)) step))) (q_db q))"
      by (metis snd_conv snd_create_agent_job(2))
    with False c created[of Parked] rest[of Parked] show ?thesis by (cases r) simp_all
  qed
qed simp

lemma enqueue_handles [handles_intros]:
  assumes "inj U" and "qe_uid E = U"
  shows "handles s U q (snd (enqueue_chain_owned E steps session owner q))"
    and "handles s U q (snd (enqueue_chain E steps session q))"
proof -
  show "handles s U q (snd (enqueue_chain_owned E steps session owner q))" for owner
  proof -
    have "handles s U q (notify_one (push_jobs js (snd (enqueue_steps E session owner catalog steps [] [] None q))))"
      for js catalog
      using enqueue_steps_handles[OF assms] handles_push_notify by (rule handles_trans)
    then show ?thesis
      using enqueue_steps_handles[OF assms]
      unfolding enqueue_chain_owned_def Let_def
      by (auto split: prod.split sum.split option.split) (metis snd_conv)+
  qed
  then show "handles s U q (snd (enqueue_chain E steps session q))"
    by (simp add: enqueue_chain_def)
qed

lemma unpark_handles [handles_intros]: "handles s U q (unpark_and_enqueue_children E parent prev raw q)"
proof -
  obtain r d where u: "unpark_children (qe_chrono E) (qe_serde E) (qe_now E) parent prev raw (q_db q) = (r, d)"
    by fastforce
  then have d: "handles s U q (q\<lparr>q_db := d\<rparr>)" by (metis handles_db unpark_step snd_conv)
  have "handles s U q (notify_one (push_jobs js (q\<lparr>q_db := d\<rparr>)))" for js
    using d handles_push_notify by (rule handles_trans)
  with d u show ?thesis by (cases r) (simp_all add: unpark_and_enqueue_children_def)
qed

text \<open>A handler that queries the store and goes on from the answer.\<close>

lemma handles_then:
  assumes "store_step s (q_db q) (snd p)" and "\<And>r. handles s U (q\<lparr>q_db := snd p\<rparr>) (g r (snd p))"
  shows "handles s U q (case p of (r, d) \<Rightarrow> g r d)"
  using handles_trans[OF handles_db[OF assms(1)] assms(2)] by (simp add: case_prod_beta)

lemma recently_handles:
  assumes "inj U" and "qe_uid E = U"
  shows "handles s U q (maybe_meta_learn E job attempt err q)"
proof -
  have "handles s U q (case recently_meta_learned (qe_now E) (tool_name job) (q_db q) of
      (recent, d) \<Rightarrow> if recent then q\<lparr>q_db := d\<rparr>
        else snd (enqueue_chain E (meta_learning_chain (tool_name job) attempt err) (session_id job) (q\<lparr>q_db := d\<rparr>)))"
    by (rule handles_then, rule task_ops_step) (simp add: enqueue_handles(2)[OF assms])
  then show ?thesis by (simp add: maybe_meta_learn_def Let_def)
qed

lemma quota_handles: "handles s U q (notify_quota E job err q)"
proof -
  have "handles s U q (notify_quota_exhausted E tool err q)" for tool
  proof -
    let ?c = "''quota_exhausted:'' @ tool" and ?m = "quota_message tool err"
    obtain b d where a: "already_notified (qe_now E) ?c (q_db q) = (b, d)" by fastforce
    obtain r d2 where c: "create_notification (qe_now E) ?m ?c d = (r, d2)" by fastforce
    have d: "store_step s (q_db q) d" "store_step s d d2"
      using a c by (metis task_ops_step(6) snd_conv, metis task_ops_step(4) snd_conv)
    have "handles s U q (q\<lparr>q_next_uid := Suc (q_next_uid q), q_db := d2\<rparr>)"
      using store_step_trans[OF d] by (intro handles_store) simp_all
    moreover note handles_trans[OF this handles_emit]
    ultimately show ?thesis
      using a c handles_db[OF d(1)] by (cases r) (simp_all add: notify_quota_exhausted_def Let_def)
  qed
  then show ?thesis by (simp add: notify_quota_def)
qed

lemma settle_chain_handles: "handles s U q (settle_chain E job attempt cap err q)"
  by (simp add: settle_chain_def unpark_handles handles_db cancel_parked_step)

lemma settle_owner_handles: "handles s U q (settle_owner E job attempt cap err q)"
  by (simp add: settle_owner_def handles_db task_ops_step split: option.split)

lemma reflect_handles: "handles s U q (reflect_on_death E job attempt cap err q)"
  by (simp add: reflect_on_death_def handles_db task_ops_step)

lemma on_job_dead_handles:
  assumes "inj U" and "qe_uid E = U"
  shows "handles s U q (on_job_dead E job attempt cap err q)"
proof -
  let ?after = "\<lambda>q1. emit_job_event (JobDead (job_id job) (tool_name job) (session_id job) err)
    (maybe_meta_learn E job attempt err (notify_quota E job err (reflect_on_death E job attempt cap err
      (settle_owner E job attempt cap err q1))))"
  have "handles s U q1 (?after q1)" for q1
  proof -
    have "handles s U q1 (settle_owner E job attempt cap err q1)" by (rule settle_owner_handles)
    also have "handles s U \<dots> (reflect_on_death E job attempt cap err \<dots>)" by (rule reflect_handles)
    also have "handles s U \<dots> (notify_quota E job err \<dots>)" by (rule quota_handles)
    also have "handles s U \<dots> (maybe_meta_learn E job attempt err \<dots>)" by (rule recently_handles[OF assms])
    also have "handles s U \<dots> (?after q1)" by (rule handles_emit)
    finally show ?thesis .
  qed
  then have "handles s U q1 (?after (settle_chain E job attempt cap err q1))" for q1
    by (rule handles_trans[OF settle_chain_handles])
  then show ?thesis
    unfolding on_job_dead_def
    by (intro handles_then guarded_writes_step) (simp add: Let_def split: sum.split bool.split)
qed

lemma attempts_now_handles: "handles s U q (snd (attempts_now E job q))"
  unfolding attempts_now_def
  by (cases "get_agent_job (qe_chrono E) (qe_serde E) (job_id job) (q_db q)")
    (use reads_step(1)[of s "q_db q" "qe_chrono E" "qe_serde E" "job_id job"] in
      \<open>auto intro: handles_db split: sum.split option.split\<close>)

text \<open>What a failed run reads of its attempts is what the graph holds, when the graph answers.\<close>

lemma attempts_now_reads:
  assumes "attempts_now E job q = ((a, cap), q1)" and "faults (q_db q) = []"
    and "distinct (map nd_id (jobs (q_db q)))" and "j \<in> set (jobs (q_db q))" and "nd_id j = job_id job"
  shows "a = nd_attempt_count j \<and> cap = nd_max_attempts j \<and> q1 = q"
proof -
  have "find (\<lambda>j. nd_id j = job_id job) (jobs (q_db q)) \<noteq> None"
    using assms(4,5) by (auto simp: find_None_iff)
  then obtain n where n: "find (\<lambda>j. nd_id j = job_id job) (jobs (q_db q)) = Some n" by blast
  then have "n \<in> set (jobs (q_db q))" "nd_id n = job_id job" by (auto simp: find_Some_iff)
  then have "n = j" using assms(3-5) by (metis distinct_ids_eq)
  with n assms(1,2) show ?thesis
    by (simp add: attempts_now_def get_agent_job_def node_to_agent_job_def)
qed

lemma on_job_failed_handles:
  assumes "inj U" and "qe_uid E = U"
  shows "handles s U q (on_job_failed E job r q)"
proof -
  obtain a cap q1 where now: "attempts_now E job q = ((a, cap), q1)" by (metis prod.exhaust)
  then have one: "handles s U q q1" by (metis attempts_now_handles snd_conv)
  let ?err = "failure_text r"
  let ?d = "snd (requeue_for_retry (qe_now E) (job_id job) ?err (q_db q1))"
  let ?ev = "JobFailed (job_id job) (tool_name job) (session_id job) ?err"
  have requeued: "handles s U q (q1\<lparr>q_db := ?d\<rparr>)" if less: "a < cap"
  proof -
    have step: "store_step s (q_db q) ?d" if "ids_ok U q" "s \<Longrightarrow> faults (q_db q) = []"
    proof (cases s)
      case True
      have "store_step s (q_db q1) ?d"
      proof (rule requeue_step)
        fix j assume "j \<in> set (jobs (q_db q1))" "nd_id j = job_id job"
        moreover have "jobs (q_db q1) = jobs (q_db q)"
          using now that(2)[OF True] by (auto simp: attempts_now_def get_agent_job_def split: option.splits)
        ultimately show "nd_attempt_count j < nd_max_attempts j"
          using attempts_now_reads[OF now that(2)[OF True]] that(1) less by (auto simp: ids_ok_def)
      qed
      moreover have "q1 = q \<or> store_step s (q_db q) (q_db q1)"
        using now that(2)[OF True] by (auto simp: attempts_now_def get_agent_job_def split: option.splits)
      ultimately show ?thesis by (auto intro: store_step_trans)
    next
      case False
      have "store_step s (q_db q) (q_db q1)"
        using now reads_step(1)[of s "q_db q" "qe_chrono E" "qe_serde E" "job_id job"]
        by (auto simp: attempts_now_def case_prod_beta split: sum.splits option.splits)
      then show ?thesis using requeue_step[of s "q_db q1"] False by (auto intro: store_step_trans)
    qed
    show ?thesis
    proof (rule handles_guarded)
      show "handles s U q (q1\<lparr>q_db := ?d\<rparr>)" if "ids_ok U q" "s \<Longrightarrow> faults (q_db q) = []"
        using step[OF that] one by (intro handles_store) (auto simp: handles_def)
      show "faults (q_db (q1\<lparr>q_db := ?d\<rparr>)) = []" if "faults (q_db q) = []"
        using one that requeue_step[of False "q_db q1" "job_id job" "qe_now E" ?err]
        by (simp add: handles_def store_step_def)
    qed (use one in \<open>auto simp: handles_def\<close>)
  qed
  have "handles s U q1 (on_job_dead E job a cap ?err q1)" by (rule on_job_dead_handles[OF assms])
  with one have "handles s U q (on_job_dead E job a cap ?err q1)" by (rule handles_trans)
  moreover have "handles s U q (emit_job_event ?ev (notify_one (q1\<lparr>q_db := ?d\<rparr>)))" if "a < cap"
    using requeued[OF that] handles_trans[OF handles_notify handles_emit] by (rule handles_trans)
  ultimately show ?thesis
    using requeued now
    by (auto simp: on_job_failed_def Let_def case_prod_beta split: sum.split bool.split)
qed

lemma requeue_handles: "handles s U q (handle_evaluator_requeue E task score critique q)"
proof -
  obtain r d where g: "get_task task (q_db q) = (r, d)" by fastforce
  then have d: "store_step s (q_db q) d" by (metis task_ops_step(7) snd_conv)
  have "store_step s d (snd (start_run E uid n ins goal ctx cr (snd (update_task_status now task st d))))"
    for uid n ins goal ctx cr now st
    by (rule store_step_trans[OF task_ops_step(1) start_run_step])
  moreover have "store_step s d (snd (update_task_status now task st d))" for now st
    by (rule task_ops_step(1))
  ultimately show ?thesis
    using d g
    by (intro handles_store)
      (auto simp: handle_evaluator_requeue_def Let_def split: sum.split option.split intro: store_step_trans)
qed

lemma evaluator_gate_handles: "handles s U q (snd (evaluator_gate E job text q))"
proof -
  let ?q = "q\<lparr>q_db := snd (cancel_parked_children (qe_now E) (job_id job) (q_db q))\<rparr>"
  have one: "handles s U q ?q" by (intro handles_db cancel_parked_step)
  have "handles s U ?q (?q\<lparr>q_db := snd (update_task_status (qe_now E) owner TFailed (q_db ?q))\<rparr>)" for owner
    by (intro handles_db task_ops_step)
  from handles_trans[OF one this] handles_trans[OF one requeue_handles] one show ?thesis
    by (auto simp: evaluator_gate_def Let_def split: option.split)
qed

lemma on_job_succeeded_handles: "handles s U q (on_job_succeeded E job r q)"
proof -
  have "handles s U q1 (emit_job_event ev (snd (evaluator_gate E job t q1)))"
    "handles s U q1 (emit_job_event ev (unpark_and_enqueue_children E (job_id job) t raw (snd (evaluator_gate E job t q1))))"
    for q1 ev t raw
    by (rule handles_trans[OF evaluator_gate_handles handles_emit],
        rule handles_trans[OF evaluator_gate_handles handles_trans[OF unpark_handles handles_emit]])
  then show ?thesis
    unfolding on_job_succeeded_def Let_def
    by (intro handles_then guarded_writes_step) (auto simp: case_prod_beta split: sum.split bool.split)
qed

lemma finish_job_handles [handles_intros]:
  "inj U \<Longrightarrow> qe_uid E = U \<Longrightarrow> handles s U q (finish_job E job r q)"
  by (simp add: finish_job_def on_job_failed_handles on_job_succeeded_handles)

lemma named_outputs_handles: "handles s U q (snd (named_outputs E m outs q))"
proof (induction E m outs q rule: named_outputs.induct)
  case (2 E step i m outs q)
  obtain r d where g: "get_agent_job (qe_chrono E) (qe_serde E) i (q_db q) = (r, d)" by fastforce
  then have "handles s U q (q\<lparr>q_db := d\<rparr>)" by (metis handles_db reads_step(1) snd_conv)
  from this "2.IH"[OF g[symmetric]] have "handles s U q (snd (named_outputs E m (outs(step \<mapsto> step_output_of (qe_serde E) r)) (q\<lparr>q_db := d\<rparr>)))"
    by (rule handles_trans)
  with g show ?case by simp
qed simp_all

lemma resolve_step_args_handles: "handles s U q (snd (resolve_step_args E job q))"
proof -
  have "handles s U q (snd (resolve_named_steps E job q))"
    using named_outputs_handles by (auto simp: resolve_named_steps_def case_prod_beta split: option.split)
  then show ?thesis
    by (auto simp: resolve_step_args_def case_prod_beta Let_def split: option.split)
qed

lemma skip_job_handles: "handles s U q (skip_job E job q)"
  unfolding skip_job_def Let_def
  by (rule handles_trans[OF unpark_handles handles_db[OF guarded_writes_step(3)]])

lemma run_started_handles:
  assumes "inj U" and "qe_uid E = U"
  shows "handles s U q (snd (run_started E job q))"
proof -
  have "handles s U q1 (on_job_dead E job a cap err (snd (attempts_now E job q1)))" for q1 a cap err
    using attempts_now_handles on_job_dead_handles[OF assms] by (rule handles_trans)
  then have "handles s U q (on_job_dead E job a cap err (snd (attempts_now E job (snd (resolve_step_args E job q)))))"
    for a cap err
    by (rule handles_trans[OF resolve_step_args_handles])
  then show ?thesis
    using resolve_step_args_handles[of s U q E job]
    by (auto simp: run_started_def case_prod_beta split: option.split sum.split)
qed

lemma begin_job_handles [handles_intros]:
  assumes "inj U" and "qe_uid E = U"
  shows "handles s U q (snd (begin_job E job q))"
proof -
  let ?d = "snd (set_job_started (qe_now E) (job_id job) (q_db q))"
  have one: "handles s U q (q\<lparr>q_db := ?d\<rparr>)" by (intro handles_db guarded_writes_step)
  have "handles s U (q\<lparr>q_db := ?d\<rparr>) ((q\<lparr>q_db := ?d\<rparr>)\<lparr>q_db := snd (set_job_failed (qe_now E) (job_id job) err ?d)\<rparr>)" for err
    by (rule handles_db) (simp add: guarded_writes_step)
  from handles_trans[OF one this] handles_trans[OF one skip_job_handles]
    handles_trans[OF one run_started_handles[OF assms]] one
  show ?thesis
    by (auto simp: begin_job_def case_prod_beta Let_def split: sum.split bool.split)
qed

subsection \<open>The operator and the background tasks\<close>

lemma reload_handles [handles_intros]: "handles s U q (reload_from_neo4j E q)"
proof -
  let ?d = "snd (list_queued_agent_jobs (qe_chrono E) (qe_serde E) (q_db q))"
  have one: "handles s U q (q\<lparr>q_db := ?d\<rparr>)" by (intro handles_db reads_step)
  from one handles_trans[OF one handles_push] show ?thesis
    by (auto simp: reload_from_neo4j_def case_prod_beta Let_def split: sum.split)
qed

lemma recover_handles [handles_intros]: "handles s U q (recover E q)"
proof -
  let ?d1 = "snd (reset_running_agent_jobs (qe_now E) (q_db q))"
  let ?d2 = "snd (cancel_orphaned_parked_jobs (qe_now E) ?d1)"
  let ?d3 = "snd (list_queued_agent_jobs (qe_chrono E) (qe_serde E) ?d2)"
  have "store_step s (q_db q) ?d3"
    by (rule store_step_trans[OF store_step_trans[OF reset_step orphans_step] reads_step(2)])
  then have one: "handles s U q (q\<lparr>q_db := ?d3\<rparr>)" by (rule handles_db)
  from one handles_trans[OF one handles_push] handles_trans[OF one handles_push_notify] show ?thesis
    by (auto simp: recover_def case_prod_beta Let_def split: sum.split)
qed

lemma orphan_audit_handles [handles_intros]: "handles s U q (orphan_audit E q)"
proof -
  let ?d = "snd (cancel_orphaned_parked_jobs (qe_now E) (q_db q))"
  have "handles s U q (q\<lparr>q_db := ?d, q_orphan_audit := k\<rparr>)" "handles s U q (q\<lparr>q_db := ?d\<rparr>)" for k
    by (rule handles_store; simp add: orphans_step)+
  then show ?thesis by (auto simp: orphan_audit_def case_prod_beta split: sum.split)
qed

lemma store_actions_handle [handles_intros]:
  "handles s U q (snd (queue_expire E q))"
  "handles s U q (snd (queue_retry_dead_letter E i q))"
  "handles s U q (snd (queue_delete_dead_letter i q))"
  unfolding queue_expire_def queue_retry_dead_letter_def queue_delete_dead_letter_def
  by (intro handles_on_store settle_intros)+

lemma queue_cleanup_handles [handles_intros]: "handles s U q (snd (queue_cleanup E q))"
proof -
  let ?q = "snd (on_store (cleanup_old_jobs (qe_now E) (24 * 3600) (7 * 24 * 3600)) q)"
  have "handles s U q ?q" by (intro handles_on_store cleanup_step)
  moreover have "handles s U ?q (snd (on_store (cleanup_old_dead_letter (qe_now E) (30 * 24 * 3600)) ?q))"
    by (intro handles_on_store cleanup_dead_letter_step)
  ultimately show ?thesis
    by (auto simp: queue_cleanup_def case_prod_beta split: sum.split intro: handles_trans)
qed

text \<open>An unguarded write is only made of a job whose status was read; ids being distinct, it is that
  job's.\<close>

lemma get_agent_job_status:
  assumes "get_agent_job C S i d = (Inr (Some job), d')" and "distinct (map nd_id (jobs d))"
  shows "j \<in> set (jobs d') \<Longrightarrow> nd_id j = i \<Longrightarrow> nd_status j = status job"
proof -
  assume j: "j \<in> set (jobs d')" "nd_id j = i"
  obtain n where n: "find (\<lambda>j. nd_id j = i) (jobs d) = Some n" "status job = nd_status n" "jobs d' = jobs d"
    using assms(1)
    by (cases "read_only (\<lambda>g. map_option (node_to_agent_job C S) (find (\<lambda>j. nd_id j = i) (jobs g)))" d
        rule: run_query_cases) (auto simp: get_agent_job_def node_to_agent_job_def)
  then have "n \<in> set (jobs d)" "nd_id n = i" by (auto simp: find_Some_iff)
  then have "j = n" using j assms(2) n(3) by (metis distinct_ids_eq)
  with n show "nd_status j = status job" by simp
qed

lemma guarded_status_step:
  assumes "\<And>j. j \<in> set (jobs d) \<Longrightarrow> nd_id j = i \<Longrightarrow> nd_status j \<notin> {Completed, Dead, Cancelled}"
  shows "store_step s d (snd (update_agent_job_status now i Cancelled d))"
proof -
  have "store_step s d (snd (run_query (set_where (\<lambda>j. nd_id j = i)
      (\<lambda>j. j\<lparr>nd_status := Cancelled, nd_updated_at := now\<rparr>)) d))"
    by (rule run_query_step) (use assms in \<open>auto intro!: r_into_rtranclp[of "settles1 s"] settles1.upd cancelling_lifecycle\<close>)
  then show ?thesis by (simp add: update_agent_job_status_def case_prod_beta split: sum.split)
qed

lemma guarded_retry_step:
  assumes "\<And>j. j \<in> set (jobs d) \<Longrightarrow> nd_id j = i \<Longrightarrow> nd_status j \<in> {Failed, Dead, Cancelled}"
  shows "store_step s d (snd (retry_agent_job now i d))"
proof -
  have "store_step s d (snd (run_query (set_where (\<lambda>j. nd_id j = i)
      (\<lambda>j. j\<lparr>nd_status := Queued, nd_updated_at := now, nd_error := None, nd_attempt_count := 0\<rparr>)) d))"
    by (rule run_query_step)
      (use assms in \<open>auto simp: same_work_def intro!: r_into_rtranclp[of "settles1 s"] settles1.upd lifecycle.Retry\<close>)
  then show ?thesis by (simp add: retry_agent_job_def case_prod_beta split: sum.split)
qed

lemma unguarded_faults:
  "faults d = [] \<Longrightarrow> faults (snd (update_agent_job_status now i st d)) = []"
  "faults d = [] \<Longrightarrow> faults (snd (retry_agent_job now i d)) = []"
  by (simp_all add: update_agent_job_status_def retry_agent_job_def)

lemma handles_tombstones: "handles s U q (q\<lparr>q_tombstones := T\<rparr>)"
  by (rule handles_store) simp_all

lemma map_sum_Inr [simp]: "map_sum f id r = Inr x \<longleftrightarrow> r = Inr x"
  by (cases r) simp_all

lemma cancel_handles [handles_intros]: "handles s U q (snd (cancel E i q))"
proof -
  obtain r d1 where g: "get_agent_job (qe_chrono E) (qe_serde E) i (q_db q) = (r, d1)" by fastforce
  then have one: "store_step s (q_db q) d1" by (metis reads_step(1) snd_conv)
  let ?u = "update_agent_job_status (qe_now E) i Cancelled d1"
  let ?d3 = "snd (cancel_parked_children (qe_now E) i (snd ?u))"
  have faults: "faults (q_db q) = [] \<Longrightarrow> faults (snd ?u) = []"
    "faults (q_db q) = [] \<Longrightarrow> faults ?d3 = []"
    using one cancel_parked_step[of s "snd ?u" "qe_now E" i] unguarded_faults(1)[of d1]
    by (simp_all add: store_step_def)
  have fin: "handles s U q (q\<lparr>q_db := snd ?u\<rparr>)"
    "handles s U q (q\<lparr>q_db := ?d3, q_tombstones := T\<rparr>)"
    if "r = Inr (Some job)" "status job \<notin> {Completed, Dead, Cancelled}" for job T
  proof -
    have u: "store_step s (q_db q) (snd ?u)" if "ids_ok U q"
      by (rule store_step_trans[OF one guarded_status_step])
        (use \<open>r = _\<close> \<open>status job \<notin> _\<close> that get_agent_job_status[of _ _ i "q_db q" job d1] g in \<open>auto simp: ids_ok_def\<close>)
    show "handles s U q (q\<lparr>q_db := snd ?u\<rparr>)"
      by (rule handles_guarded) (use u faults in \<open>auto intro: handles_db\<close>)
    show "handles s U q (q\<lparr>q_db := ?d3, q_tombstones := T\<rparr>)"
      by (rule handles_guarded)
        (use u faults store_step_trans[OF _ cancel_parked_step] in \<open>auto intro!: handles_store\<close>)
  qed
  have "handles s U q (q\<lparr>q_db := d1\<rparr>)" using one by (rule handles_db)
  with fin g show ?thesis
    by (cases ?u) (auto simp: cancel_def on_store_def lift_result_def case_prod_beta Let_def
        split: sum.split option.split)
qed

lemma retry_handles [handles_intros]: "handles s U q (snd (retry E i q))"
proof -
  obtain r d1 where g: "get_agent_job (qe_chrono E) (qe_serde E) i (q_db q) = (r, d1)" by fastforce
  then have one: "store_step s (q_db q) d1" by (metis reads_step(1) snd_conv)
  let ?u = "retry_agent_job (qe_now E) i d1"
  let ?d3 = "snd (get_agent_job (qe_chrono E) (qe_serde E) i (snd ?u))"
  have faults: "faults (q_db q) = [] \<Longrightarrow> faults (snd ?u) = []"
    "faults (q_db q) = [] \<Longrightarrow> faults ?d3 = []"
    using one reads_step(1)[of s "snd ?u" "qe_chrono E" "qe_serde E" i] unguarded_faults(2)[of d1]
    by (simp_all add: store_step_def)
  have fin: "handles s U q (q\<lparr>q_db := snd ?u\<rparr>)"
    "handles s U q (q\<lparr>q_tombstones := T, q_db := ?d3\<rparr>)"
    if "r = Inr (Some job)" "status job \<in> {Failed, Dead, Cancelled}" for job T
  proof -
    have u: "store_step s (q_db q) (snd ?u)" if "ids_ok U q"
      by (rule store_step_trans[OF one guarded_retry_step])
        (use \<open>r = _\<close> \<open>status job \<in> _\<close> that get_agent_job_status[of _ _ i "q_db q" job d1] g in \<open>auto simp: ids_ok_def\<close>)
    show "handles s U q (q\<lparr>q_db := snd ?u\<rparr>)"
      by (rule handles_guarded) (use u faults in \<open>auto intro: handles_db\<close>)
    show "handles s U q (q\<lparr>q_tombstones := T, q_db := ?d3\<rparr>)"
      by (rule handles_guarded)
        (use u faults store_step_trans[OF _ reads_step(1)] in \<open>auto intro!: handles_store\<close>)
  qed
  have "handles s U q (notify_one (push_jobs js (q\<lparr>q_tombstones := T, q_db := ?d3\<rparr>)))"
    if "r = Inr (Some job)" "status job \<in> {Failed, Dead, Cancelled}" for job T js
    using fin(2)[OF that] handles_push_notify by (rule handles_trans)
  moreover have "handles s U q (q\<lparr>q_db := d1\<rparr>)" using one by (rule handles_db)
  ultimately show ?thesis
    using fin g
    by (cases ?u) (auto simp: retry_def on_store_def lift_result_def case_prod_beta Let_def
        split: sum.split option.split)
qed

lemma foldl_handles:
  "(\<And>q x. handles s U q (f q x)) \<Longrightarrow> handles s U q (foldl f q xs)"
  by (induction xs arbitrary: q) (auto intro: handles_trans)

lemma drain_handles [handles_intros]: "handles s U q (snd (drain E q))"
proof -
  let ?q1 = "q\<lparr>q_heap := [], q_tombstones := q_tombstones q \<union> set (map (\<lambda>p. job_id (pj_job p)) (q_heap q))\<rparr>"
  have "store_step s d (snd (cancel_all_queued now d))" for now d
    unfolding cancel_all_queued_def Let_def
    by (rule run_query_step) (auto intro!: r_into_rtranclp[of "settles1 s"] settles1.upd cancelling_lifecycle)
  then have "handles s U q (snd (on_store (cancel_all_queued (qe_now E)) ?q1))"
    by (intro handles_store) (simp_all add: on_store_def case_prod_beta)
  moreover have "handles s U q2 (foldl (\<lambda>q i. snd (on_store (cancel_parked_children (qe_now E) i) q)) q2 is)" for q2 "is"
    by (intro foldl_handles handles_on_store cancel_parked_step)
  ultimately show ?thesis
    by (auto simp: drain_def case_prod_beta Let_def split: sum.split intro: handles_trans)
qed

subsection \<open>The queue's steps\<close>

text \<open>
  Any operation may come next, and each under surroundings of its own that share only the source of
  ids \<open>U\<close>. A run that has begun may end at any later time, with any result; a restart loses the memory
  and keeps the graph. Each query of an operation is atomic; an operation's queries are not
  interleaved with another operation's, but for a run's, which is split in two.
\<close>

definition restart_queue :: "queue \<Rightarrow> queue" where
  "restart_queue q = (new_queue (q_db q))\<lparr>q_next_uid := q_next_uid q\<rparr>"

inductive queue_step :: "(nat \<Rightarrow> string) \<Rightarrow> queue \<Rightarrow> queue \<Rightarrow> bool" for U where
  Submit: "qe_uid E = U \<Longrightarrow> queue_step U q (snd (enqueue_chain_owned E steps session owner q))"
| Pass: "queue_step U q (coordinator_pass E q)"
| Begin: "qe_uid E = U \<Longrightarrow> j \<in> set (q_running q) \<Longrightarrow> queue_step U q (snd (begin_job E j q))"
| Finish: "qe_uid E = U \<Longrightarrow> j \<in> set (q_running q) \<Longrightarrow> queue_step U q (finish_job E j r q)"
| Slot: "j \<in> set (q_running q) \<Longrightarrow> queue_step U q (finish_slot j q)"
| Reload: "queue_step U q (reload_from_neo4j E q)"
| Audit: "queue_step U q (orphan_audit E q)"
| Expire: "queue_step U q (snd (queue_expire E q))"
| Cleanup: "queue_step U q (snd (queue_cleanup E q))"
| CancelJob: "queue_step U q (snd (cancel E i q))"
| RetryJob: "queue_step U q (snd (retry E i q))"
| Drain: "queue_step U q (snd (drain E q))"
| Revive: "queue_step U q (snd (queue_retry_dead_letter E i q))"
| Bury: "queue_step U q (snd (queue_delete_dead_letter i q))"
| Restart: "queue_step U q (recover E (restart_queue q))"

abbreviation queue_run :: "(nat \<Rightarrow> string) \<Rightarrow> queue \<Rightarrow> queue \<Rightarrow> bool" where
  "queue_run U \<equiv> (queue_step U)\<^sup>*\<^sup>*"

inductive_cases queue_stepE: "queue_step U q q'"

text \<open>What a step does to the store, whichever it is.\<close>

definition store_evolves :: "bool \<Rightarrow> (nat \<Rightarrow> string) \<Rightarrow> queue \<Rightarrow> queue \<Rightarrow> bool" where
  "store_evolves s U q q' \<longleftrightarrow>
     (ids_ok U q \<longrightarrow> (s \<longrightarrow> faults (q_db q) = []) \<longrightarrow> evolves s (used_ids U q) (jobs (q_db q)) (jobs (q_db q')) \<and> ids_ok U q') \<and>
     q_next_uid q \<le> q_next_uid q' \<and> (faults (q_db q) = [] \<longrightarrow> faults (q_db q') = [])"

lemma handles_store_evolves: "handles s U q q' \<Longrightarrow> store_evolves s U q q'"
  by (simp add: handles_def store_evolves_def)

lemma store_evolves_trans: "store_evolves s U q q' \<Longrightarrow> store_evolves s U q' q'' \<Longrightarrow> store_evolves s U q q''"
  by (auto simp: store_evolves_def intro: rtranclp_trans[OF _ evolves_mono[OF _ used_ids_mono]])

lemma store_evolves_same:
  "q_db q' = q_db q \<Longrightarrow> q_next_uid q' = q_next_uid q \<Longrightarrow> store_evolves s U q q'"
  by (simp add: store_evolves_def ids_ok_def used_ids_def)

lemma coordinator_pass_uid: "q_next_uid (coordinator_pass E q) = q_next_uid q"
proof -
  obtain q' sc where scan: "scan_heap E q new_scan = (q', sc)"
    and pass: "coordinator_pass E q = q'\<lparr>q_gpu_deferred := sc_deferred sc, q_heap := q_heap q' @ sc_blocked sc\<rparr>"
    by (rule coordinator_pass_scan)
  have "q_next_uid q' = q_next_uid q"
    by (rule scan_heap_keeps[where I = "\<lambda>r s. q_next_uid r = q_next_uid q", OF _ _ _ _ _ scan]) simp_all
  with pass show ?thesis by simp
qed

lemma coordinator_pass_accounts:
  "\<exists>started. q_running (coordinator_pass E q) = q_running q @ map pj_job started \<and>
     (\<forall>l. q_permits q l = q_permits (coordinator_pass E q) l + count_where (in_lane l) started) \<and>
     q_db (coordinator_pass E q) = q_db q"
proof -
  obtain q' sc where scan: "scan_heap E q new_scan = (q', sc)"
    and pass: "coordinator_pass E q = q'\<lparr>q_gpu_deferred := sc_deferred sc, q_heap := q_heap q' @ sc_blocked sc\<rparr>"
    by (rule coordinator_pass_scan)
  from scan_accounts[OF scan] show ?thesis by (intro exI[of _ "sc_started sc"]) (simp add: pass)
qed

lemma queue_step_evolves:
  assumes "queue_step U q q'" and "inj U"
  shows "store_evolves s U q q'"
  using assms(1)
proof (cases rule: queue_step.cases)
  case (Pass E)
  have "q_db (coordinator_pass E q) = q_db q" using coordinator_pass_accounts by blast
  with Pass show ?thesis by (intro store_evolves_same) (simp_all add: coordinator_pass_uid)
next
  case (Slot j)
  then show ?thesis by (intro store_evolves_same) (simp_all add: finish_slot_def notify_one_def)
next
  case (Restart E)
  have "store_evolves s U q (restart_queue q)"
    by (rule store_evolves_same) (simp_all add: restart_queue_def new_queue_def)
  then show ?thesis
    unfolding Restart(1) using handles_store_evolves[OF recover_handles] by (rule store_evolves_trans)
qed (use assms(2) in \<open>auto intro!: handles_store_evolves handles_intros\<close>)

lemma queue_run_evolves:
  assumes "queue_run U q q'" and "inj U"
  shows "store_evolves s U q q'"
  using assms(1)
proof (induction rule: rtranclp_induct)
  case (step q1 q2)
  then show ?case using queue_step_evolves[OF _ assms(2)] store_evolves_trans by blast
qed (simp add: store_evolves_same)

subsection \<open>Slots\<close>

definition in_lanes :: "queue \<Rightarrow> lane \<Rightarrow> nat" where
  "in_lanes q l = count_where (\<lambda>j. job_lane j = l) (q_running q)"

definition slots_ok :: "queue \<Rightarrow> bool" where
  "slots_ok q \<longleftrightarrow> (\<forall>l. q_permits q l + in_lanes q l = lane_slots l)"

lemma handles_slots: "handles s U q q' \<Longrightarrow> slots_ok q \<Longrightarrow> slots_ok q'"
  by (simp add: handles_def slots_ok_def in_lanes_def)

lemma new_queue_slots: "slots_ok ((new_queue d)\<lparr>q_next_uid := n\<rparr>)"
  by (simp add: slots_ok_def in_lanes_def new_queue_def count_where_def)

lemma pass_slots:
  assumes "slots_ok q"
  shows "slots_ok (coordinator_pass E q)"
proof -
  obtain started where
    run: "q_running (coordinator_pass E q) = q_running q @ map pj_job started"
    and free: "\<forall>l. q_permits q l = q_permits (coordinator_pass E q) l + count_where (in_lane l) started"
    using coordinator_pass_accounts by blast
  have "count_where (\<lambda>j. job_lane j = l) (map pj_job started) = count_where (in_lane l) started" for l
    by (simp add: count_where_def filter_map comp_def in_lane_def[abs_def])
  with assms free show ?thesis
    by (simp add: slots_ok_def in_lanes_def run count_where_def add.commute add.left_commute)
qed

lemma finish_slot_slots:
  assumes "slots_ok q" and "j \<in> set (q_running q)"
  shows "slots_ok (finish_slot j q)"
proof -
  have removed: "length (filter P (remove1 j js)) = (if P j then length (filter P js) - 1 else length (filter P js))"
    if "j \<in> set js" for P and js :: "agent_job list"
    using that by (simp add: filter_remove1 length_remove1)
  have "0 < in_lanes q (job_lane j)"
    using assms(2) by (auto simp: in_lanes_def count_where_pos)
  then have "q_permits (finish_slot j q) l + in_lanes (finish_slot j q) l = q_permits q l + in_lanes q l" for l
    by (auto simp: in_lanes_def count_where_def finish_slot_def notify_one_def removed[OF assms(2)])
  with assms(1) show ?thesis by (simp add: slots_ok_def)
qed

lemma queue_step_slots:
  assumes "queue_step U q q'" and "inj U \<and> slots_ok q"
  shows "inj U \<and> slots_ok q'"
proof
  show "inj U" using assms(2) ..
  from assms(2) have inv: "inj U" "slots_ok q" by simp_all
  from assms(1) show "slots_ok q'"
  proof (cases rule: queue_step.cases)
    case (Pass E)
    with inv show ?thesis by (simp add: pass_slots)
  next
    case (Slot j)
    with inv show ?thesis by (simp add: finish_slot_slots)
  next
    case (Restart E)
    show ?thesis unfolding Restart
      by (rule handles_slots[OF recover_handles]) (simp add: restart_queue_def new_queue_slots)
  qed (use inv in \<open>auto intro!: handles_slots[OF _ inv(2), of False U] handles_intros\<close>)
qed

interpretation slots: step_relation "queue_step U" "\<lambda>q. inj U \<and> slots_ok q" for U
  by unfold_locales (rule queue_step_slots)

subsection \<open>Attempts\<close>

definition within_cap :: "job_node \<Rightarrow> bool" where
  "within_cap j \<longleftrightarrow>
     nd_attempt_count j \<le> max 1 (nd_max_attempts j) \<and>
     (nd_status j \<in> {Queued, Parked} \<longrightarrow> nd_attempt_count j < max 1 (nd_max_attempts j))"

lemma lifecycle_within_cap:
  assumes "lifecycle True a b" and "within_cap a"
  shows "within_cap b"
  using assms
  by (cases rule: lifecycle.cases) (auto simp: within_cap_def same_work_def max_def)

lemma path_within_cap: "(lifecycle True)\<^sup>*\<^sup>* a b \<Longrightarrow> within_cap a \<Longrightarrow> within_cap b"
  by (induction rule: rtranclp_induct) (auto intro: lifecycle_within_cap)

lemma new_within_cap: "nd_status n \<in> {Queued, Parked} \<Longrightarrow> nd_attempt_count n = 0 \<Longrightarrow> within_cap n"
  by (simp add: within_cap_def)

subsection \<open>Properties\<close>

text \<open>Claim C1. The queue refines the life of a job: whatever operations, runs, failures of the graph
  and restarts come in whatever order, every job that is there later either was there before and has
  followed a path of its lifecycle since (queued, running, then settled, queued again, cancelled or
  retried; its work, its place in the chain and its cap unchanged), or was created since under a fresh
  id, queued or parked and with no attempt made, and has followed such a path from there.\<close>

theorem the_queue_refines_the_lifecycle:
  assumes "queue_run U q q'" and "inj U" and "ids_ok U q" and "j' \<in> set (jobs (q_db q'))"
  shows "(\<exists>j \<in> set (jobs (q_db q)). nd_id j = nd_id j' \<and> (lifecycle False)\<^sup>*\<^sup>* j j') \<or>
    (\<exists>n. nd_id n \<notin> used_ids U q \<and> nd_status n \<in> {Queued, Parked} \<and> nd_attempt_count n = 0 \<and>
       nd_id n = nd_id j' \<and> (lifecycle False)\<^sup>*\<^sup>* n j')"
proof -
  have "evolves False (used_ids U q) (jobs (q_db q)) (jobs (q_db q'))"
    using queue_run_evolves[OF assms(1,2), of False] assms(3) by (simp add: store_evolves_def)
  from evolves_history[OF this assms(4)] show ?thesis by (metis lifecycle_path_id)
qed

text \<open>A completed job is final: whatever the queue does afterwards, the job is there as it
  was, result and all, or has been cleaned up; it never runs again, and no other job takes its id.\<close>

theorem a_completed_job_is_final:
  assumes "queue_run U q q'" and "inj U" and "ids_ok U q"
    and "j \<in> set (jobs (q_db q))" and "nd_status j = Completed"
    and "j' \<in> set (jobs (q_db q'))" and "nd_id j' = nd_id j"
  shows "j' = j"
proof -
  have "evolves False (used_ids U q) (jobs (q_db q)) (jobs (q_db q'))"
    using queue_run_evolves[OF assms(1,2), of False] assms(3) by (simp add: store_evolves_def)
  note history = evolves_history[OF this assms(6)]
  have "nd_id j \<in> used_ids U q" using assms(3,4) by (auto simp: ids_ok_def)
  with history assms(7) obtain j0 where j0: "j0 \<in> set (jobs (q_db q))" "(lifecycle False)\<^sup>*\<^sup>* j0 j'"
    by (metis lifecycle_path_id)
  then have "j0 = j"
    using assms(3,4,7) by (metis distinct_ids_eq ids_ok_def lifecycle_path_id)
  with j0 assms(5) show ?thesis by (metis completed_path)
qed

text \<open>Claim C20. No lane ever runs more jobs than it has slots: from a new queue on, in any order of
  operations, passes, ends of runs and restarts, the running jobs of a lane and its free slots add up
  to the lane's slots.\<close>

theorem lanes_never_overrun:
  assumes "queue_run U (new_queue d) q" and "inj U"
  shows "in_lanes q l + q_permits q l = lane_slots l"
proof -
  have "slots_ok (new_queue d)" using new_queue_slots[where n = 0 and d = d] by (simp add: new_queue_def)
  with slots.run_keeps[OF assms(1)] assms(2) show ?thesis by (simp add: slots_ok_def add.commute)
qed

text \<open>Claim C5. As long as the graph answers, no job makes more attempts than its cap (one, when the cap
  is zero), and a job that waits has one left: whatever is failed, retried, revived, cancelled,
  recovered or unparked in whatever order.\<close>

theorem attempts_stay_within_the_cap:
  assumes "queue_run U q q'" and "inj U" and "ids_ok U q" and "faults (q_db q) = []"
    and "\<forall>j \<in> set (jobs (q_db q)). within_cap j" and "j' \<in> set (jobs (q_db q'))"
  shows "nd_attempt_count j' \<le> max 1 (nd_max_attempts j') \<and>
    (nd_status j' \<in> {Queued, Parked} \<longrightarrow> nd_attempt_count j' < max 1 (nd_max_attempts j'))"
proof -
  have "evolves True (used_ids U q) (jobs (q_db q)) (jobs (q_db q'))"
    using queue_run_evolves[OF assms(1,2), of True] assms(3,4) by (simp add: store_evolves_def)
  from evolves_history[OF this assms(6)] have "within_cap j'"
    using assms(5) path_within_cap new_within_cap by metis
  then show ?thesis by (simp add: within_cap_def)
qed

subsection \<open>Runs on a small queue\<close>

definition unary :: "nat \<Rightarrow> string" where
  "unary n = replicate n (CHR ''a'')"

definition small_queue :: "job_node list \<Rightarrow> queue" where
  "small_queue js = (new_queue (graph_of js))\<lparr>q_next_uid := 3\<rparr>"

lemma inj_unary: "inj unary"
  by (rule injI) (metis unary_def length_replicate)

lemma small_queue_simps [simp]:
  "q_db (small_queue js) = graph_of js" "q_next_uid (small_queue js) = 3" "q_heap (small_queue js) = []"
  by (simp_all add: small_queue_def new_queue_def)

lemma used_small: "used_ids unary (small_queue js) = {[], ''a'', ''aa''}"
  by (auto simp: used_ids_def unary_def lessThan_Suc eval_nat_numeral)

definition before_drain :: "job_node list" where
  "before_drain = [sample_node ''a'' Completed [] 1, sample_node ''aa'' Queued [] 1]"

definition drained_node :: job_node where
  "drained_node = (sample_node ''aa'' Queued [] 1)\<lparr>nd_status := Cancelled, nd_updated_at := 0\<rparr>"

abbreviation after_drain :: queue where
  "after_drain \<equiv> snd (drain sample_env (small_queue before_drain))"

lemma small_ids_ok: "ids_ok unary (small_queue before_drain)"
  by (simp add: ids_ok_def used_small before_drain_def)

lemma small_drain: "queue_run unary (small_queue before_drain) after_drain"
  by (rule r_into_rtranclp) (rule queue_step.Drain)

lemma drained_jobs: "jobs (q_db after_drain) = [sample_node ''a'' Completed [] 1, drained_node]"
  by (simp add: drain_def cancel_all_queued_def on_store_def lift_result_def set_where_def Let_def
      cancel_parked_children_def numeral_eq_Suc cancel_generation_def sample_env_def before_drain_def drained_node_def)

lemma drained_there:
  "drained_node \<in> set (jobs (q_db after_drain))"
  "sample_node ''a'' Completed [] 1 \<in> set (jobs (q_db after_drain))"
  by (simp_all add: drained_jobs)

theorem the_queue_refines_the_lifecycle_witness:
  "(lifecycle False)\<^sup>*\<^sup>* (sample_node ''aa'' Queued [] 1) drained_node"
  using the_queue_refines_the_lifecycle[OF small_drain inj_unary small_ids_ok drained_there(1)]
  unfolding used_small small_queue_simps by (auto simp: before_drain_def drained_node_def)

theorem a_completed_job_is_final_witness:
  "hd (jobs (q_db after_drain)) = sample_node ''a'' Completed [] 1"
  by (rule a_completed_job_is_final[OF small_drain inj_unary small_ids_ok])
    (simp_all add: drained_jobs, simp_all add: before_drain_def)

definition one_submitted :: queue where
  "one_submitted =
     coordinator_pass sample_env (snd (enqueue_chain_owned (sample_env\<lparr>qe_uid := unary\<rparr>) [new_step ''reason''] None None (new_queue (graph_of []))))"

lemma one_submitted_run: "queue_run unary (new_queue (graph_of [])) one_submitted"
proof -
  let ?q1 = "snd (enqueue_chain_owned (sample_env\<lparr>qe_uid := unary\<rparr>) [new_step ''reason''] None None
    (new_queue (graph_of [])))"
  have "queue_step unary (new_queue (graph_of [])) ?q1" by (rule queue_step.Submit) simp
  then have "queue_run unary (new_queue (graph_of [])) ?q1" by blast
  moreover have "queue_step unary ?q1 one_submitted"
    unfolding one_submitted_def by (rule queue_step.Pass)
  ultimately show ?thesis by (meson rtranclp.rtrancl_into_rtrancl)
qed

theorem lanes_never_overrun_witness:
  "in_lanes one_submitted LocalLane + q_permits one_submitted LocalLane = 2"
  using lanes_never_overrun[OF one_submitted_run inj_unary, of LocalLane] by simp

theorem attempts_stay_within_the_cap_witness:
  "nd_attempt_count drained_node \<le> max 1 (nd_max_attempts drained_node)"
  using attempts_stay_within_the_cap[OF small_drain inj_unary small_ids_ok _ _ drained_there(1)]
  by (simp add: before_drain_def within_cap_def)

end
