(* ===== verification/Items.thy ===== *)
theory Items
  imports Base
begin

text \<open>
  Items, the one record for work that wants doing (\<open>crates/scheduler/src/items.rs\<close>, the \<open>Todo\<close> of
  \<open>crates/repository/src/todo.rs\<close>): what a write may say, who may assign whom, and whether an agent's item
  runs on its own. The time functions of the graph (\<open>datetime\<close>) keep a time as the text it is read back as.
\<close>

subsection \<open>The record\<close>

definition todo_statuses :: "string list" where
  "todo_statuses = [''pending'', ''in_progress'', ''awaiting_approval'', ''awaiting_review'', ''done'']"

definition todo_origins :: "string list" where
  "todo_origins = [''user'', ''schedule'', ''proposal'', ''agent'']"

record todo =
  td_id :: string
  td_title :: string
  td_description :: "string option"
  td_status :: string
  td_priority :: int
  td_tags :: "string list"
  td_due_at :: "string option"
  td_created_at :: string
  td_updated_at :: string
  td_assignee :: "string option"
  td_origin_kind :: "string option"
  td_origin_ref :: "string option"
  td_prompt :: "string option"
  td_session_id :: "string option"
  td_snoozed_until :: "string option"
  td_dispatched_at :: "string option"
  td_dispatch_count :: int
  td_result_note_id :: "string option"
  td_model :: "string option"
  td_review_comment :: "string option"
  td_approved_dispatch :: "int option"
  td_ask :: "string option"
  td_source_task :: "string option"
  td_source :: "string option"
  td_program :: "string option"

text \<open>\<open>None\<close> leaves a field, \<open>Some None\<close> clears it.\<close>

record todo_patch =
  tp_assignee :: "string option option"
  tp_origin_kind :: "string option option"
  tp_origin_ref :: "string option option"
  tp_prompt :: "string option option"
  tp_session_id :: "string option option"
  tp_snoozed_until :: "string option option"
  tp_result_note_id :: "string option option"
  tp_model :: "string option option"
  tp_ask :: "string option option"
  tp_source_task :: "string option option"
  tp_source :: "string option option"
  tp_program :: "string option option"

definition no_patch :: todo_patch where
  "no_patch =
     \<lparr>tp_assignee = None, tp_origin_kind = None, tp_origin_ref = None, tp_prompt = None,
      tp_session_id = None, tp_snoozed_until = None, tp_result_note_id = None, tp_model = None,
      tp_ask = None, tp_source_task = None, tp_source = None, tp_program = None\<rparr>"

definition patch_is_empty :: "todo_patch \<Rightarrow> bool" where
  "patch_is_empty p \<longleftrightarrow> p = no_patch"

definition nonblank :: "string option \<Rightarrow> string option" where
  "nonblank x = Option.bind x (\<lambda>s. opt_nonempty (trim s))"

definition patched :: "string option option \<Rightarrow> string option \<Rightarrow> string option" where
  "patched p old = (case p of None \<Rightarrow> old | Some v \<Rightarrow> nonblank v)"

definition apply_patch :: "string \<Rightarrow> todo_patch \<Rightarrow> todo \<Rightarrow> todo" where
  "apply_patch now p t =
     t\<lparr>td_updated_at := now, td_assignee := patched (tp_assignee p) (td_assignee t),
       td_origin_kind := patched (tp_origin_kind p) (td_origin_kind t),
       td_origin_ref := patched (tp_origin_ref p) (td_origin_ref t),
       td_prompt := patched (tp_prompt p) (td_prompt t),
       td_session_id := patched (tp_session_id p) (td_session_id t),
       td_snoozed_until := patched (tp_snoozed_until p) (td_snoozed_until t),
       td_result_note_id := patched (tp_result_note_id p) (td_result_note_id t),
       td_model := patched (tp_model p) (td_model t), td_ask := patched (tp_ask p) (td_ask t),
       td_source_task := patched (tp_source_task p) (td_source_task t),
       td_source := patched (tp_source p) (td_source t),
       td_program := patched (tp_program p) (td_program t)\<rparr>"

subsection \<open>What a body says\<close>

definition body_field :: "json \<Rightarrow> string \<Rightarrow> string option option" where
  "body_field body key = map_option (\<lambda>v. nonblank (as_str v)) (json_get body key)"

definition first_given :: "'a option \<Rightarrow> 'a option \<Rightarrow> 'a option" where
  "first_given a b = (case a of Some x \<Rightarrow> Some x | None \<Rightarrow> b)"

definition patch_from_json :: "json \<Rightarrow> todo_patch" where
  "patch_from_json body =
     (let origin = json_get body ''origin'' in
      \<lparr>tp_assignee = body_field body ''assignee'',
       tp_origin_kind = first_given (Option.bind origin (\<lambda>o'. body_field o' ''kind'')) (body_field body ''origin_kind''),
       tp_origin_ref = first_given (Option.bind origin (\<lambda>o'. body_field o' ''ref'')) (body_field body ''origin_ref''),
       tp_prompt = body_field body ''prompt'', tp_session_id = body_field body ''session_id'',
       tp_snoozed_until = body_field body ''snoozed_until'',
       tp_result_note_id = body_field body ''result_note_id'', tp_model = body_field body ''model'',
       tp_ask = body_field body ''ask'', tp_source_task = None, tp_source = None,
       tp_program = body_field body ''program''\<rparr>)"

subsection \<open>Checking a write\<close>

definition agent_prefix :: string where
  "agent_prefix = ''agent:''"

definition status_errors :: "string option \<Rightarrow> string list" where
  "status_errors st =
     (case nonblank st of
        None \<Rightarrow> []
      | Some s \<Rightarrow> if s \<in> set todo_statuses then []
          else [''status '' @ quoted s @ '' is not one of '' @ join_with '', '' todo_statuses])"

definition assignee_errors :: "string option option \<Rightarrow> string list \<Rightarrow> bool \<Rightarrow> string list" where
  "assignee_errors a roster by_brain =
     (case a of
        Some (Some who) \<Rightarrow>
          (case strip_prefix agent_prefix who of
             Some agent \<Rightarrow>
               if by_brain
               then [''only the user assigns an item to an agent; the brain may assign '' @ quoted ''user'' @
                     '' or leave it unassigned'']
               else if agent \<noteq> ''auto'' \<and> agent \<notin> set roster
               then [quoted agent @ '' is not a spawnable agent (spawnable: '' @ join_with '', '' roster @ '')'']
               else []
           | None \<Rightarrow>
               if who \<noteq> ''user''
               then [''assignee '' @ quoted who @ '' must be '' @ quoted ''user'' @ '', '' @ quoted ''agent:auto'' @
                     '' or '' @ quoted ''agent:<spawnable profile>'']
               else [])
      | _ \<Rightarrow> [])"

definition origin_errors :: "string option option \<Rightarrow> string list" where
  "origin_errors k =
     (case k of
        Some (Some kind) \<Rightarrow> if kind \<in> set todo_origins then []
          else [''origin kind '' @ quoted kind @ '' is not one of '' @ join_with '', '' todo_origins]
      | _ \<Rightarrow> [])"

definition snooze_errors :: "chrono \<Rightarrow> string option option \<Rightarrow> string list" where
  "snooze_errors C s =
     (case s of
        Some (Some t) \<Rightarrow> if parse_rfc3339 C t \<noteq> None then []
          else [''snoozed_until '' @ quoted t @ '' is not an RFC 3339 time (e.g. 2026-10-10T09:00:00Z)'']
      | _ \<Rightarrow> [])"

definition validate_item ::
  "chrono \<Rightarrow> string option \<Rightarrow> todo_patch \<Rightarrow> string list \<Rightarrow> bool \<Rightarrow> string + unit" where
  "validate_item C st p roster by_brain =
     (let errors = status_errors st @ assignee_errors (tp_assignee p) roster by_brain @
            origin_errors (tp_origin_kind p) @ snooze_errors C (tp_snoozed_until p)
      in if errors = [] then Inr () else Inl (join_with ''; '' errors))"

subsection \<open>Titles, and whose it is\<close>

definition title_from :: "string \<Rightarrow> string" where
  "title_from message =
     (let line = or_default [] (find (\<lambda>l. l \<noteq> []) (map trim (text_lines message)));
          line' = trim (dropWhile (\<lambda>c. c = CHR ''#'') line)
      in if char_count line' \<le> 120 then line' else take_chars 119 line' @ ellipsis)"

definition for_user :: "todo \<Rightarrow> bool" where
  "for_user t \<longleftrightarrow>
     (if td_status t = ''done'' then False
      else if td_status t = ''awaiting_approval'' \<or> td_status t = ''awaiting_review'' then True
      else (case td_assignee t of None \<Rightarrow> True | Some a \<Rightarrow> a = ''user''))"

subsection \<open>Side effects\<close>

text \<open>What is read of a \<open>ContextProfile\<close>.\<close>

record agent_profile =
  ap_name :: string
  ap_tools :: "string list"
  ap_spawnable :: bool
  ap_explicit_only :: bool
  ap_side_effects :: "string option"

definition roster :: "agent_profile list \<Rightarrow> string list" where
  "roster ps = map ap_name (filter (\<lambda>p. ap_spawnable p \<and> \<not> ap_explicit_only p) (sort_key ap_name ps))"

definition external_effect_tools :: "string list" where
  "external_effect_tools = [''http_request'', ''mcp_call'', ''write_workspace_file'', ''write_proposal'', ''manage_plugin'']"

datatype side_effects = ReadOnly | AsksFirst string

definition side_effects_of :: "agent_profile option \<Rightarrow> side_effects" where
  "side_effects_of profile =
     (case profile of
        None \<Rightarrow> AsksFirst ''which agent runs is chosen when it runs''
      | Some p \<Rightarrow>
          (case map_option trim (ap_side_effects p) of
             Some s \<Rightarrow>
               if s = ''read_only'' then ReadOnly
               else if s = ''writes'' then AsksFirst (''`'' @ ap_name p @ ''` is declared side_effects: writes'')
               else AsksFirst (''`'' @ ap_name p @ ''` declares side_effects: '' @ s @
                      '', which is neither read_only nor writes'')
           | None \<Rightarrow>
               let held = filter (\<lambda>t. t \<in> set external_effect_tools) (ap_tools p)
               in if held = [] then ReadOnly
                  else AsksFirst (''`'' @ ap_name p @ ''` can act outside the brain ('' @ join_with '', '' held @ '')'')))"

subsection \<open>Properties\<close>

lemma nonblank_idem [simp]: "nonblank (nonblank x) = nonblank x"
  by (cases x) (simp_all add: nonblank_def opt_nonempty_def)

lemma assignee_errors_none:
  "assignee_errors (Some (Some a)) names by_brain = [] \<longleftrightarrow>
     (case strip_prefix agent_prefix a of
        Some agent \<Rightarrow> \<not> by_brain \<and> (agent = ''auto'' \<or> agent \<in> set names)
      | None \<Rightarrow> a = ''user'')"
  by (auto simp: assignee_errors_def split: option.split)

text \<open>Claim C37. Only the user assigns an agent: a write the brain makes (a queued job, a chat turn, a
  sub-agent) that passes the check leaves no item with a new agent assignee, whatever its body says; and the
  agent a person names is one that can be run.\<close>

theorem only_the_user_assigns_an_agent:
  assumes "validate_item C st (patch_from_json body) names by_brain = Inr ()"
    and "td_assignee (apply_patch now (patch_from_json body) t) = Some (''agent:'' @ agent)"
    and "td_assignee t \<noteq> Some (''agent:'' @ agent)"
  shows "\<not> by_brain \<and> (agent = ''auto'' \<or> agent \<in> set names)"
proof -
  let ?p = "tp_assignee (patch_from_json body)"
  have given: "?p = body_field body ''assignee''" by (simp add: patch_from_json_def Let_def)
  from assms(2,3) have p: "patched ?p (td_assignee t) = Some (''agent:'' @ agent)" by (simp add: apply_patch_def)
  then obtain v where v: "?p = Some v" "nonblank v = Some (''agent:'' @ agent)"
    using assms(3) by (auto simp: patched_def split: option.splits)
  then have "v = Some (''agent:'' @ agent)" by (auto simp: given body_field_def)
  moreover have "assignee_errors ?p names by_brain = []"
    using assms(1) by (auto simp: validate_item_def Let_def split: if_splits)
  ultimately show ?thesis
    using assignee_errors_none[of "''agent:'' @ agent" names by_brain] v(1)
    by (simp add: agent_prefix_def)
qed

definition sample_todo :: todo where
  "sample_todo =
     \<lparr>td_id = ''i1'', td_title = ''Compare batteries'', td_description = None, td_status = ''pending'',
      td_priority = 2, td_tags = [], td_due_at = None, td_created_at = ''x'', td_updated_at = ''x'',
      td_assignee = None, td_origin_kind = None, td_origin_ref = None, td_prompt = None,
      td_session_id = None, td_snoozed_until = None, td_dispatched_at = None, td_dispatch_count = 0,
      td_result_note_id = None, td_model = None, td_review_comment = None, td_approved_dispatch = None,
      td_ask = None, td_source_task = None, td_source = None, td_program = None\<rparr>"

theorem only_the_user_assigns_an_agent_witness:
  "validate_item sample_chrono None (patch_from_json (JObj [(''assignee'', JStr '' agent:scout '')])) [''scout''] False = Inr () \<and>
   td_assignee (apply_patch [] (patch_from_json (JObj [(''assignee'', JStr '' agent:scout '')])) sample_todo) =
     Some ''agent:scout'' \<and> ''scout'' \<in> set [''scout'']"
proof -
  have t: "trim '' agent:scout '' = ''agent:scout''" "trim ''agent:scout'' = ''agent:scout''" by code_simp+
  have v: "validate_item sample_chrono None (patch_from_json (JObj [(''assignee'', JStr '' agent:scout '')])) [''scout''] False = Inr ()"
    by (simp add: validate_item_def patch_from_json_def body_field_def nonblank_def opt_nonempty_def t status_errors_def
        assignee_errors_def agent_prefix_def origin_errors_def snooze_errors_def first_given_def)
  moreover have a: "td_assignee (apply_patch [] (patch_from_json (JObj [(''assignee'', JStr '' agent:scout '')])) sample_todo) =
      Some (''agent:'' @ ''scout'')"
    by (simp add: apply_patch_def patch_from_json_def body_field_def nonblank_def opt_nonempty_def t patched_def)
  ultimately show ?thesis
    using only_the_user_assigns_an_agent[OF v a] by (simp add: sample_todo_def)
qed

end
