(* ===== verification/Item_Runs.thy ===== *)
theory Item_Runs
  imports Items Queue_Chain
begin

text \<open>
  Running the items assigned to agents (\<open>crates/scheduler/src/item_dispatch.rs\<close>, the reads and writes of
  \<open>crates/repository/src/todo.rs\<close>) and the person's side of it (\<open>crates/api/src/items.rs\<close>). A run of an item is
  a task that owns a chain of three steps in the queue; the item counts its runs, and a run that acts outside
  the graph waits for an approval that names its number. Items and their links to tasks live in the graph of
  the queue, whose refusals (\<open>faults\<close>) hit their queries too.
\<close>

subsection \<open>The items in the graph\<close>

record thread_entry =
  te_session :: string
  te_role :: string
  te_text :: string

record item_world =
  iw_queue :: queue
  iw_todos :: "todo list"
  iw_spawned :: "(string \<times> string \<times> int) list" \<comment> \<open>the item, the task, the run\<close>
  iw_entries :: "thread_entry list"

text \<open>What a call reads of its surroundings: the queue's environment, the graph's clock, the local date, the
  loaded roster, and the two services it uses (the note store, the scheduler being up).\<close>

record note_request =
  nr_content :: string
  nr_type :: string
  nr_source :: string

record item_env =
  ie_q :: qenv
  ie_now :: string
  ie_today :: string
  ie_profiles :: "agent_profile list option"
  ie_note_text :: "string \<Rightarrow> string option"
  ie_store_note :: "note_request \<Rightarrow> string + string"
  ie_scheduler :: bool

definition iw_db :: "item_world \<Rightarrow> db" where
  "iw_db w = q_db (iw_queue w)"

definition set_db :: "db \<Rightarrow> item_world \<Rightarrow> item_world" where
  "set_db d w = w\<lparr>iw_queue := (iw_queue w)\<lparr>q_db := d\<rparr>\<rparr>"

definition item_query :: "(item_world \<Rightarrow> 'a \<times> item_world) \<Rightarrow> item_world \<Rightarrow> 'a answer \<times> item_world" where
  "item_query f w =
     (case run_query (\<lambda>d. ((), d)) (iw_db w) of
        (Inl e, d) \<Rightarrow> (Inl e, set_db d w)
      | (Inr _, d) \<Rightarrow> (case f (set_db d w) of (a, w') \<Rightarrow> (Inr a, w')))"

definition item_read :: "(item_world \<Rightarrow> 'a) \<Rightarrow> item_world \<Rightarrow> 'a \<times> item_world" where
  "item_read f w = (f w, w)"

definition set_todos_where :: "(todo \<Rightarrow> bool) \<Rightarrow> (todo \<Rightarrow> todo) \<Rightarrow> item_world \<Rightarrow> nat \<times> item_world" where
  "set_todos_where P f w = (count_where P (iw_todos w), w\<lparr>iw_todos := update_where P f (iw_todos w)\<rparr>)"

definition get_todo :: "string \<Rightarrow> item_world \<Rightarrow> todo option answer \<times> item_world" where
  "get_todo i = item_query (item_read (\<lambda>w. find (\<lambda>t. td_id t = i) (iw_todos w)))"

text \<open>The order of \<open>list_todos\<close>: priority, then the newest first.\<close>

definition list_todos :: "string option \<Rightarrow> item_world \<Rightarrow> todo list answer \<times> item_world" where
  "list_todos st =
     item_query (item_read (\<lambda>w.
       sort_key td_priority (rev (sort_key td_created_at
         (filter (\<lambda>t. st = None \<or> st = Some (td_status t)) (iw_todos w))))))"

definition find_todo_by_origin :: "string \<Rightarrow> string \<Rightarrow> item_world \<Rightarrow> todo option answer \<times> item_world" where
  "find_todo_by_origin kind ref =
     item_query (item_read (\<lambda>w.
       case sort_key td_created_at
              (filter (\<lambda>t. td_origin_kind t = Some kind \<and> td_origin_ref t = Some ref) (iw_todos w)) of
         [] \<Rightarrow> None | t # _ \<Rightarrow> Some t))"

definition patch_todo_item ::
  "item_env \<Rightarrow> string \<Rightarrow> todo_patch \<Rightarrow> item_world \<Rightarrow> todo option answer \<times> item_world" where
  "patch_todo_item E i p w =
     (if patch_is_empty p then get_todo i w
      else (case item_query (set_todos_where (\<lambda>t. td_id t = i) (apply_patch (ie_now E) p)) w of
              (Inl e, w') \<Rightarrow> (Inl e, w')
            | (Inr n, w') \<Rightarrow> if n = 0 then (Inr None, w') else get_todo i w'))"

text \<open>The fields \<open>update_todo\<close> is given; \<open>None\<close> keeps a field.\<close>

record todo_update =
  tu_title :: "string option"
  tu_description :: "string option option"
  tu_status :: "string option"
  tu_priority :: "int option"
  tu_tags :: "string list option"
  tu_due_at :: "string option option"

definition no_update :: todo_update where
  "no_update = \<lparr>tu_title = None, tu_description = None, tu_status = None, tu_priority = None, tu_tags = None,
     tu_due_at = None\<rparr>"

definition given_text :: "string option option \<Rightarrow> string option \<Rightarrow> string option" where
  "given_text new old = opt_nonempty (case new of Some v \<Rightarrow> or_empty v | None \<Rightarrow> or_empty old)"

definition update_todo ::
  "item_env \<Rightarrow> string \<Rightarrow> todo_update \<Rightarrow> item_world \<Rightarrow> todo option answer \<times> item_world" where
  "update_todo E i u w =
     (case get_todo i w of
        (Inl e, w1) \<Rightarrow> (Inl e, w1)
      | (Inr None, w1) \<Rightarrow> (Inr None, w1)
      | (Inr (Some c), w1) \<Rightarrow>
          (case item_query (set_todos_where (\<lambda>t. td_id t = i)
                  (\<lambda>t. t\<lparr>td_title := or_default (td_title c) (tu_title u),
                        td_description := given_text (tu_description u) (td_description c),
                        td_status := or_default (td_status c) (tu_status u),
                        td_priority := or_default (td_priority c) (tu_priority u),
                        td_tags := or_default (td_tags c) (tu_tags u),
                        td_due_at := given_text (tu_due_at u) (td_due_at c), td_updated_at := ie_now E\<rparr>)) w1 of
             (Inl e, w2) \<Rightarrow> (Inl e, w2)
           | (Inr _, w2) \<Rightarrow> get_todo i w2))"

subsection \<open>An item's run\<close>

definition max_runs :: int where
  "max_runs = 3"

definition max_per_poll :: nat where
  "max_per_poll = 3"

definition thread_result_chars :: nat where
  "thread_result_chars = 6000"

datatype outcome =
    Started string string int
  | AwaitingApproval string
  | NotDue
  | NotReady string

definition assigned_agent :: "todo \<Rightarrow> string option" where
  "assigned_agent t = Option.bind (Option.bind (td_assignee t) (strip_prefix agent_prefix)) opt_nonempty"

text \<open>\<open>get(..n)\<close>: the first \<open>n\<close> bytes when they are there and end at a character.\<close>

definition get_prefix :: "nat \<Rightarrow> string \<Rightarrow> string option" where
  "get_prefix n s =
     (if length s = n \<or> (n < length s \<and> \<not> is_continuation (s ! n)) then Some (take n s) else None)"

definition is_due :: "todo \<Rightarrow> string \<Rightarrow> bool" where
  "is_due t today \<longleftrightarrow> (case Option.bind (td_due_at t) (get_prefix 10) of None \<Rightarrow> True | Some d \<Rightarrow> d \<le> today)"

definition run_prompt :: "todo \<Rightarrow> string option \<Rightarrow> string" where
  "run_prompt t previous =
     (let out = (case nonblank (td_prompt t) of
            Some p \<Rightarrow> p
          | None \<Rightarrow> (case nonblank (td_description t) of
                Some d \<Rightarrow> trim (td_title t) @ nl @ nl @ d
              | None \<Rightarrow> trim (td_title t)))
      in case nonblank (td_review_comment t) of
           None \<Rightarrow> out
         | Some comment \<Rightarrow>
             out @
             (case nonblank previous of
                Some prev \<Rightarrow> nl @ nl @ ''--- Your previous answer ---'' @ nl @ prev
              | None \<Rightarrow> []) @
             nl @ nl @ ''--- The user sent it back with this comment ---'' @ nl @ comment @
             nl @ nl @ ''Answer again, taking the comment into account.'')"

definition strip_relay_header :: "string \<Rightarrow> string" where
  "strip_relay_header answer =
     (let a = trim_start answer
      in if starts_with a ''[FINDINGS FROM ''
         then (case split_at_str (CHR '']'' # nl) a of Some (_, rest) \<Rightarrow> trim_start rest | None \<Rightarrow> a)
         else a)"

definition post_to_thread :: "item_env \<Rightarrow> todo \<Rightarrow> string \<Rightarrow> string \<Rightarrow> item_world \<Rightarrow> string \<times> item_world" where
  "post_to_thread E t role text w =
     (let (session, w1) = (case td_session_id t of
            Some s \<Rightarrow> (s, w)
          | None \<Rightarrow>
              let s = ''todo-'' @ td_id t
              in (s, snd (patch_todo_item E (td_id t) (no_patch\<lparr>tp_session_id := Some (Some s)\<rparr>) w)))
      in (session,
          snd (item_query (\<lambda>w. ((), w\<lparr>iw_entries := iw_entries w @
            [\<lparr>te_session = session, te_role = role, te_text = text\<rparr>]\<rparr>)) w1)))"

subsection \<open>Delivering a result\<close>

definition delivered_shown :: "string \<Rightarrow> string \<Rightarrow> string" where
  "delivered_shown note body =
     take_chars thread_result_chars body @
     (if thread_result_chars < char_count body
      then nl @ nl @ ''['' @ ellipsis @ '' the full result is note '' @ note @ '']'' else [])"

definition review_note :: string where
  "review_note = ''The result is waiting for your review: approve it in the Feed, or send it back with a comment.''"

definition deliver ::
  "item_env \<Rightarrow> string \<Rightarrow> string \<Rightarrow> item_world \<Rightarrow> (string + string \<times> string) \<times> item_world" where
  "deliver E i result w =
     (case get_todo i w of
        (Inl e, w1) \<Rightarrow> (Inl (repository_error_display e), w1)
      | (Inr None, w1) \<Rightarrow> (Inl (''No item with id '' @ quoted i), w1)
      | (Inr (Some t), w1) \<Rightarrow>
          if td_status t \<noteq> ''in_progress''
          then (Inl (''item '' @ quoted (td_title t) @ '' is '' @ td_status t @
                  '', not in progress: nothing is waiting for a result''), w1)
          else let body = strip_relay_header result in
          if trim body = [] then (Inl ''the result is empty'', w1)
          else (case ie_store_note E
                  \<lparr>nr_content = ''## '' @ trim (td_title t) @ nl @ nl @ body,
                   nr_type = (if starts_with body ''UNVERIFIED'' then ''unsourced_synthesis'' else ''semantic''),
                   nr_source = ''item:'' @ td_id t\<rparr> of
             Inl e \<Rightarrow> (Inl (''the result could not be stored: '' @ e), w1)
           | Inr note \<Rightarrow>
               (case item_query (set_todos_where (\<lambda>t. td_id t = i \<and> td_status t = ''in_progress'')
                       (\<lambda>t. t\<lparr>td_status := ''awaiting_review'', td_result_note_id := Some note,
                             td_review_comment := None, td_updated_at := ie_now E\<rparr>)) w1 of
                  (Inl e, w2) \<Rightarrow> (Inl (repository_error_display e), w2)
                | (Inr _, w2) \<Rightarrow>
                    (case post_to_thread E t ''assistant'' (delivered_shown note body) w2 of
                       (session, w3) \<Rightarrow>
                         (Inr (note, session), snd (post_to_thread E t ''observation'' review_note w3))))))"

subsection \<open>Starting a run\<close>

definition run_goal :: "todo \<Rightarrow> string" where
  "run_goal t = ''Item: '' @ trim (td_title t)"

definition run_context :: "todo \<Rightarrow> string \<Rightarrow> int \<Rightarrow> string" where
  "run_context t agent run =
     ''Run '' @ show_int run @ '' of item '' @ quoted (trim (td_title t)) @ '' (item: '' @ td_id t @
     '') by agent '' @ agent"

definition agent_args :: "todo \<Rightarrow> string \<Rightarrow> string \<Rightarrow> json_map" where
  "agent_args t agent prompt =
     [(''agent'', JStr agent), (''task'', JStr prompt)] @
     (case td_model t of
        Some m \<Rightarrow> if trim m = [] then [] else [(''model'', JStr m)]
      | None \<Rightarrow> [])"

definition run_steps :: "todo \<Rightarrow> string \<Rightarrow> string \<Rightarrow> string \<Rightarrow> chain_step list" where
  "run_steps t agent prompt task =
     [(new_step ''run_agent'')\<lparr>cs_arguments := Some (JObj (agent_args t agent prompt)),
        cs_priority := Some 2, cs_max_attempts := Some 2, cs_provider_hint := Some ''local'',
        cs_description := Some (''Run '' @ agent @ '' on the item'')\<rparr>,
      (new_step ''manage_todo'')\<lparr>cs_arguments := Some (JObj [(''action'', JStr ''deliver''),
          (''id'', JStr (td_id t)), (''result'', JStr ''{{_prev}}'')]),
        cs_priority := Some 2, cs_max_attempts := Some 3, cs_provider_hint := Some ''local'',
        cs_description := Some ''Store the result and hand it to the user for review''\<rparr>,
      (new_step ''update_task'')\<lparr>cs_arguments := Some (JObj [(''task_id'', JStr task),
          (''status'', JStr ''completed'')]),
        cs_priority := Some 1, cs_max_attempts := Some 3, cs_provider_hint := Some ''local''\<rparr>]"

text \<open>The link of an item to its run's task; it needs both nodes.\<close>

definition link_spawned :: "string \<Rightarrow> string \<Rightarrow> int \<Rightarrow> item_world \<Rightarrow> unit \<times> item_world" where
  "link_spawned todo task run w =
     ((), if list_ex (\<lambda>t. td_id t = todo) (iw_todos w) \<and> list_ex (\<lambda>k. tk_id k = task) (tasks (iw_db w))
          then w\<lparr>iw_spawned := filter (\<lambda>(i, k, _). (i, k) \<noteq> (todo, task)) (iw_spawned w) @ [(todo, task, run)]\<rparr>
          else w)"

definition draw_uid :: "item_env \<Rightarrow> item_world \<Rightarrow> string \<times> item_world" where
  "draw_uid E w =
     (qe_uid (ie_q E) (q_next_uid (iw_queue w)),
      w\<lparr>iw_queue := (iw_queue w)\<lparr>q_next_uid := Suc (q_next_uid (iw_queue w))\<rparr>\<rparr>)"

definition start_item_run ::
  "item_env \<Rightarrow> todo \<Rightarrow> string \<Rightarrow> int \<Rightarrow> string \<Rightarrow> item_world \<Rightarrow> (string + string) \<times> item_world" where
  "start_item_run E t agent run prompt w =
     (let Q = ie_q E; (task, w0) = draw_uid E w
      in case create_run (qe_serde Q) (qe_now Q) task (run_goal t) (Some (run_context t agent run)) None None None
             ''created'' (iw_db w0) of
           (Inl e, d) \<Rightarrow> (Inl (repository_error_display e), set_db d w0)
         | (Inr task, d1) \<Rightarrow>
             let d2 = snd (update_task_status (qe_now Q) task TInProgress d1);
                 w1 = snd (item_query (link_spawned (td_id t) task run) (set_db d2 w0))
             in (case enqueue_chain_owned Q (run_steps t agent prompt task) None (Some task) (iw_queue w1) of
                   (Inl e, q) \<Rightarrow> (Inl e, w1\<lparr>iw_queue := q\<rparr>)
                 | (Inr _, q) \<Rightarrow> (Inr task, w1\<lparr>iw_queue := q\<rparr>)))"

text \<open>The profile an assignment names: none for \<open>auto\<close>, an error when the roster has no such agent.\<close>

definition run_profile :: "item_env \<Rightarrow> string \<Rightarrow> string + agent_profile option" where
  "run_profile E agent =
     (if agent = ''auto'' then Inr None
      else (case ie_profiles E of
              None \<Rightarrow> Inl ''no agent roster is loaded''
            | Some ps \<Rightarrow>
                (case find (\<lambda>p. ap_name p = agent) ps of
                   Some p \<Rightarrow> if ap_spawnable p then Inr (Some p) else Inl (quoted agent @ '' is not a spawnable agent'')
                 | None \<Rightarrow> Inl (quoted agent @ '' is not a spawnable agent''))))"

definition asks_text :: "todo \<Rightarrow> string \<Rightarrow> string \<Rightarrow> int \<Rightarrow> string" where
  "asks_text t agent reason run =
     ''**'' @ agent @ ''** is assigned this and asks before it runs: '' @ reason @
     ''. Approve it in the Feed to start run '' @ show_int run @ ''. It will be told:'' @ nl @ nl @ run_prompt t None"

definition ask_approval ::
  "item_env \<Rightarrow> todo \<Rightarrow> string \<Rightarrow> string \<Rightarrow> int \<Rightarrow> item_world \<Rightarrow> (string + outcome) \<times> item_world" where
  "ask_approval E t agent reason run w =
     (if td_status t = ''pending''
      then (case item_query (set_todos_where (\<lambda>x. td_id x = td_id t \<and> td_status x = ''pending'')
                   (\<lambda>x. x\<lparr>td_status := ''awaiting_approval'', td_updated_at := ie_now E\<rparr>)) w of
              (Inl e, w1) \<Rightarrow> (Inl (repository_error_display e), w1)
            | (Inr _, w1) \<Rightarrow>
                (Inr (AwaitingApproval reason),
                 snd (post_to_thread E t ''observation'' (asks_text t agent reason run) w1)))
      else (Inr (AwaitingApproval reason), w))"

definition claim_run :: "item_env \<Rightarrow> todo \<Rightarrow> item_world \<Rightarrow> nat answer \<times> item_world" where
  "claim_run E t =
     item_query (set_todos_where
       (\<lambda>x. td_id x = td_id t \<and> td_status x \<in> {''pending'', ''awaiting_approval''} \<and>
            td_dispatch_count x = td_dispatch_count t)
       (\<lambda>x. x\<lparr>td_status := ''in_progress'', td_dispatched_at := Some (ie_now E),
             td_dispatch_count := td_dispatch_count t + 1, td_updated_at := ie_now E\<rparr>))"

definition release_claim :: "item_env \<Rightarrow> todo \<Rightarrow> item_world \<Rightarrow> nat answer \<times> item_world" where
  "release_claim E t =
     item_query (set_todos_where (\<lambda>x. td_id x = td_id t \<and> td_status x = ''in_progress'')
       (\<lambda>x. x\<lparr>td_status := ''pending'', td_dispatch_count := td_dispatch_count t, td_updated_at := ie_now E\<rparr>))"

definition previous_answer :: "item_env \<Rightarrow> todo \<Rightarrow> item_world \<Rightarrow> string option \<times> item_world" where
  "previous_answer E t w =
     (case td_result_note_id t of
        Some n \<Rightarrow>
          if td_review_comment t = None then (None, w)
          else (case item_query (item_read (\<lambda>_. ie_note_text E n)) w of
                  (Inl e, w1) \<Rightarrow> (None, w1)
                | (Inr c, w1) \<Rightarrow> (c, w1))
      | None \<Rightarrow> (None, w))"

definition started_text :: "string \<Rightarrow> int \<Rightarrow> string \<Rightarrow> string" where
  "started_text agent run task =
     ''Run '' @ show_int run @ '' of '' @ show_int max_runs @ '' started: **'' @ agent @
     ''** is working on it (task '' @ task @ '').''"

text \<open>The run once it may go: claim, prompt, task and chain; a failure gives the claim back.\<close>

definition claim_and_start ::
  "item_env \<Rightarrow> todo \<Rightarrow> string \<Rightarrow> int \<Rightarrow> item_world \<Rightarrow> (string + outcome) \<times> item_world" where
  "claim_and_start E t agent run w =
     (case claim_run E t w of
        (Inl e, w1) \<Rightarrow> (Inl (repository_error_display e), w1)
      | (Inr n, w1) \<Rightarrow>
          if n = 0 then (Inr (NotReady ''another dispatch already started it''), w1)
          else (case previous_answer E t w1 of
            (previous, w2) \<Rightarrow>
              (case start_item_run E t agent run (run_prompt t previous) w2 of
                 (Inr task, w3) \<Rightarrow>
                   (Inr (Started task agent run),
                    snd (post_to_thread E t ''observation'' (started_text agent run task) w3))
               | (Inl e, w3) \<Rightarrow>
                   (Inl (''the run could not be started: '' @ e), snd (release_claim E t w3)))))"

definition not_offered :: "todo \<Rightarrow> bool \<Rightarrow> string \<Rightarrow> outcome option" where
  "not_offered t now today =
     (if td_status t \<notin> {''pending'', ''awaiting_approval''} then Some (NotReady (''it is '' @ td_status t))
      else if max_runs \<le> td_dispatch_count t
      then Some (NotReady (''it has run '' @ show_int (td_dispatch_count t) @ '' times, the most an item may''))
      else if \<not> now \<and> \<not> is_due t today then Some NotDue
      else None)"

definition dispatch_item :: "item_env \<Rightarrow> todo \<Rightarrow> bool \<Rightarrow> item_world \<Rightarrow> (string + outcome) \<times> item_world" where
  "dispatch_item E t now w =
     (case assigned_agent t of
        None \<Rightarrow> (Inr (NotReady ''it is not assigned to an agent''), w)
      | Some agent \<Rightarrow>
          (case not_offered t now (ie_today E) of
             Some out \<Rightarrow> (Inr out, w)
           | None \<Rightarrow>
               (case run_profile E agent of
                  Inl why \<Rightarrow> (Inr (NotReady why), w)
                | Inr profile \<Rightarrow>
                    let run = td_dispatch_count t + 1
                    in (case side_effects_of profile of
                          AsksFirst reason \<Rightarrow>
                            if td_approved_dispatch t = Some run then claim_and_start E t agent run w
                            else ask_approval E t agent reason run w
                        | ReadOnly \<Rightarrow> claim_and_start E t agent run w))))"

subsection \<open>Failed runs\<close>

text \<open>The latest task of an item.\<close>

definition last_task :: "item_world \<Rightarrow> todo \<Rightarrow> task_node option" where
  "last_task w t =
     (case sort_key (\<lambda>k. - tk_created_at k)
             (filter (\<lambda>k. list_ex (\<lambda>(i, task, _). i = td_id t \<and> task = tk_id k) (iw_spawned w)) (tasks (iw_db w))) of
        [] \<Rightarrow> None | k # _ \<Rightarrow> Some k)"

definition failed_runs :: "item_world \<Rightarrow> (string \<times> string option) list" where
  "failed_runs w =
     concat (map (\<lambda>t. case last_task w t of
                   Some k \<Rightarrow> if tk_status k = TFailed then [(td_id t, tk_context k)] else []
                 | None \<Rightarrow> []) (filter (\<lambda>t. td_status t = ''in_progress'') (iw_todos w)))"

definition failure_tag :: string where
  "failure_tag = ''[FAILURE] ''"

text \<open>What follows the last occurrence of a text (\<open>rsplit(p).next()\<close>).\<close>

function after_last :: "string \<Rightarrow> string \<Rightarrow> string" where
  "after_last p s =
     (if p = [] then s
      else (case split_at_str p s of None \<Rightarrow> s | Some (_, rest) \<Rightarrow> after_last p rest))"
  by pat_completeness auto
termination
proof (relation "measure (length \<circ> snd)")
  fix p s ab a rest
  assume "p \<noteq> []" "split_at_str p s = Some ab" "(a, rest) = ab"
  then show "((p, rest), p, s) \<in> measure (length \<circ> snd)"
    using split_at_str_Some[of p s a rest] by (cases p) auto
qed simp

definition failure_reason :: "string option \<Rightarrow> string" where
  "failure_reason ctx =
     (let c = or_empty ctx
      in take_chars 400 (if str_contains c failure_tag then after_last failure_tag c else ''the run was cancelled''))"

record reconciled =
  rc_id :: string
  rc_title :: string
  rc_now :: string
  rc_reason :: string

definition after_failure :: "todo \<Rightarrow> string \<Rightarrow> string \<times> string" where
  "after_failure t reason =
     (let failed = ''Run '' @ show_int (td_dispatch_count t) @ '' failed: '' @ reason @ nl
      in if td_dispatch_count t < max_runs
         then (''pending'', failed @ ''It will be tried again ('' @ show_int (td_dispatch_count t) @ '' of '' @
                 show_int max_runs @ '' runs used).'')
         else (''awaiting_review'', failed @ ''That was the last of '' @ show_int max_runs @
                 '' runs; it waits for you to decide.''))"

definition reconcile_row ::
  "item_env \<Rightarrow> reconciled list \<times> item_world \<Rightarrow> string \<times> string option \<Rightarrow> reconciled list \<times> item_world" where
  "reconcile_row E = (\<lambda>(out, w) (i, ctx).
     (case get_todo i w of
        (Inr (Some t), w1) \<Rightarrow>
          (let reason = failure_reason ctx; (status, note) = after_failure t reason;
               w2 = snd (item_query (set_todos_where (\<lambda>x. td_id x = i \<and> td_status x = ''in_progress'')
                      (\<lambda>x. x\<lparr>td_status := status, td_updated_at := ie_now E\<rparr>)) w1);
               w3 = snd (post_to_thread E t ''observation'' note w2)
           in (out @ [\<lparr>rc_id = i, rc_title = td_title t, rc_now = status, rc_reason = reason\<rparr>], w3))
      | (_, w1) \<Rightarrow> (out, w1)))"

definition reconcile_items :: "item_env \<Rightarrow> item_world \<Rightarrow> reconciled list \<times> item_world" where
  "reconcile_items E w =
     (case item_query (item_read failed_runs) w of
        (Inl _, w1) \<Rightarrow> ([], w1)
      | (Inr rows, w1) \<Rightarrow> foldl (reconcile_row E) ([], w1) rows)"

subsection \<open>A poll\<close>

record poll_report =
  pr_started :: "(string \<times> string \<times> int \<times> string) list" \<comment> \<open>item, agent, run, task\<close>
  pr_asked :: "(string \<times> string) list"
  pr_held :: "(string \<times> string) list"
  pr_not_due :: nat
  pr_reconciled :: "reconciled list"

definition offer_item ::
  "item_env \<Rightarrow> poll_report \<times> item_world \<Rightarrow> todo \<Rightarrow> poll_report \<times> item_world" where
  "offer_item E = (\<lambda>(r, w) t.
     (if max_per_poll \<le> length (pr_started r)
      then (r\<lparr>pr_held := pr_held r @ [(td_id t, ''this poll's limit was reached'')]\<rparr>, w)
      else (case dispatch_item E t False w of
              (Inr (Started task agent run), w1) \<Rightarrow>
                (r\<lparr>pr_started := pr_started r @ [(td_id t, agent, run, task)]\<rparr>, w1)
            | (Inr (AwaitingApproval reason), w1) \<Rightarrow> (r\<lparr>pr_asked := pr_asked r @ [(td_id t, reason)]\<rparr>, w1)
            | (Inr NotDue, w1) \<Rightarrow> (r, w1)
            | (Inr (NotReady why), w1) \<Rightarrow> (r\<lparr>pr_held := pr_held r @ [(td_id t, why)]\<rparr>, w1)
            | (Inl e, w1) \<Rightarrow> (r\<lparr>pr_held := pr_held r @ [(td_id t, e)]\<rparr>, w1))))"

definition waits_for_agent :: "todo \<Rightarrow> bool" where
  "waits_for_agent t \<longleftrightarrow> assigned_agent t \<noteq> None \<and> td_status t = ''pending''"

definition due_items :: "item_env \<Rightarrow> todo list \<Rightarrow> todo list" where
  "due_items E all =
     sort_key td_priority (sort_key td_created_at
       (filter (\<lambda>t. waits_for_agent t \<and> is_due t (ie_today E)) all))"

definition poll_items ::
  "item_env \<Rightarrow> item_world \<Rightarrow> (string \<times> reconciled list + poll_report) \<times> item_world" where
  "poll_items E w =
     (case reconcile_items E w of
        (rec, w1) \<Rightarrow>
          (case list_todos None w1 of
             (Inl e, w2) \<Rightarrow> (Inl (''could not list items: '' @ repository_error_display e, rec), w2)
           | (Inr all, w2) \<Rightarrow>
               (case foldl (offer_item E)
                       (\<lparr>pr_started = [], pr_asked = [], pr_held = [],
                         pr_not_due = count_where (\<lambda>t. waits_for_agent t \<and> \<not> is_due t (ie_today E)) all,
                         pr_reconciled = rec\<rparr>, w2) (due_items E all) of
                  (r, w3) \<Rightarrow> (Inr r, w3))))"

subsection \<open>The person's decisions\<close>

datatype run_answer = AssignedToUser | ItemDone | Ran outcome

datatype api_response =
    BadRequest string
  | ItemNotFound
  | Unavailable string
  | Internal string
  | Answered "todo option" run_answer

definition answer_item :: "string \<Rightarrow> run_answer \<Rightarrow> item_world \<Rightarrow> api_response \<times> item_world" where
  "answer_item i a w =
     (case get_todo i w of
        (Inr x, w1) \<Rightarrow> (Answered x a, w1)
      | (Inl _, w1) \<Rightarrow> (Answered None a, w1))"

definition item_or_404 :: "string \<Rightarrow> item_world \<Rightarrow> (api_response + todo) \<times> item_world" where
  "item_or_404 i w =
     (case get_todo i w of
        (Inr (Some t), w1) \<Rightarrow> (Inr t, w1)
      | (Inr None, w1) \<Rightarrow> (Inl ItemNotFound, w1)
      | (Inl e, w1) \<Rightarrow> (Inl (Internal (repository_error_display e)), w1))"

text \<open>The calls after the change was written: is the scheduler up, and what does the item say now.\<close>

definition fresh_item :: "item_env \<Rightarrow> string \<Rightarrow> item_world \<Rightarrow> (api_response + todo) \<times> item_world" where
  "fresh_item E i w =
     (if \<not> ie_scheduler E then (Inl (Unavailable ''The scheduler (and its job queue) is not running''), w)
      else item_or_404 i w)"

definition item_roster :: "item_env \<Rightarrow> string list" where
  "item_roster E = (case ie_profiles E of Some ps \<Rightarrow> roster ps | None \<Rightarrow> [])"

definition assign_patch :: "string \<Rightarrow> json \<Rightarrow> todo_patch" where
  "assign_patch assignee body =
     (let p = patch_from_json (JObj [(''assignee'', JStr assignee), (''prompt'', json_field body ''prompt''),
                (''model'', json_field body ''model'')]);
          p = (if json_get body ''prompt'' = None then p\<lparr>tp_prompt := None\<rparr> else p)
      in if json_get body ''model'' = None then p\<lparr>tp_model := None\<rparr> else p)"

definition handle_assign :: "item_env \<Rightarrow> string \<Rightarrow> json \<Rightarrow> item_world \<Rightarrow> api_response \<times> item_world" where
  "handle_assign E i body w =
     (case item_or_404 i w of
        (Inl r, w1) \<Rightarrow> (r, w1)
      | (Inr t, w1) \<Rightarrow>
          if td_status t \<in> {''in_progress'', ''done''}
          then (BadRequest (''The item is '' @ td_status t @ ''; it can't be reassigned now''), w1)
          else (case nonblank (Option.bind (json_get body ''assignee'') as_str) of
            None \<Rightarrow> (BadRequest ''assignee is required ('user' or 'agent:<name>')'', w1)
          | Some assignee \<Rightarrow>
              let p = assign_patch assignee body
              in (case validate_item (qe_chrono (ie_q E)) None p (item_roster E) False of
                    Inl e \<Rightarrow> (BadRequest (''Not assigned: '' @ e), w1)
                  | Inr _ \<Rightarrow>
                      (case patch_todo_item E i p w1 of
                         (Inl e, w2) \<Rightarrow> (Internal (repository_error_display e), w2)
                       | (Inr _, w2) \<Rightarrow>
                           let w3 = snd (item_query (set_todos_where (\<lambda>x. td_id x = i)
                                 (\<lambda>x. x\<lparr>td_status := ''pending'', td_approved_dispatch := None,
                                       td_updated_at := ie_now E\<rparr>)) w2)
                           in if \<not> starts_with assignee agent_prefix then answer_item i AssignedToUser w3
                              else (case fresh_item E i w3 of
                                      (Inl r, w4) \<Rightarrow> (r, w4)
                                    | (Inr fresh, w4) \<Rightarrow>
                                        (case dispatch_item E fresh False
                                                (snd (post_to_thread E fresh ''observation''
                                                  (''You handed this to **'' @ drop 6 assignee @ ''**.'') w4)) of
                                           (Inl e, w5) \<Rightarrow> (Internal e, w5)
                                         | (Inr out, w5) \<Rightarrow> answer_item i (Ran out) w5))))))"

definition handle_approve :: "item_env \<Rightarrow> string \<Rightarrow> item_world \<Rightarrow> api_response \<times> item_world" where
  "handle_approve E i w =
     (case item_or_404 i w of
        (Inl r, w1) \<Rightarrow> (r, w1)
      | (Inr t, w1) \<Rightarrow>
          if td_status t = ''awaiting_approval''
          then let run = td_dispatch_count t + 1
               in (case item_query (set_todos_where (\<lambda>x. td_id x = i \<and> td_status x = ''awaiting_approval'')
                           (\<lambda>x. x\<lparr>td_approved_dispatch := Some run\<rparr>)) w1 of
                     (Inl e, w2) \<Rightarrow> (Internal (repository_error_display e), w2)
                   | (Inr _, w2) \<Rightarrow>
                       (case fresh_item E i w2 of
                          (Inl r, w3) \<Rightarrow> (r, w3)
                        | (Inr fresh, w3) \<Rightarrow>
                            (case dispatch_item E fresh True
                                    (snd (post_to_thread E fresh ''observation''
                                      (''You approved run '' @ show_int run @ ''.'') w3)) of
                               (Inl e, w4) \<Rightarrow> (Internal e, w4)
                             | (Inr out, w4) \<Rightarrow> answer_item i (Ran out) w4)))
          else if td_status t = ''awaiting_review''
          then (case update_todo E i (no_update\<lparr>tu_status := Some ''done''\<rparr>) w1 of
                  (Inl e, w2) \<Rightarrow> (Internal (repository_error_display e), w2)
                | (Inr _, w2) \<Rightarrow>
                    answer_item i ItemDone
                      (snd (post_to_thread E t ''observation'' ''You approved the result; the item is done.'' w2)))
          else (BadRequest (''The item is '' @ td_status t @ ''; there is nothing to approve''), w1))"

definition handle_send_back :: "item_env \<Rightarrow> string \<Rightarrow> json \<Rightarrow> item_world \<Rightarrow> api_response \<times> item_world" where
  "handle_send_back E i body w =
     (case item_or_404 i w of
        (Inl r, w1) \<Rightarrow> (r, w1)
      | (Inr t, w1) \<Rightarrow>
          if td_status t \<noteq> ''awaiting_review''
          then (BadRequest (''The item is '' @ td_status t @ ''; only a result awaiting review can be sent back''), w1)
          else if assigned_agent t = None
          then (BadRequest ''The item is not assigned to an agent; hand it to one instead'', w1)
          else if max_runs \<le> td_dispatch_count t
          then (BadRequest (''It has run '' @ show_int (td_dispatch_count t) @
                  '' times, the most an item may. Approve it, edit it, or make it a schedule.''), w1)
          else (case nonblank (Option.bind (json_get body ''comment'') as_str) of
            None \<Rightarrow> (BadRequest ''A comment is required: say what to change'', w1)
          | Some comment \<Rightarrow>
              (case item_query (set_todos_where (\<lambda>x. td_id x = i \<and> td_status x = ''awaiting_review'')
                      (\<lambda>x. x\<lparr>td_status := ''pending'', td_review_comment := Some comment,
                            td_approved_dispatch := Some (td_dispatch_count x + 1), td_updated_at := ie_now E\<rparr>)) w1 of
                 (Inl e, w2) \<Rightarrow> (Internal (repository_error_display e), w2)
               | (Inr _, w2) \<Rightarrow>
                   (case fresh_item E i (snd (post_to_thread E t ''user'' (''Sent back: '' @ comment) w2)) of
                      (Inl r, w3) \<Rightarrow> (r, w3)
                    | (Inr fresh, w3) \<Rightarrow>
                        (case dispatch_item E fresh True w3 of
                           (Inl e, w4) \<Rightarrow> (Internal e, w4)
                         | (Inr out, w4) \<Rightarrow>
                             answer_item i (Ran out)
                               (case out of
                                  NotReady _ \<Rightarrow>
                                    snd (item_query (set_todos_where (\<lambda>x. td_id x = i \<and> td_status x = ''pending'')
                                      (\<lambda>x. x\<lparr>td_status := ''awaiting_review''\<rparr>)) w4)
                                | _ \<Rightarrow> w4))))))"

subsection \<open>What leaves the counts alone\<close>

lemma iw_db_set_db [simp]: "iw_db (set_db d w) = d" "iw_todos (set_db d w) = iw_todos w"
  "iw_spawned (set_db d w) = iw_spawned w" "set_db (iw_db w) w = w"
  "q_next_uid (iw_queue (set_db d w)) = q_next_uid (iw_queue w)"
  by (simp_all add: iw_db_def set_db_def)

lemma set_db_same [simp]: "d = iw_db w \<Longrightarrow> set_db d w = w"
  by simp

definition item_counts :: "item_world \<Rightarrow> (string \<times> int) list" where
  "item_counts w = map (\<lambda>t. (td_id t, td_dispatch_count t)) (iw_todos w)"

definition quiet :: "item_world \<Rightarrow> item_world \<Rightarrow> bool" where
  "quiet w w' \<longleftrightarrow> item_counts w' = item_counts w \<and> (faults (iw_db w) = [] \<longrightarrow> faults (iw_db w') = [])"

named_theorems quiet_intros \<open>operations that change no run count and refuse no later query\<close>

lemma quiet_refl [quiet_intros, simp]: "quiet w w"
  by (simp add: quiet_def)

lemma quiet_trans: "quiet a b \<Longrightarrow> quiet b c \<Longrightarrow> quiet a c"
  by (simp add: quiet_def)

lemma item_query_cases:
  obtains (refused) e where "item_query f w = (Inl (Neo4jError e), set_db (used_fault (iw_db w)) w)"
      "next_fault (iw_db w) = Some e"
  | (answered) "item_query f w =
      (Inr (fst (f (set_db (used_fault (iw_db w)) w))), snd (f (set_db (used_fault (iw_db w)) w)))"
      "next_fault (iw_db w) = None"
  by (cases "\<lambda>d::db. ((), d)" "iw_db w" rule: run_query_cases) (auto simp: item_query_def split_beta)

lemma item_query_ok [simp]:
  "faults (iw_db w) = [] \<Longrightarrow> item_query f w = (Inr (fst (f w)), snd (f w))"
  by (simp add: item_query_def split_beta)

lemma quiet_item_query:
  assumes "\<And>w. quiet w (snd (f w))"
  shows "quiet w (snd (item_query f w))"
proof -
  have used: "quiet w (set_db (used_fault (iw_db w)) w)" by (simp add: quiet_def item_counts_def)
  then show ?thesis
    using quiet_trans[OF used assms] by (cases f w rule: item_query_cases) simp_all
qed

lemma quiet_item_read [quiet_intros]: "quiet w (snd (item_query (item_read f) w))"
  by (rule quiet_item_query) (simp add: item_read_def)

lemma quiet_set_todos [quiet_intros]:
  assumes "\<And>t. td_id (f t) = td_id t" "\<And>t. P t \<Longrightarrow> td_dispatch_count (f t) = td_dispatch_count t"
  shows "quiet w (snd (item_query (set_todos_where P f) w))"
proof (rule quiet_item_query)
  fix w show "quiet w (snd (set_todos_where P f w))"
    using assms by (auto simp: quiet_def set_todos_where_def item_counts_def update_where_def iw_db_def)
qed

lemma quiet_get_todo [quiet_intros]: "quiet w (snd (get_todo i w))"
  unfolding get_todo_def by (rule quiet_item_read)

lemma quiet_list_todos [quiet_intros]: "quiet w (snd (list_todos st w))"
  unfolding list_todos_def by (rule quiet_item_read)

lemma quiet_patch [quiet_intros]: "quiet w (snd (patch_todo_item E i p w))"
proof -
  have "quiet w (snd (item_query (set_todos_where (\<lambda>t. td_id t = i) (apply_patch (ie_now E) p)) w))"
    by (rule quiet_set_todos) (simp_all add: apply_patch_def)
  then show ?thesis
    by (auto simp: patch_todo_item_def split: sum.splits prod.splits intro: quiet_get_todo quiet_trans)
qed

lemma quiet_bind:
  assumes "quiet w (snd f)" and "\<And>r w1. quiet w1 (snd (g r w1))"
  shows "quiet w (snd (case f of (r, w1) \<Rightarrow> g r w1))"
  using assms by (cases f) (auto intro: quiet_trans)

lemma quiet_sum:
  assumes "\<And>e. s = Inl e \<Longrightarrow> quiet w (snd (f e))" and "\<And>r. s = Inr r \<Longrightarrow> quiet w (snd (g r))"
  shows "quiet w (snd (case s of Inl e \<Rightarrow> f e | Inr r \<Rightarrow> g r))"
  using assms by (cases s) simp_all

lemma quiet_option:
  assumes "quiet w (snd a)" and "\<And>x. o' = Some x \<Longrightarrow> quiet w (snd (g x))"
  shows "quiet w (snd (case o' of None \<Rightarrow> a | Some x \<Rightarrow> g x))"
  using assms by (cases o') simp_all

lemma quiet_if: "quiet w (snd a) \<Longrightarrow> quiet w (snd b) \<Longrightarrow> quiet w (snd (if c then a else b))"
  by simp

lemma quiet_pair: "quiet w w' \<Longrightarrow> quiet w (snd (a, w'))"
  by simp

lemmas quiet_rules = quiet_bind quiet_sum quiet_option quiet_if quiet_pair quiet_refl

lemma quiet_update [quiet_intros]: "quiet w (snd (update_todo E i u w))"
  unfolding update_todo_def
  by (intro quiet_rules quiet_get_todo quiet_set_todos) simp_all

lemma quiet_post [quiet_intros]: "quiet w (snd (post_to_thread E t role text w))"
proof -
  have say: "quiet w (snd (item_query (\<lambda>w. ((), w\<lparr>iw_entries := iw_entries w @ es\<rparr>)) w))" for es w
    by (rule quiet_item_query) (simp add: quiet_def item_counts_def iw_db_def)
  show ?thesis
    unfolding post_to_thread_def Let_def
    by (auto split: option.split intro: say quiet_trans[OF quiet_patch say])
qed

lemma quiet_deliver [quiet_intros]: "quiet w (snd (deliver E i result w))"
  unfolding deliver_def Let_def
  by (intro quiet_rules quiet_get_todo quiet_set_todos quiet_post) simp_all

lemma quiet_reconcile_row: "quiet w (snd (reconcile_row E (out, w) row))"
proof -
  have "quiet w1 (snd (post_to_thread E t role msg (snd (item_query (set_todos_where P (\<lambda>x. x\<lparr>td_status := st,
      td_updated_at := ie_now E\<rparr>)) w1))))" for w1 t role msg P st
    by (rule quiet_trans[OF quiet_set_todos quiet_post]) simp_all
  note set_and_post = this
  obtain i ctx where row: "row = (i, ctx)" by (cases row)
  obtain r w1 where g: "get_todo i w = (r, w1)" by (cases "get_todo i w")
  have w1: "quiet w w1" using quiet_get_todo[of w i] by (simp add: g)
  show ?thesis
  proof (cases "\<exists>t. r = Inr (Some t)")
    case True
    then obtain t where "r = Inr (Some t)" by blast
    then show ?thesis
      using quiet_trans[OF w1 set_and_post] by (simp add: reconcile_row_def row g split_beta Let_def)
  next
    case False
    with w1 show ?thesis by (auto simp: reconcile_row_def row g split: sum.split option.split)
  qed
qed

lemma quiet_reconcile [quiet_intros]: "quiet w (snd (reconcile_items E w))"
proof -
  have "quiet w1 (snd (foldl (reconcile_row E) (out, w1) rows))" for out rows w1
  proof (induction rows arbitrary: out w1)
    case (Cons r rows)
    then show ?case
      using quiet_trans[OF quiet_reconcile_row[of w1 E out r]] by (metis foldl_Cons prod.collapse)
  qed simp
  then show ?thesis
    unfolding reconcile_items_def by (intro quiet_rules quiet_item_read)
qed

lemma quiet_item_or_404: "quiet w (snd (item_or_404 i w))"
  unfolding item_or_404_def by (intro quiet_rules quiet_get_todo)

lemma quiet_fresh [quiet_intros]: "quiet w (snd (fresh_item E i w))"
  unfolding fresh_item_def by (intro quiet_rules quiet_item_or_404)

lemma quiet_answer [quiet_intros]: "quiet w (snd (answer_item i a w))"
  unfolding answer_item_def by (intro quiet_rules quiet_get_todo)

subsection \<open>Runs are counted\<close>

definition runs_used :: "item_world \<Rightarrow> string \<Rightarrow> int" where
  "runs_used w i = or_default 0 (map_of (item_counts w) i)"

definition ready :: "item_world \<Rightarrow> bool" where
  "ready w \<longleftrightarrow> faults (iw_db w) = [] \<and> distinct (map td_id (iw_todos w))"

text \<open>The runs started on the way, each under a number its item had not reached.\<close>

definition progress :: "item_world \<Rightarrow> (string \<times> int) list \<Rightarrow> item_world \<Rightarrow> bool" where
  "progress w S w' \<longleftrightarrow>
     (ready w \<longrightarrow> ready w' \<and> (\<forall>i. runs_used w i \<le> runs_used w' i) \<and> distinct S \<and>
        (\<forall>(i, r) \<in> set S. runs_used w i < r \<and> r \<le> runs_used w' i \<and> r \<le> max_runs))"

lemma ids_of_counts: "map td_id (iw_todos w) = map fst (item_counts w)"
  by (simp add: item_counts_def)

lemma quiet_progress: "quiet w w' \<Longrightarrow> progress w [] w'"
  by (auto simp: quiet_def progress_def ready_def runs_used_def ids_of_counts)

lemma progress_trans: "progress a S b \<Longrightarrow> progress b T c \<Longrightarrow> progress a (S @ T) c"
proof -
  assume ab: "progress a S b" and bc: "progress b T c"
  show ?thesis unfolding progress_def
  proof (intro impI conjI)
    assume "ready a"
    with ab have b: "ready b" "\<And>i. runs_used a i \<le> runs_used b i" "distinct S"
      "\<And>i r. (i, r) \<in> set S \<Longrightarrow> runs_used a i < r \<and> r \<le> runs_used b i \<and> r \<le> max_runs"
      by (auto simp: progress_def)
    with bc have c: "ready c" "\<And>i. runs_used b i \<le> runs_used c i" "distinct T"
      "\<And>i r. (i, r) \<in> set T \<Longrightarrow> runs_used b i < r \<and> r \<le> runs_used c i \<and> r \<le> max_runs"
      by (auto simp: progress_def)
    show "ready c" by (rule c(1))
    show "\<forall>i. runs_used a i \<le> runs_used c i" using b(2) c(2) by (meson order_trans)
    show "distinct (S @ T)" using b(3,4) c(3,4) by (auto simp: disjoint_iff) (metis not_le surj_pair)
    show "\<forall>(i, r) \<in> set (S @ T). runs_used a i < r \<and> r \<le> runs_used c i \<and> r \<le> max_runs"
      using b(2,4) c(2,4) by (auto) (meson order_trans order_le_less_trans)+
  qed
qed

lemma progress_quiet: "progress a S b \<Longrightarrow> quiet b c \<Longrightarrow> progress a S c"
  using progress_trans[of a S b "[]" c] quiet_progress by simp

lemma quiet_then_progress: "quiet a b \<Longrightarrow> progress b S c \<Longrightarrow> progress a S c"
  using progress_trans[of a "[]" b S c] quiet_progress by simp

lemma map_of_update_elsewhere:
  assumes "\<And>x. P x \<Longrightarrow> td_id x \<noteq> j" "\<And>x. td_id (f x) = td_id x"
  shows "map_of (map (\<lambda>t. (td_id t, td_dispatch_count t)) (update_where P f ts)) j =
    map_of (map (\<lambda>t. (td_id t, td_dispatch_count t)) ts) j"
  using assms by (induction ts) auto

lemma runs_used_member:
  assumes "distinct (map td_id (iw_todos w))" and "x \<in> set (iw_todos w)"
  shows "runs_used w (td_id x) = td_dispatch_count x"
proof -
  have "distinct (map fst (item_counts w))" using assms(1) by (simp add: ids_of_counts)
  moreover have "(td_id x, td_dispatch_count x) \<in> set (item_counts w)" using assms(2) by (auto simp: item_counts_def)
  ultimately show ?thesis by (simp add: runs_used_def or_default_def)
qed

lemma claim_counts:
  assumes "ready w" and "claim_run E t w = (Inr n, w')" and "n \<noteq> 0"
  shows "progress w [(td_id t, td_dispatch_count t + 1)] w' \<or> max_runs \<le> td_dispatch_count t"
    and "ready w'"
proof -
  let ?P = "\<lambda>x. td_id x = td_id t \<and> td_status x \<in> {''pending'', ''awaiting_approval''} \<and>
            td_dispatch_count x = td_dispatch_count t"
  let ?f = "\<lambda>x. x\<lparr>td_status := ''in_progress'', td_dispatched_at := Some (ie_now E),
             td_dispatch_count := td_dispatch_count t + 1, td_updated_at := ie_now E\<rparr>"
  from assms(1) have f: "faults (iw_db w) = []" "distinct (map td_id (iw_todos w))" by (simp_all add: ready_def)
  have w': "w' = w\<lparr>iw_todos := update_where ?P ?f (iw_todos w)\<rparr>" "n = count_where ?P (iw_todos w)"
    using assms(2) f(1) by (auto simp: claim_run_def set_todos_where_def)
  then obtain x where x: "x \<in> set (iw_todos w)" "?P x" using assms(3) count_where_pos[of ?P "iw_todos w"] by auto
  have ids: "map td_id (iw_todos w') = map td_id (iw_todos w)"
    by (simp add: w' map_update_where)
  show r: "ready w'" using f by (simp add: ready_def ids) (simp add: w' iw_db_def)
  have "?f x \<in> set (update_where ?P ?f (iw_todos w))" using x by (rule in_update_where_hit)
  then have "?f x \<in> set (iw_todos w')" by (simp add: w')
  then have after: "runs_used w' (td_id t) = td_dispatch_count t + 1"
    using runs_used_member[of w' "?f x"] x(2) f(2) by (simp add: ids)
  have before: "runs_used w (td_id t) = td_dispatch_count t"
    using runs_used_member[OF f(2) x(1)] x(2) by simp
  have other: "runs_used w' i = runs_used w i" if "i \<noteq> td_id t" for i
    unfolding runs_used_def item_counts_def w'
    using map_of_update_elsewhere[of ?P i ?f "iw_todos w"] that by simp
  have "runs_used w i \<le> runs_used w' i" for i
    using after before other[of i] by (cases "i = td_id t") auto
  then show "progress w [(td_id t, td_dispatch_count t + 1)] w' \<or> max_runs \<le> td_dispatch_count t"
    using r after before by (auto simp: progress_def)
qed

definition agent_runs_queued :: "item_world \<Rightarrow> nat" where
  "agent_runs_queued w = count_where (\<lambda>n. nd_tool_name n = ''run_agent'' \<and> nd_status n = Queued) (jobs (iw_db w))"

lemma count_where_append [simp]: "count_where P (xs @ ys) = count_where P xs + count_where P ys"
  by (simp add: count_where_def)

lemma count_where_Cons [simp]: "count_where P (x # xs) = (if P x then Suc (count_where P xs) else count_where P xs)"
  by (simp add: count_where_def)

lemma count_where_Nil [simp]: "count_where P [] = 0"
  by (simp add: count_where_def)

lemma start_item_run_ok:
  assumes "faults (iw_db w) = []"
  obtains task w' where "start_item_run E t agent run prompt w = (Inr task, w')" "quiet w w'"
    "agent_runs_queued w' = Suc (agent_runs_queued w)"
proof -
  let ?Q = "ie_q E"
  obtain task w0 where u: "draw_uid E w = (task, w0)" by (cases "draw_uid E w")
  then have w0: "quiet w w0" "iw_db w0 = iw_db w"
    by (auto simp: draw_uid_def quiet_def item_counts_def iw_db_def)
  define d1 where "d1 = snd (create_run (qe_serde ?Q) (qe_now ?Q) task (run_goal t) (Some (run_context t agent run))
    None None None ''created'' (iw_db w0))"
  have c: "create_run (qe_serde ?Q) (qe_now ?Q) task (run_goal t) (Some (run_context t agent run))
    None None None ''created'' (iw_db w0) = (Inr task, d1)"
    using assms w0 by (simp add: d1_def create_run_def Let_def)
  have d1: "faults d1 = []" using assms w0 by (simp add: d1_def)
  define d2 where "d2 = snd (update_task_status (qe_now ?Q) task TInProgress d1)"
  have d2: "faults d2 = []" using d1 by (simp add: d2_def)
  define w1 where "w1 = snd (item_query (link_spawned (td_id t) task run) (set_db d2 w0))"
  have "jobs d2 = jobs (iw_db w)" using w0 by (simp add: d2_def d1_def)
  with d2 have w1: "faults (iw_db w1) = []" "item_counts w1 = item_counts w0" "jobs (iw_db w1) = jobs (iw_db w)"
    by (auto simp: w1_def link_spawned_def iw_db_def item_counts_def set_db_def)
  have f1: "faults (q_db (iw_queue w1)) = []" using w1(1) by (simp add: iw_db_def)
  have ne: "run_steps t agent prompt task \<noteq> []" by (simp add: run_steps_def)
  obtain catalog ns where ns: "ns = step_nodes ?Q None (Some task) catalog (run_steps t agent prompt task) None []
      (q_next_uid (iw_queue w1))"
    and q: "enqueue_chain_owned ?Q (run_steps t agent prompt task) None (Some task) (iw_queue w1) =
       (Inr (map nd_id ns),
        notify_one (push_jobs [node_to_agent_job (qe_chrono ?Q) (qe_serde ?Q) (hd ns)]
          ((iw_queue w1)\<lparr>q_db := (q_db (iw_queue w1))\<lparr>jobs := jobs (q_db (iw_queue w1)) @ ns\<rparr>,
             q_next_uid := q_next_uid (iw_queue w1) + length (run_steps t agent prompt task)\<rparr>)))"
    by (rule enqueue_ok[OF f1 ne, where E = ?Q and session = None and owner = "Some task"])
  define w2 where "w2 = w1\<lparr>iw_queue := snd (enqueue_chain_owned ?Q (run_steps t agent prompt task) None (Some task)
      (iw_queue w1))\<rparr>"
  have "start_item_run E t agent run prompt w = (Inr task, w2)"
    unfolding start_item_run_def Let_def u prod.case c sum.case d2_def[symmetric] w1_def[symmetric] w2_def
    by (simp add: q)
  moreover have "quiet w w2"
    using w0 w1 by (simp add: quiet_def w2_def q item_counts_def iw_db_def)
  moreover have "agent_runs_queued w2 = Suc (agent_runs_queued w)"
  proof -
    have "jobs (iw_db w2) = jobs (iw_db w) @ ns" using w1(3) by (simp add: w2_def iw_db_def q)
    moreover have "count_where (\<lambda>n. nd_tool_name n = ''run_agent'' \<and> nd_status n = Queued) ns = 1"
      by (simp add: ns run_steps_def new_step_def step_spec_def)
    ultimately show ?thesis by (simp add: agent_runs_queued_def)
  qed
  ultimately show thesis by (rule that)
qed

subsection \<open>Everything that happens to items\<close>

definition outcome_starts :: "string \<Rightarrow> string + outcome \<Rightarrow> (string \<times> int) list" where
  "outcome_starts i r = (case r of Inr (Started task agent run) \<Rightarrow> [(i, run)] | _ \<Rightarrow> [])"

lemma outcome_starts_simps [simp]:
  "outcome_starts i (Inl e) = []" "outcome_starts i (Inr (Started task agent run)) = [(i, run)]"
  "outcome_starts i (Inr (AwaitingApproval why)) = []" "outcome_starts i (Inr NotDue) = []"
  "outcome_starts i (Inr (NotReady why)) = []"
  by (simp_all add: outcome_starts_def)

lemma quiet_previous: "quiet w (snd (previous_answer E t w))"
  unfolding previous_answer_def by (intro quiet_rules quiet_item_read)

lemma quiet_ask: "quiet w (snd (ask_approval E t agent reason run w))"
  unfolding ask_approval_def by (intro quiet_rules quiet_set_todos quiet_post) simp_all

lemma not_offered_None: "not_offered t now today = None \<Longrightarrow> td_dispatch_count t < max_runs"
  by (auto simp: not_offered_def split: if_splits)

lemma progress_unready: "\<not> ready w \<Longrightarrow> progress w S w'"
  by (simp add: progress_def)

lemma claim_progress:
  assumes "td_dispatch_count t < max_runs" and "run = td_dispatch_count t + 1"
  shows "progress w (outcome_starts (td_id t) (fst (claim_and_start E t agent run w)))
    (snd (claim_and_start E t agent run w))"
proof (cases "ready w")
  case True
  then have f: "faults (iw_db w) = []" by (simp add: ready_def)
  obtain n w1 where c: "claim_run E t w = (Inr n, w1)" using f by (simp add: claim_run_def)
  show ?thesis
  proof (cases "n = 0")
    case True
    then have "w1 = w"
      using c f by (auto simp: claim_run_def set_todos_where_def update_where_none)
    then show ?thesis by (simp add: claim_and_start_def c True quiet_progress)
  next
    case False
    note claimed = claim_counts[OF \<open>ready w\<close> c False]
    obtain previous w2 where p: "previous_answer E t w1 = (previous, w2)" by (cases "previous_answer E t w1")
    have q: "quiet w1 w2" using quiet_previous[of w1 E t] by (simp add: p)
    then have "faults (iw_db w2) = []" using claimed(2) by (simp add: quiet_def ready_def)
    then obtain task w3 where st: "start_item_run E t agent run (run_prompt t previous) w2 = (Inr task, w3)" "quiet w2 w3"
      by (rule start_item_run_ok)
    have "progress w [(td_id t, run)] w1" using claimed(1) assms by auto
    then show ?thesis
      using progress_quiet[OF _ quiet_trans[OF quiet_trans[OF q st(2)] quiet_post]]
      by (simp add: claim_and_start_def c False p st(1))
  qed
qed (rule progress_unready)

lemma dispatch_progress:
  "progress w (outcome_starts (td_id t) (fst (dispatch_item E t now w))) (snd (dispatch_item E t now w))"
proof -
  consider (waits) r where "dispatch_item E t now w = (Inr r, w)" "outcome_starts (td_id t) (Inr r) = []"
    | (asks) agent reason run where "dispatch_item E t now w = ask_approval E t agent reason run w"
    | (runs) agent where "dispatch_item E t now w = claim_and_start E t agent (td_dispatch_count t + 1) w"
        "td_dispatch_count t < max_runs"
  proof (cases "assigned_agent t")
    case None
    then show thesis using waits by (simp add: dispatch_item_def)
  next
    case (Some agent)
    note a = this
    show thesis
    proof (cases "not_offered t now (ie_today E)")
      case (Some out)
      moreover have "outcome_starts (td_id t) (Inr out) = []"
        using Some by (auto simp: not_offered_def split: if_splits)
      ultimately show thesis using waits a by (simp add: dispatch_item_def)
    next
      case None
      show thesis
        by (cases "run_profile E agent"; cases "side_effects_of (projr (run_profile E agent))";
            cases "td_approved_dispatch t = Some (td_dispatch_count t + 1)")
          (use None a waits asks runs not_offered_None[OF None] in \<open>simp_all add: dispatch_item_def Let_def\<close>)
    qed
  qed
  then show ?thesis
  proof cases
    case waits
    then show ?thesis by (simp add: quiet_progress)
  next
    case asks
    have "outcome_starts (td_id t) (fst (ask_approval E t agent reason run w)) = []"
      by (auto simp: ask_approval_def split: sum.split prod.split)
    then show ?thesis using quiet_ask by (simp add: asks quiet_progress)
  next
    case runs
    then show ?thesis using claim_progress[OF runs(2) refl] by simp
  qed
qed

definition started_of :: "poll_report \<Rightarrow> (string \<times> int) list" where
  "started_of r = map (\<lambda>(i, agent, run, task). (i, run)) (pr_started r)"

lemma offer_progress:
  "\<exists>S. started_of (fst (offer_item E (r, w) t)) = started_of r @ S \<and> progress w S (snd (offer_item E (r, w) t))"
proof (cases "max_per_poll \<le> length (pr_started r)")
  case True
  then show ?thesis by (simp add: offer_item_def started_of_def quiet_progress)
next
  case False
  obtain o' w1 where d: "dispatch_item E t False w = (o', w1)" by (cases "dispatch_item E t False w")
  have p: "progress w (outcome_starts (td_id t) o') w1" using dispatch_progress[of w t E False] by (simp add: d)
  show ?thesis
    by (rule exI[of _ "outcome_starts (td_id t) o'"])
      (use False p in \<open>auto simp: offer_item_def d started_of_def split: sum.split outcome.split\<close>)
qed

lemma offers_progress:
  "\<exists>S. started_of (fst (foldl (offer_item E) (r, w) ts)) = started_of r @ S \<and>
       progress w S (snd (foldl (offer_item E) (r, w) ts))"
proof (induction ts arbitrary: r w)
  case Nil
  then show ?case by (simp add: quiet_progress)
next
  case (Cons t ts)
  obtain r1 w1 where o1: "offer_item E (r, w) t = (r1, w1)" by (cases "offer_item E (r, w) t")
  obtain S where S: "started_of r1 = started_of r @ S" "progress w S w1" using offer_progress[of E r w t] by (auto simp: o1)
  obtain T where T: "started_of (fst (foldl (offer_item E) (r1, w1) ts)) = started_of r1 @ T"
    "progress w1 T (snd (foldl (offer_item E) (r1, w1) ts))" using Cons.IH by blast
  show ?case
    by (rule exI[of _ "S @ T"]) (use S T progress_trans[OF S(2) T(2)] in \<open>simp add: o1\<close>)
qed

definition poll_starts :: "string \<times> reconciled list + poll_report \<Rightarrow> (string \<times> int) list" where
  "poll_starts r = (case r of Inl _ \<Rightarrow> [] | Inr rep \<Rightarrow> started_of rep)"

lemma poll_progress: "progress w (poll_starts (fst (poll_items E w))) (snd (poll_items E w))"
proof -
  obtain rec w1 where a: "reconcile_items E w = (rec, w1)" by (cases "reconcile_items E w")
  obtain l w2 where b: "list_todos None w1 = (l, w2)" by (cases "list_todos None w1")
  have q: "quiet w w2"
    using quiet_trans[of w w1 w2] quiet_reconcile[of w E] quiet_list_todos[of w1 None] by (simp add: a b)
  show ?thesis
  proof (cases l)
    case (Inl e)
    then show ?thesis using q by (simp add: poll_items_def a b poll_starts_def quiet_progress)
  next
    case (Inr ts)
    define r where "r = \<lparr>pr_started = [], pr_asked = [], pr_held = [],
      pr_not_due = count_where (\<lambda>t. waits_for_agent t \<and> \<not> is_due t (ie_today E)) ts, pr_reconciled = rec\<rparr>"
    obtain S where "started_of (fst (foldl (offer_item E) (r, w2) (due_items E ts))) = started_of r @ S"
      "progress w2 S (snd (foldl (offer_item E) (r, w2) (due_items E ts)))"
      using offers_progress by blast
    moreover have "started_of r = []" by (simp add: started_of_def r_def)
    ultimately show ?thesis
      using quiet_then_progress[OF q]
      by (simp add: poll_items_def a b Inr poll_starts_def r_def[symmetric] split_beta)
  qed
qed

text \<open>What a handler's answer says was started.\<close>

definition answer_starts :: "string \<Rightarrow> api_response \<Rightarrow> (string \<times> int) list" where
  "answer_starts i a = (case a of Answered x (Ran out) \<Rightarrow> outcome_starts i (Inr out) | _ \<Rightarrow> [])"

lemma answer_starts_simps [simp]:
  "answer_starts i (BadRequest m) = []" "answer_starts i ItemNotFound = []"
  "answer_starts i (Unavailable m) = []" "answer_starts i (Internal m) = []"
  "answer_starts i (Answered x AssignedToUser) = []" "answer_starts i (Answered x ItemDone) = []"
  "answer_starts i (Answered x (Ran out)) = outcome_starts i (Inr out)"
  by (simp_all add: answer_starts_def)

text \<open>A handler's world moves on by what its answer says.\<close>

definition answers :: "string \<Rightarrow> item_world \<Rightarrow> api_response \<times> item_world \<Rightarrow> bool" where
  "answers i w r \<longleftrightarrow> progress w (answer_starts i (fst r)) (snd r)"

lemma answers_quiet: "answer_starts i a = [] \<Longrightarrow> quiet w w' \<Longrightarrow> answers i w (a, w')"
  by (simp add: answers_def quiet_progress)

lemma answers_after: "quiet w w1 \<Longrightarrow> answers i w1 r \<Longrightarrow> answers i w r"
  by (simp add: answers_def quiet_then_progress)

lemma answers_bind:
  assumes "quiet w (snd f)" and "\<And>r w1. f = (r, w1) \<Longrightarrow> answers i w1 (g r w1)"
  shows "answers i w (case f of (r, w1) \<Rightarrow> g r w1)"
  using assms by (cases f) (auto intro: answers_after)

lemma answers_sum:
  assumes "\<And>e. s = Inl e \<Longrightarrow> answers i w (f e)" and "\<And>r. s = Inr r \<Longrightarrow> answers i w (g r)"
  shows "answers i w (case s of Inl e \<Rightarrow> f e | Inr r \<Rightarrow> g r)"
  using assms by (cases s) simp_all

lemma answers_option:
  assumes "answers i w a" and "\<And>x. m = Some x \<Longrightarrow> answers i w (g x)"
  shows "answers i w (case m of None \<Rightarrow> a | Some x \<Rightarrow> g x)"
  using assms by (cases m) simp_all

lemma answers_if: "(c \<Longrightarrow> answers i w a) \<Longrightarrow> (\<not> c \<Longrightarrow> answers i w b) \<Longrightarrow> answers i w (if c then a else b)"
  by simp

lemma answers_item: "answer_starts i (Answered None a) = [] \<Longrightarrow> quiet w w1 \<Longrightarrow> answers i w (answer_item i a w1)"
proof -
  assume "answer_starts i (Answered None a) = []" "quiet w w1"
  moreover have "\<exists>x. fst (answer_item i a w1) = Answered x a"
    by (auto simp: answer_item_def split: sum.split prod.split)
  ultimately show ?thesis
    using quiet_trans[OF _ quiet_answer, of w w1 i a]
    by (auto simp: answers_def answer_starts_def intro: quiet_progress split: run_answer.splits)
qed

lemma item_or_404_error: "item_or_404 i w = (Inl r, w1) \<Longrightarrow> answer_starts j r = []"
  by (auto simp: item_or_404_def split: sum.splits prod.splits option.splits)

lemma fresh_error: "fresh_item E i w = (Inl r, w1) \<Longrightarrow> answer_starts j r = []"
  by (auto simp: fresh_item_def dest: item_or_404_error split: if_splits)

lemma item_or_404_id: "item_or_404 i w = (Inr t, w1) \<Longrightarrow> td_id t = i"
  by (cases "item_read (\<lambda>w. find (\<lambda>t. td_id t = i) (iw_todos w))" w rule: item_query_cases)
    (auto simp: item_or_404_def get_todo_def item_read_def find_Some_iff split: option.splits)

lemma fresh_id: "fresh_item E i w = (Inr t, w1) \<Longrightarrow> td_id t = i"
  by (auto simp: fresh_item_def dest: item_or_404_id split: if_splits)

lemma answers_dispatch:
  assumes "td_id t = i" and "quiet w w0"
    and "\<And>out w1. quiet w1 (f out w1)"
  shows "answers i w (case dispatch_item E t now w0 of
      (Inl e, w1) \<Rightarrow> (Internal e, w1) | (Inr out, w1) \<Rightarrow> answer_item i (Ran out) (f out w1))"
proof -
  obtain r w1 where d: "dispatch_item E t now w0 = (r, w1)" by (cases "dispatch_item E t now w0")
  have p: "progress w (outcome_starts i r) w1"
    using quiet_then_progress[OF assms(2) dispatch_progress[of w0 t E now]] assms(1) by (simp add: d)
  show ?thesis
  proof (cases r)
    case (Inl e)
    then show ?thesis using p by (simp add: d answers_def)
  next
    case (Inr out)
    moreover have "\<exists>x. fst (answer_item i (Ran out) (f out w1)) = Answered x (Ran out)"
      by (auto simp: answer_item_def split: sum.split prod.split)
    ultimately show ?thesis
      using progress_quiet[OF p quiet_trans[OF assms(3) quiet_answer]] by (auto simp: d answers_def)
  qed
qed

lemma send_back_answers: "answers i w (handle_send_back E i body w)"
  unfolding handle_send_back_def Let_def
  by (intro answers_bind answers_sum answers_option answers_if answers_quiet answers_dispatch quiet_item_or_404
      quiet_set_todos quiet_trans[OF quiet_post quiet_fresh] quiet_refl)
    (auto dest: item_or_404_error fresh_error fresh_id intro!: quiet_set_todos split: outcome.split)

lemma approve_answers: "answers i w (handle_approve E i w)"
  unfolding handle_approve_def Let_def
  by (intro answers_bind answers_sum answers_if answers_quiet answers_item
      answers_dispatch[where f = "\<lambda>_ w. w"] quiet_item_or_404 quiet_fresh
      quiet_set_todos quiet_post quiet_update quiet_refl)
    (auto dest: item_or_404_error fresh_error fresh_id)

lemma assign_answers: "answers i w (handle_assign E i body w)"
  unfolding handle_assign_def Let_def
  by (intro answers_bind answers_sum answers_option answers_if answers_quiet answers_item
      answers_dispatch[where f = "\<lambda>_ w. w"] quiet_item_or_404 quiet_trans[OF quiet_set_todos quiet_fresh]
      quiet_set_todos quiet_post quiet_patch quiet_refl)
    (auto dest: item_or_404_error fresh_error fresh_id)

text \<open>An event is a call: an offer of any item record, read at any time before, the hourly poll, a delivery, an
  edit, or a decision of the person.\<close>

datatype item_event =
    OfferE todo bool
  | PollE
  | DeliverE string string
  | PatchE string todo_patch
  | UpdateE string todo_update
  | AssignE string json
  | ApproveE string
  | SendBackE string json

fun item_step :: "item_env \<Rightarrow> item_event \<Rightarrow> item_world \<Rightarrow> (string \<times> int) list \<times> item_world" where
  "item_step E (OfferE t now) w = (case dispatch_item E t now w of (r, w') \<Rightarrow> (outcome_starts (td_id t) r, w'))"
| "item_step E PollE w = (case poll_items E w of (r, w') \<Rightarrow> (poll_starts r, w'))"
| "item_step E (DeliverE i result) w = ([], snd (deliver E i result w))"
| "item_step E (PatchE i p) w = ([], snd (patch_todo_item E i p w))"
| "item_step E (UpdateE i u) w = ([], snd (update_todo E i u w))"
| "item_step E (AssignE i body) w = (case handle_assign E i body w of (r, w') \<Rightarrow> (answer_starts i r, w'))"
| "item_step E (ApproveE i) w = (case handle_approve E i w of (r, w') \<Rightarrow> (answer_starts i r, w'))"
| "item_step E (SendBackE i body) w = (case handle_send_back E i body w of (r, w') \<Rightarrow> (answer_starts i r, w'))"

fun item_history :: "(item_env \<times> item_event) list \<Rightarrow> item_world \<Rightarrow> (string \<times> int) list \<times> item_world" where
  "item_history [] w = ([], w)"
| "item_history ((E, e) # es) w =
     (case item_step E e w of (S, w1) \<Rightarrow> (case item_history es w1 of (T, w2) \<Rightarrow> (S @ T, w2)))"

lemma item_step_progress: "progress w (fst (item_step E e w)) (snd (item_step E e w))"
proof (cases e)
  case (OfferE t now)
  then show ?thesis using dispatch_progress[of w t E now] by (simp add: split_beta)
next
  case PollE
  then show ?thesis using poll_progress[of w E] by (simp add: split_beta)
next
  case (AssignE i body)
  then show ?thesis using assign_answers[of i w E body] by (simp add: answers_def split_beta)
next
  case (ApproveE i)
  then show ?thesis using approve_answers[of i w E] by (simp add: answers_def split_beta)
next
  case (SendBackE i body)
  then show ?thesis using send_back_answers[of i w E body] by (simp add: answers_def split_beta)
qed (simp_all add: quiet_progress quiet_deliver quiet_patch quiet_update)

lemma item_history_progress: "progress w (fst (item_history es w)) (snd (item_history es w))"
proof (induction es arbitrary: w)
  case Nil
  then show ?case by (simp add: quiet_progress)
next
  case (Cons a es)
  obtain E e where a: "a = (E, e)" by (cases a)
  show ?case
    using progress_trans[OF item_step_progress Cons.IH] by (simp add: a split_beta)
qed

text \<open>Claim C6. While the graph answers, an item starts each of its runs at most once and at most three in all,
  however often it is offered, by whom, and from however old a record of it: two polls, a poll and an approval, or
  a send-back that crosses a retry start no run twice.\<close>

theorem an_item_starts_each_run_once:
  assumes "faults (q_db (iw_queue w)) = []" and "distinct (map td_id (iw_todos w))"
    and "\<forall>t \<in> set (iw_todos w). 0 \<le> td_dispatch_count t"
  shows "distinct (fst (item_history es w)) \<and>
    length (filter (\<lambda>(j, r). j = i) (fst (item_history es w))) \<le> 3 \<and>
    (\<forall>(j, r) \<in> set (fst (item_history es w)). 1 \<le> r \<and> r \<le> 3)"
proof -
  let ?S = "fst (item_history es w)"
  have "ready w" using assms(1,2) by (simp add: ready_def iw_db_def)
  then have S: "distinct ?S" "\<And>j r. (j, r) \<in> set ?S \<Longrightarrow> runs_used w j < r \<and> r \<le> 3"
    using item_history_progress[of w es] by (auto simp: progress_def max_runs_def)
  have "0 \<le> runs_used w j" for j
    using assms(3) by (auto simp: runs_used_def or_default_def item_counts_def split: option.splits dest!: map_of_SomeD)
  with S(2) have r: "1 \<le> r \<and> r \<le> 3" if "(j, r) \<in> set ?S" for j r using that by (meson int_one_le_iff_zero_less le_less_trans)
  let ?F = "filter (\<lambda>(j, r). j = i) ?S"
  have "set ?F \<subseteq> Pair i ` {1..3::int}" using r by auto
  then have "card (set ?F) \<le> card (Pair i ` {1..3::int})" by (intro card_mono) auto
  also have "\<dots> \<le> 3" using card_image_le[of "{1..3::int}" "Pair i"] by simp
  finally have "card (set ?F) \<le> 3" .
  moreover have "card (set ?F) = length ?F" by (rule distinct_card) (use S(1) in simp)
  ultimately have "length ?F \<le> 3" by simp
  with S(1) r show ?thesis by auto
qed

subsection \<open>Claims and approvals\<close>

text \<open>What decides about an item's runs.\<close>

definition run_states :: "item_world \<Rightarrow> (string \<times> string \<times> int \<times> int option) list" where
  "run_states w = map (\<lambda>t. (td_id t, td_status t, td_dispatch_count t, td_approved_dispatch t)) (iw_todos w)"

lemma run_states_query:
  "(\<And>w. run_states (snd (f w)) = run_states w) \<Longrightarrow> run_states (snd (item_query f w)) = run_states w"
  by (cases f w rule: item_query_cases) (simp_all add: run_states_def)

lemma run_states_patch [simp]: "run_states (snd (patch_todo_item E i p w)) = run_states w"
proof -
  have read: "run_states (snd (get_todo i w)) = run_states w" for w
    unfolding get_todo_def by (rule run_states_query) (simp add: item_read_def)
  have wrote: "run_states (snd (item_query (set_todos_where (\<lambda>t. td_id t = i) (apply_patch (ie_now E) p)) w)) = run_states w"
    by (rule run_states_query)
      (auto simp: run_states_def set_todos_where_def apply_patch_def update_where_def)
  from wrote show ?thesis
    by (auto simp: patch_todo_item_def read split: sum.split prod.split)
qed

lemma run_states_post [simp]: "run_states (snd (post_to_thread E t role msg w)) = run_states w"
proof -
  have say: "run_states (snd (item_query (\<lambda>w. ((), w\<lparr>iw_entries := iw_entries w @ es\<rparr>)) w)) = run_states w" for es w
    by (rule run_states_query) (simp add: run_states_def)
  show ?thesis by (auto simp: post_to_thread_def Let_def say split: option.split)
qed

lemma start_item_run_todos [simp]: "iw_todos (snd (start_item_run E t agent run prompt w)) = iw_todos w"
proof -
  have link: "iw_todos (snd (item_query (link_spawned i k r) w)) = iw_todos w" for i k r w
    by (cases "link_spawned i k r" w rule: item_query_cases) (simp_all add: link_spawned_def)
  show ?thesis
    by (auto simp: start_item_run_def Let_def draw_uid_def link split: sum.split prod.split)
qed

lemma previous_todos [simp]: "iw_todos (snd (previous_answer E t w)) = iw_todos w"
proof -
  have "iw_todos (snd (item_query (item_read f) w)) = iw_todos w" for f :: "item_world \<Rightarrow> string option" and w
    by (cases "item_read f" w rule: item_query_cases) (simp_all add: item_read_def)
  then show ?thesis unfolding previous_answer_def by (auto split: option.split sum.split prod.split) (metis snd_conv)+
qed

lemma claim_and_start_started:
  assumes "claim_and_start E t agent run w = (Inr (Started task ag r), w')"
  obtains n w1 where "claim_run E t w = (Inr n, w1)" "n \<noteq> 0" "ag = agent" "r = run" "run_states w' = run_states w1"
proof -
  obtain a w1 where c: "claim_run E t w = (a, w1)" by (cases "claim_run E t w")
  with assms obtain n where n: "a = Inr n" "n \<noteq> 0"
    by (cases a) (auto simp: claim_and_start_def split: if_splits)
  obtain previous w2 where p: "previous_answer E t w1 = (previous, w2)" by (cases "previous_answer E t w1")
  obtain b w3 where s: "start_item_run E t agent run (run_prompt t previous) w2 = (b, w3)"
    by (cases "start_item_run E t agent run (run_prompt t previous) w2")
  have td: "iw_todos w2 = iw_todos w1" "iw_todos w3 = iw_todos w2"
    using previous_todos[of E t w1] start_item_run_todos[of E t agent run "run_prompt t previous" w2]
    by (simp_all add: p s)
  from assms n have "ag = agent \<and> r = run \<and> (\<exists>msg. w' = snd (post_to_thread E t ''observation'' msg w3))"
    by (cases b) (auto simp: claim_and_start_def c p s)
  then have "ag = agent" "r = run" "run_states w' = run_states w1" using td by (auto simp: run_states_def[of w3] run_states_def[of w1])
  with c n show thesis by (intro that[of n w1]) auto
qed

lemma claim_run_effect:
  assumes "claim_run E t w = (Inr n, w1)" and "n \<noteq> 0"
  shows "(\<exists>x \<in> set (iw_todos w). td_id x = td_id t \<and> td_status x \<in> {''pending'', ''awaiting_approval''} \<and>
      td_dispatch_count x = td_dispatch_count t) \<and>
    (\<exists>y \<in> set (run_states w1). fst y = td_id t \<and> fst (snd y) = ''in_progress'' \<and>
      fst (snd (snd y)) = td_dispatch_count t + 1)"
proof -
  let ?P = "\<lambda>x. td_id x = td_id t \<and> td_status x \<in> {''pending'', ''awaiting_approval''} \<and>
            td_dispatch_count x = td_dispatch_count t"
  let ?f = "\<lambda>x. x\<lparr>td_status := ''in_progress'', td_dispatched_at := Some (ie_now E),
             td_dispatch_count := td_dispatch_count t + 1, td_updated_at := ie_now E\<rparr>"
  have w1: "n = count_where ?P (iw_todos w)" "iw_todos w1 = update_where ?P ?f (iw_todos w)"
    using assms(1) unfolding claim_run_def
    by (cases "set_todos_where ?P ?f" w rule: item_query_cases; simp add: set_todos_where_def)+
  then obtain x where x: "x \<in> set (iw_todos w)" "?P x" using assms(2) count_where_pos[of ?P "iw_todos w"] by auto
  have "?f x \<in> set (iw_todos w1)" unfolding w1(2) using x by (rule in_update_where_hit)
  then have "(td_id (?f x), td_status (?f x), td_dispatch_count (?f x), td_approved_dispatch (?f x)) \<in> set (run_states w1)"
    unfolding run_states_def set_map by (rule imageI)
  then have "\<exists>y \<in> set (run_states w1). fst y = td_id t \<and> fst (snd y) = ''in_progress'' \<and>
      fst (snd (snd y)) = td_dispatch_count t + 1"
    using x(2) by (intro bexI) auto
  with x show ?thesis by auto
qed

text \<open>Claim C16. A run starts only on a claim: the graph still held the item, waiting, with the run count the offer
  was made on, and holds it in progress with the next count afterwards; the agent is the one the record names, on
  the roster; the item has at most three runs; and an agent that asks first was approved for exactly this run.\<close>

theorem a_started_run_was_claimed_and_approved:
  assumes "dispatch_item E t now w = (Inr (Started task agent run), w')"
  shows "assigned_agent t = Some agent \<and> run = td_dispatch_count t + 1 \<and> run \<le> 3 \<and>
    (\<exists>profile. run_profile E agent = Inr profile \<and>
       (side_effects_of profile = ReadOnly \<or> td_approved_dispatch t = Some run)) \<and>
    (\<exists>x \<in> set (iw_todos w). td_id x = td_id t \<and> td_status x \<in> {''pending'', ''awaiting_approval''} \<and>
       td_dispatch_count x = run - 1) \<and>
    (\<exists>y \<in> set (iw_todos w'). td_id y = td_id t \<and> td_status y = ''in_progress'' \<and> td_dispatch_count y = run)"
proof -
  from assms obtain ag where ag: "assigned_agent t = Some ag" by (auto simp: dispatch_item_def split: option.splits)
  with assms have off: "not_offered t now (ie_today E) = None"
    by (auto simp: dispatch_item_def not_offered_def split: option.splits if_splits)
  with ag assms obtain profile where pr: "run_profile E ag = Inr profile"
    by (auto simp: dispatch_item_def split: sum.splits)
  have asks: "ask_approval E t a reason r v \<noteq> (Inr (Started task agent run), w')" for a reason r v
    by (auto simp: ask_approval_def split: sum.splits prod.splits)
  with assms ag off pr have go: "claim_and_start E t ag (td_dispatch_count t + 1) w = (Inr (Started task agent run), w')"
    and may: "side_effects_of profile = ReadOnly \<or> td_approved_dispatch t = Some (td_dispatch_count t + 1)"
    by (auto simp: dispatch_item_def Let_def split: side_effects.splits if_splits)
  from go obtain n w1 where c: "claim_run E t w = (Inr n, w1)" "n \<noteq> 0" "agent = ag" "run = td_dispatch_count t + 1"
    "run_states w' = run_states w1" by (rule claim_and_start_started)
  have "\<exists>y \<in> set (iw_todos w'). td_id y = td_id t \<and> td_status y = ''in_progress'' \<and> td_dispatch_count y = run"
    using claim_run_effect[OF c(1,2)] c(4,5)[symmetric] by (fastforce simp: run_states_def)
  with claim_run_effect[OF c(1,2)] ag pr may c(3,4) not_offered_None[OF off] show ?thesis
    by (auto simp: max_runs_def)
qed

subsection \<open>A chain the graph refuses halfway\<close>

lemma run_query_next:
  "faults d = None # fs \<Longrightarrow> run_query q d = (Inr (fst (q (d\<lparr>faults := fs\<rparr>))), snd (q (d\<lparr>faults := fs\<rparr>)))"
  "faults d = Some e # fs \<Longrightarrow> run_query q d = (Inl (Neo4jError e), d\<lparr>faults := fs\<rparr>)"
  by (simp_all add: run_query_def split_beta)

lemma item_query_next:
  "faults (iw_db w) = None # fs \<Longrightarrow>
     item_query f w = (Inr (fst (f (set_db ((iw_db w)\<lparr>faults := fs\<rparr>) w))), snd (f (set_db ((iw_db w)\<lparr>faults := fs\<rparr>) w)))"
  by (simp add: item_query_def run_query_next split_beta)

lemma refused_start:
  assumes "faults (iw_db w) = [None, None, None, None, Some why]"
  obtains e w' where "start_item_run E t agent run prompt w = (Inl e, w')"
    "agent_runs_queued w' = Suc (agent_runs_queued w)" "faults (iw_db w') = []"
proof -
  let ?Q = "ie_q E"
  obtain task w0 where u: "draw_uid E w = (task, w0)" by (cases "draw_uid E w")
  then have w0: "iw_db w0 = iw_db w" by (auto simp: draw_uid_def iw_db_def)
  define d1 where "d1 = snd (create_run (qe_serde ?Q) (qe_now ?Q) task (run_goal t) (Some (run_context t agent run))
    None None None ''created'' (iw_db w0))"
  have c: "create_run (qe_serde ?Q) (qe_now ?Q) task (run_goal t) (Some (run_context t agent run))
    None None None ''created'' (iw_db w0) = (Inr task, d1)"
    using assms w0 by (simp add: d1_def create_run_def run_query_next Let_def)
  have d1: "faults d1 = [None, None, None, Some why]" "jobs d1 = jobs (iw_db w)"
    using assms w0 by (simp_all add: d1_def create_run_def run_query_next Let_def)
  define d2 where "d2 = snd (update_task_status (qe_now ?Q) task TInProgress d1)"
  have d2: "faults d2 = [None, None, Some why]" "jobs d2 = jobs (iw_db w)"
    using d1 by (simp_all add: d2_def update_task_status_def run_query_next set_tasks_where_def)
  define w1 where "w1 = snd (item_query (link_spawned (td_id t) task run) (set_db d2 w0))"
  have w1: "faults (q_db (iw_queue w1)) = [None, Some why]" "jobs (q_db (iw_queue w1)) = jobs (iw_db w)"
    using d2 by (auto simp: w1_def item_query_next link_spawned_def iw_db_def set_db_def)
  obtain r q' where r: "enqueue_chain_owned ?Q (run_steps t agent prompt task) None (Some task) (iw_queue w1) = (r, q')"
    by (cases "enqueue_chain_owned ?Q (run_steps t agent prompt task) None (Some task) (iw_queue w1)")
  have q': "r = Inl (''Neo4j error: '' @ why)" "faults (q_db q') = []"
    "\<exists>n. jobs (q_db q') = jobs (iw_db w) @ [n] \<and> nd_status n = Queued \<and> nd_tool_name n = ''run_agent''"
    using r w1
    by (auto simp: run_steps_def new_step_def enqueue_chain_owned_def create_agent_job_def create_agent_job_parked_def
        run_query_next insert_job_def step_spec_def Let_def)
  show thesis
  proof (rule that)
    show "start_item_run E t agent run prompt w = (Inl (''Neo4j error: '' @ why), w1\<lparr>iw_queue := q'\<rparr>)"
      unfolding start_item_run_def Let_def u prod.case c sum.case d2_def[symmetric] w1_def[symmetric]
      by (simp add: r q'(1))
    show "agent_runs_queued (w1\<lparr>iw_queue := q'\<rparr>) = Suc (agent_runs_queued w)"
      using q'(3) by (auto simp: agent_runs_queued_def iw_db_def)
    show "faults (iw_db (w1\<lparr>iw_queue := q'\<rparr>)) = []" using q'(2) by (simp add: iw_db_def)
  qed
qed

lemma iw_db_updates [simp]:
  "iw_db (w\<lparr>iw_todos := ts\<rparr>) = iw_db w" "iw_db (w\<lparr>iw_entries := es\<rparr>) = iw_db w"
  by (simp_all add: iw_db_def)

lemma post_jobs [simp]: "jobs (iw_db (snd (post_to_thread E t role msg w))) = jobs (iw_db w)"
proof -
  have patch: "jobs (iw_db (snd (patch_todo_item E i p w))) = jobs (iw_db w)" for i p w
  proof -
    have read: "jobs (iw_db (snd (get_todo i w))) = jobs (iw_db w)" for w
      unfolding get_todo_def
      by (cases "item_read (\<lambda>w. find (\<lambda>t. td_id t = i) (iw_todos w))" w rule: item_query_cases)
        (simp_all add: item_read_def)
    show ?thesis
      by (cases "set_todos_where (\<lambda>t. td_id t = i) (apply_patch (ie_now E) p)" w rule: item_query_cases)
        (auto simp: patch_todo_item_def read set_todos_where_def split: sum.split prod.split
            intro: read[THEN trans] dest: arg_cong[where f = snd])
  qed
  have say: "jobs (iw_db (snd (item_query (\<lambda>w. ((), w\<lparr>iw_entries := iw_entries w @ es\<rparr>)) w))) = jobs (iw_db w)" for es w
    by (cases "\<lambda>w::item_world. ((), w\<lparr>iw_entries := iw_entries w @ es\<rparr>)" w rule: item_query_cases)
      simp_all
  show ?thesis by (auto simp: post_to_thread_def Let_def say patch split: option.split)
qed

lemma previous_jobs: "jobs (iw_db (snd (previous_answer E t w))) = jobs (iw_db w)"
proof -
  have "jobs (iw_db (snd (item_query (item_read f) w))) = jobs (iw_db w)" for f :: "item_world \<Rightarrow> string option"
    by (cases "item_read f" w rule: item_query_cases) (simp_all add: item_read_def)
  then show ?thesis
    unfolding previous_answer_def by (auto split: option.split sum.split prod.split) (metis snd_conv)+
qed

lemma dispatch_goes:
  assumes "assigned_agent t = Some agent" and "not_offered t now (ie_today E) = None"
    and "run_profile E agent = Inr profile"
    and "side_effects_of profile = ReadOnly \<or> td_approved_dispatch t = Some (td_dispatch_count t + 1)"
  shows "dispatch_item E t now w = claim_and_start E t agent (td_dispatch_count t + 1) w"
  using assms by (auto simp: dispatch_item_def Let_def split: side_effects.split)

lemma claim_run_current:
  assumes "next_fault (iw_db w) = None" and "t \<in> set (iw_todos w)"
    and "td_status t \<in> {''pending'', ''awaiting_approval''}"
  obtains n w1 where "claim_run E t w = (Inr n, w1)" "n \<noteq> 0" "iw_db w1 = used_fault (iw_db w)"
    "t\<lparr>td_status := ''in_progress'', td_dispatched_at := Some (ie_now E),
       td_dispatch_count := td_dispatch_count t + 1, td_updated_at := ie_now E\<rparr> \<in> set (iw_todos w1)"
proof -
  let ?P = "\<lambda>x. td_id x = td_id t \<and> td_status x \<in> {''pending'', ''awaiting_approval''} \<and>
            td_dispatch_count x = td_dispatch_count t"
  let ?f = "\<lambda>x. x\<lparr>td_status := ''in_progress'', td_dispatched_at := Some (ie_now E),
             td_dispatch_count := td_dispatch_count t + 1, td_updated_at := ie_now E\<rparr>"
  let ?w = "set_db (used_fault (iw_db w)) w"
  have c: "claim_run E t w = (Inr (count_where ?P (iw_todos w)), ?w\<lparr>iw_todos := update_where ?P ?f (iw_todos w)\<rparr>)"
    unfolding claim_run_def using assms(1)
    by (cases "set_todos_where ?P ?f" w rule: item_query_cases) (simp_all add: set_todos_where_def)
  have t: "?P t" using assms(3) by simp
  show thesis
  proof (rule that[OF c])
    show "count_where ?P (iw_todos w) \<noteq> 0" using t assms(2) count_where_pos[of ?P "iw_todos w"] by auto
    show "iw_db (?w\<lparr>iw_todos := update_where ?P ?f (iw_todos w)\<rparr>) = used_fault (iw_db w)" by (simp add: iw_db_def set_db_def)
    show "?f t \<in> set (iw_todos (?w\<lparr>iw_todos := update_where ?P ?f (iw_todos w)\<rparr>))"
      using in_update_where_hit[where P = ?P and f = ?f, OF assms(2) t] by simp
  qed
qed

lemma waiting_status: "not_offered t now today = None \<Longrightarrow> td_status t \<in> {''pending'', ''awaiting_approval''}"
  by (auto simp: not_offered_def split: if_splits)

lemma dispatch_starts:
  assumes "faults (iw_db w) = []" and "t \<in> set (iw_todos w)" and "assigned_agent t = Some agent"
    and "not_offered t now (ie_today E) = None" and "run_profile E agent = Inr profile"
    and "side_effects_of profile = ReadOnly \<or> td_approved_dispatch t = Some (td_dispatch_count t + 1)"
  obtains task w' where "dispatch_item E t now w = (Inr (Started task agent (td_dispatch_count t + 1)), w')"
    "agent_runs_queued w' = Suc (agent_runs_queued w)"
proof -
  let ?run = "td_dispatch_count t + 1"
  have f: "next_fault (iw_db w) = None" using assms(1) by simp
  obtain n w1 where c: "claim_run E t w = (Inr n, w1)" "n \<noteq> 0" "iw_db w1 = used_fault (iw_db w)"
    using claim_run_current[OF f assms(2) waiting_status[OF assms(4)]] by blast
  obtain previous w2 where p: "previous_answer E t w1 = (previous, w2)" by (cases "previous_answer E t w1")
  have "quiet w1 w2" "jobs (iw_db w2) = jobs (iw_db w1)"
    using quiet_previous[of w1 E t] previous_jobs[of E t w1] by (simp_all add: p)
  then have w2: "faults (iw_db w2) = []" "agent_runs_queued w2 = agent_runs_queued w"
    using c(3) assms(1) by (simp_all add: quiet_def agent_runs_queued_def)
  obtain task w3 where s: "start_item_run E t agent ?run (run_prompt t previous) w2 = (Inr task, w3)"
    "agent_runs_queued w3 = Suc (agent_runs_queued w2)"
    using start_item_run_ok[OF w2(1)] by metis
  show thesis
    by (rule that[of task], use dispatch_goes[OF assms(3-6)] c p s(1) in \<open>simp add: claim_and_start_def\<close>)
      (use s(2) w2(2) in \<open>simp add: agent_runs_queued_def\<close>)
qed

text \<open>Claim C39. When the graph refuses the second job of a run's chain, the run counts as not started: the count
  and the approval stand as before. But the agent's own job is stored and queued, so the next offer starts the same
  run again and the agent runs twice on one approval, and beyond the item's limit of runs.\<close>

theorem a_refused_chain_runs_the_agent_twice:
  assumes "faults (q_db (iw_queue w)) = [None, None, None, None, None, Some why]"
    and "t \<in> set (iw_todos w)" and "assigned_agent t = Some agent"
    and "not_offered t now (ie_today E) = None" and "run_profile E agent = Inr profile"
    and "side_effects_of profile = ReadOnly \<or> td_approved_dispatch t = Some (td_dispatch_count t + 1)"
    and "td_review_comment t = None"
  shows "\<exists>e w1 t1 task w2. dispatch_item E t now w = (Inl e, w1) \<and>
    t1 \<in> set (iw_todos w1) \<and> td_id t1 = td_id t \<and> td_dispatch_count t1 = td_dispatch_count t \<and>
    td_approved_dispatch t1 = td_approved_dispatch t \<and>
    dispatch_item E t1 True w1 = (Inr (Started task agent (td_dispatch_count t + 1)), w2) \<and>
    agent_runs_queued w2 = agent_runs_queued w + 2"
proof -
  let ?run = "td_dispatch_count t + 1"
  note waits = waiting_status[OF assms(4)] not_offered_None[OF assms(4)]
  have f: "next_fault (iw_db w) = None" using assms(1) by (simp add: next_fault_def iw_db_def)
  obtain n w1 where c: "claim_run E t w = (Inr n, w1)" "n \<noteq> 0" "iw_db w1 = used_fault (iw_db w)"
    and x: "t\<lparr>td_status := ''in_progress'', td_dispatched_at := Some (ie_now E),
       td_dispatch_count := ?run, td_updated_at := ie_now E\<rparr> \<in> set (iw_todos w1)" (is "?x \<in> _")
    using claim_run_current[OF f assms(2) waits(1)] by blast
  have prev: "previous_answer E t v = (None, v)" for v
    by (simp add: previous_answer_def assms(7) split: option.split)
  have "faults (iw_db w1) = [None, None, None, None, Some why]" using assms(1) c(3) by (simp add: iw_db_def)
  then obtain e w2 where s: "start_item_run E t agent ?run (run_prompt t None) w1 = (Inl e, w2)"
    "agent_runs_queued w2 = Suc (agent_runs_queued w1)" "faults (iw_db w2) = []"
    by (rule refused_start)
  have todos: "iw_todos w2 = iw_todos w1"
    using start_item_run_todos[of E t agent ?run "run_prompt t None" w1] by (simp add: s(1))
  let ?P = "\<lambda>x. td_id x = td_id t \<and> td_status x = ''in_progress''"
  let ?f = "\<lambda>x. x\<lparr>td_status := ''pending'', td_dispatch_count := td_dispatch_count t, td_updated_at := ie_now E\<rparr>"
  define w3 where "w3 = snd (release_claim E t w2)"
  have w3: "w3 = w2\<lparr>iw_todos := update_where ?P ?f (iw_todos w1)\<rparr>"
    using s(3) by (simp add: w3_def release_claim_def set_todos_where_def todos)
  have d1: "dispatch_item E t now w = (Inl (''the run could not be started: '' @ e), w3)"
    using dispatch_goes[OF assms(3-6)] c s(1) by (simp add: claim_and_start_def prev w3_def)
  define t1 where "t1 = ?f ?x"
  have "?f ?x \<in> set (update_where ?P ?f (iw_todos w1))" using x by (rule in_update_where_hit) simp
  then have t1: "t1 \<in> set (iw_todos w3)" by (simp add: t1_def w3)
  have same: "assigned_agent t1 = Some agent" "not_offered t1 True (ie_today E) = None" "td_id t1 = td_id t"
    "td_dispatch_count t1 = td_dispatch_count t" "td_approved_dispatch t1 = td_approved_dispatch t"
    using assms(3) waits(2) by (simp_all add: t1_def assigned_agent_def not_offered_def)
  have db3: "iw_db w3 = iw_db w2" by (simp add: w3 iw_db_def)
  have f3: "faults (iw_db w3) = []" using s(3) by (simp add: db3)
  obtain task w6 where d2: "dispatch_item E t1 True w3 = (Inr (Started task agent (td_dispatch_count t1 + 1)), w6)"
    "agent_runs_queued w6 = Suc (agent_runs_queued w3)"
    by (rule dispatch_starts[OF f3 t1 same(1,2) assms(5)]) (use assms(6) same(4,5) in auto)
  have "agent_runs_queued w6 = agent_runs_queued w + 2"
    using d2(2) s(2) c(3) by (simp add: agent_runs_queued_def db3)
  with d1 d2(1)[unfolded same(4)] t1 same show ?thesis by blast
qed

subsection \<open>Examples\<close>

definition sample_agent :: agent_profile where
  "sample_agent = \<lparr>ap_name = ''scout'', ap_tools = [''http_request''], ap_spawnable = True, ap_explicit_only = False,
     ap_side_effects = None\<rparr>"

definition sample_item_env :: item_env where
  "sample_item_env =
     \<lparr>ie_q = sample_env, ie_now = ''2026-10-10T09:00:00Z'', ie_today = ''2026-10-10'',
      ie_profiles = Some [sample_agent], ie_note_text = (\<lambda>_. None), ie_store_note = (\<lambda>_. Inr ''n1''),
      ie_scheduler = True\<rparr>"

definition approved_todo :: todo where
  "approved_todo = sample_todo\<lparr>td_assignee := Some ''agent:scout'', td_status := ''awaiting_approval'',
     td_approved_dispatch := Some 1\<rparr>"

definition sample_item_world :: "string option list \<Rightarrow> item_world" where
  "sample_item_world fs = \<lparr>iw_queue = new_queue ((graph_of [])\<lparr>faults := fs\<rparr>), iw_todos = [approved_todo],
     iw_spawned = [], iw_entries = []\<rparr>"

lemma sample_item_facts:
  "assigned_agent approved_todo = Some ''scout''" "not_offered approved_todo True today = None"
  "run_profile sample_item_env ''scout'' = Inr (Some sample_agent)"
  "td_approved_dispatch approved_todo = Some (td_dispatch_count approved_todo + 1)"
  "td_review_comment approved_todo = None" "td_dispatch_count approved_todo = 0" "td_id approved_todo = ''i1''"
  "approved_todo \<in> set (iw_todos (sample_item_world fs))" "faults (iw_db (sample_item_world fs)) = fs"
  by (simp_all add: assigned_agent_def approved_todo_def sample_todo_def agent_prefix_def opt_nonempty_def
      not_offered_def max_runs_def run_profile_def sample_item_env_def sample_agent_def sample_item_world_def iw_db_def
      new_queue_def)

lemma sample_item_started:
  obtains task w' where "dispatch_item sample_item_env approved_todo True (sample_item_world []) =
      (Inr (Started task ''scout'' 1), w')"
  by (rule dispatch_starts[of "sample_item_world []" approved_todo "''scout''" True sample_item_env "Some sample_agent"])
    (simp_all add: sample_item_facts)

theorem an_item_starts_each_run_once_witness:
  "fst (item_history [(sample_item_env, OfferE approved_todo True)] (sample_item_world [])) = [(''i1'', 1)] \<and>
   distinct (fst (item_history [(sample_item_env, OfferE approved_todo True), (sample_item_env, OfferE approved_todo True)]
     (sample_item_world []))) \<and>
   length (filter (\<lambda>(j, r). j = ''i1'') (fst (item_history [(sample_item_env, OfferE approved_todo True),
     (sample_item_env, OfferE approved_todo True)] (sample_item_world [])))) \<le> 3"
proof -
  obtain task w' where "dispatch_item sample_item_env approved_todo True (sample_item_world []) =
      (Inr (Started task ''scout'' 1), w')" by (rule sample_item_started)
  then have "fst (item_history [(sample_item_env, OfferE approved_todo True)] (sample_item_world [])) = [(''i1'', 1)]"
    by (simp add: sample_item_facts)
  moreover have "faults (q_db (iw_queue (sample_item_world []))) = []" "distinct (map td_id (iw_todos (sample_item_world [])))"
    "\<forall>t \<in> set (iw_todos (sample_item_world [])). 0 \<le> td_dispatch_count t"
    by (simp_all add: sample_item_world_def new_queue_def sample_item_facts)
  from an_item_starts_each_run_once[OF this]
  have "distinct (fst (item_history [(sample_item_env, OfferE approved_todo True), (sample_item_env, OfferE approved_todo True)]
     (sample_item_world [])))"
    "length (filter (\<lambda>(j, r). j = ''i1'') (fst (item_history [(sample_item_env, OfferE approved_todo True),
     (sample_item_env, OfferE approved_todo True)] (sample_item_world [])))) \<le> 3" by blast+
  ultimately show ?thesis by blast
qed

theorem a_started_run_was_claimed_and_approved_witness:
  "\<exists>task w'. dispatch_item sample_item_env approved_todo True (sample_item_world []) = (Inr (Started task ''scout'' 1), w') \<and>
     (\<exists>y \<in> set (iw_todos w'). td_id y = ''i1'' \<and> td_status y = ''in_progress'' \<and> td_dispatch_count y = 1)"
proof -
  obtain task w' where d: "dispatch_item sample_item_env approved_todo True (sample_item_world []) =
      (Inr (Started task ''scout'' 1), w')" by (rule sample_item_started)
  with a_started_run_was_claimed_and_approved[OF d] show ?thesis by (auto simp: sample_item_facts)
qed

theorem a_refused_chain_runs_the_agent_twice_witness:
  "\<exists>e w1. dispatch_item sample_item_env approved_todo True
       (sample_item_world [None, None, None, None, None, Some ''connection lost'']) = (Inl e, w1)"
proof -
  let ?w = "sample_item_world [None, None, None, None, None, Some ''connection lost'']"
  have "faults (q_db (iw_queue ?w)) = [None, None, None, None, None, Some ''connection lost'']"
    using sample_item_facts(9) by (simp add: iw_db_def)
  from a_refused_chain_runs_the_agent_twice[OF this sample_item_facts(8,1,2,3) _ sample_item_facts(5)] sample_item_facts(4)
  show ?thesis by blast
qed

end
