(* ===== verification/Turn_Guard.thy ===== *)
theory Turn_Guard
  imports Templates Items
begin

text \<open>
  What stands between a model's tool call and the tool (\<open>crates/chat/src/chat/write_guard.rs\<close>, the
  classification of calls in \<open>handover.rs\<close>, \<open>not_offered\<close> of \<open>round_loop.rs\<close>, \<open>cut\<close> of \<open>trajectory.rs\<close>): a
  call must be one of the tools the loop offered; in a probe what may act is answered with a stub; a write is
  run once per turn; and a note of established knowledge is relabelled while nothing was looked up. The hash
  of a call is a parameter, and so are the tools the plugins declare as retrieval.
\<close>

subsection \<open>Lists of tools\<close>

definition retrieval_tools :: "string list" where
  "retrieval_tools = [''search_web'', ''read_page'', ''search_notes'', ''neo4j_query'', ''http_request'',
     ''get_search_usage'', ''execute_code'']"

definition write_tools :: "string list" where
  "write_tools = [''store_note'', ''create_task'', ''write_workspace_file'', ''notify_user'', ''claim'',
     ''manage_workflow'', ''manage_program'']"

definition delegate_tool :: string where
  "delegate_tool = ''delegate''"

definition probe_read_tools :: "string list" where
  "probe_read_tools =
     [''search_notes'', ''recall_recent'', ''search_web'', ''get_search_usage'', ''read_page'', ''neo4j_query'',
      ''describe_graph'', ''list_apis'', ''list_endpoints'', ''list_capabilities'', ''duckdb_query'',
      ''get_llm_budget'', ''mcp_list_tools'', ''list_tasks'', ''lookup'', ''wiki_background'',
      ''read_codebase_file'', ''search_codebase'', ''get_git_log'', ''analyze_own_structure'',
      ''list_workspace_files'', ''execute_code'', ''area_traffic'', ''geocode'']"

definition probe_read_actions :: "(string \<times> string list) list" where
  "probe_read_actions =
     [(''manage_workflow'', [''list'', ''get'', ''history'']),
      (''manage_program'', [''list'', ''get'', ''history'', ''review_context'']),
      (''manage_todo'', [''list'', ''get'']), (''manage_plugin'', [''list'', ''get'']),
      (''manage_media_source'', [''list'']), (''dev_docs'', [''search'', ''get'']), (''dead_letter'', [''list''])]"

definition mutating_prefixes :: "string list" where
  "mutating_prefixes = [''manage_'', ''ingest_'', ''store_'', ''create_'', ''update_'', ''delete_'', ''write_'',
     ''push_'', ''set_'', ''register_'', ''define_'', ''scheduler_'']"

definition reading_verbs :: "string list" where
  "reading_verbs = [''search'', ''fetch'', ''get'', ''list'', ''read'', ''extract'', ''map'', ''crawl'']"

subsection \<open>Which calls only read\<close>

definition text_field :: "json \<Rightarrow> string \<Rightarrow> string \<Rightarrow> string" where
  "text_field args key dflt = or_default dflt (as_str (json_field args key))"

definition is_read_action :: "string \<Rightarrow> json \<Rightarrow> bool" where
  "is_read_action tool args \<longleftrightarrow>
     list_ex (\<lambda>(t, actions). t = tool \<and> text_field args ''action'' [] \<in> set actions) probe_read_actions"

definition call_is_read_only :: "string \<Rightarrow> json \<Rightarrow> bool" where
  "call_is_read_only tool args \<longleftrightarrow>
     (if is_read_action tool args then True
      else if tool \<in> set write_tools \<or> tool = ''run_agent'' then False
      else if list_ex (starts_with tool) mutating_prefixes then False
      else if tool = ''http_request''
      then eq_ignore_case (text_field args ''method'' ''GET'') ''GET'' \<or>
           eq_ignore_case (text_field args ''method'' ''GET'') ''HEAD''
      else if tool = ''mcp_call''
      then list_ex (str_contains (lower (text_field args ''tool'' []))) reading_verbs
      else True)"

definition probe_may_run :: "string \<Rightarrow> json \<Rightarrow> bool" where
  "probe_may_run tool args \<longleftrightarrow>
     (if tool = ''http_request'' \<or> tool = ''mcp_call'' then call_is_read_only tool args
      else if tool \<in> set probe_read_tools then True
      else is_read_action tool args)"

subsection \<open>The guard of a turn\<close>

record turn_guard =
  tg_retrieval_ran :: bool
  tg_seen_writes :: "nat list"

definition new_guard :: turn_guard where
  "new_guard = \<lparr>tg_retrieval_ran = False, tg_seen_writes = []\<rparr>"

definition note_type_needs_grounding :: "string option \<Rightarrow> bool" where
  "note_type_needs_grounding t \<longleftrightarrow> map_option trim t \<in> {None, Some [], Some ''semantic''}"

definition downgrade_notice :: string where
  "downgrade_notice =
     nl @ nl @ ''[GUARD '' @ em_dash @ '' NOTE TYPE DOWNGRADED TO `unsourced_synthesis`: '' @
     ''this note was written as `semantic` (knowledge the brain established) but no retrieval '' @
     ''tool ran in this turn, so nothing outside the model's own prior backs it. It is stored '' @
     ''and retrievable, but labelled as unsourced on the way out. Say so in your answer. To '' @
     ''store it as `semantic`, search first and write it from what you found.]''"

definition duplicate_notice :: string where
  "duplicate_notice =
     ''[GUARD '' @ em_dash @ '' DUPLICATE WRITE SUPPRESSED: this exact call was '' @
     ''already executed earlier in this turn and was not run again. The earlier call succeeded; '' @
     ''do not repeat it. Move on, or write the final answer.]''"

definition probe_stub_prefix :: string where
  "probe_stub_prefix = ''[PROBE '' @ em_dash @ '' NOT RUN:''"

definition args_chars :: nat where
  "args_chars = 400"

definition cut :: "string \<Rightarrow> nat \<Rightarrow> string" where
  "cut s n =
     (let total = char_count s
      in if total \<le> n then s else take_chars n s @ ellipsis @ ''[+'' @ show_nat (total - n) @ '' chars]'')"

definition probe_stub :: "serde \<Rightarrow> string \<Rightarrow> json \<Rightarrow> string" where
  "probe_stub S tool args =
     probe_stub_prefix @ '' this run is a probe, so `'' @ tool @ ''` was not executed. It would have '' @
     ''been called with '' @ cut (to_str S args) args_chars @ ''. Treat it as done and continue.]''"

datatype screened = Pass | Rewrite json string | Suppress string

definition needs_label :: "string \<Rightarrow> json \<Rightarrow> turn_guard \<Rightarrow> bool" where
  "needs_label tool args g \<longleftrightarrow>
     tool = ''store_note'' \<and> \<not> tg_retrieval_ran g \<and>
     note_type_needs_grounding (Option.bind (json_get args ''note_type'') as_str)"

definition screen :: "(string \<Rightarrow> json \<Rightarrow> nat) \<Rightarrow> string \<Rightarrow> json \<Rightarrow> turn_guard \<Rightarrow> screened \<times> turn_guard" where
  "screen fp tool args g =
     (if tool \<in> set write_tools \<and> fp tool args \<in> set (tg_seen_writes g)
      then (Suppress duplicate_notice, g)
      else let g' = (if tool \<in> set write_tools
                     then g\<lparr>tg_seen_writes := fp tool args # tg_seen_writes g\<rparr> else g)
           in (if needs_label tool args g
               then (case args of
                       JObj m \<Rightarrow> (Rewrite (JObj (map_insert ''note_type'' (JStr ''unsourced_synthesis'') m)) downgrade_notice, g')
                     | _ \<Rightarrow> (Pass, g'))
               else (Pass, g')))"

definition observe_tool :: "string list \<Rightarrow> string \<Rightarrow> bool \<Rightarrow> turn_guard \<Rightarrow> turn_guard" where
  "observe_tool plugin_retrieval tool success g =
     (if success \<and> (tool \<in> set retrieval_tools \<or> tool \<in> set plugin_retrieval)
      then g\<lparr>tg_retrieval_ran := True\<rparr> else g)"

definition mark_retrieval :: "turn_guard \<Rightarrow> turn_guard" where
  "mark_retrieval g = g\<lparr>tg_retrieval_ran := True\<rparr>"

subsection \<open>A call through the guard\<close>

text \<open>What the process gives a turn. \<open>ge_execute\<close> is the registered tools, by how many calls this run has
  executed before; it is given no arguments when they are not an object.\<close>

record guard_env =
  ge_serde :: serde
  ge_probe :: bool
  ge_handler :: bool
  ge_fingerprint :: "string \<Rightarrow> json \<Rightarrow> nat"
  ge_plugin_retrieval :: "string list"
  ge_execute :: "nat \<Rightarrow> string \<Rightarrow> json option \<Rightarrow> tool_call_result"

text \<open>The guard, and the calls that reached a tool, with whether they succeeded.\<close>

record turn =
  tn_guard :: turn_guard
  tn_ran :: "(string \<times> json \<times> json option \<times> bool) list" \<comment> \<open>tool, arguments asked, arguments sent, success\<close>

definition new_turn :: turn where
  "new_turn = \<lparr>tn_guard = new_guard, tn_ran = []\<rparr>"

definition result_texts :: "tool_call_result \<Rightarrow> string" where
  "result_texts r = join_with nl (concat (map (\<lambda>c. case c of Text t \<Rightarrow> [t] | _ \<Rightarrow> []) (tr_content r)))"

record call_answer =
  ca_success :: bool
  ca_text :: string
  ca_bulk :: "string option"

definition object_args :: "json \<Rightarrow> json option" where
  "object_args v = (case v of JObj _ \<Rightarrow> Some v | _ \<Rightarrow> None)"

definition send_call ::
  "guard_env \<Rightarrow> string \<Rightarrow> json \<Rightarrow> json \<Rightarrow> string option \<Rightarrow> turn \<Rightarrow> call_answer \<times> turn" where
  "send_call G tool asked sent notice t =
     (if \<not> ge_handler G
      then (\<lparr>ca_success = False, ca_text = ''No tool handler available'', ca_bulk = None\<rparr>, t)
      else let r = ge_execute G (length (tn_ran t)) tool (object_args sent);
               ok = (tr_is_error r \<noteq> Some True);
               said = result_texts r @ (case notice of Some n \<Rightarrow> if ok then n else [] | None \<Rightarrow> [])
           in (\<lparr>ca_success = ok, ca_text = said, ca_bulk = tr_bulk r\<rparr>,
               t\<lparr>tn_guard := observe_tool (ge_plugin_retrieval G) tool ok (tn_guard t),
                 tn_ran := tn_ran t @ [(tool, asked, object_args sent, ok)]\<rparr>))"

definition execute_guarded :: "guard_env \<Rightarrow> string \<Rightarrow> json \<Rightarrow> turn \<Rightarrow> call_answer \<times> turn" where
  "execute_guarded G tool args t =
     (if ge_probe G \<and> \<not> probe_may_run tool args
      then (\<lparr>ca_success = True, ca_text = probe_stub (ge_serde G) tool args, ca_bulk = None\<rparr>, t)
      else (case screen (ge_fingerprint G) tool args (tn_guard t) of
              (Suppress notice, g) \<Rightarrow>
                (\<lparr>ca_success = True, ca_text = notice, ca_bulk = None\<rparr>, t\<lparr>tn_guard := g\<rparr>)
            | (Rewrite args' notice, g) \<Rightarrow> send_call G tool args args' (Some notice) (t\<lparr>tn_guard := g\<rparr>)
            | (Pass, g) \<Rightarrow> send_call G tool args args None (t\<lparr>tn_guard := g\<rparr>)))"

definition not_one_of_yours :: "string \<Rightarrow> string list \<Rightarrow> bool \<Rightarrow> string option" where
  "not_one_of_yours name offered allow_delegate =
     (if name \<in> set offered \<or> (allow_delegate \<and> name = delegate_tool) then None
      else Some (''`'' @ name @ ''` is not one of your tools, so it was not run. Your tools: '' @
             (if offered = [] then ''none'' else join_with '', '' offered) @ ''.''))"

definition run_calls :: "guard_env \<Rightarrow> (string \<times> json) list \<Rightarrow> turn \<Rightarrow> turn" where
  "run_calls G calls t = foldl (\<lambda>t (tool, args). snd (execute_guarded G tool args t)) t calls"

subsection \<open>What a turn runs\<close>

definition ran_call :: "string \<times> json \<times> json option \<times> bool \<Rightarrow> string \<times> json" where
  "ran_call = (\<lambda>(tool, asked, sent, ok). (tool, asked))"

definition is_write :: "string \<times> json \<Rightarrow> bool" where
  "is_write c \<longleftrightarrow> fst c \<in> set write_tools"

definition looked_up :: "guard_env \<Rightarrow> string \<times> json \<times> json option \<times> bool \<Rightarrow> bool" where
  "looked_up G = (\<lambda>(tool, asked, sent, ok). ok \<and> (tool \<in> set retrieval_tools \<or> tool \<in> set (ge_plugin_retrieval G)))"

definition turn_writes :: "turn \<Rightarrow> (string \<times> json) list" where
  "turn_writes t = filter is_write (map ran_call (tn_ran t))"

lemma turn_writes_step [simp]:
  "turn_writes (t\<lparr>tn_guard := g, tn_ran := tn_ran t @ [(tool, asked, sent, ok)]\<rparr>) =
     turn_writes t @ (if tool \<in> set write_tools then [(tool, asked)] else [])"
  "turn_writes (t\<lparr>tn_guard := g\<rparr>) = turn_writes t"
  by (simp_all add: turn_writes_def ran_call_def is_write_def)

text \<open>A call made before anything was looked up sends no note of established knowledge.\<close>

definition labelled :: "string \<times> json \<times> json option \<times> bool \<Rightarrow> bool" where
  "labelled = (\<lambda>(tool, asked, sent, ok). tool = ''store_note'' \<longrightarrow>
     (case sent of None \<Rightarrow> True
      | Some v \<Rightarrow> \<not> note_type_needs_grounding (Option.bind (json_get v ''note_type'') as_str)))"

text \<open>The calls of a turn: each write once, each labelled until the first look-up, each allowed in a probe.\<close>

fun labelled_until :: "guard_env \<Rightarrow> (string \<times> json \<times> json option \<times> bool) list \<Rightarrow> bool" where
  "labelled_until G [] \<longleftrightarrow> True"
| "labelled_until G (c # cs) \<longleftrightarrow> labelled c \<and> (looked_up G c \<or> labelled_until G cs)"

definition guarded_turn :: "guard_env \<Rightarrow> turn \<Rightarrow> bool" where
  "guarded_turn G t \<longleftrightarrow>
     (\<forall>c \<in> set (turn_writes t). ge_fingerprint G (fst c) (snd c) \<in> set (tg_seen_writes (tn_guard t))) \<and>
     distinct (turn_writes t) \<and>
     labelled_until G (tn_ran t) \<and>
     (list_ex (looked_up G) (tn_ran t) \<longrightarrow> tg_retrieval_ran (tn_guard t)) \<and>
     (tg_retrieval_ran (tn_guard t) \<longrightarrow> list_ex (looked_up G) (tn_ran t)) \<and>
     (ge_probe G \<longrightarrow> (\<forall>c \<in> set (tn_ran t). probe_may_run (fst (ran_call c)) (snd (ran_call c))))"

lemma observe_seen [simp]: "tg_seen_writes (observe_tool ps tool ok g) = tg_seen_writes g"
  by (simp add: observe_tool_def)

lemma labelled_until_snoc:
  "labelled_until G (cs @ [c]) \<longleftrightarrow>
     labelled_until G cs \<and> (list_ex (looked_up G) cs \<or> labelled c)"
  by (induction cs) auto

lemma screen_cases:
  obtains (suppressed) "screen fp tool args g = (Suppress duplicate_notice, g)"
      "tool \<in> set write_tools" "fp tool args \<in> set (tg_seen_writes g)"
  | (sent) sc args' g' where "screen fp tool args g = (sc, g')"
      "sc = Pass \<and> args' = args \<or> (\<exists>n. sc = Rewrite args' n)"
      "\<not> (tool \<in> set write_tools \<and> fp tool args \<in> set (tg_seen_writes g))"
      "g' = (if tool \<in> set write_tools then g\<lparr>tg_seen_writes := fp tool args # tg_seen_writes g\<rparr> else g)"
      "tg_retrieval_ran g \<or> labelled (tool, args, object_args args', ok)"
proof (cases "tool \<in> set write_tools \<and> fp tool args \<in> set (tg_seen_writes g)")
  case True
  then show thesis by (intro suppressed) (auto simp: screen_def)
next
  case False
  define g' where "g' = (if tool \<in> set write_tools
    then g\<lparr>tg_seen_writes := fp tool args # tg_seen_writes g\<rparr> else g)"
  have unsourced: "\<not> note_type_needs_grounding (Some ''unsourced_synthesis'')" by code_simp
  show thesis
  proof (cases "needs_label tool args g \<and> (\<exists>m. args = JObj m)")
    case True
    then obtain m where m: "args = JObj m" by blast
    show thesis
      by (rule sent[of "Rewrite (JObj (map_insert ''note_type'' (JStr ''unsourced_synthesis'') m)) downgrade_notice"
            g' "JObj (map_insert ''note_type'' (JStr ''unsourced_synthesis'') m)"])
        (use False True m unsourced in \<open>auto simp: screen_def g'_def Let_def labelled_def object_args_def\<close>)
  next
    case no: False
    show thesis
      by (rule sent[of Pass g' args])
        (use False no in \<open>auto simp: screen_def g'_def Let_def labelled_def object_args_def needs_label_def
            split: json.splits\<close>)
  qed
qed

lemma execute_keeps_guarded:
  assumes "guarded_turn G t"
  shows "guarded_turn G (snd (execute_guarded G tool args t))"
proof (cases "ge_probe G \<and> \<not> probe_may_run tool args")
  case True
  then show ?thesis using assms by (simp add: execute_guarded_def)
next
  case False
  show ?thesis
  proof (cases "ge_fingerprint G" tool args "tn_guard t" rule: screen_cases[where ok = False])
    case suppressed
    then show ?thesis using assms False by (auto simp: execute_guarded_def guarded_turn_def)
  next
    case (sent sc args' g')
    then obtain notice where e: "execute_guarded G tool args t = send_call G tool args args' notice (t\<lparr>tn_guard := g'\<rparr>)"
      using False by (auto simp: execute_guarded_def)
    have grown: "set (tg_seen_writes (tn_guard t)) \<subseteq> set (tg_seen_writes g')" using sent(4) by auto
    show ?thesis
    proof (cases "ge_handler G")
      case False
      with e assms sent(4) show ?thesis by (auto simp: send_call_def guarded_turn_def)
    next
      case True
      define ok where "ok = (tr_is_error (ge_execute G (length (tn_ran t)) tool (object_args args')) \<noteq> Some True)"
      let ?c = "(tool, args, object_args args', ok)"
      have t': "snd (execute_guarded G tool args t) =
          t\<lparr>tn_guard := observe_tool (ge_plugin_retrieval G) tool ok g', tn_ran := tn_ran t @ [?c]\<rparr>"
        using e True by (simp add: send_call_def ok_def Let_def)
      have ret: "tg_retrieval_ran (observe_tool (ge_plugin_retrieval G) tool ok g') \<longleftrightarrow>
          tg_retrieval_ran (tn_guard t) \<or> looked_up G ?c"
        using sent(4) by (auto simp: observe_tool_def looked_up_def)
      have lab: "tg_retrieval_ran (tn_guard t) \<or> labelled ?c"
        using sent(5) by (auto simp: labelled_def)
      show ?thesis
        unfolding guarded_turn_def t'
      proof (intro conjI)
        show "\<forall>c \<in> set (turn_writes (t\<lparr>tn_guard := observe_tool (ge_plugin_retrieval G) tool ok g',
            tn_ran := tn_ran t @ [?c]\<rparr>)). ge_fingerprint G (fst c) (snd c) \<in>
            set (tg_seen_writes (tn_guard (t\<lparr>tn_guard := observe_tool (ge_plugin_retrieval G) tool ok g',
            tn_ran := tn_ran t @ [?c]\<rparr>)))"
          using assms grown sent(4) by (auto simp: guarded_turn_def)
        show "distinct (turn_writes (t\<lparr>tn_guard := observe_tool (ge_plugin_retrieval G) tool ok g',
            tn_ran := tn_ran t @ [?c]\<rparr>))"
          using assms sent(3) by (auto simp: guarded_turn_def)
        show "labelled_until G (tn_ran (t\<lparr>tn_guard := observe_tool (ge_plugin_retrieval G) tool ok g',
            tn_ran := tn_ran t @ [?c]\<rparr>))"
          using assms lab by (auto simp: guarded_turn_def labelled_until_snoc)
      qed (use assms ret False in \<open>auto simp: guarded_turn_def ran_call_def\<close>)
    qed
  qed
qed

interpretation turn_machine: machine "\<lambda>t (tool, args). snd (execute_guarded G tool args t)" "guarded_turn G" for G
  by unfold_locales (auto intro: execute_keeps_guarded)

lemma new_turn_guarded: "guarded_turn G new_turn"
  by (simp add: guarded_turn_def new_turn_def new_guard_def turn_writes_def)

lemma turn_guarded: "guarded_turn G (run_calls G calls new_turn)"
  unfolding run_calls_def by (rule turn_machine.every_run_inv) (rule new_turn_guarded)

text \<open>Whatever calls a model makes in a turn, and whatever the tools answer, no write runs twice with the
  same arguments, whichever hash the guard uses.\<close>

theorem a_turn_runs_each_write_once:
  "distinct (turn_writes (run_calls G calls new_turn))"
  using turn_guarded[of G calls] by (simp add: guarded_turn_def)

text \<open>A note stored in a turn before a look-up succeeded never says it is established knowledge: its
  type is one that says where it comes from.\<close>

theorem notes_from_no_source_are_labelled:
  assumes "tn_ran (run_calls G calls new_turn) = before @ (''store_note'', asked, Some sent, ok) # later"
    and "\<not> list_ex (looked_up G) before"
  shows "\<not> note_type_needs_grounding (Option.bind (json_get sent ''note_type'') as_str)"
proof -
  have "labelled_until G (before @ (''store_note'', asked, Some sent, ok) # later)"
    using turn_guarded[of G calls] by (simp add: guarded_turn_def assms(1))
  with assms(2) have "labelled (''store_note'', asked, Some sent, ok)"
    by (induction before) auto
  then show ?thesis by (simp add: labelled_def)
qed

theorem notes_from_no_source_are_labelled_witness:
  "\<not> note_type_needs_grounding (Some ''unsourced_synthesis'')"
proof -
  define G where "G = \<lparr>ge_serde = sample_serde, ge_probe = False, ge_handler = True, ge_fingerprint = (\<lambda>_ _. 0),
    ge_plugin_retrieval = [], ge_execute = (\<lambda>_ _ _. success_text ''stored'')\<rparr>"
  have "tn_ran (run_calls G [(''store_note'', JObj [(''content'', JStr ''x'')])] new_turn) =
      [] @ (''store_note'', JObj [(''content'', JStr ''x'')],
        Some (JObj [(''content'', JStr ''x''), (''note_type'', JStr ''unsourced_synthesis'')]), True) # []"
    by (simp add: run_calls_def execute_guarded_def screen_def G_def new_turn_def new_guard_def write_tools_def
        needs_label_def note_type_needs_grounding_def map_insert.simps send_call_def object_args_def success_text_def
        result_success_def Let_def)
  from notes_from_no_source_are_labelled[OF this] show ?thesis by simp
qed

subsection \<open>Probes\<close>

text \<open>A probe acts on nothing the handover would not call read-only: the list of what a probe may run is
  within the calls another model may repeat, and in a probe only calls on it reach a tool.\<close>

theorem a_probe_only_reads:
  assumes "ge_probe G" and "c \<in> set (map ran_call (tn_ran (run_calls G calls new_turn)))"
  shows "probe_may_run (fst c) (snd c) \<and> call_is_read_only (fst c) (snd c)"
proof -
  have may: "probe_may_run (fst c) (snd c)"
    using turn_guarded[of G calls] assms by (auto simp: guarded_turn_def)
  have reads: "call_is_read_only tool args" if "tool \<in> set probe_read_tools" for tool args
  proof -
    have "\<forall>t \<in> set probe_read_tools. t \<notin> set write_tools \<and> t \<noteq> ''run_agent'' \<and>
        \<not> list_ex (starts_with t) mutating_prefixes \<and> t \<noteq> ''http_request'' \<and> t \<noteq> ''mcp_call''"
      by (simp add: probe_read_tools_def write_tools_def mutating_prefixes_def starts_with_def)
    from this[rule_format, OF that] show ?thesis unfolding call_is_read_only_def by presburger
  qed
  have "call_is_read_only (fst c) (snd c)"
  proof (cases "fst c = ''http_request'' \<or> fst c = ''mcp_call''")
    case True
    with may show ?thesis unfolding probe_may_run_def by presburger
  next
    case False
    with may have "fst c \<in> set probe_read_tools \<or> is_read_action (fst c) (snd c)"
      unfolding probe_may_run_def by presburger
    then show ?thesis
    proof
      assume "is_read_action (fst c) (snd c)"
      then show ?thesis unfolding call_is_read_only_def by presburger
    qed (rule reads)
  qed
  with may show ?thesis by blast
qed

lemma lower_verbs: "\<forall>v \<in> set reading_verbs. lower v = v"
  by code_simp

text \<open>What a probe may call of another server is decided by part of a name: a remote tool whose name
  contains a reading word anywhere runs for real, whatever it does.\<close>

theorem a_probe_runs_any_remote_tool_that_mentions_reading:
  assumes "verb \<in> set reading_verbs" and "ge_probe G" and "ge_handler G"
  shows "map ran_call (tn_ran (run_calls G [(''mcp_call'', JObj [(''tool'', JStr (before @ verb @ after))])] new_turn)) =
    [(''mcp_call'', JObj [(''tool'', JStr (before @ verb @ after))])]"
proof -
  let ?args = "JObj [(''tool'', JStr (before @ verb @ after))]"
  have "str_contains (lower (before @ verb @ after)) verb"
    unfolding str_contains_iff using assms(1) lower_verbs by (auto simp: lower_append)
  then have "list_ex (str_contains (lower (text_field ?args ''tool'' []))) reading_verbs"
    using assms(1) by (auto simp: text_field_def json_field_def or_default_def list_ex_iff)
  moreover have "\<not> is_read_action ''mcp_call'' ?args"
    by (simp add: is_read_action_def probe_read_actions_def)
  moreover have "''mcp_call'' \<notin> set write_tools" "\<not> list_ex (starts_with ''mcp_call'') mutating_prefixes"
    by code_simp+
  ultimately have "probe_may_run ''mcp_call'' ?args"
    by (simp add: probe_may_run_def call_is_read_only_def)
  then show ?thesis
    using assms(2,3) by (simp add: run_calls_def execute_guarded_def screen_def needs_label_def send_call_def
        ran_call_def new_turn_def write_tools_def Let_def)
qed

text \<open>A write that failed cannot be tried again in its turn, and is then reported as done: the same call
  is answered with success and the words that the earlier call succeeded, and no tool runs.\<close>

lemma a_failed_write_is_answered_as_done:
  assumes "tool \<in> set write_tools" and "\<not> ge_probe G" and "ge_handler G"
    and "execute_guarded G tool args t = (a, t1)" and "\<not> ca_success a"
  shows "\<exists>t2. execute_guarded G tool args t1 = (\<lparr>ca_success = True, ca_text = duplicate_notice, ca_bulk = None\<rparr>, t2) \<and>
    tn_ran t2 = tn_ran t1 \<and> (\<exists>sent. tn_ran t1 = tn_ran t @ [(tool, args, sent, False)])"
proof (cases "ge_fingerprint G" tool args "tn_guard t" rule: screen_cases[where ok = False])
  case suppressed
  then show ?thesis using assms by (auto simp: execute_guarded_def)
next
  case (sent sc args' g')
  then obtain notice where "execute_guarded G tool args t = send_call G tool args args' notice (t\<lparr>tn_guard := g'\<rparr>)"
    using assms(2) by (auto simp: execute_guarded_def)
  with assms(3-5) have t1: "tg_seen_writes (tn_guard t1) = tg_seen_writes g'"
    "tn_ran t1 = tn_ran t @ [(tool, args, object_args args', False)]"
    by (auto simp: send_call_def Let_def)
  then have "ge_fingerprint G tool args \<in> set (tg_seen_writes (tn_guard t1))"
    using sent(4) assms(1) by simp
  then show ?thesis using assms(1,2) t1 by (auto simp: execute_guarded_def screen_def)
qed

definition failing_env :: guard_env where
  "failing_env = \<lparr>ge_serde = sample_serde, ge_probe = False, ge_handler = True, ge_fingerprint = (\<lambda>_ _. 0),
     ge_plugin_retrieval = [], ge_execute = (\<lambda>_ _ _. error_result ''graph down'')\<rparr>"

definition probing_env :: guard_env where
  "probing_env = \<lparr>ge_serde = sample_serde, ge_probe = True, ge_handler = True, ge_fingerprint = (\<lambda>_ _. 0),
     ge_plugin_retrieval = [], ge_execute = (\<lambda>_ _ _. success_text ''done'')\<rparr>"

theorem a_probe_runs_any_remote_tool_that_mentions_reading_witness:
  "map ran_call (tn_ran (run_calls probing_env [(''mcp_call'', JObj [(''tool'', JStr ''delete_budget'')])] new_turn)) =
     [(''mcp_call'', JObj [(''tool'', JStr ''delete_budget'')])]"
  using a_probe_runs_any_remote_tool_that_mentions_reading[of "''get''" probing_env "''delete_bud''" "[]"]
  by (simp add: reading_verbs_def probing_env_def)

theorem a_probe_only_reads_witness:
  "call_is_read_only ''search_web'' JNull"
proof -
  have "tn_ran (run_calls probing_env [(''search_web'', JNull), (''create_task'', JNull)] new_turn) =
      [(''search_web'', JNull, None, True)]"
    by (simp add: run_calls_def execute_guarded_def screen_def probing_env_def new_turn_def new_guard_def write_tools_def
        needs_label_def send_call_def object_args_def success_text_def result_success_def probe_may_run_def
        probe_read_tools_def is_read_action_def probe_read_actions_def Let_def)
  then have "(''search_web'', JNull) \<in> set (map ran_call (tn_ran (run_calls probing_env
      [(''search_web'', JNull), (''create_task'', JNull)] new_turn)))"
    by (simp add: ran_call_def)
  from a_probe_only_reads[OF _ this] show ?thesis by (simp add: probing_env_def)
qed

end
