(* ===== verification/Text_Calls.thy ===== *)
theory Text_Calls
  imports Templates
begin

text \<open>
  Tool calls that a model writes into its text instead of the call channel
  (\<open>crates/chat/src/chat/tool_calls.rs\<close>, used by \<open>openai_loop.rs\<close>): reading them, and taking them out of the
  text. Slicing a string from a place past its end place panics, which is \<open>None\<close> of the reader; the remover
  is a loop that need not end, and \<open>None\<close> is that it does not.
\<close>

definition invoke_open :: string where
  "invoke_open = ''<invoke''"

definition invoke_close :: string where
  "invoke_close = ''</invoke>''"

text \<open>The children of a body as fields.\<close>

function child_tags :: "string \<Rightarrow> json_map \<Rightarrow> json_map" where
  "child_tags s m =
     (case split_at_str ''<'' s of
        None \<Rightarrow> m
      | Some (_, tag) \<Rightarrow>
          if starts_with tag ''/'' then m
          else (case split_at_str ''>'' tag of
                  None \<Rightarrow> m
                | Some (raw, after_tag) \<Rightarrow>
                    let key = trim raw
                    in (case split_at_str (''</'' @ key @ ''>'') after_tag of
                          None \<Rightarrow> m
                        | Some (v, rest) \<Rightarrow> child_tags rest (map_insert key (JStr (trim v)) m))))"
  by pat_completeness auto
termination
proof (relation "measure (\<lambda>(s, m). length s)", goal_cases)
  case (2 s m ab a tag ab' raw after_tag key cd v rest)
  then show ?case
    using split_at_str_Some[of "''<''" s a tag] split_at_str_Some[of "''>''" tag raw after_tag]
      split_at_str_Some[of "''</'' @ key @ ''>''" after_tag v rest] by simp
qed simp

declare child_tags.simps [simp del]

definition call_args :: "serde \<Rightarrow> string \<Rightarrow> json" where
  "call_args S body =
     (if trim body = [] then JObj []
      else (case from_str S (trim body) of
              Some v \<Rightarrow> v
            | None \<Rightarrow> JObj (child_tags (trim body) [])))"

text \<open>\<open>find\<close> as an offset, the end of the text when there is none.\<close>

definition find_or_end :: "string \<Rightarrow> string \<Rightarrow> nat" where
  "find_or_end p s = (case split_at_str p s of Some (a, _) \<Rightarrow> length a | None \<Rightarrow> length s)"

definition call_name :: "string \<Rightarrow> string option" where
  "call_name rest =
     (case split_at_str (''name='' @ [CHR 34]) rest of
        None \<Rightarrow> None
      | Some (_, tail) \<Rightarrow> map_option fst (split_at_str [CHR 34] tail))"

definition body_bounds :: "string \<Rightarrow> nat \<times> nat" where
  "body_bounds rest =
     ((case split_at_str ''>'' rest of Some (a, _) \<Rightarrow> length a + 1 | None \<Rightarrow> length rest),
      find_or_end invoke_close rest)"

lemma next_shorter:
  assumes "split_at_str invoke_open s = Some (a, b)" and "split_at_str invoke_close (invoke_open @ b) = Some (c, d)"
  shows "length d < length s"
proof -
  have "length d < length (invoke_open @ b)"
    using split_at_str_length[OF assms(2)] by (simp add: invoke_close_def)
  also have "\<dots> \<le> length s" using split_at_str_Some[OF assms(1)] by simp
  finally show ?thesis .
qed

function read_calls :: "serde \<Rightarrow> nat \<Rightarrow> string \<Rightarrow> (string \<times> string \<times> json) list option" where
  "read_calls S n s =
     (case split_at_str invoke_open s of
        None \<Rightarrow> Some []
      | Some (_, b) \<Rightarrow>
          let rest = invoke_open @ b
          in (case call_name rest of
                None \<Rightarrow> Some []
              | Some name \<Rightarrow>
                  (case body_bounds rest of (i, j) \<Rightarrow>
                     if j < i then None
                     else let call = (''xml-'' @ show_nat n, name, call_args S (take (j - i) (drop i rest)))
                          in (case split_at_str invoke_close rest of
                                None \<Rightarrow> Some [call]
                              | Some (_, next) \<Rightarrow> map_option (\<lambda>cs. call # cs) (read_calls S (Suc n) next)))))"
  by pat_completeness auto
termination
  by (relation "measure (\<lambda>(S, n, s). length s)") (auto intro: next_shorter)

declare read_calls.simps [simp del]

definition parse_xml_tool_calls :: "serde \<Rightarrow> string \<Rightarrow> (string \<times> string \<times> json) list option" where
  "parse_xml_tool_calls S s = read_calls S 0 s"

partial_function (option) strip_blocks :: "string \<Rightarrow> string option" where
  "strip_blocks s =
     (case split_at_str invoke_open s of
        None \<Rightarrow> Some s
      | Some (a, _) \<Rightarrow>
          (case split_at_str invoke_close s of
             None \<Rightarrow> Some a
           | Some (_, d) \<Rightarrow> strip_blocks (a @ d)))"

definition strip_wrappers :: "string \<Rightarrow> string" where
  "strip_wrappers r = trim (replace_all ''<minimax:tool_call>'' [] (replace_all ''</minimax:tool_call>'' [] r))"

definition strip_xml_tool_calls :: "string \<Rightarrow> string option" where
  "strip_xml_tool_calls s = map_option strip_wrappers (strip_blocks s)"

text \<open>What the reply of a round becomes when the call channel was empty.\<close>

datatype text_reply = Panics | Hangs | Reply string "(string \<times> string \<times> json) list"

definition text_fallback :: "serde \<Rightarrow> string \<Rightarrow> text_reply" where
  "text_fallback S s =
     (case parse_xml_tool_calls S s of
        None \<Rightarrow> Panics
      | Some calls \<Rightarrow>
          if calls = [] then Reply s []
          else (case strip_xml_tool_calls s of None \<Rightarrow> Hangs | Some t \<Rightarrow> Reply t calls))"

subsection \<open>A closing tag too early\<close>

text \<open>A closing tag stands before the first opening one, and an opening one follows it.\<close>

definition stray_close :: "string \<Rightarrow> bool" where
  "stray_close s \<longleftrightarrow> (\<exists>c d. split_at_str invoke_close s = Some (c, d) \<and>
     \<not> str_contains (c @ invoke_close) invoke_open \<and> str_contains d invoke_open)"

lemma strip_prefix_None: "strip_prefix p s = None \<longleftrightarrow> take (length p) s \<noteq> p"
  by (induction p s rule: strip_prefix.induct) auto

text \<open>What follows the first occurrence does not matter to where it is.\<close>

lemma split_at_str_swap:
  "split_at_str p s = Some (a, b) \<Longrightarrow> p \<noteq> [] \<Longrightarrow> split_at_str p (a @ p @ b') = Some (a, b')"
proof (induction p s arbitrary: a rule: split_at_str.induct)
  case (2 p c cs)
  show ?case
  proof (cases "strip_prefix p (c # cs)")
    case None
    then obtain a' where a: "split_at_str p cs = Some (a', b)" "a = c # a'" using "2.prems"(1) by auto
    have "cs = a' @ p @ b" by (rule split_at_str_Some[OF a(1)])
    moreover have "take (length p) ((c # a' @ p) @ y) = take (length p) (c # a' @ p)" for y
      by (subst take_append) simp
    ultimately have "take (length p) (c # a' @ p @ b') = take (length p) (c # cs)"
      by (metis append_Cons append_assoc)
    then have "strip_prefix p (c # a' @ p @ b') = None" using None by (metis strip_prefix_None)
    then show ?thesis using "2.IH"[OF None a(1) \<open>p \<noteq> []\<close>] a(2) by simp
  next
    case (Some rest)
    then have "a = []" using "2.prems"(1) by simp
    then show ?thesis using strip_prefix_append[of p b'] \<open>p \<noteq> []\<close> by (cases p) auto
  qed
qed simp

lemma overlap_free:
  assumes "e \<noteq> []" and "invoke_open = e @ us" and "a @ e = c @ invoke_close"
  shows False
proof -
  have l: "length e \<le> 7" using assms(2) by (auto simp: invoke_open_def dest: arg_cong[where f = length])
  have "e = take (length e) invoke_open" by (subst assms(2)) simp
  moreover have "e = drop (9 - length e) invoke_close"
  proof -
    have "length (a @ e) = length (c @ invoke_close)" using assms(3) by simp
    then have "length a = length c + (9 - length e)" using l by (simp add: invoke_close_def)
    then have "drop (length a) (a @ e) = drop (length c + (9 - length e)) (c @ invoke_close)"
      using assms(3) by simp
    then show ?thesis by simp
  qed
  ultimately have "take (length e) invoke_open = drop (9 - length e) invoke_close" by simp
  moreover have "length e \<in> {1, 2, 3, 4, 5, 6, 7}" using l assms(1) by (cases "length e") auto
  ultimately show False by (auto simp: invoke_open_def invoke_close_def)
qed

lemma open_after_close:
  assumes "s = c @ invoke_close @ d" and "\<not> str_contains (c @ invoke_close) invoke_open"
    and "split_at_str invoke_open s = Some (a, b)"
  obtains e where "a = c @ invoke_close @ e" "d = e @ invoke_open @ b"
proof -
  have "(a @ invoke_open) @ b = (c @ invoke_close) @ d"
    using split_at_str_Some[OF assms(3)] assms(1) by simp
  then consider us where "a @ invoke_open = (c @ invoke_close) @ us" "us @ b = d"
    | us where "(a @ invoke_open) @ us = c @ invoke_close"
    unfolding append_eq_append_conv2[of "a @ invoke_open" b "c @ invoke_close" d] by blast
  then show thesis
  proof cases
    case 1
    from 1(1) consider e where "a = (c @ invoke_close) @ e" "e @ invoke_open = us"
      | e where "a @ e = c @ invoke_close" "invoke_open = e @ us"
      unfolding append_eq_append_conv2[of a invoke_open "c @ invoke_close" us] by blast
    then show thesis
    proof cases
      case (1 e)
      with \<open>us @ b = d\<close> show thesis by (intro that[of e]) auto
    next
      case (2 e)
      show thesis
      proof (cases "e = []")
        case True
        with 2 \<open>us @ b = d\<close> show thesis by (intro that[of "[]"]) auto
      next
        case False
        from overlap_free[OF False 2(2,1)] show thesis ..
      qed
    qed
  next
    case (2 us)
    then have "str_contains (c @ invoke_close) invoke_open" unfolding str_contains_iff by (metis append.assoc)
    with assms(2) show thesis ..
  qed
qed

lemma stray_close_again:
  assumes "stray_close s"
  obtains a b c d where "split_at_str invoke_open s = Some (a, b)" "split_at_str invoke_close s = Some (c, d)"
    "stray_close (a @ d)"
proof -
  from assms obtain c d where s: "split_at_str invoke_close s = Some (c, d)"
    and no: "\<not> str_contains (c @ invoke_close) invoke_open" and later: "str_contains d invoke_open"
    by (auto simp: stray_close_def)
  have s': "s = c @ invoke_close @ d" by (rule split_at_str_Some[OF s])
  have "str_contains s invoke_open" using later unfolding str_contains_iff s' by (metis append.assoc)
  then obtain a b where ab: "split_at_str invoke_open s = Some (a, b)" by (auto simp: str_contains_def)
  obtain f where f: "a = c @ invoke_close @ f" by (rule open_after_close[OF s' no ab])
  have "split_at_str invoke_close (a @ d) = Some (c, f @ d)"
    using split_at_str_swap[OF s, of "f @ d"] by (simp add: f invoke_close_def)
  moreover have "str_contains (f @ d) invoke_open"
    using later unfolding str_contains_iff by (metis append.assoc)
  ultimately have "stray_close (a @ d)" using no by (auto simp: stray_close_def)
  with ab s show thesis by (rule that)
qed

lemma stray_close_never_ends:
  assumes "stray_close s"
  shows "strip_xml_tool_calls s = None"
proof -
  have "\<not> stray_close x" if "strip_blocks x = Some y" for x y
  proof (rule strip_blocks.raw_induct[OF _ that])
    fix f x y
    assume step: "\<And>x y. f x = Some y \<Longrightarrow> \<not> stray_close x"
      and body: "(case split_at_str invoke_open x of None \<Rightarrow> Some x
        | Some (a, _) \<Rightarrow> (case split_at_str invoke_close x of None \<Rightarrow> Some a | Some (_, d) \<Rightarrow> f (a @ d))) = Some y"
    show "\<not> stray_close x"
    proof
      assume "stray_close x"
      then obtain a b c d where abcd: "split_at_str invoke_open x = Some (a, b)"
        "split_at_str invoke_close x = Some (c, d)" "stray_close (a @ d)" by (rule stray_close_again)
      with body have "f (a @ d) = Some y" by simp
      from step[OF this] abcd(3) show False by blast
    qed
  qed
  with assms have "strip_blocks s = None" by (cases "strip_blocks s") auto
  then show ?thesis by (simp add: strip_xml_tool_calls_def)
qed

subsection \<open>Calls as the model means them\<close>

lemma split_at_str_skip:
  "c \<notin> set x \<Longrightarrow> split_at_str (c # p) (x @ s) = map_option (\<lambda>(a, b). (x @ a, b)) (split_at_str (c # p) s)"
proof (induction x)
  case Nil
  show ?case by (cases "split_at_str (c # p) s") auto
next
  case (Cons a x)
  then show ?case by (cases "split_at_str (c # p) s") auto
qed

text \<open>Text with no tag of its own is passed over where a tag, or nothing, follows it: each tag has its \<open><\<close> in front.\<close>

lemma split_at_str_over:
  assumes "\<not> str_contains t (c # p)" and "c \<notin> set p" and "s = [] \<or> hd s = c"
  shows "split_at_str (c # p) (t @ s) = map_option (\<lambda>(a, b). (t @ a, b)) (split_at_str (c # p) s)"
  using assms(1)
proof (induction t)
  case Nil
  show ?case by (cases "split_at_str (c # p) s") auto
next
  case (Cons a t)
  have "\<not> str_contains t (c # p)"
    using Cons.prems unfolding str_contains_iff by (metis append_Cons)
  moreover have "strip_prefix (c # p) (a # t @ s) = None"
  proof (rule ccontr)
    assume "strip_prefix (c # p) (a # t @ s) \<noteq> None"
    then obtain r where "strip_prefix (c # p) (a # t @ s) = Some r" by blast
    then have r: "(a # t) @ s = (c # p) @ r" unfolding strip_prefix_Some by simp
    then obtain us where "(a # t) @ us = c # p \<and> s = us @ r \<or> a # t = (c # p) @ us"
      unfolding append_eq_append_conv2 by blast
    then show False
    proof (elim disjE conjE)
      assume "a # t = (c # p) @ us"
      then have "a # t = [] @ (c # p) @ us" by simp
      with Cons.prems show False unfolding str_contains_iff by blast
    next
      assume us: "(a # t) @ us = c # p" "s = us @ r"
      show False
      proof (cases us)
        case Nil
        with us have "a # t = [] @ (c # p) @ []" by simp
        with Cons.prems show False unfolding str_contains_iff by blast
      next
        case (Cons d us')
        with us assms(2,3) show False by auto
      qed
    qed
  qed
  ultimately show ?case using Cons.IH by (cases "split_at_str (c # p) s") auto
qed

definition tag_free :: "string \<Rightarrow> bool" where
  "tag_free t \<longleftrightarrow> \<not> str_contains t invoke_open \<and> \<not> str_contains t invoke_close"

lemma tag_free_none: "tag_free t \<Longrightarrow> split_at_str invoke_open t = None" "tag_free t \<Longrightarrow> split_at_str invoke_close t = None"
  by (simp_all only: tag_free_def str_contains_def not_not)

lemma tag_free_nothing: "tag_free []"
  by (simp add: tag_free_def str_contains_def invoke_open_def invoke_close_def)

lemma tag_free_part: "tag_free (a @ b @ c) \<Longrightarrow> tag_free b"
  unfolding tag_free_def str_contains_iff by (metis append.assoc)

lemma tag_free_parts: "tag_free (a @ b) \<Longrightarrow> tag_free a" "tag_free (a @ b) \<Longrightarrow> tag_free b"
  using tag_free_part[of "[]" a b] tag_free_part[of a b "[]"] by simp_all

lemma tag_free_splits:
  assumes "tag_free t" and "s = [] \<or> hd s = CHR ''<''"
  shows "split_at_str invoke_open (t @ s) = map_option (\<lambda>(a, b). (t @ a, b)) (split_at_str invoke_open s)"
    and "split_at_str invoke_close (t @ s) = map_option (\<lambda>(a, b). (t @ a, b)) (split_at_str invoke_close s)"
  using assms split_at_str_over[of t "CHR ''<''" "''invoke''" s] split_at_str_over[of t "CHR ''<''" "''/invoke>''" s]
  by (simp_all add: tag_free_def invoke_open_def invoke_close_def)

text \<open>A call: its name, its body and the text after it.\<close>

type_synonym text_call = "string \<times> string \<times> string"

definition call_text :: "text_call \<Rightarrow> string" where
  "call_text = (\<lambda>(name, body, after). ''<invoke name='' @ [CHR 34] @ name @ [CHR 34] @ ''>'' @ body @ invoke_close @ after)"

definition text_after :: "text_call \<Rightarrow> string" where
  "text_after c = snd (snd c)"

definition plain_call :: "text_call \<Rightarrow> bool" where
  "plain_call = (\<lambda>(name, body, after).
     CHR ''<'' \<notin> set name \<and> CHR ''>'' \<notin> set name \<and> CHR 34 \<notin> set name \<and>
     split_at_str invoke_close (body @ invoke_close) = Some (body, []))"

definition read_call :: "serde \<Rightarrow> nat \<times> text_call \<Rightarrow> string \<times> string \<times> json" where
  "read_call S = (\<lambda>(n, name, body, after). (''xml-'' @ show_nat n, name, call_args S body))"

lemma plain_call_splits:
  assumes "plain_call (name, body, after)" and "tag_free pre"
  shows "split_at_str invoke_open (pre @ call_text (name, body, after) @ r) =
      Some (pre, '' name='' @ [CHR 34] @ name @ [CHR 34] @ ''>'' @ body @ invoke_close @ after @ r)"
    and "split_at_str invoke_close (pre @ call_text (name, body, after) @ r) =
      Some (pre @ ''<invoke name='' @ [CHR 34] @ name @ [CHR 34] @ ''>'' @ body, after @ r)"
proof -
  show "split_at_str invoke_open (pre @ call_text (name, body, after) @ r) =
      Some (pre, '' name='' @ [CHR 34] @ name @ [CHR 34] @ ''>'' @ body @ invoke_close @ after @ r)"
    using tag_free_splits(1)[OF assms(2), of "call_text (name, body, after) @ r"] by (simp add: invoke_open_def call_text_def)
  have n: "CHR ''<'' \<notin> set ('' name='' @ [CHR 34] @ name @ [CHR 34] @ ''>'')" "CHR ''<'' \<notin> set ''invoke name=''"
    using assms(1) by (simp_all add: plain_call_def)
  have b: "split_at_str invoke_close (body @ invoke_close @ after @ r) = Some (body, after @ r)"
    using assms(1) split_at_str_swap[of invoke_close "body @ invoke_close" body "[]" "after @ r"]
    by (simp add: plain_call_def invoke_close_def)
  have "split_at_str invoke_close (''invoke name='' @ [CHR 34] @ name @ [CHR 34] @ ''>'' @ body @ invoke_close @ after @ r) =
      Some (''invoke name='' @ [CHR 34] @ name @ [CHR 34] @ ''>'' @ body, after @ r)"
    using split_at_str_skip[of "CHR ''<''" "''invoke name='' @ [CHR 34] @ name @ [CHR 34] @ ''>''" "''/invoke>''"
        "body @ invoke_close @ after @ r"] n b
    by (simp add: invoke_close_def)
  then have "split_at_str invoke_close (call_text (name, body, after) @ r) =
      Some (''<invoke name='' @ [CHR 34] @ name @ [CHR 34] @ ''>'' @ body, after @ r)"
    by (simp add: invoke_close_def call_text_def)
  moreover have "hd (call_text (name, body, after) @ r) = CHR ''<''" by (simp add: call_text_def)
  ultimately show "split_at_str invoke_close (pre @ call_text (name, body, after) @ r) =
      Some (pre @ ''<invoke name='' @ [CHR 34] @ name @ [CHR 34] @ ''>'' @ body, after @ r)"
    using tag_free_splits(2)[OF assms(2), of "call_text (name, body, after) @ r"] by simp
qed

lemma strip_plain_calls:
  "tag_free (pre @ concat (map text_after calls)) \<Longrightarrow> list_all plain_call calls \<Longrightarrow>
     strip_blocks (pre @ concat (map call_text calls)) = Some (pre @ concat (map text_after calls))"
proof (induction calls arbitrary: pre)
  case Nil
  then show ?case by (subst strip_blocks.simps) (simp add: tag_free_none)
next
  case (Cons c calls)
  obtain name body after where c: "c = (name, body, after)" by (cases c)
  have after: "text_after c = after" by (simp add: text_after_def c)
  with Cons.prems c have p: "plain_call (name, body, after)" "tag_free ((pre @ after) @ concat (map text_after calls))"
    by simp_all
  show ?case
    by (subst strip_blocks.simps)
      (use plain_call_splits[OF p(1) tag_free_parts(1)[OF Cons.prems(1)], of "concat (map call_text calls)"]
        Cons.IH[OF p(2)] Cons.prems(2) c after in simp)
qed

lemma read_calls_step:
  assumes "split_at_str invoke_open s = Some (a, b)" and "rest = invoke_open @ b" and "call_name rest = Some name"
    and "body_bounds rest = (i, j)" and "i \<le> j" and "split_at_str invoke_close rest = Some (c, next)"
  shows "read_calls S n s =
    map_option (\<lambda>cs. (''xml-'' @ show_nat n, name, call_args S (take (j - i) (drop i rest))) # cs)
      (read_calls S (Suc n) next)"
  by (subst read_calls.simps) (use assms in \<open>simp add: Let_def\<close>)

lemma read_calls_panics:
  assumes "split_at_str invoke_open s = Some (a, b)" and "rest = invoke_open @ b" and "call_name rest = Some name"
    and "body_bounds rest = (i, j)" and "j < i"
  shows "read_calls S n s = None"
  by (subst read_calls.simps) (use assms in \<open>simp add: Let_def\<close>)

lemma read_calls_skip:
  assumes "split_at_str invoke_open s = Some (a, b)"
  shows "read_calls S n s = read_calls S n (invoke_open @ b)"
proof -
  have "split_at_str invoke_open (invoke_open @ b) = Some ([], b)" by (simp add: invoke_open_def)
  then show ?thesis by (subst (1 2) read_calls.simps) (simp add: assms)
qed

lemma read_plain_calls:
  "tag_free pre \<Longrightarrow> list_all (tag_free \<circ> text_after) calls \<Longrightarrow> list_all plain_call calls \<Longrightarrow>
     read_calls S n (pre @ concat (map call_text calls)) = Some (map (read_call S) (enumerate n calls))"
proof (induction calls arbitrary: pre n)
  case Nil
  then show ?case by (subst read_calls.simps) (simp add: tag_free_none)
next
  case (Cons c calls)
  obtain name body after where c: "c = (name, body, after)" by (cases c)
  with Cons.prems have p: "plain_call (name, body, after)" "tag_free after"
    by (simp_all add: text_after_def)
  let ?more = "concat (map call_text calls)"
  let ?rest = "call_text (name, body, after) @ ?more"
  note splits = plain_call_splits[OF p(1) tag_free_nothing, of ?more]
  have rest: "invoke_open @ '' name='' @ [CHR 34] @ name @ [CHR 34] @ ''>'' @ body @ invoke_close @ after @ ?more = ?rest"
    by (simp add: invoke_open_def call_text_def)
  have name: "call_name ?rest = Some name"
  proof -
    have "split_at_str (''name='' @ [CHR 34]) ?rest =
        Some (''<invoke '', name @ [CHR 34] @ ''>'' @ body @ invoke_close @ after @ ?more)"
      by (simp add: call_text_def)
    moreover have "split_at_str [CHR 34] (name @ [CHR 34] @ ''>'' @ body @ invoke_close @ after @ ?more) =
        Some (name, ''>'' @ body @ invoke_close @ after @ ?more)"
      using split_at_str_first[of "CHR 34" name "[]"] p(1) by (simp add: plain_call_def)
    ultimately show ?thesis by (simp add: call_name_def)
  qed
  let ?head = "''<invoke name='' @ [CHR 34] @ name @ [CHR 34] @ ''>''"
  have "split_at_str ''>'' ?rest = Some (''<invoke name='' @ [CHR 34] @ name @ [CHR 34], body @ invoke_close @ after @ ?more)"
    using split_at_str_first[of "CHR ''>''" "''<invoke name='' @ [CHR 34] @ name @ [CHR 34]" "[]"] p(1)
    by (simp add: plain_call_def call_text_def)
  then have bounds: "body_bounds ?rest = (length ?head, length ?head + length body)"
    using splits(2) by (simp add: body_bounds_def find_or_end_def)
  have "?rest = ?head @ body @ invoke_close @ after @ ?more" by (simp add: call_text_def)
  then have body: "take (length ?head + length body - length ?head) (drop (length ?head) ?rest) = body"
    by simp
  have "read_calls S n (pre @ ?rest) =
      map_option (\<lambda>cs. (''xml-'' @ show_nat n, name, call_args S body) # cs) (read_calls S (Suc n) (after @ ?more))"
    using read_calls_step[OF plain_call_splits(1)[OF p(1) Cons.prems(1), of ?more] rest[symmetric] name bounds _
        splits(2)[unfolded append_Nil], of S n] unfolding body by simp
  then show ?case
    using Cons.IH[OF p(2), of "Suc n"] Cons.prems(2,3) c by (simp add: read_call_def)
qed

lemma around_each:
  "tag_free (concat (map text_after calls)) \<Longrightarrow> list_all (tag_free \<circ> text_after) calls"
  by (induction calls) (auto dest: tag_free_parts)

text \<open>Claim C33. Calls written as text are read in order, each with its name and what its body says, and the text
  left is what stood around them, with the wrapping tags gone. The calls are written in full: each has its
  opening tag with a quoted name, which holds no \<open><\<close>, \<open>>\<close> or quote, and the first closing tag after it is its
  own; and what stands around the calls, put together, holds no other opening or closing tag. Any other tag may
  stand there, such as the wrapper some models put around their calls. Without these the reader can panic and the
  remover can loop, see below.\<close>

theorem calls_in_text_are_read_and_removed:
  assumes "tag_free (pre @ concat (map text_after calls))" and "list_all plain_call calls" and "calls \<noteq> []"
  shows "text_fallback S (pre @ concat (map call_text calls)) =
    Reply (strip_wrappers (pre @ concat (map text_after calls)))
      (map (read_call S) (enumerate 0 calls))"
proof -
  have "enumerate 0 calls \<noteq> []" using assms(3) by (cases calls) simp_all
  then show ?thesis
    using read_plain_calls[OF tag_free_parts(1)[OF assms(1)] around_each[OF tag_free_parts(2)[OF assms(1)]] assms(2), of S 0]
      strip_plain_calls[OF assms(1,2)]
    by (simp add: text_fallback_def parse_xml_tool_calls_def strip_xml_tool_calls_def)
qed

text \<open>Text can take the turn down with it. An opening tag closed by its closing tag alone panics the
  reader; and a call in a reply whose first closing tag stands before the first opening one is never taken out:
  each pass of the loop puts back what it cuts.\<close>

theorem call_text_can_panic_or_hang:
  assumes "CHR ''<'' \<notin> set pre" and "CHR ''<'' \<notin> set name" and "CHR ''>'' \<notin> set name" and "CHR 34 \<notin> set name"
    and "stray_close s" and "parse_xml_tool_calls S s = Some calls" and "calls \<noteq> []"
  shows "text_fallback S (pre @ ''<invoke name='' @ [CHR 34] @ name @ [CHR 34] @ invoke_close @ post) = Panics \<and>
    text_fallback S s = Hangs"
proof -
  let ?rest = "''<invoke name='' @ [CHR 34] @ name @ [CHR 34] @ invoke_close @ post"
  have o': "split_at_str invoke_open (pre @ ?rest) = Some (pre, '' name='' @ [CHR 34] @ name @ [CHR 34] @ invoke_close @ post)"
    using assms(1) by (simp add: invoke_open_def split_at_str_skip)
  have n: "call_name ?rest = Some name"
    using split_at_str_first[of "CHR 34" name "[]" "invoke_close @ post"] assms(4) by (simp add: call_name_def)
  have "split_at_str ''>'' ?rest = Some (''<invoke name='' @ [CHR 34] @ name @ [CHR 34] @ ''</invoke'', post)"
    using split_at_str_first[of "CHR ''>''" "''<invoke name='' @ [CHR 34] @ name @ [CHR 34] @ ''</invoke''" "[]" post] assms(3)
    by (simp add: invoke_close_def)
  moreover have "split_at_str invoke_close ?rest = Some (''<invoke name='' @ [CHR 34] @ name @ [CHR 34], post)"
    using split_at_str_skip[of "CHR ''<''" "''invoke name='' @ [CHR 34] @ name @ [CHR 34]" "''/invoke>''" "invoke_close @ post"]
      assms(2) by (simp add: invoke_close_def)
  ultimately have b: "body_bounds ?rest = (length name + 24, length name + 15)"
    by (simp add: body_bounds_def find_or_end_def)
  have rest: "invoke_open @ '' name='' @ [CHR 34] @ name @ [CHR 34] @ invoke_close @ post = ?rest"
    by (simp add: invoke_open_def)
  have "parse_xml_tool_calls S (pre @ ?rest) = None"
    unfolding parse_xml_tool_calls_def by (rule read_calls_panics[OF o' rest[symmetric] n b]) simp
  then have "text_fallback S (pre @ ?rest) = Panics" by (simp add: text_fallback_def)
  moreover have "text_fallback S s = Hangs"
    using assms(6,7) stray_close_never_ends[OF assms(5)] by (simp add: text_fallback_def)
  ultimately show ?thesis by simp
qed

definition stray_text :: string where
  "stray_text = invoke_close @ call_text (''list_tasks'', [], [])"

theorem call_text_can_panic_or_hang_witness:
  "text_fallback sample_serde (''<invoke name='' @ [CHR 34] @ ''list_tasks'' @ [CHR 34] @ invoke_close) = Panics \<and>
   text_fallback sample_serde stray_text = Hangs"
proof -
  have stray: "stray_close stray_text"
  proof -
    have "split_at_str invoke_close stray_text = Some ([], call_text (''list_tasks'', [], []))"
      by (simp add: stray_text_def invoke_close_def)
    moreover have "\<not> str_contains ([] @ invoke_close) invoke_open" by code_simp
    moreover have "str_contains (call_text (''list_tasks'', [], [])) invoke_open" by code_simp
    ultimately show ?thesis unfolding stray_close_def by blast
  qed
  obtain a b where ab: "split_at_str invoke_open stray_text = Some (a, b)" "invoke_open @ b = call_text (''list_tasks'', [], [])"
    by (simp add: stray_text_def call_text_def invoke_open_def invoke_close_def)
  have "plain_call (''list_tasks'', [], [])" by (simp add: plain_call_def invoke_close_def)
  then have "parse_xml_tool_calls sample_serde stray_text = Some [read_call sample_serde (0, ''list_tasks'', [], [])]"
    using read_plain_calls[of "[]" "[(''list_tasks'', [], [])]" sample_serde 0] tag_free_nothing read_calls_skip[OF ab(1), of sample_serde 0] ab(2)
    by (simp add: parse_xml_tool_calls_def text_after_def)
  from call_text_can_panic_or_hang[of "[]" "''list_tasks''", OF _ _ _ _ stray this(1), of "[]"] show ?thesis by simp
qed

theorem calls_in_text_are_read_and_removed_witness:
  "text_fallback sample_serde (''I look. <minimax:tool_call>'' @ concat (map call_text [(''search_web'', ''null'', '' Then''),
       (''list_tasks'', [], ''</minimax:tool_call> done'')])) =
     Reply ''I look.  Then done'' [(''xml-0'', ''search_web'', JNull), (''xml-1'', ''list_tasks'', JObj [])]"
proof -
  let ?pre = "''I look. <minimax:tool_call>''"
  let ?calls = "[(''search_web'', ''null'', '' Then''), (''list_tasks'', [], ''</minimax:tool_call> done'')]"
  have around: "?pre @ concat (map text_after ?calls) = ''I look. <minimax:tool_call> Then</minimax:tool_call> done''"
    by (simp add: text_after_def)
  have "tag_free (?pre @ concat (map text_after ?calls))"
    unfolding around by (simp add: tag_free_def str_contains_def invoke_open_def invoke_close_def)
  moreover have "list_all plain_call ?calls" "?calls \<noteq> []"
    by (simp_all add: plain_call_def invoke_close_def)
  ultimately have "text_fallback sample_serde (?pre @ concat (map call_text ?calls)) =
     Reply (strip_wrappers (?pre @ concat (map text_after ?calls))) (map (read_call sample_serde) (enumerate 0 ?calls))"
    by (rule calls_in_text_are_read_and_removed)
  moreover have "strip_wrappers ''I look. <minimax:tool_call> Then</minimax:tool_call> done'' = ''I look.  Then done''" by code_simp
  moreover have "map (read_call sample_serde) (enumerate 0 ?calls) =
    [(''xml-0'', ''search_web'', JNull), (''xml-1'', ''list_tasks'', JObj [])]" by code_simp
  ultimately show ?thesis by (simp only: around)
qed

end
