(* ===== verification/Tool_Results.thy ===== *)
theory Tool_Results
  imports Turn_Guard
begin

text \<open>
  What the model and the person read of a tool's result (\<open>crates/chat/src/chat/tool_results.rs\<close>): the budget
  of characters a loop feeds back, the marker of a cut, and the markers put before a result (what \<open>reason\<close>
  said it could not establish, what \<open>search_web\<close> found). How a number is shown is a parameter.
\<close>

subsection \<open>Budgets\<close>

record tool_def =
  tdef_name :: string
  tdef_description :: string
  tdef_schema :: json

definition cloud_tool_result_chars :: nat where
  "cloud_tool_result_chars = 2000"

definition chars_per_token :: nat where
  "chars_per_token = 4"

definition assumed_context_tokens :: nat where
  "assumed_context_tokens = 17000"

definition stream_tool_result_ceiling :: nat where
  "stream_tool_result_ceiling = 8000"

definition large_context_result_ceiling :: nat where
  "large_context_result_ceiling = 120000"

definition schema_chars :: "serde \<Rightarrow> tool_def list \<Rightarrow> nat" where
  "schema_chars S tools =
     sum_list (map (\<lambda>t. length (tdef_name t) + length (tdef_description t) + length (to_str S (tdef_schema t))) tools)"

text \<open>35 percent of the window, rounded down.\<close>

definition tool_result_budget :: "serde \<Rightarrow> tool_def list \<Rightarrow> nat option \<Rightarrow> nat" where
  "tool_result_budget S tools context_tokens =
     (let window = or_default assumed_context_tokens context_tokens * chars_per_token;
          allowance = window * 35 div 100;
          ceiling = (if assumed_context_tokens * chars_per_token * 2 < window
                     then large_context_result_ceiling else stream_tool_result_ceiling)
      in min ceiling (max cloud_tool_result_chars (allowance - schema_chars S tools)))"

subsection \<open>Cutting\<close>

definition truncated_marker :: "nat \<Rightarrow> nat \<Rightarrow> string" where
  "truncated_marker limit n =
     nl @ nl @ ''[TRUNCATED: showing the first '' @ show_nat limit @ '' of '' @ show_nat n @ '' characters. '' @
     ''This result is INCOMPLETE '' @ em_dash @ '' do not conclude that something is absent '' @
     ''because it does not appear above. Narrow the query (filters, limits, '' @
     ''or a more specific query string) and call the tool again.]''"

definition truncate_tool_result :: "string \<Rightarrow> nat \<Rightarrow> string" where
  "truncate_tool_result t limit =
     (if char_count t \<le> limit then t
      else take_chars limit t @ truncated_marker limit (char_count t))"

subsection \<open>Markers\<close>

definition limit_declaring_tools :: "string list" where
  "limit_declaring_tools = [''reason'']"

definition source_listing_tools :: "string list" where
  "source_listing_tools = [''search_web'']"

definition low_confidence :: rat where
  "low_confidence = 1 / 2"

definition cap_item :: "nat \<Rightarrow> string \<Rightarrow> string" where
  "cap_item n s = (if n < char_count s then take_chars n s @ ellipsis else s)"

definition trimmed_str :: "json \<Rightarrow> string option" where
  "trimmed_str v = Option.bind (as_str v) (\<lambda>s. opt_nonempty (trim s))"

definition capped_items :: "json \<Rightarrow> string \<Rightarrow> string list" where
  "capped_items v key =
     (case Option.bind (json_get v key) as_array of
        None \<Rightarrow> []
      | Some xs \<Rightarrow> map (cap_item 200) (take 3 (List.map_filter trimmed_str xs)))"

definition marker_section :: "string \<Rightarrow> string list \<Rightarrow> string" where
  "marker_section heading items =
     (if items = [] then []
      else nl @ ''  '' @ heading @ '':'' @ concat (map (\<lambda>i. nl @ ''    - '' @ i) items))"

definition unstructured_marker :: string where
  "unstructured_marker =
     ''[REASON '' @ em_dash @ '' THE TOOL DID NOT PRODUCE A STRUCTURED ANSWER. The model '' @
     ''failed to return parseable output, so what follows is raw prose, '' @
     ''not a graded result. Its `confidence`, `gaps` and `caveats` fields '' @
     ''are placeholders the tool filled in '' @ em_dash @ '' NOT the model's own '' @
     ''assessment '' @ em_dash @ '' so do not cite them or describe this answer as '' @
     ''high-confidence, verified, or established. Say in your reply that '' @
     ''this came back unstructured, or re-run the tool.]''"

definition limits_head :: string where
  "limits_head =
     ''[REASON '' @ em_dash @ '' LIMITS THE TOOL DECLARED ABOUT ITS OWN ANSWER. '' @
     ''These are things it reported it could NOT establish. Do not present '' @
     ''them as settled, and do not fill them in from general knowledge while '' @
     ''implying the tool supported it. Either state the limitation in your '' @
     ''reply, or resolve it with another tool call first '' @ em_dash @ '' then say which '' @
     ''part came from where.''"

definition reason_limits_marker :: "serde \<Rightarrow> (rat \<Rightarrow> string) \<Rightarrow> string \<Rightarrow> string \<Rightarrow> string option" where
  "reason_limits_marker S shown tool t =
     (if tool \<notin> set limit_declaring_tools then None
      else (case from_str S (trim t) of
        None \<Rightarrow> None
      | Some v \<Rightarrow>
          let gaps = capped_items v ''gaps''; caveats = capped_items v ''caveats'';
              critiques = capped_items v ''critic_counter_arguments'';
              confidence = Option.bind (json_get v ''confidence'') as_f64;
              low = (case confidence of Some c \<Rightarrow> c < low_confidence | None \<Rightarrow> False);
              failed = or_default False (Option.bind (json_get v ''structured_output_failed'') as_bool)
          in if gaps = [] \<and> caveats = [] \<and> critiques = [] \<and> \<not> low \<and> \<not> failed then None
             else if failed then Some unstructured_marker
             else Some (limits_head @ marker_section ''NOT ESTABLISHED'' gaps @ marker_section ''CAVEATS'' caveats @
                    marker_section ''THE TOOL'S OWN CRITIQUE'' critiques @
                    (case confidence of
                       Some c \<Rightarrow> if low then nl @ ''  CONFIDENCE: '' @ shown c @ '' '' @ em_dash @ '' low.'' else []
                     | None \<Rightarrow> []) @ '']'')))"

definition source_of :: "json \<Rightarrow> (string \<times> string) option" where
  "source_of item =
     (case Option.bind (case json_get item ''link'' of Some l \<Rightarrow> Some l | None \<Rightarrow> json_get item ''url'') trimmed_str of
        None \<Rightarrow> None
      | Some url \<Rightarrow>
          let title = or_default ''untitled'' (Option.bind (json_get item ''title'') trimmed_str)
          in Some (cap_item 90 title, url))"

definition sources_head :: "nat \<Rightarrow> string" where
  "sources_head n =
     ''[SEARCH SOURCES '' @ em_dash @ '' '' @ show_nat n @ '' retrieved. Every claim you take from these results '' @
     ''must carry its source as a markdown link, using the URLs below. Naming a '' @
     ''source without its link, or telling the user to go and search for it, '' @
     ''discards the retrieval and leaves nothing they can check.''"

definition search_sources_marker :: "serde \<Rightarrow> string \<Rightarrow> string \<Rightarrow> string option" where
  "search_sources_marker S tool t =
     (if tool \<notin> set source_listing_tools then None
      else (case Option.bind (from_str S (trim t)) as_array of
        None \<Rightarrow> None
      | Some items \<Rightarrow>
          let sources = take 12 (List.map_filter source_of items)
          in if sources = [] then None
             else Some (sources_head (length sources) @
                    concat (map (\<lambda>(i, title, url). nl @ ''  [S'' @ show_nat (i + 1) @ ''] '' @ title @ '' '' @ em_dash @ '' '' @ url)
                      (enumerate 0 sources)) @ '']'')))"

definition annotate_tool_result :: "serde \<Rightarrow> (rat \<Rightarrow> string) \<Rightarrow> string \<Rightarrow> string \<Rightarrow> string" where
  "annotate_tool_result S shown tool t =
     (case (case reason_limits_marker S shown tool t of Some m \<Rightarrow> Some m | None \<Rightarrow> search_sources_marker S tool t) of
        Some m \<Rightarrow> m @ nl @ nl @ t
      | None \<Rightarrow> t)"

definition prepare_tool_result :: "serde \<Rightarrow> (rat \<Rightarrow> string) \<Rightarrow> string \<Rightarrow> string \<Rightarrow> nat \<Rightarrow> string" where
  "prepare_tool_result S shown tool t limit = truncate_tool_result (annotate_tool_result S shown tool t) limit"

definition full_result_rule :: string where
  "full_result_rule = nl @ nl @ replicate 13 (CHR '' '') @ concat (replicate 5 [CHR 0xE2, CHR 0x94, CHR 0x80]) @
     '' FULL RESULT (delivered to you, not loaded into the model) '' @
     concat (replicate 5 [CHR 0xE2, CHR 0x94, CHR 0x80]) @ nl @ replicate 13 (CHR '' '')"

definition user_facing_result :: "string \<Rightarrow> string option \<Rightarrow> string" where
  "user_facing_result model_text bulk =
     (case bulk of
        Some b \<Rightarrow> if b \<noteq> [] then model_text @ full_result_rule @ b else model_text
      | None \<Rightarrow> model_text)"

subsection \<open>Properties\<close>

lemma take_chars_prefix: "\<exists>r. t = take_chars n t @ r"
  by (induction n t rule: take_chars.induct) (auto split: nat.split)

lemma char_count_take_chars: "char_count (take_chars n t) = min n (char_count t)"
  by (induction n t rule: take_chars.induct) (auto simp: char_count_def split: nat.splits)

lemma char_count_append [simp]: "char_count (s @ t) = char_count s + char_count t"
  by (simp add: char_count_def)

end
