(* ===== verification/Link_Check.thy ===== *)
theory Link_Check
  imports Items "HOL-Library.Sublist"
begin

text \<open>
  Checking the links of an answer against what the model was given
  (\<open>check_links\<close> and \<open>code_ranges\<close> of \<open>crates/knowledge/src/knowledge/exact.rs\<close>). The pattern named \<open>url\<close> is
  loaded data run by a regular expression engine: the spans it finds are the parameter \<open>url_spans\<close>, and the
  library has no such pattern when it is \<open>None\<close>.
\<close>

subsection \<open>Code in the text\<close>

text \<open>The lines with their line ends.\<close>

fun inclusive_lines :: "string \<Rightarrow> string list" where
  "inclusive_lines [] = []"
| "inclusive_lines (c # cs) =
     (if [c] = nl then [c] # inclusive_lines cs
      else (case inclusive_lines cs of [] \<Rightarrow> [[c]] | l # ls \<Rightarrow> (c # l) # ls))"

definition backtick :: string where
  "backtick = ''`''"

function inline_code :: "nat \<Rightarrow> string \<Rightarrow> (nat \<times> nat) list" where
  "inline_code off s =
     (case split_at_str backtick s of
        None \<Rightarrow> []
      | Some (a, r) \<Rightarrow>
          (case split_at_str backtick r of
             None \<Rightarrow> []
           | Some (b, r') \<Rightarrow>
               (off + length a, off + length a + 1 + length b + 1) #
               inline_code (off + length a + length b + 2) r'))"
  by pat_completeness auto
termination
proof (relation "measure (length \<circ> snd)")
  fix off s ab a r cd b r'
  assume "split_at_str backtick s = Some ab" "(a, r) = ab" "split_at_str backtick r = Some cd" "(b, r') = cd"
  then have "length r < length s" "length r' < length r"
    using split_at_str_length[of backtick] by (auto simp: backtick_def)
  then show "((off + length a + length b + 2, r'), off, s) \<in> measure (length \<circ> snd)" by simp
qed simp

declare inline_code.simps [simp del]

definition is_fence :: "string \<Rightarrow> bool" where
  "is_fence line \<longleftrightarrow> starts_with (trim_start line) ''```''"

fun code_of_lines :: "string list \<Rightarrow> nat \<Rightarrow> nat option \<Rightarrow> (nat \<times> nat) list" where
  "code_of_lines [] i fence = (case fence of Some f \<Rightarrow> [(f, i)] | None \<Rightarrow> [])"
| "code_of_lines (l # ls) i fence =
     (let e = i + length l
      in (case fence of
            None \<Rightarrow> if is_fence l then code_of_lines ls e (Some i) else inline_code i l @ code_of_lines ls e None
          | Some f \<Rightarrow> if is_fence l then (f, e) # code_of_lines ls e None else code_of_lines ls e (Some f)))"

definition code_ranges :: "string \<Rightarrow> (nat \<times> nat) list" where
  "code_ranges s = code_of_lines (inclusive_lines s) 0 None"

subsection \<open>Links\<close>

definition not_in_sources_mark :: string where
  "not_in_sources_mark = '' [link not in its sources]''"

record link_check =
  lk_text :: string
  lk_relinked :: "string list"
  lk_not_in_sources :: "string list"

definition is_hex :: "char \<Rightarrow> bool" where
  "is_hex c \<longleftrightarrow> to_ascii_lower c \<in> set ''0123456789abcdef''"

definition uuid_at :: "string \<Rightarrow> bool" where
  "uuid_at s \<longleftrightarrow> 36 \<le> length s \<and>
     list_all (\<lambda>(i, c). if i \<in> {8, 13, 18, 23} then c = CHR ''-'' else is_hex c) (enumerate 0 (take 36 s))"

fun find_uuid :: "string \<Rightarrow> string option" where
  "find_uuid [] = None"
| "find_uuid (c # cs) = (if uuid_at (c # cs) then Some (take 36 (c # cs)) else find_uuid cs)"

definition replace_range :: "nat \<Rightarrow> nat \<Rightarrow> string \<Rightarrow> string \<Rightarrow> string" where
  "replace_range a b r s = take a s @ r @ drop b s"

text \<open>Where the mark goes: past the markdown link the URL belongs to.\<close>

definition mark_place :: "string \<Rightarrow> nat \<Rightarrow> nat" where
  "mark_place s e =
     (let rest = drop e s
      in (case (if starts_with rest '']('' then split_at_str '')'' rest else None) of
            Some (a, _) \<Rightarrow> e + length a + 1
          | None \<Rightarrow>
              if rest \<noteq> [] \<and> hd rest \<in> set '')]>'' then e + 1
              else if starts_with rest [CHR 0xE3, CHR 0x80, CHR 0x91] then e + 3
              else e))"

definition mark_link :: "nat \<Rightarrow> string \<Rightarrow> link_check \<Rightarrow> link_check" where
  "mark_link e link out =
     (let p = mark_place (lk_text out) e
      in out\<lparr>lk_text := (if starts_with (drop p (lk_text out)) not_in_sources_mark then lk_text out
                         else replace_range p p not_in_sources_mark (lk_text out)),
             lk_not_in_sources := (if link \<in> set (lk_not_in_sources out) then lk_not_in_sources out
                                   else lk_not_in_sources out @ [link])\<rparr>)"

definition supported :: "string \<Rightarrow> string \<Rightarrow> bool" where
  "supported ev link \<longleftrightarrow> str_contains ev (trim_end_char (CHR ''/'') (lower link))"

definition check_link :: "string \<Rightarrow> link_check \<Rightarrow> nat \<times> nat \<times> string \<Rightarrow> link_check" where
  "check_link ev out = (\<lambda>(s, e, link).
     (if supported ev link then out
      else (case map_option lower (find_uuid link) of
              Some i \<Rightarrow>
                if str_contains ev i
                then out\<lparr>lk_text := replace_range s e (''note '' @ i) (lk_text out), lk_relinked := lk_relinked out @ [i]\<rparr>
                else mark_link e link out
            | None \<Rightarrow> mark_link e link out)))"

definition links_outside_code :: "(string \<Rightarrow> (nat \<times> nat \<times> string) list) \<Rightarrow> string \<Rightarrow> (nat \<times> nat \<times> string) list" where
  "links_outside_code url_spans s =
     filter (\<lambda>(start, _, _). \<not> list_ex (\<lambda>(a, b). a \<le> start \<and> start < b) (code_ranges s)) (url_spans s)"

definition check_links :: "(string \<Rightarrow> (nat \<times> nat \<times> string) list) option \<Rightarrow> string \<Rightarrow> string \<Rightarrow> link_check" where
  "check_links url_spans s evidence =
     (case url_spans of
        None \<Rightarrow> \<lparr>lk_text = s, lk_relinked = [], lk_not_in_sources = []\<rparr>
      | Some spans \<Rightarrow>
          let ev = replace_all (CHR 0x5C # ''/'') ''/'' (lower evidence);
              out = foldl (check_link ev) \<lparr>lk_text = s, lk_relinked = [], lk_not_in_sources = []\<rparr>
                (rev (sort_key fst (rev (links_outside_code spans s))))
          in \<lparr>lk_text = lk_text out, lk_relinked = remdups_adj (rev (lk_relinked out)),
              lk_not_in_sources = rev (lk_not_in_sources out)\<rparr>)"

subsection \<open>Properties\<close>

definition found_links :: "link_check \<Rightarrow> string \<Rightarrow> bool" where
  "found_links r link \<longleftrightarrow> link \<in> set (lk_not_in_sources r) \<or>
     (\<exists>i. find_uuid link = Some i \<and> lower i \<in> set (lk_relinked r))"

lemma check_link_grows:
  "set (lk_not_in_sources out) \<subseteq> set (lk_not_in_sources (check_link ev out l))"
  "set (lk_relinked out) \<subseteq> set (lk_relinked (check_link ev out l))"
  by (auto simp: check_link_def mark_link_def Let_def split: prod.split option.split)

lemma check_link_reports: "\<not> supported ev link \<Longrightarrow> found_links (check_link ev out (s, e, link)) link"
  by (auto simp: check_link_def mark_link_def found_links_def Let_def split: option.split)

lemma found_links_kept: "found_links out link \<Longrightarrow> found_links (check_link ev out l) link"
  using check_link_grows[of out ev l] unfolding found_links_def by blast

lemma subseq_insert: "subseq s (replace_range p p r s)"
proof -
  have "subseq (take p s @ drop p s) (take p s @ r @ drop p s)"
    by (intro list_emb_append_mono list_emb_append2) auto
  then show ?thesis by (simp add: replace_range_def)
qed

lemma check_link_keeps:
  "lk_relinked (check_link ev out l) = [] \<Longrightarrow> subseq (lk_text out) (lk_text (check_link ev out l))"
  by (auto simp: check_link_def mark_link_def Let_def subseq_insert split: prod.split option.split if_splits)

lemma check_link_supported: "supported ev link \<Longrightarrow> check_link ev out (s, e, link) = out"
  by (simp add: check_link_def)

lemma checked_links:
  "\<forall>(s, e, link) \<in> set ls. \<not> supported ev link \<longrightarrow> found_links (foldl (check_link ev) out ls) link"
  "found_links out link \<Longrightarrow> found_links (foldl (check_link ev) out ls) link"
  "lk_relinked (foldl (check_link ev) out ls) = [] \<Longrightarrow>
     lk_relinked out = [] \<and> subseq (lk_text out) (lk_text (foldl (check_link ev) out ls))"
  "(\<forall>(s, e, link) \<in> set ls. supported ev link) \<Longrightarrow> foldl (check_link ev) out ls = out"
proof (induction ls arbitrary: out link)
  case (Cons l ls)
  obtain s e k where l: "l = (s, e, k)" by (cases l)
  {
    case 1
    show ?case
      using Cons.IH(1)[of "check_link ev out l"] Cons.IH(2)[of "check_link ev out l" k] check_link_reports[of ev k out s e]
      by (auto simp: l)
  next
    case 2
    then show ?case using Cons.IH(2) found_links_kept by simp
  next
    case 3
    then have "lk_relinked (check_link ev out l) = []"
      "subseq (lk_text (check_link ev out l)) (lk_text (foldl (check_link ev) out (l # ls)))"
      using Cons.IH(3)[of "check_link ev out l"] by simp_all
    moreover have "lk_relinked out = []" using check_link_grows(2)[of out ev l] calculation(1) by simp
    ultimately show ?case using check_link_keeps[of ev out l] subseq_order.trans by blast
  next
    case 4
    then show ?case using Cons.IH(4) check_link_supported by (simp add: l)
  }
qed simp_all

text \<open>Claim C31. Checking links loses nothing and hides nothing: a link outside code that the given text does not
  hold is reported, as one not in its sources or as a note id; where no note id was written as a link the answer
  keeps every character, with marks put in; and an answer whose links are all in the given text is as it was.\<close>

theorem link_check_loses_and_hides_nothing:
  fixes spans s evidence
  defines "ev \<equiv> replace_all (CHR 0x5C # ''/'') ''/'' (lower evidence)"
    and "r \<equiv> check_links (Some spans) s evidence"
  shows "(\<forall>(a, b, link) \<in> set (links_outside_code spans s). supported ev link \<or> found_links r link) \<and>
    (lk_relinked r = [] \<longrightarrow> subseq s (lk_text r)) \<and>
    ((\<forall>(a, b, link) \<in> set (links_outside_code spans s). supported ev link) \<longrightarrow> lk_text r = s)"
proof -
  let ?ls = "rev (sort_key fst (rev (links_outside_code spans s)))"
  let ?start = "\<lparr>lk_text = s, lk_relinked = [], lk_not_in_sources = []\<rparr>"
  let ?out = "foldl (check_link ev) ?start ?ls"
  have r: "lk_text r = lk_text ?out" "lk_relinked r = remdups_adj (rev (lk_relinked ?out))"
    "lk_not_in_sources r = rev (lk_not_in_sources ?out)"
    by (simp_all add: r_def check_links_def ev_def Let_def)
  have ls: "set ?ls = set (links_outside_code spans s)" by simp
  have f: "found_links r link \<longleftrightarrow> found_links ?out link" for link by (simp add: found_links_def r)
  have "\<forall>(a, b, link) \<in> set (links_outside_code spans s). supported ev link \<or> found_links r link"
    using checked_links(1)[of ?ls ev ?start] unfolding ls f by blast
  moreover have "lk_relinked r = [] \<longrightarrow> subseq s (lk_text r)"
    using checked_links(3)[of ev ?start ?ls] by (simp add: r)
  moreover have "(\<forall>(a, b, link) \<in> set (links_outside_code spans s). supported ev link) \<longrightarrow> lk_text r = s"
    using checked_links(4)[of ?ls ev ?start] unfolding ls r by simp
  ultimately show ?thesis by blast
qed

definition sample_spans :: "string \<Rightarrow> (nat \<times> nat \<times> string) list" where
  "sample_spans s = (if starts_with s ''see http://a.b'' then [(4, 14, ''http://a.b'')] else [])"

theorem link_check_loses_and_hides_nothing_witness:
  "lk_text (check_links (Some sample_spans) ''see http://a.b now'' ''nothing'') = ''see http://a.b [link not in its sources] now'' \<and>
   subseq ''see http://a.b now'' ''see http://a.b [link not in its sources] now''"
proof -
  have r: "check_links (Some sample_spans) ''see http://a.b now'' ''nothing'' =
      \<lparr>lk_text = ''see http://a.b [link not in its sources] now'', lk_relinked = [], lk_not_in_sources = [''http://a.b'']\<rparr>"
    by code_simp
  then show ?thesis
    using link_check_loses_and_hides_nothing[where spans = sample_spans and s = "''see http://a.b now''" and evidence = "''nothing''"]
    by simp
qed

end
