(* ===== verification/Round_Loop.thy ===== *)
theory Round_Loop
  imports Tool_Results Link_Check Budget
begin

text \<open>
  The round loop every provider runs (\<open>run_round_loop\<close> of \<open>crates/chat/src/chat/round_loop.rs\<close>, with
  \<open>dispatch_tool_call\<close> of \<open>mod.rs\<close>, the caps, nudges and receipt of \<open>loop_policy.rs\<close> and the malformed-call
  messages of \<open>tool_calls.rs\<close>): it asks a model, runs the tools the model calls, gives the results back and ends
  with an answer or an error. The provider (its wire format and its model), a delegated worker and the voice
  that writes an answer from the gathered results are parameters, each by how often the loop has asked it
  before. The person stays connected: every event sent arrives.
\<close>

subsection \<open>Events, replies and outcomes\<close>

datatype chat_event =
    EThinking string
  | EToolCall string json
  | EToolResult string bool string "nat option"
  | EToken string
  | EMessage string
  | EError string
  | EDone

record tool_call_req =
  tc_id :: string
  tc_name :: string
  tc_args :: json

record malformed_call =
  mc_tool :: "string option"
  mc_error :: string

record round_reply =
  rr_text :: string
  rr_calls :: "tool_call_req list"
  rr_malformed :: "malformed_call option"

record tool_outcome =
  to_id :: string
  to_success :: bool
  to_model_text :: string

text \<open>What the loop adds to the provider's history.\<close>

datatype pushed = PushUser string | PushAssistant round_reply | PushResults "tool_outcome list"

subsection \<open>Caps and messages\<close>

definition max_empty_completion_retries :: nat where
  "max_empty_completion_retries = 2"

definition max_malformed_tool_call_retries :: nat where
  "max_malformed_tool_call_retries = 1"

definition empty_completion_message :: string where
  "empty_completion_message =
     ''The model provider returned an empty response '' @ em_dash @ '' it reported generating tokens but sent '' @
     ''no text and no tool call '' @ em_dash @ '' and did so again on every retry. Nothing was saved and no '' @
     ''action you asked for was carried out. Please retry.''"

definition final_round_nudge :: string where
  "final_round_nudge =
     ''You have used all available tool calls for this turn. Do not '' @
     ''request any more. Write the final answer now, using only what you have already gathered '' @
     ''above. If the information is incomplete, say what you found, say plainly what is still '' @
     ''missing, and stop.''"

definition no_answer_after_tools_message :: string where
  "no_answer_after_tools_message =
     ''The assistant used every available tool call for this turn and still did not produce an '' @
     ''answer. Any tool calls above did run, so work may have been done, but nothing was written '' @
     ''back. Please retry '' @ em_dash @ '' and check anything that looks like it should have been created.''"

definition no_tools_receipt :: string where
  "no_tools_receipt =
     ''GROUND TRUTH '' @ em_dash @ '' no tools ran this turn. Do not describe any action '' @
     ''(searching, fetching a URL, running code, creating, registering, or '' @
     ''ingesting anything) as having happened; answer only from prior knowledge '' @
     ''and say so.''"

definition receipt_head :: string where
  "receipt_head =
     ''GROUND TRUTH '' @ em_dash @ '' the ONLY tools that ran this turn, in order. Build the answer '' @
     ''strictly from these. Do NOT claim any action that is not listed: if `http_request` '' @
     ''is absent you fetched no URL, if `execute_code` is absent you ran no code, if '' @
     ''`ingest_api`/`define_api_context` are absent you registered no API. Treat any such '' @
     ''claim (including in any '' @ quoted ''initial analysis'' @ '') as something that did NOT happen:'' @ nl"

definition tool_trace_receipt :: "(string \<times> bool) list \<Rightarrow> string" where
  "tool_trace_receipt trace =
     (if trace = [] then no_tools_receipt
      else receipt_head @
        concat (map (\<lambda>(name, success). ''  - '' @ name @ '' ['' @ (if success then ''ok'' else ''FAILED'') @ '']'' @ nl) trace))"

definition malformed_tool_call_correction :: "string option \<Rightarrow> string \<Rightarrow> string" where
  "malformed_tool_call_correction tool err =
     (let which = (case tool of Some t \<Rightarrow> '' to `'' @ t @ ''`'' | None \<Rightarrow> [])
      in ''Your tool call'' @ which @ '' did NOT run: '' @ err @ ''. Nothing was executed. Re-emit the '' @
         ''complete call as ONE valid JSON object inside <tool_call>...</tool_call>, checking '' @
         ''that every { and [ is closed. If you cannot, answer without it and say plainly that '' @
         ''the action was not performed.'')"

definition malformed_tool_call_notice :: "string option \<Rightarrow> string \<Rightarrow> string" where
  "malformed_tool_call_notice tool err =
     (let which = (case tool of None \<Rightarrow> ''a tool'' | Some t \<Rightarrow> ''`'' @ t @ ''`'')
      in [CHR 0xE2, CHR 0x9A, CHR 0xA0] @ '' The call to '' @ which @ '' was malformed and did NOT run ('' @ err @
         ''). Nothing described above as being done by that call has happened '' @ em_dash @ '' ask again to retry it.'')"

subsection \<open>The spend check\<close>

text \<open>What the budget knows when the loop is about to make its call number \<open>n\<close>.\<close>

record spend_env =
  se_table :: provider_table
  se_limits :: limits_table
  se_chrono :: chrono
  se_fmt :: fmt
  se_now :: "nat \<Rightarrow> instant"
  se_book :: "nat \<Rightarrow> budget_book"

definition paid_cap_refusal :: "spend_env \<Rightarrow> nat \<Rightarrow> string \<Rightarrow> string \<Rightarrow> string option" where
  "paid_cap_refusal B n provider model =
     (case get_provider (se_table B) provider of
        None \<Rightarrow> None
      | Some entry \<Rightarrow>
          if pe_billing entry \<noteq> BPaid then None
          else (case budget_verdict (se_chrono B) (se_fmt B) (se_limits B) provider model entry (se_now B n) (se_book B n) of
                  Inl reason \<Rightarrow> Some reason
                | Inr _ \<Rightarrow> None))"

subsection \<open>The loop's surroundings and state\<close>

record loop_env =
  le_guard :: guard_env
  le_shown :: "rat \<Rightarrow> string"
  le_tools :: "tool_def list"
  le_context :: "nat option"
  le_model :: string
  le_provider :: "string option"
  le_spend :: spend_env
  le_allow_delegate :: bool
  le_subagents :: bool
  le_max :: nat
  le_given :: string
  le_call :: "nat \<Rightarrow> bool \<Rightarrow> pushed list \<Rightarrow> string list \<times> (string + round_reply)"
  le_delegate :: "nat \<Rightarrow> string \<Rightarrow> string \<Rightarrow> (bool \<times> bool \<times> string) \<times> chat_event list"
  le_voice :: "(string list \<Rightarrow> string \<Rightarrow> (string \<times> bool) list \<Rightarrow> chat_event list) option"
  le_url_spans :: "(string \<Rightarrow> (nat \<times> nat \<times> string) list) option"

record round_state =
  rs_turn :: turn
  rs_delegated :: nat
  rs_pushed :: "pushed list"
  rs_events :: "chat_event list"
  rs_asked :: nat
  rs_weak :: string
  rs_gathered :: "string list"
  rs_trace :: "(string \<times> bool) list"
  rs_evidence :: string
  rs_empty :: nat
  rs_malformed :: nat
  rs_rounds :: nat
  rs_answered :: bool
  rs_final :: bool

definition start_rounds :: "loop_env \<Rightarrow> round_state" where
  "start_rounds L =
     \<lparr>rs_turn = new_turn, rs_delegated = 0, rs_pushed = [], rs_events = [], rs_asked = 0, rs_weak = [],
      rs_gathered = [], rs_trace = [], rs_evidence = le_given L, rs_empty = 0, rs_malformed = 0, rs_rounds = 0,
      rs_answered = False, rs_final = False\<rparr>"

definition emit_all :: "chat_event list \<Rightarrow> round_state \<Rightarrow> round_state" where
  "emit_all es s = s\<lparr>rs_events := rs_events s @ es\<rparr>"

definition push :: "pushed \<Rightarrow> round_state \<Rightarrow> round_state" where
  "push p s = s\<lparr>rs_pushed := rs_pushed s @ [p]\<rparr>"

subsection \<open>One tool call\<close>

definition dispatch_tool_call ::
  "loop_env \<Rightarrow> string \<Rightarrow> json \<Rightarrow> round_state \<Rightarrow> call_answer \<times> round_state" where
  "dispatch_tool_call L tool args s =
     (if le_allow_delegate L \<and> le_subagents L \<and> tool = delegate_tool
      then (case le_delegate L (rs_delegated s) (or_empty (Option.bind (json_get args ''agent'') as_str))
                   (or_empty (Option.bind (json_get args ''task'') as_str)) of
              ((ok, retrieved, findings), es) \<Rightarrow>
                (\<lparr>ca_success = ok, ca_text = findings, ca_bulk = None\<rparr>,
                 emit_all es s
                   \<lparr>rs_delegated := rs_delegated s + 1,
                    rs_turn := (if retrieved then (rs_turn s)\<lparr>tn_guard := mark_retrieval (tn_guard (rs_turn s))\<rparr>
                                else rs_turn s)\<rparr>))
      else (case execute_guarded (le_guard L) tool args (rs_turn s) of
              (a, t) \<Rightarrow> (a, s\<lparr>rs_turn := t\<rparr>)))"

definition offered_names :: "loop_env \<Rightarrow> string list" where
  "offered_names L = map tdef_name (le_tools L)"

definition result_budget :: "loop_env \<Rightarrow> nat" where
  "result_budget L = tool_result_budget (ge_serde (le_guard L)) (le_tools L) (le_context L)"

text \<open>The answer of a call, and what the model and the person read of it.\<close>

definition answer_call :: "loop_env \<Rightarrow> tool_call_req \<Rightarrow> round_state \<Rightarrow> call_answer \<times> round_state" where
  "answer_call L c s =
     (case not_one_of_yours (tc_name c) (offered_names L) (le_allow_delegate L) of
        Some refusal \<Rightarrow> (\<lparr>ca_success = False, ca_text = refusal, ca_bulk = None\<rparr>, s)
      | None \<Rightarrow> dispatch_tool_call L (tc_name c) (tc_args c) s)"

definition note_result :: "loop_env \<Rightarrow> tool_call_req \<Rightarrow> call_answer \<Rightarrow> round_state \<Rightarrow> tool_outcome \<times> round_state" where
  "note_result L c a s =
     (let S = ge_serde (le_guard L); name = tc_name c;
          preview = user_facing_result (annotate_tool_result S (le_shown L) name (ca_text a)) (ca_bulk a);
          model_text = prepare_tool_result S (le_shown L) name (ca_text a) (result_budget L);
          model_saw = (if char_count model_text < char_count preview then Some (char_count model_text) else None)
      in (\<lparr>to_id = tc_id c, to_success = ca_success a, to_model_text = model_text\<rparr>,
          emit_all [EToolResult name (ca_success a) preview model_saw] s
            \<lparr>rs_evidence := rs_evidence s @ nl @ model_text,
             rs_trace := rs_trace s @ [(name, ca_success a)],
             rs_gathered := (if le_voice L \<noteq> None \<and> ca_success a
                             then rs_gathered s @ [''### '' @ name @ nl @ model_text] else rs_gathered s)\<rparr>))"

definition run_call :: "loop_env \<Rightarrow> tool_call_req \<Rightarrow> round_state \<Rightarrow> tool_outcome \<times> round_state" where
  "run_call L c s =
     (case answer_call L c (emit_all [EToolCall (tc_name c) (tc_args c)] s) of (a, s1) \<Rightarrow> note_result L c a s1)"

fun run_round_calls :: "loop_env \<Rightarrow> tool_call_req list \<Rightarrow> round_state \<Rightarrow> tool_outcome list \<times> round_state" where
  "run_round_calls L [] s = ([], s)"
| "run_round_calls L (c # cs) s =
     (case run_call L c s of (o1, s1) \<Rightarrow>
      case run_round_calls L cs s1 of (os, s2) \<Rightarrow> (o1 # os, s2))"

subsection \<open>One pass\<close>

text \<open>A pass goes on to the next (\<open>Again\<close>), leaves the loop (\<open>Leave\<close>) or returns from the function (\<open>Return\<close>).\<close>

datatype pass_end = Again round_state | Leave round_state | Return round_state

definition wrap_up :: "loop_env \<Rightarrow> round_state \<Rightarrow> round_state" where
  "wrap_up L s =
     (if \<not> rs_final s \<and> le_max L \<le> rs_rounds s
      then push (PushUser (final_round_nudge @ nl @ nl @ tool_trace_receipt (rs_trace s))) (s\<lparr>rs_final := True\<rparr>)
      else s)"

definition malformed_reply :: "round_reply \<Rightarrow> malformed_call \<Rightarrow> round_state \<Rightarrow> pass_end" where
  "malformed_reply r bad s =
     (let s1 = emit_all [EToolResult (or_default ''(unparsed tool call)'' (mc_tool bad)) False
                 (''Malformed tool call '' @ em_dash @ '' not executed: '' @ mc_error bad) None] s
      in if rs_malformed s < max_malformed_tool_call_retries
         then Again (push (PushUser (malformed_tool_call_correction (mc_tool bad) (mc_error bad) @ nl @ nl @
                       tool_trace_receipt (rs_trace s)))
                (push (PushAssistant r) (s1\<lparr>rs_malformed := rs_malformed s + 1\<rparr>)))
         else let notice = malformed_tool_call_notice (mc_tool bad) (mc_error bad); prose = trim (rr_text r)
              in Leave (emit_all [EMessage (if prose = [] then notice else prose @ nl @ nl @ notice)] s1
                   \<lparr>rs_answered := True\<rparr>))"

definition spoken_reply :: "loop_env \<Rightarrow> round_reply \<Rightarrow> round_state \<Rightarrow> pass_end" where
  "spoken_reply L r s =
     (if rr_text r = []
      then if rs_empty s < max_empty_completion_retries then Again (s\<lparr>rs_empty := rs_empty s + 1\<rparr>)
           else Return (emit_all [EError empty_completion_message, EDone] s)
      else if le_voice L \<noteq> None
      then Leave (emit_all [EThinking (rr_text r)] s\<lparr>rs_answered := True, rs_weak := rr_text r\<rparr>)
      else Leave (emit_all [EMessage (lk_text (check_links (le_url_spans L) (rr_text r) (rs_evidence s)))] s
             \<lparr>rs_answered := True\<rparr>))"

definition calling_reply :: "loop_env \<Rightarrow> round_reply \<Rightarrow> round_state \<Rightarrow> pass_end" where
  "calling_reply L r s =
     (let s1 = s\<lparr>rs_rounds := rs_rounds s + 1\<rparr>;
          s2 = (if trim (rr_text r) \<noteq> [] then emit_all [EThinking (rr_text r)] s1 else s1)
      in case run_round_calls L (rr_calls r) (push (PushAssistant r) s2) of
           (outcomes, s3) \<Rightarrow> Again (push (PushResults outcomes) s3))"

definition take_reply :: "loop_env \<Rightarrow> round_reply \<Rightarrow> round_state \<Rightarrow> pass_end" where
  "take_reply L r s =
     (case rr_malformed r of
        Some bad \<Rightarrow> malformed_reply r bad s
      | None \<Rightarrow> if rr_calls r = [] then spoken_reply L r s else calling_reply L r s)"

definition spend_refusal :: "loop_env \<Rightarrow> nat \<Rightarrow> string option" where
  "spend_refusal L n = Option.bind (le_provider L) (\<lambda>p. paid_cap_refusal (le_spend L) n p (le_model L))"

definition round_pass :: "loop_env \<Rightarrow> round_state \<Rightarrow> pass_end" where
  "round_pass L s =
     (let s1 = wrap_up L s in
      case spend_refusal L (rs_asked s1) of
        Some reason \<Rightarrow>
          Return (emit_all [EError (le_model L @ '' stopped before its next call: '' @ reason), EDone] s1)
      | None \<Rightarrow>
          (case le_call L (rs_asked s1) (\<not> rs_final s1) (rs_pushed s1) of
             (tokens, answer) \<Rightarrow>
               let s2 = (if le_voice L = None then emit_all (map EToken tokens) s1 else s1)\<lparr>rs_asked := rs_asked s1 + 1\<rparr>
               in case answer of
                    Inl message \<Rightarrow> Return (emit_all [EError message, EDone] s2)
                  | Inr r \<Rightarrow> take_reply L r s2))"

fun run_passes :: "loop_env \<Rightarrow> nat \<Rightarrow> round_state \<Rightarrow> pass_end" where
  "run_passes L 0 s = Leave s"
| "run_passes L (Suc n) s = (case round_pass L s of Again s1 \<Rightarrow> run_passes L n s1 | e \<Rightarrow> e)"

definition round_bound :: "loop_env \<Rightarrow> nat" where
  "round_bound L = le_max L + max_empty_completion_retries + max_malformed_tool_call_retries + 1"

definition finish_rounds :: "loop_env \<Rightarrow> round_state \<Rightarrow> round_state" where
  "finish_rounds L s =
     emit_all [EDone]
       (case le_voice L of
          Some voice \<Rightarrow> emit_all (voice (rs_gathered s) (rs_weak s) (rs_trace s)) s
        | None \<Rightarrow> if rs_answered s then s else emit_all [EError no_answer_after_tools_message] s)"

definition run_round_loop :: "loop_env \<Rightarrow> round_state" where
  "run_round_loop L =
     (case run_passes L (round_bound L + 1) (start_rounds L) of
        Return s \<Rightarrow> s
      | Leave s \<Rightarrow> finish_rounds L s
      | Again s \<Rightarrow> finish_rounds L s)"

subsection \<open>What a pass keeps\<close>

lemma emit_all_simps [simp]:
  "rs_turn (emit_all es s) = rs_turn s" "rs_trace (emit_all es s) = rs_trace s"
  "rs_rounds (emit_all es s) = rs_rounds s" "rs_empty (emit_all es s) = rs_empty s"
  "rs_malformed (emit_all es s) = rs_malformed s" "rs_asked (emit_all es s) = rs_asked s"
  "rs_final (emit_all es s) = rs_final s" "rs_answered (emit_all es s) = rs_answered s"
  "rs_events (emit_all es s) = rs_events s @ es"
  by (simp_all add: emit_all_def)

lemma push_simps [simp]:
  "rs_turn (push p s) = rs_turn s" "rs_trace (push p s) = rs_trace s"
  "rs_rounds (push p s) = rs_rounds s" "rs_empty (push p s) = rs_empty s"
  "rs_malformed (push p s) = rs_malformed s" "rs_asked (push p s) = rs_asked s"
  "rs_final (push p s) = rs_final s" "rs_answered (push p s) = rs_answered s"
  "rs_events (push p s) = rs_events s"
  by (simp_all add: push_def)

text \<open>What a call changes is the guard, the trace and what is read of it, never the loop's counters.\<close>

definition counters :: "round_state \<Rightarrow> nat \<times> nat \<times> nat \<times> nat \<times> bool \<times> bool" where
  "counters s = (rs_rounds s, rs_empty s, rs_malformed s, rs_asked s, rs_final s, rs_answered s)"

lemma counters_of_update [simp]: "counters (emit_all es s) = counters s" "counters (push p s) = counters s"
  by (simp_all add: counters_def)

lemma answer_call_keeps:
  assumes "answer_call L c s = (a, s1)"
  shows "counters s1 = counters s" "rs_trace s1 = rs_trace s" "set (rs_events s) \<subseteq> set (rs_events s1)"
  using assms by (auto simp: answer_call_def dispatch_tool_call_def counters_def
      split: option.splits if_splits prod.splits)

lemma run_call_cases:
  obtains a s1 where "answer_call L c (emit_all [EToolCall (tc_name c) (tc_args c)] s) = (a, s1)"
    "rs_turn (snd (run_call L c s)) = rs_turn s1"
    "rs_trace (snd (run_call L c s)) = rs_trace s @ [(tc_name c, ca_success a)]"
    "counters (snd (run_call L c s)) = counters s"
    "insert (EToolCall (tc_name c) (tc_args c)) (set (rs_events s)) \<subseteq> set (rs_events (snd (run_call L c s)))"
proof -
  obtain a s1 where a: "answer_call L c (emit_all [EToolCall (tc_name c) (tc_args c)] s) = (a, s1)" by fastforce
  show thesis
    using that[OF a] answer_call_keeps[OF a] a
    by (auto simp: run_call_def note_result_def counters_def Let_def)
qed

lemma run_round_calls_counters [simp]: "counters (snd (run_round_calls L cs s)) = counters s"
proof (induction cs arbitrary: s)
  case (Cons c cs)
  have "counters (snd (run_call L c s)) = counters s" by (rule run_call_cases[of L c s]) simp
  then show ?case using Cons[of "snd (run_call L c s)"] by (auto split: prod.split)
qed simp

definition asked_with :: "loop_env \<Rightarrow> round_state \<Rightarrow> string list \<Rightarrow> round_state" where
  "asked_with L s tokens =
     (if le_voice L = None then emit_all (map EToken tokens) (wrap_up L s) else wrap_up L s)\<lparr>rs_asked := rs_asked s + 1\<rparr>"

lemma wrap_up_events [simp]: "rs_events (wrap_up L s) = rs_events s"
  by (simp add: wrap_up_def)

lemma asked_with_events: "set (rs_events s) \<subseteq> set (rs_events (asked_with L s ts))"
  by (auto simp: asked_with_def)

lemma asked_with_simps [simp]:
  "rs_turn (asked_with L s ts) = rs_turn s" "rs_trace (asked_with L s ts) = rs_trace s"
  "rs_rounds (asked_with L s ts) = rs_rounds s" "rs_empty (asked_with L s ts) = rs_empty s"
  "rs_malformed (asked_with L s ts) = rs_malformed s" "rs_asked (asked_with L s ts) = rs_asked s + 1"
  "rs_final (asked_with L s ts) \<longleftrightarrow> rs_final s \<or> le_max L \<le> rs_rounds s"
  "rs_answered (asked_with L s ts) = rs_answered s"
  by (auto simp: asked_with_def wrap_up_def)

text \<open>The ways a pass ends: with an error said, with an answer said, or in one of three rounds more.\<close>

lemma pass_cases [consumes 1, case_names refused failed malformed reported retried empty answered called]:
  assumes "round_pass L s = e"
  obtains (refused) reason where "spend_refusal L (rs_asked s) = Some reason"
      "e = Return (emit_all [EError (le_model L @ '' stopped before its next call: '' @ reason), EDone] (wrap_up L s))"
  | (failed) ts message where "spend_refusal L (rs_asked s) = None"
      "e = Return (emit_all [EError message, EDone] (asked_with L s ts))"
  | (malformed) ts s1 where "spend_refusal L (rs_asked s) = None" "rs_malformed s < max_malformed_tool_call_retries"
      "e = Again s1" "counters s1 = counters ((asked_with L s ts)\<lparr>rs_malformed := rs_malformed s + 1\<rparr>)"
      "rs_turn s1 = rs_turn s" "rs_trace s1 = rs_trace s" "set (rs_events s) \<subseteq> set (rs_events s1)"
  | (reported) ts s1 es m where "spend_refusal L (rs_asked s) = None"
      "e = Leave s1" "counters s1 = counters ((asked_with L s ts)\<lparr>rs_answered := True\<rparr>)"
      "rs_events s1 = es @ [EMessage m]" "rs_turn s1 = rs_turn s" "rs_trace s1 = rs_trace s"
      "set (rs_events s) \<subseteq> set (rs_events s1)"
  | (retried) ts where "spend_refusal L (rs_asked s) = None" "rs_empty s < max_empty_completion_retries"
      "e = Again ((asked_with L s ts)\<lparr>rs_empty := rs_empty s + 1\<rparr>)"
  | (empty) ts where "spend_refusal L (rs_asked s) = None"
      "e = Return (emit_all [EError empty_completion_message, EDone] (asked_with L s ts))"
  | (answered) ts s1 es e1 where "spend_refusal L (rs_asked s) = None"
      "e = Leave s1" "counters s1 = counters ((asked_with L s ts)\<lparr>rs_answered := True\<rparr>)"
      "rs_events s1 = es @ [e1]" "(\<exists>m. e1 = EMessage m) \<or> le_voice L \<noteq> None"
      "rs_turn s1 = rs_turn s" "rs_trace s1 = rs_trace s" "set (rs_events s) \<subseteq> set (rs_events s1)"
  | (called) ts s0 cs s1 where "spend_refusal L (rs_asked s) = None"
      "e = Again s1" "rs_turn s0 = rs_turn s" "rs_trace s0 = rs_trace s" "set (rs_events s) \<subseteq> set (rs_events s0)"
      "counters s0 = counters ((asked_with L s ts)\<lparr>rs_rounds := rs_rounds s + 1\<rparr>)" "counters s1 = counters s0"
      "rs_turn s1 = rs_turn (snd (run_round_calls L cs s0))" "rs_trace s1 = rs_trace (snd (run_round_calls L cs s0))"
      "rs_events s1 = rs_events (snd (run_round_calls L cs s0))"
proof (cases "spend_refusal L (rs_asked s)")
  case (Some reason)
  then show thesis using assms refused by (simp add: round_pass_def wrap_up_def Let_def push_def emit_all_def split: if_splits)
next
  case None
  have w: "rs_asked (wrap_up L s) = rs_asked s" by (simp add: wrap_up_def)
  obtain ts ans where c: "le_call L (rs_asked s) (\<not> rs_final (wrap_up L s)) (rs_pushed (wrap_up L s)) = (ts, ans)"
    by fastforce
  let ?s2 = "asked_with L s ts"
  note kept = asked_with_events[of s L ts]
  have e: "e = (case ans of Inl message \<Rightarrow> Return (emit_all [EError message, EDone] ?s2) | Inr r \<Rightarrow> take_reply L r ?s2)"
    unfolding assms[symmetric] round_pass_def by (cases ans) (simp_all add: None w c asked_with_def Let_def)
  show thesis
  proof (cases ans)
    case (Inl m)
    then show thesis using failed[OF None] e by simp
  next
    case (Inr r)
    then have e: "e = take_reply L r ?s2" using e by simp
    define s1 where "s1 = (case e of Again s \<Rightarrow> s | Leave s \<Rightarrow> s | Return s \<Rightarrow> s)"
    show thesis
    proof (cases "rr_malformed r")
      case (Some bad)
      show thesis
      proof (cases "rs_malformed s < max_malformed_tool_call_retries")
        case True
        then show thesis
          by (intro malformed[OF None True, of s1 ts])
            (use kept in \<open>auto simp: s1_def e take_reply_def Some malformed_reply_def counters_def Let_def\<close>)
      next
        case False
        then show thesis
          by (intro reported[OF None, of s1 ts])
            (use kept in \<open>auto simp: s1_def e take_reply_def Some malformed_reply_def counters_def Let_def\<close>)
      qed
    next
      case m: None
      show thesis
      proof (cases "rr_calls r = []")
        case True
        show thesis
        proof (cases "rr_text r = []")
          case t: True
          show thesis
          proof (cases "rs_empty s < max_empty_completion_retries")
            case True
            then show thesis by (intro retried[OF None True, of ts]) (simp add: e take_reply_def m \<open>rr_calls r = []\<close> spoken_reply_def t)
          next
            case False
            then show thesis by (intro empty[OF None, of ts]) (simp add: e take_reply_def m \<open>rr_calls r = []\<close> spoken_reply_def t)
          qed
        next
          case False
          then show thesis
            by (cases "le_voice L"; intro answered[OF None, of s1 ts])
              (use kept in \<open>auto simp: s1_def e take_reply_def m \<open>rr_calls r = []\<close> spoken_reply_def counters_def\<close>)
        qed
      next
        case False
        define s0 where "s0 = push (PushAssistant r) (if trim (rr_text r) \<noteq> []
          then emit_all [EThinking (rr_text r)] (?s2\<lparr>rs_rounds := rs_rounds ?s2 + 1\<rparr>)
          else ?s2\<lparr>rs_rounds := rs_rounds ?s2 + 1\<rparr>)"
        have e: "e = Again (push (PushResults (fst (run_round_calls L (rr_calls r) s0))) (snd (run_round_calls L (rr_calls r) s0)))"
          by (simp add: e take_reply_def m False calling_reply_def s0_def Let_def split: prod.split)
        show thesis
          by (rule called[OF None e, of s0 ts "rr_calls r"])
            (use kept in \<open>auto simp: s0_def\<close>)
      qed
    qed
  qed
qed

subsection \<open>What calls keep, the loop keeps\<close>

definition seen_by :: "(turn \<Rightarrow> (string \<times> bool) list \<Rightarrow> chat_event set \<Rightarrow> bool) \<Rightarrow> round_state \<Rightarrow> bool" where
  "seen_by P s \<longleftrightarrow> P (rs_turn s) (rs_trace s) (set (rs_events s))"

text \<open>A fact about the guard of a turn, its receipt and the events sent so far that every answered call keeps holds
  when the loop ends.\<close>

locale call_invariant =
  fixes L :: loop_env
    and P :: "turn \<Rightarrow> (string \<times> bool) list \<Rightarrow> chat_event set \<Rightarrow> bool"
  assumes starts: "P new_turn [] {}"
    and more_events: "P t tr E \<Longrightarrow> E \<subseteq> E' \<Longrightarrow> P t tr E'"
    and answer_keeps: "P (rs_turn s) tr E \<Longrightarrow> EToolCall (tc_name c) (tc_args c) \<in> E \<Longrightarrow> answer_call L c s = (a, s1) \<Longrightarrow>
      P (rs_turn s1) (tr @ [(tc_name c, ca_success a)]) E"
begin

lemma holds_later:
  "seen_by P s \<Longrightarrow> rs_turn s1 = rs_turn s \<Longrightarrow> rs_trace s1 = rs_trace s \<Longrightarrow> set (rs_events s) \<subseteq> set (rs_events s1) \<Longrightarrow> seen_by P s1"
  unfolding seen_by_def using more_events by simp

lemma run_call_keeps:
  assumes "seen_by P s"
  shows "seen_by P (snd (run_call L c s))"
proof (rule run_call_cases[of L c s])
  fix a s1
  assume a: "answer_call L c (emit_all [EToolCall (tc_name c) (tc_args c)] s) = (a, s1)"
    and r: "rs_turn (snd (run_call L c s)) = rs_turn s1"
      "rs_trace (snd (run_call L c s)) = rs_trace s @ [(tc_name c, ca_success a)]"
    and ev: "insert (EToolCall (tc_name c) (tc_args c)) (set (rs_events s)) \<subseteq> set (rs_events (snd (run_call L c s)))"
  have "P (rs_turn (emit_all [EToolCall (tc_name c) (tc_args c)] s)) (rs_trace s) (set (rs_events (snd (run_call L c s))))"
    using assms ev more_events by (simp add: seen_by_def)
  from answer_keeps[OF this _ a] ev show ?thesis by (simp add: seen_by_def r)
qed

lemma run_round_calls_keeps: "seen_by P s \<Longrightarrow> seen_by P (snd (run_round_calls L cs s))"
proof (induction cs arbitrary: s)
  case (Cons c cs)
  show ?case
    using Cons.IH[OF run_call_keeps[OF Cons.prems, of c]] by (auto split: prod.split)
qed simp

lemma pass_keeps:
  assumes "seen_by P s" and "round_pass L s \<in> {Again s1, Leave s1, Return s1}"
  shows "seen_by P s1"
proof -
  obtain e where e: "round_pass L s = e" "e \<in> {Again s1, Leave s1, Return s1}" using assms(2) by blast
  have later: "seen_by P s2"
    if "rs_turn s2 = rs_turn s" "rs_trace s2 = rs_trace s" "set (rs_events s) \<subseteq> set (rs_events s2)" for s2
    using holds_later[OF assms(1) that] .
  have w: "rs_turn (wrap_up L s) = rs_turn s" "rs_trace (wrap_up L s) = rs_trace s" by (simp_all add: wrap_up_def)
  show ?thesis
    using e(1)
  proof (cases rule: pass_cases)
    case (called ts s0 cs s2)
    then have "seen_by P (snd (run_round_calls L cs s0))" using run_round_calls_keeps later by blast
    then show ?thesis using called e(2) by (auto simp: seen_by_def)
  qed (use e(2) w in \<open>auto intro!: later intro: asked_with_events[THEN subsetD]\<close>)
qed

lemma passes_keep: "seen_by P s \<Longrightarrow> run_passes L n s \<in> {Again s1, Leave s1, Return s1} \<Longrightarrow> seen_by P s1"
proof (induction n arbitrary: s)
  case (Suc n)
  then show ?case using pass_keeps[OF Suc.prems(1)] by (cases "round_pass L s") fastforce+
qed simp

lemma loop_keeps:
  "P (rs_turn (run_round_loop L)) (rs_trace (run_round_loop L)) (set (rs_events (run_round_loop L)))"
proof -
  have P: "seen_by P (start_rounds L)" by (simp add: start_rounds_def starts seen_by_def)
  have f: "seen_by P (finish_rounds L s)" if "seen_by P s" for s
    by (rule holds_later[OF that]) (auto simp: finish_rounds_def split: option.split)
  show ?thesis
    using passes_keep[OF P, of "round_bound L + 1"] f
    by (cases "run_passes L (round_bound L + 1) (start_rounds L)") (auto simp: run_round_loop_def simp flip: seen_by_def)
qed

end

text \<open>A call that is answered ran no tool, or ran the one it names and was answered with its outcome.\<close>

lemma execute_cases:
  assumes "execute_guarded G tool args t = (a, t1)"
  obtains (not_run) "tn_ran t1 = tn_ran t"
  | (ran) sent where "tn_ran t1 = tn_ran t @ [(tool, args, sent, ca_success a)]"
proof -
  have "tn_ran t1 = tn_ran t \<or> (\<exists>sent. tn_ran t1 = tn_ran t @ [(tool, args, sent, ca_success a)])"
    using assms
    by (auto simp: execute_guarded_def send_call_def Let_def split: if_splits prod.splits screened.splits)
  then show thesis using not_run ran by blast
qed

lemma answer_cases:
  assumes "answer_call L c s = (a, s1)"
  obtains (kept) "tn_ran (rs_turn s1) = tn_ran (rs_turn s)"
      "tg_seen_writes (tn_guard (rs_turn s1)) = tg_seen_writes (tn_guard (rs_turn s))"
  | (executed) "execute_guarded (le_guard L) (tc_name c) (tc_args c) (rs_turn s) = (a, rs_turn s1)"
      "tc_name c \<in> set (offered_names L) \<or> (le_allow_delegate L \<and> \<not> le_subagents L \<and> tc_name c = delegate_tool)"
  using assms
  by (auto simp: answer_call_def dispatch_tool_call_def not_one_of_yours_def mark_retrieval_def
      split: if_splits prod.splits option.splits)

definition offered_only :: "loop_env \<Rightarrow> turn \<Rightarrow> bool" where
  "offered_only L t \<longleftrightarrow> (\<forall>c \<in> set (tn_ran t). fst c \<in> set (offered_names L) \<or>
     (le_allow_delegate L \<and> \<not> le_subagents L \<and> fst c = delegate_tool))"

interpretation offered: call_invariant L "\<lambda>t _ _. offered_only L t" for L
proof unfold_locales
  show "offered_only L new_turn" by (simp add: offered_only_def new_turn_def)
next
  fix s c a s1
  assume P: "offered_only L (rs_turn s)" and a: "answer_call L c s = (a, s1)"
  from a show "offered_only L (rs_turn s1)"
  proof (cases rule: answer_cases)
    case kept
    then show ?thesis using P by (simp add: offered_only_def)
  next
    case executed
    from executed(1) show ?thesis by (cases rule: execute_cases) (use P executed(2) in \<open>auto simp: offered_only_def\<close>)
  qed
qed

definition writes_once :: "guard_env \<Rightarrow> turn \<Rightarrow> bool" where
  "writes_once G t \<longleftrightarrow> distinct (turn_writes t) \<and>
     (\<forall>c \<in> set (turn_writes t). ge_fingerprint G (fst c) (snd c) \<in> set (tg_seen_writes (tn_guard t)))"

lemma execute_writes_once:
  assumes "writes_once G t"
  shows "writes_once G (snd (execute_guarded G tool args t))"
proof (cases "ge_fingerprint G" tool args "tn_guard t" rule: screen_cases[where ok = False])
  case suppressed
  then show ?thesis using assms by (auto simp: execute_guarded_def writes_once_def)
next
  case (sent sc args' g')
  show ?thesis
  proof (cases "ge_probe G \<and> \<not> probe_may_run tool args")
    case True
    then show ?thesis using assms by (simp add: execute_guarded_def)
  next
    case False
    then obtain notice where "execute_guarded G tool args t = send_call G tool args args' notice (t\<lparr>tn_guard := g'\<rparr>)"
      using sent by (auto simp: execute_guarded_def)
    then show ?thesis
      using assms sent(3,4)
      by (cases "ge_handler G") (auto simp: send_call_def writes_once_def Let_def)
  qed
qed

interpretation writes: call_invariant L "\<lambda>t _ _. writes_once (le_guard L) t" for L
proof unfold_locales
  show "writes_once (le_guard L) new_turn" by (simp add: writes_once_def new_turn_def turn_writes_def)
next
  fix s c a s1
  assume P: "writes_once (le_guard L) (rs_turn s)" and a: "answer_call L c s = (a, s1)"
  from a show "writes_once (le_guard L) (rs_turn s1)"
  proof (cases rule: answer_cases)
    case kept
    then show ?thesis using P by (simp add: writes_once_def turn_writes_def)
  next
    case executed
    then show ?thesis using execute_writes_once[OF P, of "tc_name c" "tc_args c"] by simp
  qed
qed

text \<open>What a receipt must hold: the tools that ran, in order, each with its outcome.\<close>

definition ran_receipt :: "turn \<Rightarrow> (string \<times> bool) list" where
  "ran_receipt t = map (\<lambda>(tool, asked, sent, ok). (tool, ok)) (tn_ran t)"

interpretation receipts: call_invariant L "\<lambda>t tr _. subseq (ran_receipt t) tr" for L
proof unfold_locales
  show "subseq (ran_receipt new_turn) []" by (simp add: ran_receipt_def new_turn_def)
next
  fix s tr c a s1
  assume P: "subseq (ran_receipt (rs_turn s)) tr" and a: "answer_call L c s = (a, s1)"
  from a show "subseq (ran_receipt (rs_turn s1)) (tr @ [(tc_name c, ca_success a)])"
  proof (cases rule: answer_cases)
    case kept
    then show ?thesis using P by (simp add: ran_receipt_def list_emb_append2 subseq_rev_drop_many)
  next
    case executed
    from executed(1) show ?thesis
      by (cases rule: execute_cases) (use P in \<open>auto simp: ran_receipt_def list_emb_append_mono subseq_rev_drop_many\<close>)
  qed
qed

text \<open>Every tool that runs was announced.\<close>

definition announced :: "turn \<Rightarrow> chat_event set \<Rightarrow> bool" where
  "announced t E \<longleftrightarrow> (\<forall>c \<in> set (tn_ran t). EToolCall (fst (ran_call c)) (snd (ran_call c)) \<in> E)"

interpretation announcing: call_invariant L "\<lambda>t _ E. announced t E" for L
proof unfold_locales
  fix s E c a s1
  assume P: "announced (rs_turn s) E" and c: "EToolCall (tc_name c) (tc_args c) \<in> E" and a: "answer_call L c s = (a, s1)"
  from a show "announced (rs_turn s1) E"
  proof (cases rule: answer_cases)
    case kept
    then show ?thesis using P by (simp add: announced_def)
  next
    case executed
    from executed(1) show ?thesis by (cases rule: execute_cases) (use P c in \<open>auto simp: announced_def ran_call_def\<close>)
  qed
qed (auto simp: announced_def new_turn_def)

subsection \<open>What a turn runs\<close>

text \<open>Claim C2. Whatever a model asks for in one loop, which is one model's attempt at a turn, however its rounds go and
  whatever the tools and the workers answer: only a tool the loop offered runs (or the unregistered \<open>delegate\<close>, where
  workers are off and so no such tool is there), no write runs twice with the same arguments, and the receipt the
  answer is anchored to holds every tool that ran, in order, with its real outcome. The next model of a turn starts
  a loop of its own with a guard that has seen nothing, so over a whole turn a write can run again: see
  \<open>Chat_Ladder\<close>.\<close>

theorem a_turn_runs_what_it_offered_and_says_so:
  shows "offered_only L (rs_turn (run_round_loop L)) \<and>
    distinct (turn_writes (rs_turn (run_round_loop L))) \<and>
    subseq (ran_receipt (rs_turn (run_round_loop L))) (rs_trace (run_round_loop L))"
  using offered.loop_keeps[of L] writes.loop_keeps[of L] receipts.loop_keeps[of L]
  by (simp add: writes_once_def)

subsection \<open>How a turn ends\<close>

lemma passes_end:
  assumes "le_voice L = None" and "run_passes L n s = e"
  shows "(\<exists>s1 es m. e = Return s1 \<and> rs_events s1 = es @ [EError m, EDone]) \<or>
    (\<exists>s1. e = Leave s1 \<and> ((\<exists>es m. rs_events s1 = es @ [EMessage m]) \<or> rs_answered s1 = rs_answered s))"
  using assms(2)
proof (induction n arbitrary: s)
  case (Suc n)
  obtain p where p: "round_pass L s = p" by blast
  then show ?case
  proof (cases rule: pass_cases)
    case (malformed ts s1)
    then show ?thesis using Suc.IH[of s1] Suc.prems p by (simp add: counters_def)
  next
    case (retried ts)
    then show ?thesis using Suc.IH[of "(asked_with L s ts)\<lparr>rs_empty := rs_empty s + 1\<rparr>"] Suc.prems p by simp
  next
    case (called ts s0 cs s1)
    then show ?thesis using Suc.IH[of s1] Suc.prems p by (simp add: counters_def)
  qed (use Suc.prems assms(1) p in \<open>auto simp: counters_def\<close>)
qed auto

text \<open>A turn without a voice model never ends in silence: whatever its model, tools and workers do, its
  stream ends with an answer or an error, and then that it is done.\<close>

theorem a_turn_never_ends_silently:
  assumes "le_voice L = None"
  shows "\<exists>es e. rs_events (run_round_loop L) = es @ [e, EDone] \<and> (\<exists>m. e = EMessage m \<or> e = EError m)"
proof -
  obtain e where e: "run_passes L (round_bound L + 1) (start_rounds L) = e" by blast
  from passes_end[OF assms e] show ?thesis
  proof (elim disjE exE conjE)
    fix s1 es m assume "e = Return s1" "rs_events s1 = es @ [EError m, EDone]"
    then show ?thesis using e by (auto simp: run_round_loop_def)
  next
    fix s1 es m assume "e = Leave s1" "rs_events s1 = es @ [EMessage m]"
    then show ?thesis
      using e by (cases "rs_answered s1") (auto simp: run_round_loop_def finish_rounds_def assms)
  next
    fix s1 assume "e = Leave s1" "rs_answered s1 = rs_answered (start_rounds L)"
    then show ?thesis using e by (simp add: run_round_loop_def finish_rounds_def assms start_rounds_def)
  qed
qed

text \<open>The counters a loop keeps: each pass made is a tool round, an empty completion or a malformed call.\<close>

definition counted :: "loop_env \<Rightarrow> nat \<Rightarrow> round_state \<Rightarrow> bool" where
  "counted L n s \<longleftrightarrow> rs_asked s = n \<and> rs_asked s = rs_rounds s + rs_empty s + rs_malformed s \<and>
     rs_empty s \<le> max_empty_completion_retries \<and> rs_malformed s \<le> max_malformed_tool_call_retries \<and>
     (le_max L < rs_rounds s \<longrightarrow> rs_final s) \<and> (\<forall>k < rs_asked s. spend_refusal L k = None)"

definition bounded_end :: "loop_env \<Rightarrow> nat \<Rightarrow> round_state \<Rightarrow> bool" where
  "bounded_end L n s \<longleftrightarrow> rs_asked s \<le> n \<and> (\<forall>k < rs_asked s. spend_refusal L k = None)"

lemma spend_all_before:
  "spend_refusal L n = None \<Longrightarrow> (\<forall>k < n. spend_refusal L k = None) \<Longrightarrow> (\<forall>k < Suc n. spend_refusal L k = None)"
  by (auto simp: less_Suc_eq)

lemma passes_bounded:
  assumes "counted L k s" and "run_passes L n s = e"
  shows "(\<exists>s1. e = Return s1 \<and> bounded_end L (k + n) s1) \<or>
    (\<exists>s1. e = Leave s1 \<and> bounded_end L (k + n) s1 \<and>
       (rs_answered s1 \<or> rs_answered s1 = rs_answered s \<and> counted L (k + n) s1))"
  using assms
proof (induction n arbitrary: s k)
  case 0
  then show ?case by (auto simp: counted_def bounded_end_def)
next
  case (Suc n)
  have k: "rs_asked s = k" "\<forall>j < k. spend_refusal L j = None" using Suc.prems by (auto simp: counted_def)
  have again: ?case if "round_pass L s = Again s1" "counted L (Suc k) s1" "rs_answered s1 = rs_answered s" for s1
    using Suc.IH[OF that(2)] Suc.prems(2) that(1,3) by simp
  obtain p where p: "round_pass L s = p" by blast
  then show ?case
  proof (cases rule: pass_cases)
    case (malformed ts s1)
    have "counted L (Suc k) s1"
      using malformed spend_all_before[of L k] k Suc.prems(1) by (auto simp: counted_def counters_def)
    then show ?thesis using again[of s1] malformed p by (simp add: counters_def)
  next
    case (retried ts)
    let ?s1 = "(asked_with L s ts)\<lparr>rs_empty := rs_empty s + 1\<rparr>"
    have "counted L (Suc k) ?s1"
      using retried spend_all_before[of L k] k Suc.prems(1) by (auto simp: counted_def)
    then show ?thesis using again[of ?s1] retried p by simp
  next
    case (called ts s0 cs s1)
    have "counted L (Suc k) s1"
      using called spend_all_before[of L k] k Suc.prems(1) by (auto simp: counted_def counters_def)
    then show ?thesis using again[of s1] called p by (simp add: counters_def)
  next
    case refused
    then show ?thesis using Suc.prems(2) p k by (auto simp: bounded_end_def wrap_up_def)
  qed (use Suc.prems(2) p spend_all_before[of L k] k in \<open>auto simp: bounded_end_def counters_def\<close>)
qed

definition round_limit :: "loop_env \<Rightarrow> nat" where
  "round_limit L = le_max L + 5"

lemma round_limit: "round_bound L + 1 = round_limit L"
  by (simp add: round_bound_def round_limit_def max_empty_completion_retries_def max_malformed_tool_call_retries_def)

lemma starts_counted: "counted L 0 (start_rounds L)"
  by (simp add: counted_def start_rounds_def)

lemma finish_asked [simp]: "rs_asked (finish_rounds L s) = rs_asked s"
  by (simp add: finish_rounds_def split: option.split)

text \<open>Claim C8. The loop ends: it asks its model at most five times more than it allows tool rounds, it asks a model
  billed per call only while the budget admits the call, and it runs out of passes without an answer only after
  it asked for one with no tools.\<close>

theorem the_round_loop_ends:
  shows "rs_asked (run_round_loop L) \<le> le_max L + 5 \<and>
    (\<forall>n < rs_asked (run_round_loop L). spend_refusal L n = None) \<and>
    (\<forall>s. run_passes L (round_bound L + 1) (start_rounds L) = Leave s \<longrightarrow>
       rs_answered s \<or> rs_final s \<and> le_max L + 2 \<le> rs_rounds s)"
proof -
  obtain e where e: "run_passes L (round_limit L) (start_rounds L) = e" by blast
  note ends = passes_bounded[OF starts_counted e]
  have final: "rs_final s \<and> le_max L + 2 \<le> rs_rounds s" if "counted L (round_limit L) s" for s
    using that by (simp add: counted_def round_limit_def max_empty_completion_retries_def max_malformed_tool_call_retries_def)
  have "bounded_end L (round_limit L) (run_round_loop L)"
    using ends e unfolding run_round_loop_def round_limit by (auto simp: bounded_end_def)
  moreover have "rs_answered s \<or> rs_final s \<and> le_max L + 2 \<le> rs_rounds s" if "e = Leave s" for s
    using ends final that by auto
  ultimately show ?thesis using e unfolding round_limit by (simp add: bounded_end_def round_limit_def)
qed

subsection \<open>Rounds after the last\<close>

text \<open>A model that goes on calling when it was told to stop and given no tools.\<close>

definition keeps_calling :: "loop_env \<Rightarrow> bool" where
  "keeps_calling L \<longleftrightarrow> (\<forall>n. spend_refusal L n = None) \<and>
     (\<forall>n offer h. \<exists>r. snd (le_call L n offer h) = Inr r \<and> rr_malformed r = None \<and> rr_calls r \<noteq> [])"

lemma keeps_calling_pass:
  assumes "keeps_calling L"
  shows "\<exists>s1. round_pass L s = Again s1 \<and> rs_rounds s1 = rs_rounds s + 1 \<and> rs_asked s1 = rs_asked s + 1"
proof -
  obtain ts ans where c: "le_call L (rs_asked (wrap_up L s)) (\<not> rs_final (wrap_up L s)) (rs_pushed (wrap_up L s)) = (ts, ans)"
    by fastforce
  then obtain r where r: "ans = Inr r" "rr_malformed r = None" "rr_calls r \<noteq> []" "spend_refusal L n = None" for n
    using assms unfolding keeps_calling_def by (metis snd_conv)
  obtain e where e: "round_pass L s = e" by blast
  have a: "\<exists>s1. e = Again s1 \<and> counters s1 = counters ((asked_with L s ts)\<lparr>rs_rounds := rs_rounds s + 1\<rparr>)"
  proof -
    define s0 where "s0 = push (PushAssistant r) (if trim (rr_text r) \<noteq> []
      then emit_all [EThinking (rr_text r)] ((asked_with L s ts)\<lparr>rs_rounds := rs_rounds s + 1\<rparr>)
      else (asked_with L s ts)\<lparr>rs_rounds := rs_rounds s + 1\<rparr>)"
    have w: "rs_asked (wrap_up L s) = rs_asked s" by (simp add: wrap_up_def)
    have "e = take_reply L r (asked_with L s ts)"
      using c r unfolding e[symmetric] round_pass_def by (simp add: w asked_with_def Let_def)
    then have "e = Again (push (PushResults (fst (run_round_calls L (rr_calls r) s0))) (snd (run_round_calls L (rr_calls r) s0)))"
      using r by (simp add: take_reply_def calling_reply_def s0_def Let_def split: prod.split)
    then show ?thesis by (simp add: s0_def)
  qed
  then show ?thesis using e by (auto simp: counters_def)
qed

lemma keeps_calling_passes:
  assumes "keeps_calling L"
  shows "\<exists>s1. run_passes L n s = Leave s1 \<and> rs_rounds s1 = rs_rounds s + n"
proof (induction n arbitrary: s)
  case (Suc n)
  obtain s1 where s1: "round_pass L s = Again s1" "rs_rounds s1 = rs_rounds s + 1"
    using keeps_calling_pass[OF assms] by blast
  then show ?case using Suc.IH[of s1] by simp
qed simp

lemma finish_rounds_rounds [simp]: "rs_rounds (finish_rounds L s) = rs_rounds s"
  by (simp add: finish_rounds_def split: option.split)

text \<open>The wrap-up round is not the last: a model that writes its calls as text, though it is offered no
  tools, runs them in five rounds after it was told that its calls are used up.\<close>

theorem smuggled_calls_buy_five_more_rounds:
  assumes "keeps_calling L"
  shows "rs_rounds (run_round_loop L) = le_max L + 5"
proof -
  obtain s1 where "run_passes L (round_limit L) (start_rounds L) = Leave s1"
    "rs_rounds s1 = rs_rounds (start_rounds L) + round_limit L"
    using keeps_calling_passes[OF assms] by blast
  then show ?thesis unfolding run_round_loop_def round_limit by (simp add: start_rounds_def round_limit_def)
qed

subsection \<open>Instances\<close>

definition free_spend :: spend_env where
  "free_spend = \<lparr>se_table = [], se_limits = [], se_chrono = sample_calendar, se_fmt = sample_fmt,
     se_now = (\<lambda>_. 0), se_book = (\<lambda>_. empty_book)\<rparr>"

definition sample_loop :: "(nat \<Rightarrow> bool \<Rightarrow> pushed list \<Rightarrow> string list \<times> (string + round_reply)) \<Rightarrow> loop_env" where
  "sample_loop call =
     \<lparr>le_guard = failing_env, le_shown = (\<lambda>_. []), le_tools = [], le_context = None, le_model = ''m'',
      le_provider = None, le_spend = free_spend, le_allow_delegate = False, le_subagents = False, le_max = 2,
      le_given = [], le_call = call, le_delegate = (\<lambda>_ _ _. ((False, False, []), [])), le_voice = None,
      le_url_spans = None\<rparr>"

theorem a_turn_never_ends_silently_witness:
  "\<exists>es e. rs_events (run_round_loop (sample_loop (\<lambda>_ _ _. ([], Inl ''down'')))) = es @ [e, EDone] \<and>
     (\<exists>m. e = EMessage m \<or> e = EError m)"
  by (rule a_turn_never_ends_silently) (simp add: sample_loop_def)

definition smuggling_model :: "nat \<Rightarrow> bool \<Rightarrow> pushed list \<Rightarrow> string list \<times> (string + round_reply)" where
  "smuggling_model n offer h =
     ([], Inr \<lparr>rr_text = [], rr_calls = [\<lparr>tc_id = [], tc_name = ''search_web'', tc_args = JNull\<rparr>], rr_malformed = None\<rparr>)"

theorem smuggled_calls_buy_five_more_rounds_witness:
  "rs_rounds (run_round_loop (sample_loop smuggling_model)) = 7"
  using smuggled_calls_buy_five_more_rounds[of "sample_loop smuggling_model"]
  by (simp add: keeps_calling_def spend_refusal_def sample_loop_def smuggling_model_def)

theorem the_round_loop_ends_witness:
  "rs_asked (run_round_loop (sample_loop smuggling_model)) \<le> 7"
  using the_round_loop_ends[of "sample_loop smuggling_model"] by (simp add: sample_loop_def)

end
