(* ===== verification/Chat_Ladder.thy ===== *)
theory Chat_Ladder
  imports Round_Loop Model_Router
begin

text \<open>
  One turn over several models (\<open>run_one_attempt\<close>, \<open>admit_rungs\<close> and the ladder of \<open>crates/chat/src/chat/turn.rs\<close>,
  \<open>run_bounded_loop\<close> of \<open>delegate.rs\<close>, \<open>handover.rs\<close>), and what the client is sent of it
  (\<open>forward_chat_events\<close> of \<open>events.rs\<close>, \<open>citations.rs\<close>): an attempt that answered nothing is followed by the next
  model, with what the failed one had read. The policy, the budget and the providers may change between
  attempts: the world is a parameter by the number of the candidate.
\<close>

subsection \<open>Handing work over\<close>

record prior_call =
  ho_tool :: string
  ho_args :: json
  ho_success :: "bool option"
  ho_result :: string

definition handover_result_chars :: nat where
  "handover_result_chars = 4000"

definition handover_total_chars :: nat where
  "handover_total_chars = 16000"

definition handover_head :: "string \<Rightarrow> string" where
  "handover_head err =
     ''WORK ALREADY DONE THIS TURN. Another model started answering this message, ran '' @
     ''the tools below, and then failed ('' @ take_chars 200 err @ ''). These results are real and current. '' @
     ''Do NOT call these tools again with the same arguments '' @ em_dash @ '' continue from them, call '' @
     ''anything still missing, and answer the user.'' @ nl"

definition handover_entry :: "serde \<Rightarrow> nat \<Rightarrow> prior_call \<Rightarrow> string" where
  "handover_entry S i c =
     nl @ show_nat (i + 1) @ ''. '' @ ho_tool c @ ''('' @ to_str S (ho_args c) @ '') '' @
     (case ho_success c of Some True \<Rightarrow> [CHR 0xE2, CHR 0x9C, CHR 0x93]
      | Some False \<Rightarrow> [CHR 0xE2, CHR 0x9C, CHR 0x97] @ '' failed'' | None \<Rightarrow> ''no result'') @
     nl @ ho_result c @ nl"

fun handover_entries :: "serde \<Rightarrow> nat \<Rightarrow> nat \<Rightarrow> prior_call list \<Rightarrow> string" where
  "handover_entries S i used [] = []"
| "handover_entries S i used (c # cs) =
     (let entry = handover_entry S i c
      in if handover_total_chars < used + length entry
         then nl @ ''['' @ show_nat (length (c # cs)) @ '' further tool result(s) omitted for length]'' @ nl
         else entry @ handover_entries S (i + 1) (used + length entry) cs)"

definition handover_block :: "serde \<Rightarrow> prior_call list \<Rightarrow> string \<Rightarrow> string" where
  "handover_block S calls err =
     handover_head err @ handover_entries S 0 (length (handover_head err)) calls"

subsection \<open>Relaying one attempt\<close>

datatype attempt_outcome =
    Delivered
  | Unanswered "string option"
  | Interrupted string "prior_call list"

text \<open>The last call of a tool that has no result yet gets it.\<close>

fun first_where :: "('a \<Rightarrow> bool) \<Rightarrow> ('a \<Rightarrow> 'a) \<Rightarrow> 'a list \<Rightarrow> 'a list" where
  "first_where P f [] = []"
| "first_where P f (x # xs) = (if P x then f x # xs else x # first_where P f xs)"

definition own_tool :: "string \<Rightarrow> bool" where
  "own_tool tool \<longleftrightarrow> CHR '':'' \<notin> set tool"

definition hear_call :: "chat_event \<Rightarrow> prior_call list \<Rightarrow> prior_call list" where
  "hear_call ev calls =
     (case ev of
        EToolCall tool args \<Rightarrow>
          if own_tool tool
          then calls @ [\<lparr>ho_tool = tool, ho_args = args, ho_success = None, ho_result = []\<rparr>] else calls
      | EToolResult tool ok preview saw \<Rightarrow>
          if own_tool tool
          then rev (first_where (\<lambda>c. ho_tool c = tool \<and> ho_success c = None)
                 (\<lambda>c. c\<lparr>ho_success := Some ok,
                        ho_result := take_chars
                          (case saw of Some n \<Rightarrow> min n handover_result_chars | None \<Rightarrow> handover_result_chars) preview\<rparr>)
                 (rev calls))
          else calls
      | _ \<Rightarrow> calls)"

record relay =
  rl_answered :: bool
  rl_progress :: bool
  rl_error :: "string option"
  rl_calls :: "prior_call list"
  rl_sent :: "chat_event list"

definition new_relay :: relay where
  "new_relay = \<lparr>rl_answered = False, rl_progress = False, rl_error = None, rl_calls = [], rl_sent = []\<rparr>"

definition answers_user :: "chat_event \<Rightarrow> bool" where
  "answers_user ev \<longleftrightarrow> (case ev of EMessage content \<Rightarrow> trim content \<noteq> [] | EToken t \<Rightarrow> True | _ \<Rightarrow> False)"

definition relay_event :: "relay \<Rightarrow> chat_event \<Rightarrow> relay" where
  "relay_event r ev =
     (let r = r\<lparr>rl_calls := hear_call ev (rl_calls r)\<rparr> in
      case ev of
        EDone \<Rightarrow> r
      | EError message \<Rightarrow> (if rl_error r = None then r\<lparr>rl_error := Some message\<rparr> else r)
      | _ \<Rightarrow> (if answers_user ev then r\<lparr>rl_answered := True\<rparr> else r\<lparr>rl_progress := True\<rparr>)\<lparr>rl_sent := rl_sent r @ [ev]\<rparr>)"

definition reads_only :: "prior_call list \<Rightarrow> bool" where
  "reads_only calls \<longleftrightarrow> list_all (\<lambda>c. call_is_read_only (ho_tool c) (ho_args c)) calls"

definition attempt_end :: "relay \<Rightarrow> attempt_outcome \<times> chat_event list" where
  "attempt_end r =
     (let trailing = (case rl_error r of Some m \<Rightarrow> [EError m] | None \<Rightarrow> []);
          hard = (case rl_error r of
                    Some m \<Rightarrow> m \<noteq> empty_completion_message \<and> rl_progress r \<and> rl_calls r \<noteq> [] | None \<Rightarrow> False)
      in if rl_answered r then (Delivered, rl_sent r @ trailing)
         else if hard \<and> reads_only (rl_calls r) then (Interrupted (the (rl_error r)) (rl_calls r), rl_sent r)
         else if hard then (Delivered, rl_sent r @ trailing)
         else (Unanswered (rl_error r), rl_sent r))"

definition relay_attempt :: "chat_event list \<Rightarrow> attempt_outcome \<times> chat_event list" where
  "relay_attempt events = attempt_end (foldl relay_event new_relay events)"

subsection \<open>Rungs\<close>

definition rung_id :: "llm_config \<Rightarrow> llm_provider_type \<times> string \<times> string" where
  "rung_id c = (lc_provider c, or_empty (lc_base_url c), lc_model c)"

definition add_rung :: "llm_config list \<Rightarrow> llm_config \<Rightarrow> llm_config list" where
  "add_rung cs c = (if list_ex (\<lambda>x. rung_id x = rung_id c) cs then cs else cs @ [c])"

definition worker_candidates :: "llm_config \<Rightarrow> llm_config list \<Rightarrow> llm_config list" where
  "worker_candidates cfg ladder = foldl add_rung [cfg] ladder"

definition chat_candidates :: "bool \<Rightarrow> llm_config \<Rightarrow> llm_config list \<Rightarrow> llm_config list \<Rightarrow> llm_config list" where
  "chat_candidates pin_refused active fallbacks ladder =
     foldl add_rung [] ((if pin_refused then fallbacks @ [active] else active # fallbacks) @ ladder)"

record ladder_env =
  la_world :: "nat \<Rightarrow> llm_world"
  la_ctx :: route_context
  la_serde :: serde
  la_start :: "nat \<Rightarrow> llm_config \<Rightarrow> string \<Rightarrow> string + loop_env"

definition rung_verdict :: "ladder_env \<Rightarrow> nat \<Rightarrow> llm_config \<Rightarrow> string + unit" where
  "rung_verdict A i c = admit (la_world A i) (world_policy (la_world A i)) c (la_ctx A)"

fun admit_rungs :: "ladder_env \<Rightarrow> llm_config list \<Rightarrow> llm_config list \<times> string list" where
  "admit_rungs A [] = ([], [])"
| "admit_rungs A (c # cs) =
     (case admit_rungs A cs of (kept, refused) \<Rightarrow>
      case rung_verdict A 0 c of
        Inr _ \<Rightarrow> (c # kept, refused)
      | Inl reason \<Rightarrow> (kept, (lc_model c @ '' ('' @ provider_label c @ ''): '' @ reason) # refused))"

definition still_admitted :: "ladder_env \<Rightarrow> nat \<Rightarrow> llm_config \<Rightarrow> bool" where
  "still_admitted A i c \<longleftrightarrow> rung_verdict A i c = Inr ()"

subsection \<open>Walking the ladder\<close>

record rung_attempt =
  ra_model :: string
  ra_provider :: string
  ra_error :: "string option"

text \<open>The state of a walk. \<open>wk_turns\<close> is the attempts in order: the model, its prompt, how it ended and what it ran.\<close>

record walk =
  wk_error :: "string option"
  wk_prior :: "prior_call list"
  wk_attempts :: "rung_attempt list"
  wk_refused :: "string list"
  wk_events :: "chat_event list"
  wk_turns :: "(llm_config \<times> string \<times> attempt_outcome \<times> turn) list"

definition new_walk :: "string list \<Rightarrow> walk" where
  "new_walk refused = \<lparr>wk_error = None, wk_prior = [], wk_attempts = [], wk_refused = refused, wk_events = [], wk_turns = []\<rparr>"

definition attempt_prompt :: "ladder_env \<Rightarrow> string \<Rightarrow> walk \<Rightarrow> string" where
  "attempt_prompt A sys w =
     (if wk_prior w = [] then sys
      else sys @ nl @ nl @ handover_block (la_serde A) (wk_prior w) (or_default ''unknown error'' (wk_error w)))"

text \<open>One attempt: a provider that does not start says why.\<close>

definition attempt_run :: "ladder_env \<Rightarrow> nat \<Rightarrow> llm_config \<Rightarrow> string \<Rightarrow> chat_event list \<times> turn" where
  "attempt_run A i c prompt =
     (case la_start A i c prompt of
        Inl message \<Rightarrow> ([EError message, EDone], new_turn)
      | Inr L \<Rightarrow> (rs_events (run_round_loop L), rs_turn (run_round_loop L)))"

definition try_rung :: "ladder_env \<Rightarrow> string \<Rightarrow> nat \<Rightarrow> llm_config \<Rightarrow> walk \<Rightarrow> attempt_outcome \<times> walk" where
  "try_rung A sys i c w =
     (let prompt = attempt_prompt A sys w in
      case attempt_run A i c prompt of (events, t) \<Rightarrow>
      case relay_attempt events of (outcome, sent) \<Rightarrow>
        (outcome, w\<lparr>wk_events := wk_events w @ sent, wk_turns := wk_turns w @ [(c, prompt, outcome, t)]\<rparr>))"

definition gear :: string where
  "gear = [CHR 0xE2, CHR 0x9A, CHR 0x99] @ '' ''"

definition say_all :: "chat_event list \<Rightarrow> walk \<Rightarrow> walk" where
  "say_all es w = w\<lparr>wk_events := wk_events w @ es\<rparr>"

definition tried :: "llm_config \<Rightarrow> string option \<Rightarrow> walk \<Rightarrow> walk" where
  "tried c err w =
     w\<lparr>wk_attempts := wk_attempts w @ [\<lparr>ra_model = lc_model c, ra_provider = provider_label c, ra_error = err\<rparr>]\<rparr>"

definition or_else_opt :: "'a option \<Rightarrow> 'a option \<Rightarrow> 'a option" where
  "or_else_opt a b = (case a of Some x \<Rightarrow> Some x | None \<Rightarrow> b)"

subsubsection \<open>A worker's turn\<close>

definition worker_note :: "llm_config \<Rightarrow> chat_event" where
  "worker_note c = EThinking (gear @ ''sub-agent model unavailable '' @ em_dash @ '' retrying on '' @ lc_model c @ '' ('' @
     llm_provider_display (lc_provider c) @ '')'')"

fun walk_worker :: "ladder_env \<Rightarrow> string \<Rightarrow> nat \<Rightarrow> llm_config list \<Rightarrow> walk \<Rightarrow> walk" where
  "walk_worker A sys i [] w = (case wk_error w of Some m \<Rightarrow> say_all [EError m] w | None \<Rightarrow> w)"
| "walk_worker A sys i (c # cs) w =
     (if 0 < i \<and> \<not> still_admitted A i c
      then walk_worker A sys (i + 1) cs
             (w\<lparr>wk_refused := wk_refused w @ [lc_model c @ '': refused after an earlier rung failed'']\<rparr>)
      else (case try_rung A sys i c (if 0 < i then say_all [worker_note c] w else w) of
              (Delivered, w1) \<Rightarrow> tried c None w1
            | (Unanswered e, w1) \<Rightarrow>
                walk_worker A sys (i + 1) cs
                  ((tried c (Some (or_default ''produced no answer'' e)) w1)\<lparr>wk_error := or_else_opt e (wk_error w1)\<rparr>)
            | (Interrupted e calls, w1) \<Rightarrow>
                walk_worker A sys (i + 1) cs
                  ((tried c (Some e) w1)\<lparr>wk_prior := wk_prior w1 @ calls, wk_error := Some e\<rparr>)))"

definition run_bounded_loop :: "ladder_env \<Rightarrow> string \<Rightarrow> llm_config \<Rightarrow> llm_config list \<Rightarrow> walk" where
  "run_bounded_loop A sys cfg ladder =
     (case admit_rungs A (worker_candidates cfg ladder) of (rungs, refused) \<Rightarrow>
        if rungs = []
        then say_all [EError (''No model may run this sub-agent under the routing policy: '' @ join_with ''; '' refused)]
               (new_walk refused)
        else walk_worker A sys 0 rungs (new_walk refused))"

subsubsection \<open>A chat turn\<close>

definition chat_note :: "llm_config \<Rightarrow> walk \<Rightarrow> chat_event" where
  "chat_note c w =
     (let place = lc_model c @ '' ('' @ llm_provider_display (lc_provider c) @ '')''
      in EThinking (gear @
           (if wk_prior w \<noteq> []
            then ''the previous model failed mid-turn '' @ em_dash @ '' continuing on '' @ place @ '' with the '' @
                 show_nat (length (wk_prior w)) @ '' tool result(s) it already gathered''
            else ''no response from the previous model '' @ em_dash @ '' retrying on '' @ place)))"

fun walk_chat :: "ladder_env \<Rightarrow> string \<Rightarrow> nat \<Rightarrow> llm_config list \<Rightarrow> walk \<Rightarrow> walk" where
  "walk_chat A sys i [] w = w"
| "walk_chat A sys i (c # cs) w =
     (if 0 < i \<and> cs \<noteq> [] \<and> \<not> still_admitted A i c then walk_chat A sys (i + 1) cs w
      else (case try_rung A sys i c (if 0 < i then say_all [chat_note c w] w else w) of
              (Delivered, w1) \<Rightarrow> w1
            | (outcome, w1) \<Rightarrow>
                let w2 = (case outcome of
                            Interrupted e calls \<Rightarrow> w1\<lparr>wk_prior := wk_prior w1 @ calls, wk_error := Some e\<rparr>
                          | Unanswered e \<Rightarrow> w1\<lparr>wk_error := or_else_opt e (wk_error w1)\<rparr>
                          | Delivered \<Rightarrow> w1)
                in walk_chat A sys (i + 1) cs
                     (if cs = [] then say_all [EError (or_default empty_completion_message (wk_error w2)), EDone] w2
                      else w2)))"

definition chat_ladder ::
  "ladder_env \<Rightarrow> string \<Rightarrow> string \<Rightarrow> bool \<Rightarrow> llm_config \<Rightarrow> llm_config list \<Rightarrow> llm_config list \<Rightarrow> walk" where
  "chat_ladder A turn_class sys pin_refused active fallbacks ladder =
     (case admit_rungs A (chat_candidates pin_refused active fallbacks ladder) of (rungs, refused) \<Rightarrow>
        walk_chat A sys 0 rungs
          (if rungs = []
           then say_all [EError (''No model may answer this '' @ turn_class @ '' chat turn under the routing policy: '' @
                  join_with ''; '' refused), EDone] (new_walk refused)
           else new_walk refused))"

subsection \<open>What the client is sent\<close>

definition max_cited_ids :: nat where
  "max_cited_ids = 20"

fun id_marks :: "string \<Rightarrow> string list" where
  "id_marks [] = []"
| "id_marks (c # cs) =
     (case strip_prefix ''id:'' (c # cs) of
        Some rest \<Rightarrow> (let r = trim_start rest in if uuid_at r then [lower (take 36 r)] else []) @ id_marks cs
      | None \<Rightarrow> id_marks cs)"

definition cited_ids :: "string \<Rightarrow> string list" where
  "cited_ids t = take max_cited_ids (rev (remdups (rev (id_marks t))))"

definition warning_mark :: string where
  "warning_mark = [CHR 0xE2, CHR 0x9A, CHR 0xA0]"

definition citation_notice :: "string list \<Rightarrow> string" where
  "citation_notice missing =
     warning_mark @ '' Citation check: '' @ show_nat (length missing) @
     '' cited id(s) do not exist in the knowledge graph '' @ em_dash @ '' '' @
     join_with '', '' (map (\<lambda>i. ''`'' @ i @ ''`'') missing) @ ''. '' @
     ''The statements attached to them are unsupported; treat them as unverified.''"

text \<open>The checker answers which of some ids the graph does not hold, or that it could not check.\<close>

type_synonym citation_checker = "(string list \<Rightarrow> string list option) option"

definition check_citations :: "citation_checker \<Rightarrow> string \<Rightarrow> string" where
  "check_citations checker content =
     (case checker of
        None \<Rightarrow> content
      | Some missing_of \<Rightarrow>
          if cited_ids content = [] then content
          else (case missing_of (cited_ids content) of
                  Some missing \<Rightarrow> if missing \<noteq> [] then content @ nl @ nl @ citation_notice missing else content
                | None \<Rightarrow> content))"

record forwarded =
  fw_final :: string
  fw_error :: "string option"
  fw_sent :: "chat_event list"

definition dropped_message :: string where
  "dropped_message =
     ''The assistant produced no response for this turn, and reported no '' @
     ''error explaining why. Please retry '' @ em_dash @ '' and do not assume any action you '' @
     ''asked for was carried out.''"

definition forward_event :: "citation_checker \<Rightarrow> forwarded \<Rightarrow> chat_event \<Rightarrow> forwarded" where
  "forward_event checker f ev =
     (case ev of
        EDone \<Rightarrow> f
      | EMessage content \<Rightarrow>
          f\<lparr>fw_final := check_citations checker content, fw_sent := fw_sent f @ [EMessage (check_citations checker content)]\<rparr>
      | EError message \<Rightarrow>
          f\<lparr>fw_error := or_else_opt (fw_error f) (Some message), fw_sent := fw_sent f @ [ev]\<rparr>
      | _ \<Rightarrow> f\<lparr>fw_sent := fw_sent f @ [ev]\<rparr>)"

definition forward_chat_events :: "citation_checker \<Rightarrow> chat_event list \<Rightarrow> forwarded" where
  "forward_chat_events checker events =
     (let f = foldl (forward_event checker) \<lparr>fw_final = [], fw_error = None, fw_sent = []\<rparr> events;
          f1 = (if trim (fw_final f) = [] \<and> fw_error f = None
                then f\<lparr>fw_error := Some dropped_message, fw_sent := fw_sent f @ [EError dropped_message]\<rparr> else f)
      in f1\<lparr>fw_sent := fw_sent f1 @ [EDone]\<rparr>)"

subsection \<open>What the client always hears\<close>

lemma forwarded_events:
  fixes checker es f
  defines "g \<equiv> foldl (forward_event checker) f es"
  assumes "EDone \<notin> set (fw_sent f)"
    and "fw_error f \<noteq> None \<Longrightarrow> \<exists>m. EError m \<in> set (fw_sent f)"
    and "fw_final f \<noteq> [] \<Longrightarrow> EMessage (fw_final f) \<in> set (fw_sent f)"
  shows "EDone \<notin> set (fw_sent g) \<and> (fw_error g \<noteq> None \<longrightarrow> (\<exists>m. EError m \<in> set (fw_sent g))) \<and>
    (fw_final g \<noteq> [] \<longrightarrow> EMessage (fw_final g) \<in> set (fw_sent g))"
  using assms(2-4) unfolding g_def
proof (induction es arbitrary: f)
  case (Cons ev es)
  show ?case
    unfolding foldl_Cons
    by (rule Cons.IH) (use Cons.prems in \<open>cases ev; force simp: forward_event_def or_else_opt_def split: option.splits\<close>)+
qed simp

text \<open>Claim C18. Whatever a turn's loops send, or if they send nothing, the client is told that the turn is done once,
  last, and before it an answer that is not blank or an error: no turn is dropped in silence.\<close>

theorem the_client_is_told_how_a_turn_ends:
  fixes checker events
  defines "f \<equiv> forward_chat_events checker events"
  shows "\<exists>es. fw_sent f = es @ [EDone] \<and> EDone \<notin> set es \<and>
    ((\<exists>m. EMessage m \<in> set es \<and> trim m \<noteq> [] \<and> m = fw_final f) \<or> (\<exists>m. EError m \<in> set es))"
proof -
  let ?g = "foldl (forward_event checker) \<lparr>fw_final = [], fw_error = None, fw_sent = []\<rparr> events"
  have g: "EDone \<notin> set (fw_sent ?g)" "fw_error ?g \<noteq> None \<longrightarrow> (\<exists>m. EError m \<in> set (fw_sent ?g))"
    "fw_final ?g \<noteq> [] \<longrightarrow> EMessage (fw_final ?g) \<in> set (fw_sent ?g)"
    using forwarded_events[of "\<lparr>fw_final = [], fw_error = None, fw_sent = []\<rparr>" checker events] by simp_all
  have blank: "trim [] = []" by (simp add: trim_def trim_end_def trim_start_def)
  show ?thesis
  proof (cases "trim (fw_final ?g) = [] \<and> fw_error ?g = None")
    case True
    then show ?thesis using g by (auto simp: f_def forward_chat_events_def Let_def)
  next
    case False
    then show ?thesis using g blank by (auto simp: f_def forward_chat_events_def Let_def)
  qed
qed

subsection \<open>What a failed attempt hands over\<close>

lemma relay_error_stays: "rl_error r = Some m \<Longrightarrow> rl_error (foldl relay_event r es) = Some m"
  by (induction es arbitrary: r) (auto simp: relay_event_def Let_def split: chat_event.split)

lemma first_where_map: "(\<And>x. P x \<Longrightarrow> g (f x) = g x) \<Longrightarrow> map g (first_where P f xs) = map g xs"
  by (induction xs) auto

definition call_of :: "prior_call \<Rightarrow> string \<times> json" where
  "call_of c = (ho_tool c, ho_args c)"

lemma hear_call_calls:
  "map call_of (hear_call ev calls) =
     map call_of calls @ (case ev of EToolCall tool args \<Rightarrow> if own_tool tool then [(tool, args)] else [] | _ \<Rightarrow> [])"
proof (cases ev)
  case (EToolResult tool ok preview saw)
  have "map call_of (rev (first_where P f (rev calls))) = map call_of calls"
    if "\<And>c. call_of (f c) = call_of c" for P f
    using first_where_map[of P call_of f "rev calls"] that by (simp add: rev_map[symmetric])
  then show ?thesis using EToolResult by (simp add: hear_call_def call_of_def)
qed (simp_all add: hear_call_def call_of_def)

lemma relay_calls:
  "map call_of (rl_calls (foldl relay_event r es)) =
     map call_of (rl_calls r) @ [(t, a). EToolCall t a \<leftarrow> es, own_tool t]"
proof (induction es arbitrary: r)
  case (Cons ev es)
  have "rl_calls (relay_event r ev) = hear_call ev (rl_calls r)"
    by (simp add: relay_event_def Let_def split: chat_event.split)
  then show ?case using Cons.IH[of "relay_event r ev"] hear_call_calls[of ev "rl_calls r"]
    by (auto split: chat_event.split)
qed simp

lemma relay_progress_step:
  "rl_progress r \<Longrightarrow> rl_progress (relay_event r ev)" "rl_progress (relay_event r (EToolCall t a))"
  by (cases ev; simp add: relay_event_def Let_def) (simp add: relay_event_def answers_user_def Let_def)

lemma relay_progress_stays: "rl_progress r \<Longrightarrow> rl_progress (foldl relay_event r es)"
  by (induction es arbitrary: r) (simp_all add: relay_progress_step)

lemma relay_progress: "EToolCall t a \<in> set es \<Longrightarrow> rl_progress (foldl relay_event r es)"
  by (induction es arbitrary: r) (auto simp: relay_progress_stays relay_progress_step)

definition made_calls :: "chat_event list \<Rightarrow> (string \<times> json) list" where
  "made_calls es = [(t, a). EToolCall t a \<leftarrow> es, own_tool t]"

lemma made_callsI: "EToolCall t a \<in> set es \<Longrightarrow> own_tool t \<Longrightarrow> (t, a) \<in> set (made_calls es)"
  unfolding made_calls_def by (induction es) (auto split: chat_event.split)

lemma reads_only_calls: "reads_only cs \<longleftrightarrow> (\<forall>(t, a) \<in> set (map call_of cs). call_is_read_only t a)"
  by (auto simp: reads_only_def list_all_iff call_of_def)

text \<open>An attempt is followed by another model only where it made no call that may act, or where it ended in an empty
  completion or with no error at all.\<close>

lemma undelivered_calls:
  assumes "relay_attempt es = (outcome, sent)" and "outcome \<noteq> Delivered"
    and "(t, a) \<in> set (made_calls es)" and "EToolCall t a \<in> set es" and "\<not> call_is_read_only t a"
  shows "outcome \<in> {Unanswered None, Unanswered (Some empty_completion_message)}"
proof -
  define r where "r = foldl relay_event new_relay es"
  have calls: "map call_of (rl_calls r) = made_calls es"
    unfolding r_def made_calls_def relay_calls by (simp add: new_relay_def)
  then have "rl_calls r \<noteq> []" "\<not> reads_only (rl_calls r)"
    using assms(3,5) by (auto simp: reads_only_calls)
  moreover have "rl_progress r" using relay_progress[OF assms(4)] by (simp add: r_def)
  ultimately show ?thesis
    using assms(1,2) by (auto simp: relay_attempt_def attempt_end_def r_def[symmetric] Let_def split: if_splits option.splits)
qed

lemma interrupted_reads:
  assumes "relay_attempt es = (Interrupted e calls, sent)"
  shows "reads_only calls" "map call_of calls = made_calls es"
proof -
  define r where "r = foldl relay_event new_relay es"
  have "map call_of (rl_calls r) = made_calls es"
    unfolding r_def made_calls_def relay_calls by (simp add: new_relay_def)
  then show "reads_only calls" "map call_of calls = made_calls es"
    using assms by (auto simp: relay_attempt_def attempt_end_def r_def[symmetric] Let_def split: if_splits option.splits)
qed

subsection \<open>One turn, several models\<close>

text \<open>A turn acted when a tool of its own, not a worker's, ran a call that may do more than read.\<close>

definition acted :: "turn \<Rightarrow> bool" where
  "acted t \<longleftrightarrow> list_ex (\<lambda>c. own_tool (fst (ran_call c)) \<and> \<not> call_is_read_only (fst (ran_call c)) (snd (ran_call c))) (tn_ran t)"

definition silent_end :: "attempt_outcome \<Rightarrow> bool" where
  "silent_end out \<longleftrightarrow> out \<in> {Unanswered None, Unanswered (Some empty_completion_message)}"

lemma attempt_run_announces:
  assumes "attempt_run A i c p = (es, t)" and "x \<in> set (tn_ran t)"
  shows "EToolCall (fst (ran_call x)) (snd (ran_call x)) \<in> set es"
proof (cases "la_start A i c p")
  case (Inl m)
  then show ?thesis using assms by (auto simp: attempt_run_def new_turn_def)
next
  case (Inr L)
  then show ?thesis
    using assms announcing.loop_keeps[of L] by (auto simp: attempt_run_def announced_def)
qed

lemma acted_attempt:
  assumes "attempt_run A i c p = (es, t)" and "relay_attempt es = (out, sent)" and "acted t" and "out \<noteq> Delivered"
  shows "silent_end out"
proof -
  obtain x where x: "x \<in> set (tn_ran t)" "own_tool (fst (ran_call x))"
    "\<not> call_is_read_only (fst (ran_call x)) (snd (ran_call x))"
    using assms(3) by (auto simp: acted_def list_ex_iff)
  note ev = attempt_run_announces[OF assms(1) x(1)]
  show ?thesis
    unfolding silent_end_def by (rule undelivered_calls[OF assms(2,4) made_callsI[OF ev x(2)] ev x(3)])
qed

text \<open>The attempts before the last were not delivered, each acted only where it ended in silence, and each ran on a
  model of the list.\<close>

definition passed_on :: "llm_config \<times> string \<times> attempt_outcome \<times> turn \<Rightarrow> bool" where
  "passed_on = (\<lambda>(c, p, out, t). out \<noteq> Delivered \<and> (acted t \<longrightarrow> silent_end out))"

definition made_by :: "ladder_env \<Rightarrow> llm_config list \<Rightarrow> llm_config \<times> string \<times> attempt_outcome \<times> turn \<Rightarrow> bool" where
  "made_by A cs = (\<lambda>(c, p, out, t). c \<in> set cs \<and> (\<exists>i es. attempt_run A i c p = (es, t)))"

definition walked :: "ladder_env \<Rightarrow> llm_config list \<Rightarrow> walk \<Rightarrow> bool" where
  "walked A cs w \<longleftrightarrow> list_all passed_on (wk_turns w) \<and> reads_only (wk_prior w) \<and> list_all (made_by A cs) (wk_turns w)"

definition walked_to_end :: "ladder_env \<Rightarrow> llm_config list \<Rightarrow> walk \<Rightarrow> bool" where
  "walked_to_end A cs w \<longleftrightarrow>
     list_all passed_on (butlast (wk_turns w)) \<and> reads_only (wk_prior w) \<and> list_all (made_by A cs) (wk_turns w)"

lemma list_all_butlast: "list_all P xs \<Longrightarrow> list_all P (butlast xs)"
  by (auto simp: list_all_iff dest: in_set_butlastD)

lemma walked_ends: "walked A cs w \<Longrightarrow> walked_to_end A cs w"
  by (simp add: walked_def walked_to_end_def list_all_butlast)

lemma walked_say [simp]: "walked A cs (say_all es w) = walked A cs w" "walked_to_end A cs (say_all es w) = walked_to_end A cs w"
  by (simp_all add: walked_def walked_to_end_def say_all_def)

lemma walked_tried [simp]: "walked A cs (tried c e w) = walked A cs w" "walked_to_end A cs (tried c e w) = walked_to_end A cs w"
  by (simp_all add: walked_def walked_to_end_def tried_def)

lemma try_rung_walked:
  assumes "try_rung A sys i c w = (out, w1)" and "walked A cs w" and "c \<in> set cs"
  shows "walked_to_end A cs w1" "out \<noteq> Delivered \<Longrightarrow> walked A cs w1"
    "out = Interrupted e calls \<Longrightarrow> reads_only (wk_prior w1 @ calls)"
proof -
  obtain es t sent where r: "attempt_run A i c (attempt_prompt A sys w) = (es, t)" "relay_attempt es = (out, sent)"
    and w1: "w1 = w\<lparr>wk_events := wk_events w @ sent, wk_turns := wk_turns w @ [(c, attempt_prompt A sys w, out, t)]\<rparr>"
    using assms(1) by (auto simp: try_rung_def Let_def split: prod.splits)
  have made: "made_by A cs (c, attempt_prompt A sys w, out, t)" using r(1) assms(3) by (auto simp: made_by_def)
  show "walked_to_end A cs w1" using assms(2) made by (simp add: w1 walked_def walked_to_end_def)
  show "walked A cs w1" if "out \<noteq> Delivered"
    using acted_attempt[OF r] that assms(2) made by (auto simp: w1 walked_def passed_on_def)
  show "reads_only (wk_prior w1 @ calls)" if "out = Interrupted e calls"
    using interrupted_reads(1)[OF r(2)[unfolded that]] assms(2) by (simp add: w1 walked_def reads_only_def)
qed

lemma walked_update [simp]:
  "walked A cs (w\<lparr>wk_error := e\<rparr>) = walked A cs w" "walked A cs (w\<lparr>wk_refused := rs\<rparr>) = walked A cs w"
  by (simp_all add: walked_def)

lemma walked_prior: "walked A cs w \<Longrightarrow> reads_only ps \<Longrightarrow> walked A cs (w\<lparr>wk_prior := ps, wk_error := e\<rparr>)"
  by (simp add: walked_def)

lemma walk_worker_walked:
  "walked A cs w \<Longrightarrow> set rungs \<subseteq> set cs \<Longrightarrow> walked_to_end A cs (walk_worker A sys i rungs w)"
proof (induction A sys i rungs w rule: walk_worker.induct)
  case (1 A sys i w)
  then show ?case by (simp add: walked_ends split: option.split)
next
  case (2 A sys i c rungs w)
  show ?case
  proof (cases "0 < i \<and> \<not> still_admitted A i c")
    case True
    then show ?thesis using 2 by simp
  next
    case False
    obtain out w1 where t: "try_rung A sys i c (if 0 < i then say_all [worker_note c] w else w) = (out, w1)" by fastforce
    have w: "walked A cs (if 0 < i then say_all [worker_note c] w else w)" and c: "c \<in> set cs" using 2(4,5) by simp_all
    note r = try_rung_walked[OF t w c]
    show ?thesis
    proof (cases out)
      case Delivered
      then show ?thesis using False t r(1) by auto
    next
      case (Unanswered e)
      then show ?thesis using 2(2)[OF False t[symmetric]] r(2) 2(5) False t by auto
    next
      case (Interrupted e calls)
      moreover have "walked A cs ((tried c (Some e) w1)\<lparr>wk_prior := wk_prior w1 @ calls, wk_error := Some e\<rparr>)"
        using r(2,3) Interrupted by (intro walked_prior) simp_all
      ultimately show ?thesis using 2(3)[OF False t[symmetric]] 2(5) False t by auto
    qed
  qed
qed

lemma walk_chat_walked:
  "walked A cs w \<Longrightarrow> set rungs \<subseteq> set cs \<Longrightarrow> walked_to_end A cs (walk_chat A sys i rungs w)"
proof (induction rungs arbitrary: i w)
  case Nil
  then show ?case by (simp add: walked_ends)
next
  case (Cons c rungs)
  obtain out w1 where t: "try_rung A sys i c (if 0 < i then say_all [chat_note c w] w else w) = (out, w1)" by fastforce
  have w: "walked A cs (if 0 < i then say_all [chat_note c w] w else w)" and c: "c \<in> set cs" using Cons.prems by simp_all
  note r = try_rung_walked[OF t w c]
  show ?case
  proof (cases out)
    case (Interrupted e calls)
    moreover have "walked A cs (w1\<lparr>wk_prior := wk_prior w1 @ calls, wk_error := Some e\<rparr>)"
      using r(2,3) Interrupted by (intro walked_prior) simp_all
    ultimately show ?thesis using Cons t by (simp add: Let_def)
  qed (use Cons t r in \<open>simp_all add: Let_def\<close>)
qed

lemma admit_rungs_verdict: "c \<in> set (fst (admit_rungs A cs)) \<Longrightarrow> rung_verdict A 0 c = Inr () \<and> c \<in> set cs"
  by (induction cs) (auto split: prod.splits sum.splits)

lemma new_walk_walked: "walked A cs (new_walk refused)"
  by (simp add: walked_def new_walk_def reads_only_def)

lemma walked_rungs:
  "walked_to_end A rungs (walk_chat A sys 0 rungs (if rungs = [] then say_all es (new_walk why) else new_walk why))"
  "walked_to_end A rungs (if rungs = [] then say_all es (new_walk why) else walk_worker A sys 0 rungs (new_walk why))"
  by (rule walk_chat_walked) (simp_all add: new_walk_walked walk_worker_walked walked_ends)

text \<open>Each attempt of a worker's turn is a run of what its provider started.\<close>

lemma worker_attempts:
  assumes "(c, p, out, t) \<in> set (wk_turns (run_bounded_loop A sys cfg ladder))"
  shows "t = new_turn \<or> (\<exists>i L. la_start A i c p = Inr L \<and> t = rs_turn (run_round_loop L))"
proof -
  have "walked_to_end A (fst (admit_rungs A (worker_candidates cfg ladder))) (run_bounded_loop A sys cfg ladder)"
    unfolding run_bounded_loop_def by (simp only: split_beta walked_rungs)
  then obtain i es where "attempt_run A i c p = (es, t)"
    using assms by (auto simp: walked_to_end_def list_all_iff made_by_def)
  then show ?thesis by (auto simp: attempt_run_def split: sum.splits)
qed

text \<open>Claim C4. Over the whole ladder of a chat turn or a worker's turn: only a model the routing policy admitted is
  asked; a model is followed by another only where it did not answer; and where it had run a call that may act,
  only where it ended in silence, in an empty completion or with no error said. What is handed over only reads.\<close>

theorem a_turn_that_acted_is_not_passed_on:
  assumes "w = chat_ladder A cls sys refused active fallbacks ladder \<or> w = run_bounded_loop A sys active ladder"
  shows "(\<forall>(c, p, out, t) \<in> set (wk_turns w). rung_verdict A 0 c = Inr ()) \<and>
    (\<forall>(c, p, out, t) \<in> set (butlast (wk_turns w)). out \<noteq> Delivered \<and> (acted t \<longrightarrow> silent_end out)) \<and>
    reads_only (wk_prior w)"
proof -
  have "\<exists>cs. walked_to_end A (fst (admit_rungs A cs)) w"
    using assms
  proof
    assume w: "w = chat_ladder A cls sys refused active fallbacks ladder"
    show ?thesis
      unfolding w chat_ladder_def
      by (rule exI[of _ "chat_candidates refused active fallbacks ladder"]) (simp only: split_beta walked_rungs)
  next
    assume w: "w = run_bounded_loop A sys active ladder"
    show ?thesis
      unfolding w run_bounded_loop_def
      by (rule exI[of _ "worker_candidates active ladder"]) (simp only: split_beta walked_rungs)
  qed
  then obtain cs where w: "walked_to_end A (fst (admit_rungs A cs)) w" by blast
  have "rung_verdict A 0 c = Inr ()" if "(c, p, out, t) \<in> set (wk_turns w)" for c p out t
  proof -
    have "c \<in> set (fst (admit_rungs A cs))"
      using w that by (auto simp: walked_to_end_def list_all_iff made_by_def)
    then show ?thesis using admit_rungs_verdict by blast
  qed
  then show ?thesis using w by (auto simp: walked_to_end_def list_all_iff passed_on_def)
qed

subsection \<open>A write made twice\<close>

lemma no_answer_relay:
  assumes "\<not> list_ex answers_user es" and "\<forall>m. EError m \<notin> set es"
  shows "rl_answered (foldl relay_event r es) = rl_answered r" "rl_error (foldl relay_event r es) = rl_error r"
proof -
  have "rl_answered (foldl relay_event r es) = rl_answered r \<and> rl_error (foldl relay_event r es) = rl_error r"
    using assms
  proof (induction es arbitrary: r)
    case (Cons ev es)
    have "rl_answered (relay_event r ev) = rl_answered r \<and> rl_error (relay_event r ev) = rl_error r"
      using Cons.prems by (cases ev) (auto simp: relay_event_def Let_def)
    then show ?case using Cons.IH[of "relay_event r ev"] Cons.prems by simp
  qed simp
  then show "rl_answered (foldl relay_event r es) = rl_answered r" "rl_error (foldl relay_event r es) = rl_error r"
    by simp_all
qed

lemma empty_completion_unanswered:
  assumes "\<not> list_ex answers_user es" and "\<forall>m. EError m \<notin> set es"
  shows "\<exists>sent. relay_attempt (es @ [EError empty_completion_message, EDone]) = (Unanswered (Some empty_completion_message), sent)"
  using no_answer_relay[OF assms, of new_relay]
  by (simp add: relay_attempt_def relay_event_def attempt_end_def hear_call_def new_relay_def Let_def)

lemma chat_turns_grow: "\<exists>xs. wk_turns (walk_chat A sys i rungs w) = wk_turns w @ xs"
proof (induction rungs arbitrary: i w)
  case (Cons c rungs)
  obtain out w1 where t: "try_rung A sys i c (if 0 < i then say_all [chat_note c w] w else w) = (out, w1)" by fastforce
  have "\<exists>xs. wk_turns w1 = wk_turns w @ xs"
    using t by (auto simp: try_rung_def say_all_def Let_def split: prod.splits if_splits)
  then obtain xs where xs: "wk_turns w1 = wk_turns w @ xs" by blast
  have say: "wk_turns (say_all es v) = wk_turns v" for es v by (simp add: say_all_def)
  have more: "\<exists>ys. wk_turns (walk_chat A sys j rungs v) = wk_turns w @ ys" if "wk_turns v = wk_turns w @ xs" for j v
    using Cons.IH[of j v] that by auto
  show ?case
    using Cons.IH[of "Suc i" w] xs t
    by (cases out) (auto simp: Let_def say intro!: more)
qed simp

text \<open>Claim C38. A model that wrote and then went empty is followed by the next as if it had done nothing: the next
  starts with the same prompt and its own guard, so a write that both ask for runs twice in one turn.\<close>

theorem an_empty_completion_repeats_a_write:
  assumes rungs: "fst (admit_rungs A (chat_candidates refused active fallbacks ladder)) = c1 # c2 # rest"
    and still: "rest = [] \<or> still_admitted A 1 c2"
    and one: "la_start A 0 c1 sys = Inr L1" and two: "la_start A 1 c2 sys = Inr L2"
    and silent: "rs_events (run_round_loop L1) = es @ [EError empty_completion_message, EDone]"
      "\<not> list_ex answers_user es" "\<forall>m. EError m \<notin> set es"
    and wrote: "x \<in> set (turn_writes (rs_turn (run_round_loop L1)))" "x \<in> set (turn_writes (rs_turn (run_round_loop L2)))"
  shows "\<exists>out1 out2 more. wk_turns (chat_ladder A cls sys refused active fallbacks ladder) =
      (c1, sys, out1, rs_turn (run_round_loop L1)) # (c2, sys, out2, rs_turn (run_round_loop L2)) # more \<and>
    \<not> distinct (turn_writes (rs_turn (run_round_loop L1)) @ turn_writes (rs_turn (run_round_loop L2)))"
proof -
  obtain why where adm: "admit_rungs A (chat_candidates refused active fallbacks ladder) = (c1 # c2 # rest, why)"
    using rungs by (cases "admit_rungs A (chat_candidates refused active fallbacks ladder)") simp
  obtain sent where un: "relay_attempt (rs_events (run_round_loop L1)) = (Unanswered (Some empty_completion_message), sent)"
    using empty_completion_unanswered[OF silent(2,3)] silent(1) by auto
  let ?w0 = "new_walk why"
  have p0: "attempt_prompt A sys ?w0 = sys" by (simp add: attempt_prompt_def new_walk_def)
  define w1 where "w1 = ?w0\<lparr>wk_events := wk_events ?w0 @ sent, wk_turns := wk_turns ?w0 @
    [(c1, sys, Unanswered (Some empty_completion_message), rs_turn (run_round_loop L1))]\<rparr>"
  have t1: "try_rung A sys 0 c1 ?w0 = (Unanswered (Some empty_completion_message), w1)"
    by (simp add: try_rung_def p0 attempt_run_def one un w1_def)
  define w2 where "w2 = w1\<lparr>wk_error := or_else_opt (Some empty_completion_message) (wk_error w1)\<rparr>"
  have p2: "attempt_prompt A sys (say_all [chat_note c2 w2] w2) = sys"
    by (simp add: attempt_prompt_def w2_def w1_def new_walk_def say_all_def)
  obtain out2 sent2 where r2: "relay_attempt (rs_events (run_round_loop L2)) = (out2, sent2)" by fastforce
  define w3 where "w3 = (say_all [chat_note c2 w2] w2)\<lparr>wk_events := wk_events (say_all [chat_note c2 w2] w2) @ sent2,
    wk_turns := wk_turns (say_all [chat_note c2 w2] w2) @ [(c2, sys, out2, rs_turn (run_round_loop L2))]\<rparr>"
  have t2: "try_rung A sys 1 c2 (say_all [chat_note c2 w2] w2) = (out2, w3)"
    using two by (simp add: try_rung_def p2[simplified] attempt_run_def r2 w3_def)
  have w3: "wk_turns w3 = wk_turns w2 @ [(c2, sys, out2, rs_turn (run_round_loop L2))]"
    by (simp add: w3_def say_all_def)
  have "walk_chat A sys 0 (c1 # c2 # rest) ?w0 = walk_chat A sys 1 (c2 # rest) w2"
    using t1 by (simp add: w2_def Let_def)
  moreover have "\<exists>xs. wk_turns (walk_chat A sys 1 (c2 # rest) w2) = wk_turns w3 @ xs"
  proof -
    have say: "wk_turns (say_all es v) = wk_turns v" for es v by (simp add: say_all_def)
    have go: "\<exists>xs. wk_turns (walk_chat A sys (Suc (Suc 0)) rest v) = wk_turns w3 @ xs" if "wk_turns v = wk_turns w3" for v
      using chat_turns_grow[of A sys "Suc (Suc 0)" rest v] that by simp
    have keep: "rest = [] \<or> still_admitted A (Suc 0) c2" using still by simp
    show ?thesis
      using t2 keep by (cases out2) (auto simp: Let_def say intro!: go)
  qed
  ultimately obtain more where "wk_turns (chat_ladder A cls sys refused active fallbacks ladder) =
      (c1, sys, Unanswered (Some empty_completion_message), rs_turn (run_round_loop L1)) #
      (c2, sys, out2, rs_turn (run_round_loop L2)) # more"
    by (auto simp: chat_ladder_def adm w3 w2_def w1_def new_walk_def)
  moreover have "\<not> distinct (turn_writes (rs_turn (run_round_loop L1)) @ turn_writes (rs_turn (run_round_loop L2)))"
    using wrote by auto
  ultimately show ?thesis by blast
qed

subsection \<open>Instances\<close>

definition working_env :: guard_env where
  "working_env = \<lparr>ge_serde = sample_serde, ge_probe = False, ge_handler = True, ge_fingerprint = (\<lambda>_ _. 0),
     ge_plugin_retrieval = [], ge_execute = (\<lambda>_ _ _. success_text ''created'')\<rparr>"

definition task_call :: round_reply where
  "task_call = \<lparr>rr_text = [], rr_calls = [\<lparr>tc_id = [], tc_name = ''create_task'', tc_args = JNull\<rparr>], rr_malformed = None\<rparr>"

definition said :: "string \<Rightarrow> round_reply" where
  "said t = \<lparr>rr_text = t, rr_calls = [], rr_malformed = None\<rparr>"

definition task_tool :: tool_def where
  "task_tool = \<lparr>tdef_name = ''create_task'', tdef_description = [], tdef_schema = JNull\<rparr>"

text \<open>A model that creates a task and then says \<open>t\<close>.\<close>

definition task_loop :: "string \<Rightarrow> loop_env" where
  "task_loop t = (sample_loop (\<lambda>n _ _. ([], Inr (if n = 0 then task_call else said t))))
     \<lparr>le_guard := working_env, le_tools := [task_tool]\<rparr>"

definition sample_ladder :: ladder_env where
  "sample_ladder = \<lparr>la_world = (\<lambda>_. sample_world), la_ctx = new_context PBackground DPrivate, la_serde = sample_serde,
     la_start = (\<lambda>i _ _. Inr (task_loop (if i = 0 then [] else ''done'')))\<rparr>"

definition first_rung :: llm_config where
  "first_rung = default_config sample_engine"

definition second_rung :: llm_config where
  "second_rung = first_rung\<lparr>lc_model := ''b''\<rparr>"

lemma sample_rungs:
  "fst (admit_rungs sample_ladder (chat_candidates False first_rung [] [second_rung])) = [first_rung, second_rung]"
  by code_simp

definition no_error :: "chat_event \<Rightarrow> bool" where
  "no_error ev \<longleftrightarrow> (case ev of EError m \<Rightarrow> False | _ \<Rightarrow> True)"

lemma task_call_runs:
  "execute_guarded working_env ''create_task'' JNull new_turn =
     (\<lparr>ca_success = True, ca_text = ''created'', ca_bulk = None\<rparr>,
      \<lparr>tn_guard = \<lparr>tg_retrieval_ran = False, tg_seen_writes = [0]\<rparr>,
       tn_ran = [(''create_task'', JNull, None, True)]\<rparr>)"
  by code_simp

lemma first_pass:
  "\<exists>s1 p q. round_pass (task_loop t) (start_rounds (task_loop t)) = Again s1 \<and> rs_final s1 = False \<and>
     rs_rounds s1 = 1 \<and> rs_empty s1 = 0 \<and> rs_asked s1 = 1 \<and> rs_answered s1 = False \<and>
     rs_events s1 = [EToolCall ''create_task'' JNull, EToolResult ''create_task'' True p q] \<and>
     tn_ran (rs_turn s1) = [(''create_task'', JNull, None, True)]"
  by (simp add: round_pass_def wrap_up_def start_rounds_def task_loop_def sample_loop_def spend_refusal_def
      take_reply_def task_call_def calling_reply_def run_call_def answer_call_def not_one_of_yours_def offered_names_def
      task_tool_def dispatch_tool_call_def task_call_runs note_result_def trim_def trim_end_def trim_start_def
      emit_all_def push_def Let_def)

lemma run_passes_numeral:
  "run_passes L (numeral k) s = (case round_pass L s of Again s1 \<Rightarrow> run_passes L (pred_numeral k) s1 | e \<Rightarrow> e)"
  by (simp add: numeral_eq_Suc)

lemma next_pass:
  assumes "rs_asked s \<noteq> 0" and "rs_rounds s < 2" and "\<not> rs_final s"
  shows "round_pass (task_loop t) s = spoken_reply (task_loop t) (said t) (s\<lparr>rs_asked := rs_asked s + 1\<rparr>)"
  using assms
  by (simp add: round_pass_def wrap_up_def task_loop_def sample_loop_def spend_refusal_def take_reply_def said_def
      emit_all_def Let_def)

lemma silent_loop:
  "\<exists>p q. rs_events (run_round_loop (task_loop [])) =
     [EToolCall ''create_task'' JNull, EToolResult ''create_task'' True p q] @ [EError empty_completion_message, EDone]"
  "turn_writes (rs_turn (run_round_loop (task_loop []))) = [(''create_task'', JNull)]"
proof -
  obtain s1 p q where s1: "round_pass (task_loop []) (start_rounds (task_loop [])) = Again s1" "rs_final s1 = False"
    "rs_rounds s1 = 1" "rs_empty s1 = 0" "rs_asked s1 = 1"
    "rs_events s1 = [EToolCall ''create_task'' JNull, EToolResult ''create_task'' True p q]"
    "tn_ran (rs_turn s1) = [(''create_task'', JNull, None, True)]"
    using first_pass[of "[]"] by blast
  have b: "round_bound (task_loop []) + 1 = 7"
    by (simp add: round_bound_def max_empty_completion_retries_def max_malformed_tool_call_retries_def task_loop_def sample_loop_def)
  have r: "run_round_loop (task_loop []) =
      emit_all [EError empty_completion_message, EDone]
        (s1\<lparr>rs_empty := Suc (Suc 0), rs_asked := Suc (Suc (Suc (Suc 0)))\<rparr>)"
    unfolding run_round_loop_def b
    using s1 by (simp add: run_passes_numeral next_pass spoken_reply_def said_def max_empty_completion_retries_def)
  show "\<exists>p q. rs_events (run_round_loop (task_loop [])) =
     [EToolCall ''create_task'' JNull, EToolResult ''create_task'' True p q] @ [EError empty_completion_message, EDone]"
    using s1(6) by (simp add: r)
  show "turn_writes (rs_turn (run_round_loop (task_loop []))) = [(''create_task'', JNull)]"
    using s1(7) by (simp add: r turn_writes_def ran_call_def is_write_def write_tools_def)
qed

lemma answering_loop:
  "turn_writes (rs_turn (run_round_loop (task_loop ''done''))) = [(''create_task'', JNull)]"
proof -
  obtain s1 p q where s1: "round_pass (task_loop ''done'') (start_rounds (task_loop ''done'')) = Again s1" "rs_final s1 = False"
    "rs_rounds s1 = 1" "rs_asked s1 = 1" "tn_ran (rs_turn s1) = [(''create_task'', JNull, None, True)]"
    using first_pass[of "''done''"] by blast
  have b: "round_bound (task_loop ''done'') + 1 = 7"
    by (simp add: round_bound_def max_empty_completion_retries_def max_malformed_tool_call_retries_def task_loop_def sample_loop_def)
  have v: "le_voice (task_loop ''done'') = None" by (simp add: task_loop_def sample_loop_def)
  have "rs_turn (run_round_loop (task_loop ''done'')) = rs_turn s1"
    unfolding run_round_loop_def b
    using s1 by (simp add: run_passes_numeral next_pass spoken_reply_def said_def v finish_rounds_def)
  then show ?thesis using s1(5) by (simp add: turn_writes_def ran_call_def is_write_def write_tools_def)
qed

theorem an_empty_completion_repeats_a_write_witness:
  "\<exists>out1 out2 more t. wk_turns (chat_ladder sample_ladder ''private'' ''sys'' False first_rung [] [second_rung]) =
      (first_rung, ''sys'', out1, rs_turn (run_round_loop (task_loop []))) # (second_rung, ''sys'', out2, t) # more"
proof -
  obtain p q where ev: "rs_events (run_round_loop (task_loop [])) =
     [EToolCall ''create_task'' JNull, EToolResult ''create_task'' True p q] @ [EError empty_completion_message, EDone]"
    using silent_loop(1) by blast
  have "[second_rung] = second_rung # []" by simp
  show ?thesis
    using an_empty_completion_repeats_a_write[OF sample_rungs _ _ _ ev, of "''sys''" "task_loop ''done''" "(''create_task'', JNull)" "''private''"]
    by (fastforce simp: sample_ladder_def answers_user_def silent_loop(2) answering_loop)
qed

theorem a_turn_that_acted_is_not_passed_on_witness:
  "reads_only (wk_prior (run_bounded_loop sample_ladder ''sys'' first_rung [second_rung]))"
  using a_turn_that_acted_is_not_passed_on[of "run_bounded_loop sample_ladder ''sys'' first_rung [second_rung]" sample_ladder]
  by blast

end
