(* ===== verification/Wire_History.thy ===== *)
theory Wire_History
  imports Round_Loop Text_Calls
begin

text \<open>
  The message histories two wire formats keep of a turn: \<open>OpenAiTurn\<close> with \<open>trim_messages\<close>
  (\<open>crates/chat/src/chat/openai_loop.rs\<close>) and \<open>AnthropicTurn\<close> (\<open>anthropic_loop.rs\<close>), as functions of what the round
  loop pushes; and what a reply is, from the lines of a stream or the blocks of a response. In a history the fields a
  provider put on a call beyond its name and arguments, and the content blocks of an Anthropic reply, are parameters.
\<close>

subsection \<open>Messages\<close>

record history_message =
  hm_role :: string
  hm_content :: string

definition message_of :: "string \<Rightarrow> string \<Rightarrow> json" where
  "message_of role content = JObj [(''content'', JStr content), (''role'', JStr role)]"

definition role_is :: "string \<Rightarrow> json \<Rightarrow> bool" where
  "role_is role m \<longleftrightarrow> json_field m ''role'' = JStr role"

definition has_calls :: "json \<Rightarrow> bool" where
  "has_calls m \<longleftrightarrow> json_get m ''tool_calls'' \<noteq> None"

definition max_history_messages :: nat where
  "max_history_messages = 10"

subsection \<open>The OpenAI wire\<close>

definition openai_new :: "string \<Rightarrow> history_message list \<Rightarrow> string \<Rightarrow> json list" where
  "openai_new sys history question =
     [message_of ''system'' sys] @ map (\<lambda>h. message_of (hm_role h) (hm_content h)) history @
     [message_of ''user'' question]"

text \<open>A call as it is echoed: \<open>extras\<close> are the further fields the call came with.\<close>

definition openai_call :: "serde \<Rightarrow> (string \<Rightarrow> json_map) \<Rightarrow> tool_call_req \<Rightarrow> json" where
  "openai_call S extras c =
     (let args = (case tc_args c of JObj _ \<Rightarrow> to_str S (tc_args c) | _ \<Rightarrow> ''{}'');
          call = [(''function'', JObj [(''arguments'', JStr args), (''name'', JStr (tc_name c))]),
                  (''id'', JStr (tc_id c)), (''type'', JStr ''function'')]
      in JObj (foldl (\<lambda>m (k, v). map_insert k v m) call (extras (tc_id c))))"

definition openai_assistant :: "serde \<Rightarrow> (string \<Rightarrow> json_map) \<Rightarrow> round_reply \<Rightarrow> json" where
  "openai_assistant S extras r =
     (let content = (if rr_text r = [] then JNull else JStr (rr_text r))
      in if rr_calls r = []
         then JObj [(''content'', if content = JNull
                                   then JStr ''(a tool call whose arguments were not valid JSON)'' else content),
                    (''role'', JStr ''assistant'')]
         else JObj [(''content'', content), (''role'', JStr ''assistant''),
                    (''tool_calls'', JArr (map (openai_call S extras) (rr_calls r)))])"

definition openai_result :: "tool_outcome \<Rightarrow> json" where
  "openai_result o1 =
     JObj [(''content'', JStr (to_model_text o1)), (''role'', JStr ''tool''), (''tool_call_id'', JStr (to_id o1))]"

fun round_start :: "json list \<Rightarrow> nat \<Rightarrow> nat" where
  "round_start ms 0 = 0"
| "round_start ms (Suc k) = (if 2 < Suc k \<and> role_is ''tool'' (ms ! Suc k) then round_start ms k else Suc k)"

definition trim_messages :: "nat \<Rightarrow> json list \<Rightarrow> json list" where
  "trim_messages keep ms =
     (if length ms \<le> keep + 2 then ms
      else let from = round_start ms (length ms - keep)
           in if from \<le> 2 then ms else take 2 ms @ drop from ms)"

text \<open>The loop trims after it has pushed results, and only then.\<close>

definition openai_push :: "serde \<Rightarrow> (string \<Rightarrow> json_map) \<Rightarrow> json list \<Rightarrow> pushed \<Rightarrow> json list" where
  "openai_push S extras ms p =
     (case p of
        PushUser t \<Rightarrow> ms @ [message_of ''user'' t]
      | PushAssistant r \<Rightarrow> ms @ [openai_assistant S extras r]
      | PushResults os \<Rightarrow> trim_messages max_history_messages (ms @ map openai_result os))"

definition openai_history ::
  "serde \<Rightarrow> (string \<Rightarrow> json_map) \<Rightarrow> string \<Rightarrow> history_message list \<Rightarrow> string \<Rightarrow> pushed list \<Rightarrow> json list" where
  "openai_history S extras sys history question ps =
     foldl (openai_push S extras) (openai_new sys history question) ps"

subsection \<open>The Anthropic wire\<close>

definition anthropic_new :: "history_message list \<Rightarrow> string \<Rightarrow> json list" where
  "anthropic_new history question =
     map (\<lambda>h. message_of (hm_role h) (hm_content h)) history @ [message_of ''user'' question]"

definition text_block :: "string \<Rightarrow> json" where
  "text_block t = JObj [(''text'', JStr t), (''type'', JStr ''text'')]"

text \<open>A user turn takes a further text into its own content; \<open>map_insert\<close> replaces the content in place.\<close>

definition fold_user :: "json \<Rightarrow> string \<Rightarrow> json" where
  "fold_user m t =
     (let content = (case json_field m ''content'' of
                       JArr blocks \<Rightarrow> JArr (blocks @ [text_block t])
                     | JStr s \<Rightarrow> JArr [text_block s, text_block t]
                     | _ \<Rightarrow> JArr [text_block t])
      in case m of JObj m' \<Rightarrow> JObj (map_insert ''content'' content m') | _ \<Rightarrow> m)"

definition anthropic_result :: "tool_outcome \<Rightarrow> json" where
  "anthropic_result o1 =
     JObj [(''content'', JStr (to_model_text o1)), (''is_error'', JBool (\<not> to_success o1)),
           (''tool_use_id'', JStr (to_id o1)), (''type'', JStr ''tool_result'')]"

definition anthropic_push :: "(round_reply \<Rightarrow> json list) \<Rightarrow> json list \<Rightarrow> pushed \<Rightarrow> json list" where
  "anthropic_push blocks ms p =
     (case p of
        PushUser t \<Rightarrow>
          if ms \<noteq> [] \<and> role_is ''user'' (last ms) then butlast ms @ [fold_user (last ms) t]
          else ms @ [message_of ''user'' t]
      | PushAssistant r \<Rightarrow> ms @ [JObj [(''content'', JArr (blocks r)), (''role'', JStr ''assistant'')]]
      | PushResults os \<Rightarrow> ms @ [JObj [(''content'', JArr (map anthropic_result os)), (''role'', JStr ''user'')]])"

definition anthropic_history ::
  "(round_reply \<Rightarrow> json list) \<Rightarrow> history_message list \<Rightarrow> string \<Rightarrow> pushed list \<Rightarrow> json list" where
  "anthropic_history blocks history question ps =
     foldl (anthropic_push blocks) (anthropic_new history question) ps"

subsection \<open>What a stream says\<close>

text \<open>The reply of an OpenAI-compatible server as \<open>OpenAiTurn::call\<close> gathers it from the lines of its stream: the
  text, and the calls by their slot (a \<open>BTreeMap\<close>, so in the order of the slots). A delta without an index is keyed
  by its id, one without either goes to slot 0. Lines are those that a newline ended; what is sent on as tokens and the
  accounting of the call are left out; the message of \<open>serde_json\<close> for arguments it refuses is the parameter \<open>why\<close>.\<close>

record call_slot =
  cs_id :: string
  cs_name :: string
  cs_args :: string
  cs_extra :: json_map

record stream_acc =
  sa_text :: string
  sa_slots :: "(nat \<times> call_slot) list"
  sa_ids :: "(string \<times> nat) list"
  sa_prompt_tokens :: "int option"

definition new_stream :: stream_acc where
  "new_stream = \<lparr>sa_text = [], sa_slots = [], sa_ids = [], sa_prompt_tokens = None\<rparr>"

definition slot_of :: "json \<Rightarrow> (string \<times> nat) list \<Rightarrow> nat \<times> (string \<times> nat) list" where
  "slot_of tc ids =
     (case as_u64 (json_field tc ''index'') of
        Some i \<Rightarrow> (i, ids)
      | None \<Rightarrow> (case as_str (json_field tc ''id'') of
          None \<Rightarrow> (0, ids)
        | Some i \<Rightarrow> (case map_of ids i of
            Some n \<Rightarrow> (n, ids)
          | None \<Rightarrow> let n = 1000 + length ids in (n, ids @ [(i, n)]))))"

fun in_slot :: "nat \<Rightarrow> (call_slot \<Rightarrow> call_slot) \<Rightarrow> (nat \<times> call_slot) list \<Rightarrow> (nat \<times> call_slot) list" where
  "in_slot i f [] = [(i, f \<lparr>cs_id = [], cs_name = [], cs_args = [], cs_extra = []\<rparr>)]"
| "in_slot i f ((j, s) # slots) =
     (if i = j then (j, f s) # slots
      else if i < j then (i, f \<lparr>cs_id = [], cs_name = [], cs_args = [], cs_extra = []\<rparr>) # (j, s) # slots
      else (j, s) # in_slot i f slots)"

definition extra_fields :: "json \<Rightarrow> json_map" where
  "extra_fields tc =
     (case tc of JObj m \<Rightarrow> filter (\<lambda>(k, v). k \<notin> {''index'', ''id'', ''type'', ''function''}) m | _ \<Rightarrow> [])"

definition fill_slot :: "json \<Rightarrow> call_slot \<Rightarrow> call_slot" where
  "fill_slot tc s =
     (let f = json_field tc ''function''
      in s\<lparr>cs_id := or_default (cs_id s) (as_str (json_field tc ''id'')),
           cs_name := or_default (cs_name s) (as_str (json_field f ''name'')),
           cs_args := cs_args s @ or_default [] (as_str (json_field f ''arguments'')),
           cs_extra := foldl (\<lambda>m (k, v). map_insert k v m) (cs_extra s) (extra_fields tc)\<rparr>)"

definition absorb_call :: "stream_acc \<Rightarrow> json \<Rightarrow> stream_acc" where
  "absorb_call a tc =
     (case slot_of tc (sa_ids a) of
        (i, ids) \<Rightarrow> a\<lparr>sa_slots := in_slot i (fill_slot tc) (sa_slots a), sa_ids := ids\<rparr>)"

definition first_choice :: "json \<Rightarrow> json" where
  "first_choice v = (case json_field v ''choices'' of JArr (c # _) \<Rightarrow> c | _ \<Rightarrow> JNull)"

text \<open>A chunk: an error ends the call; \<open>True\<close> says that the stream is done.\<close>

definition absorb_chunk :: "string \<Rightarrow> stream_acc \<Rightarrow> json \<Rightarrow> string + bool \<times> stream_acc" where
  "absorb_chunk provider a v =
     (case as_str (json_field v ''error'') of
        Some e \<Rightarrow> Inl (provider @ '' error: '' @ e)
      | None \<Rightarrow>
          let a1 = (if json_get v ''usage'' = None then a
                    else a\<lparr>sa_prompt_tokens := as_i64 (json_field (json_field v ''usage'') ''prompt_tokens'')\<rparr>);
              delta = json_field (first_choice v) ''delta'';
              a2 = a1\<lparr>sa_text := sa_text a1 @ or_default [] (as_str (json_field delta ''content''))\<rparr>;
              a3 = (case json_field delta ''tool_calls'' of JArr tcs \<Rightarrow> foldl absorb_call a2 tcs | _ \<Rightarrow> a2);
              finish = or_default [] (as_str (json_field (first_choice v) ''finish_reason''))
          in Inr ((finish = ''stop'' \<or> finish = ''tool_calls'') \<and> sa_prompt_tokens a3 \<noteq> None, a3))"

fun read_stream :: "serde \<Rightarrow> string \<Rightarrow> stream_acc \<Rightarrow> string list \<Rightarrow> string + stream_acc" where
  "read_stream S provider a [] = Inr a"
| "read_stream S provider a (l # ls) =
     (let line = trim l in
      if line = [] then read_stream S provider a ls
      else if line = ''data: [DONE]'' then Inr a
      else (case from_str S (or_default line (strip_prefix ''data: '' line)) of
              None \<Rightarrow> read_stream S provider a ls
            | Some v \<Rightarrow>
                (case absorb_chunk provider a v of
                   Inl e \<Rightarrow> Inl e
                 | Inr (True, a1) \<Rightarrow> Inr a1
                 | Inr (False, a1) \<Rightarrow> read_stream S provider a1 ls)))"

definition bad_arguments :: "serde \<Rightarrow> call_slot \<Rightarrow> bool" where
  "bad_arguments S c \<longleftrightarrow> trim (cs_args c) \<noteq> [] \<and> from_str S (cs_args c) = None"

definition malformed_stream :: "serde \<Rightarrow> (string \<Rightarrow> string) \<Rightarrow> stream_acc \<Rightarrow> malformed_call option" where
  "malformed_stream S why a =
     map_option (\<lambda>c. \<lparr>mc_tool = Some (cs_name c), mc_error = ''its arguments are not valid JSON ('' @ why (cs_args c) @ '')''\<rparr>)
       (find (bad_arguments S) (map snd (sa_slots a)))"

definition streamed_calls :: "serde \<Rightarrow> stream_acc \<Rightarrow> tool_call_req list" where
  "streamed_calls S a =
     map (\<lambda>c. \<lparr>tc_id = cs_id c, tc_name = cs_name c,
                tc_args = (if trim (cs_args c) = [] then JObj [] else or_default JNull (from_str S (cs_args c)))\<rparr>)
       (map snd (sa_slots a))"

definition stream_extras :: "stream_acc \<Rightarrow> (string \<times> json_map) list" where
  "stream_extras a = foldl (\<lambda>m c. if cs_extra c = [] then m else AList.update (cs_id c) (cs_extra c) m) [] (map snd (sa_slots a))"

definition text_call_req :: "string \<times> string \<times> json \<Rightarrow> tool_call_req" where
  "text_call_req = (\<lambda>(i, name, args). \<lparr>tc_id = i, tc_name = name, tc_args = args\<rparr>)"

text \<open>The reply. Calls are looked for in the text where there are none, also where a malformed one has just cleared
  them. \<open>None\<close> is that the text takes the turn down.\<close>

definition openai_reply :: "serde \<Rightarrow> (string \<Rightarrow> string) \<Rightarrow> stream_acc \<Rightarrow> round_reply option" where
  "openai_reply S why a =
     (let bad = malformed_stream S why a; calls = (if bad \<noteq> None then [] else streamed_calls S a)
      in if calls \<noteq> [] then Some \<lparr>rr_text = sa_text a, rr_calls = calls, rr_malformed = bad\<rparr>
         else (case text_fallback S (sa_text a) of
                 Reply t found \<Rightarrow> Some \<lparr>rr_text = t, rr_calls = map text_call_req found, rr_malformed = bad\<rparr>
               | _ \<Rightarrow> None))"

text \<open>The reply of an Anthropic server, from its content blocks; \<open>json_field\<close> of a block is null where it lacks it.\<close>

definition truncated_mark :: string where
  "truncated_mark = nl @ nl @ ''[TRUNCATED: the model reached its output limit (max_tokens); this answer is cut off.]''"

definition anthropic_call :: "bool \<Rightarrow> json \<Rightarrow> tool_call_req list" where
  "anthropic_call end_turn b =
     (if json_field b ''type'' = JStr ''tool_use'' \<and> \<not> end_turn
      then [\<lparr>tc_id = or_default [] (as_str (json_field b ''id'')), tc_name = or_default [] (as_str (json_field b ''name'')),
             tc_args = json_field b ''input''\<rparr>] else [])"

definition anthropic_reply :: "json \<Rightarrow> string + round_reply \<times> json list" where
  "anthropic_reply resp =
     (case json_field resp ''content'' of
        JArr blocks \<Rightarrow>
          let stop = as_str (json_field resp ''stop_reason'');
              texts = concat (map (\<lambda>b. if json_field b ''type'' = JStr ''text''
                                       then or_default [] (as_str (json_field b ''text'')) else []) blocks)
          in Inr (\<lparr>rr_text = texts @ (if stop = Some ''max_tokens'' then truncated_mark else []),
                   rr_calls = concat (map (anthropic_call (stop = Some ''end_turn'')) blocks), rr_malformed = None\<rparr>, blocks)
      | _ \<Rightarrow> Inl ''No content in Anthropic response'')"

subsection \<open>What the loop pushes\<close>

text \<open>A reply is followed by the results of its calls, one for each, or by a correction of its malformed call, and then
  none of its calls has run.\<close>

fun exchanges :: "pushed list \<Rightarrow> bool" where
  "exchanges [] \<longleftrightarrow> True"
| "exchanges (PushUser t # ps) \<longleftrightarrow> exchanges ps"
| "exchanges (PushAssistant r # PushUser t # ps) \<longleftrightarrow> (rr_calls r = [] \<or> rr_malformed r \<noteq> None) \<and> exchanges ps"
| "exchanges (PushAssistant r # PushResults os # ps) \<longleftrightarrow>
     rr_calls r \<noteq> [] \<and> length os = length (rr_calls r) \<and> exchanges ps"
| "exchanges _ \<longleftrightarrow> False"

text \<open>No reply among them has both a malformed call and other calls.\<close>

definition tidy_pushes :: "pushed list \<Rightarrow> bool" where
  "tidy_pushes ps \<longleftrightarrow>
     list_all (\<lambda>p. case p of PushAssistant r \<Rightarrow> rr_malformed r = None \<or> rr_calls r = [] | _ \<Rightarrow> True) ps"

lemma tidy_pushes_simps [simp]:
  "tidy_pushes []" "tidy_pushes (ps @ qs) \<longleftrightarrow> tidy_pushes ps \<and> tidy_pushes qs"
  "tidy_pushes (PushUser t # ps) \<longleftrightarrow> tidy_pushes ps" "tidy_pushes (PushResults os # ps) \<longleftrightarrow> tidy_pushes ps"
  "tidy_pushes (PushAssistant r # ps) \<longleftrightarrow> (rr_malformed r = None \<or> rr_calls r = []) \<and> tidy_pushes ps"
  by (simp_all add: tidy_pushes_def)

lemma exchanges_append: "exchanges ps \<Longrightarrow> exchanges qs \<Longrightarrow> exchanges (ps @ qs)"
  by (induction ps rule: exchanges.induct) auto

lemma pushed_simps [simp]:
  "rs_pushed (emit_all es s) = rs_pushed s" "rs_pushed (push p s) = rs_pushed s @ [p]"
  by (simp_all add: emit_all_def push_def)

lemma answer_call_pushed: "answer_call L c s = (a, s1) \<Longrightarrow> rs_pushed s1 = rs_pushed s"
  by (auto simp: answer_call_def dispatch_tool_call_def split: option.splits if_splits prod.splits)

lemma run_call_pushed: "rs_pushed (snd (run_call L c s)) = rs_pushed s"
proof -
  obtain a s1 where a: "answer_call L c (emit_all [EToolCall (tc_name c) (tc_args c)] s) = (a, s1)" by fastforce
  show ?thesis using answer_call_pushed[OF a] by (simp add: run_call_def a note_result_def Let_def)
qed

lemma run_round_calls_pushed:
  "rs_pushed (snd (run_round_calls L cs s)) = rs_pushed s" "length (fst (run_round_calls L cs s)) = length cs"
proof (induction cs arbitrary: s)
  case (Cons c cs)
  {
    case 1
    show ?case using Cons.IH(1)[of "snd (run_call L c s)"] run_call_pushed[of L c s] by (auto split: prod.split)
  next
    case 2
    show ?case using Cons.IH(2)[of "snd (run_call L c s)"] by (auto split: prod.split)
  }
qed simp_all

lemma wrap_up_exchanges: "exchanges (rs_pushed s) \<Longrightarrow> exchanges (rs_pushed (wrap_up L s))"
  by (simp add: wrap_up_def exchanges_append)

lemma pass_exchanges:
  assumes "exchanges (rs_pushed s)" and "round_pass L s \<in> {Again s1, Leave s1, Return s1}"
  shows "exchanges (rs_pushed s1)"
proof -
  note w = wrap_up_exchanges[OF assms(1), of L]
  have reply: "exchanges (rs_pushed s1)"
    if e: "exchanges (rs_pushed s2)" and r: "take_reply L r s2 \<in> {Again s1, Leave s1, Return s1}"
    for s2 r
  proof (cases "rr_malformed r = None \<and> rr_calls r \<noteq> []")
    case True
    let ?s = "push (PushAssistant r) (if trim (rr_text r) \<noteq> [] then emit_all [EThinking (rr_text r)]
      (s2\<lparr>rs_rounds := rs_rounds s2 + 1\<rparr>) else s2\<lparr>rs_rounds := rs_rounds s2 + 1\<rparr>)"
    have "rs_pushed s1 = rs_pushed s2 @ [PushAssistant r, PushResults (fst (run_round_calls L (rr_calls r) ?s))]"
      using r True run_round_calls_pushed(1)[of L "rr_calls r" ?s]
      by (auto simp: take_reply_def calling_reply_def Let_def split: prod.splits if_splits)
    then show ?thesis using e True run_round_calls_pushed(2) by (simp add: exchanges_append)
  next
    case False
    then show ?thesis
      using e r by (auto simp: take_reply_def malformed_reply_def spoken_reply_def Let_def
          exchanges_append split: option.splits if_splits)
  qed
  show ?thesis
    using assms(2) w
    by (auto simp: round_pass_def Let_def split: option.splits prod.splits sum.splits if_splits
        intro: reply[rotated])
qed

lemma passes_exchanges:
  "exchanges (rs_pushed s) \<Longrightarrow> run_passes L n s \<in> {Again s1, Leave s1, Return s1} \<Longrightarrow>
     exchanges (rs_pushed s1)"
proof (induction n arbitrary: s)
  case (Suc n)
  then show ?case using pass_exchanges[OF Suc.prems(1)] by (cases "round_pass L s") fastforce+
qed simp

subsection \<open>Results follow their calls\<close>

definition call_count :: "json \<Rightarrow> nat" where
  "call_count m = (case json_get m ''tool_calls'' of Some (JArr cs) \<Rightarrow> length cs | _ \<Rightarrow> 0)"

text \<open>What a strict server asks of a history: a message with \<open>n\<close> calls is followed by their \<open>n\<close> results, and a result
  stands nowhere else.\<close>

fun calls_answered :: "nat \<Rightarrow> json list \<Rightarrow> bool" where
  "calls_answered n [] \<longleftrightarrow> n = 0"
| "calls_answered 0 (m # ms) \<longleftrightarrow> \<not> role_is ''tool'' m \<and> calls_answered (call_count m) ms"
| "calls_answered (Suc n) (m # ms) \<longleftrightarrow> role_is ''tool'' m \<and> calls_answered n ms"

lemma calls_answered_append: "calls_answered n ms \<Longrightarrow> calls_answered 0 ms' \<Longrightarrow> calls_answered n (ms @ ms')"
  by (induction n ms rule: calls_answered.induct) auto

lemma calls_answered_drop:
  "calls_answered n ms \<Longrightarrow> k < length ms \<Longrightarrow> \<not> role_is ''tool'' (ms ! k) \<Longrightarrow> calls_answered 0 (drop k ms)"
proof (induction n ms arbitrary: k rule: calls_answered.induct)
  case (2 m ms)
  then show ?case by (cases k) auto
next
  case (3 n m ms)
  then show ?case by (cases k) auto
qed simp

lemma calls_answered_results: "list_all (role_is ''tool'') rs \<Longrightarrow> calls_answered (length rs) rs"
  by (induction rs) auto

lemma round_start_le: "round_start ms n \<le> n"
  by (induction n) auto

lemma round_start_not_tool: "2 < round_start ms n \<Longrightarrow> \<not> role_is ''tool'' (ms ! round_start ms n)"
  by (induction n) (auto split: if_splits)

text \<open>The two messages every trimmed history begins with hold no calls.\<close>

definition headed :: "json list \<Rightarrow> bool" where
  "headed ms \<longleftrightarrow> (\<exists>a b rest. ms = a # b # rest \<and> \<not> role_is ''tool'' a \<and> \<not> role_is ''tool'' b \<and>
     call_count a = 0 \<and> call_count b = 0)"

lemma trim_keeps:
  assumes "headed ms" and "calls_answered 0 ms" and "0 < keep"
  shows "headed (trim_messages keep ms)" "calls_answered 0 (trim_messages keep ms)"
proof -
  define from_here where "from_here = round_start ms (length ms - keep)"
  obtain a b rest where ms: "ms = a # b # rest" "\<not> role_is ''tool'' a" "\<not> role_is ''tool'' b"
    "call_count a = 0" "call_count b = 0"
    using assms(1) by (auto simp: headed_def)
  have "headed (take 2 ms @ drop from_here ms)" using ms by (auto simp: headed_def numeral_2_eq_2)
  moreover have "calls_answered 0 (take 2 ms @ drop from_here ms)" if "2 < from_here"
  proof -
    have "from_here < length ms" using round_start_le[of ms "length ms - keep"] assms(3) ms(1) by (simp add: from_here_def)
    then have "calls_answered 0 (drop from_here ms)"
      using calls_answered_drop[OF assms(2)] round_start_not_tool[of ms "length ms - keep"] that by (simp add: from_here_def)
    then show ?thesis using ms by (simp add: numeral_2_eq_2)
  qed
  ultimately show "headed (trim_messages keep ms)" "calls_answered 0 (trim_messages keep ms)"
    using assms by (auto simp: trim_messages_def from_here_def Let_def)
qed

lemma message_facts [simp]:
  "role_is role (message_of role' t) \<longleftrightarrow> role' = role" "call_count (message_of role' t) = 0"
  "role_is ''tool'' (openai_result o1)" "\<not> role_is ''tool'' (openai_assistant S extras r)"
  "call_count (openai_assistant S extras r) = length (rr_calls r)"
  by (auto simp: message_of_def role_is_def json_field_def call_count_def openai_result_def openai_assistant_def Let_def)

lemma headed_append: "headed ms \<Longrightarrow> headed (ms @ ms')"
  by (auto simp: headed_def)

lemma openai_push_simps:
  "openai_push S extras ms (PushUser t) = ms @ [message_of ''user'' t]"
  "openai_push S extras ms (PushAssistant r) = ms @ [openai_assistant S extras r]"
  "openai_push S extras ms (PushResults os) = trim_messages max_history_messages (ms @ map openai_result os)"
  by (simp_all add: openai_push_def)

lemma window_pos: "0 < max_history_messages"
  by (simp add: max_history_messages_def)

lemma openai_pushes_keep:
  "headed ms \<Longrightarrow> calls_answered 0 ms \<Longrightarrow> exchanges ps \<Longrightarrow> tidy_pushes ps \<Longrightarrow>
     headed (foldl (openai_push S extras) ms ps) \<and> calls_answered 0 (foldl (openai_push S extras) ms ps)"
proof (induction ps arbitrary: ms rule: exchanges.induct)
  case (2 t ps)
  have "headed (ms @ [message_of ''user'' t])" "calls_answered 0 (ms @ [message_of ''user'' t])"
    using 2 by (simp_all add: headed_append calls_answered_append)
  then show ?case using 2 by (simp add: openai_push_simps)
next
  case (3 r t ps)
  let ?new = "[openai_assistant S extras r, message_of ''user'' t]"
  have "rr_calls r = []" using 3(4,5) by auto
  then have "headed (ms @ ?new)" "calls_answered 0 (ms @ ?new)"
    using 3 by (simp_all add: headed_append calls_answered_append)
  then show ?case using 3 by (simp add: openai_push_simps)
next
  case (4 r os ps)
  let ?new = "openai_assistant S extras r # map openai_result os"
  have "calls_answered (length (map openai_result os)) (map openai_result os)"
    by (rule calls_answered_results) (simp add: list_all_iff)
  then have "headed (ms @ ?new)" "calls_answered 0 (ms @ ?new)"
    using 4 by (simp_all add: headed_append calls_answered_append)
  from trim_keeps[OF this window_pos] show ?case using 4 by (simp add: openai_push_simps)
qed simp_all

lemma openai_new_ok:
  assumes "\<forall>h \<in> set history. hm_role h \<noteq> ''tool''"
  shows "headed (openai_new sys history question)" "calls_answered 0 (openai_new sys history question)"
proof -
  show "headed (openai_new sys history question)"
    using assms by (cases history) (auto simp: headed_def openai_new_def)
  have "calls_answered 0 (map (\<lambda>h. message_of (hm_role h) (hm_content h)) history @ [message_of ''user'' question])"
    using assms by (induction history) auto
  then show "calls_answered 0 (openai_new sys history question)" by (simp add: openai_new_def)
qed

text \<open>Claim C12. Whatever the rounds of a turn did, after any number of passes the history an OpenAI-compatible server
  is sent next keeps its order: each message with calls is followed by exactly one result for each, though old
  rounds are trimmed, and no result stands alone. This is so as long as no reply of the turn had both a malformed
  call and calls written in its text, and the conversation so far holds no results of its own.\<close>

theorem the_openai_history_stays_in_order:
  assumes "tidy_pushes (rs_pushed s)" and "\<forall>h \<in> set history. hm_role h \<noteq> ''tool''"
    and "run_passes L n (start_rounds L) = Leave s"
  shows "calls_answered 0 (openai_history S extras sys history question (rs_pushed s)) \<and>
    calls_answered 0 (openai_history S extras sys history question (rs_pushed (wrap_up L s)))"
proof -
  have e: "exchanges (rs_pushed s)"
    using passes_exchanges[of "start_rounds L" L n s] assms(3) by (simp add: start_rounds_def)
  have "exchanges (rs_pushed (wrap_up L s))" by (rule wrap_up_exchanges[OF e])
  moreover have "tidy_pushes (rs_pushed (wrap_up L s))" using assms(1) by (simp add: wrap_up_def)
  ultimately show ?thesis
    using openai_pushes_keep[OF openai_new_ok[OF assms(2)]] e assms(1) by (simp add: openai_history_def)
qed

subsection \<open>A malformed call beside calls in the text\<close>

lemma calls_answered_more: "calls_answered n ms \<Longrightarrow> calls_answered n (ms @ ms') \<longleftrightarrow> calls_answered 0 ms'"
  by (induction n ms rule: calls_answered.induct) auto

lemma openai_history_more:
  "openai_history S extras sys history question (ps @ qs) =
     foldl (openai_push S extras) (openai_history S extras sys history question ps) qs"
  by (simp add: openai_history_def)

text \<open>Which replies of this wire are not tidy.\<close>

lemma openai_reply_untidy:
  assumes "openai_reply S why a = Some r"
  shows "rr_malformed r \<noteq> None \<and> rr_calls r \<noteq> [] \<longleftrightarrow>
    malformed_stream S why a \<noteq> None \<and> parse_xml_tool_calls S (sa_text a) \<noteq> Some []"
  using assms
  by (auto simp: openai_reply_def text_fallback_def Let_def split: if_splits option.splits text_reply.splits)

text \<open>A malformed call clears the calls of a reply, but then its text is searched for calls. Where it has some,
  they are in the reply that is corrected: they do not run, and the history the model is sent next has their
  message without any result, which strict servers reject.\<close>

theorem malformed_beside_text_calls_breaks_the_history:
  assumes "openai_reply S why a = Some r" and "malformed_stream S why a \<noteq> None"
    and "parse_xml_tool_calls S (sa_text a) \<noteq> Some []" and "rs_malformed s < max_malformed_tool_call_retries"
    and "calls_answered 0 (openai_history S extras sys history question (rs_pushed s))"
  shows "\<exists>s1 t. take_reply L r s = Again s1 \<and> rs_pushed s1 = rs_pushed s @ [PushAssistant r, PushUser t] \<and>
    tn_ran (rs_turn s1) = tn_ran (rs_turn s) \<and> rr_calls r \<noteq> [] \<and>
    \<not> calls_answered 0 (openai_history S extras sys history question (rs_pushed s1))"
proof -
  obtain bad where bad: "rr_malformed r = Some bad" and calls: "rr_calls r \<noteq> []"
    using openai_reply_untidy[OF assms(1)] assms(2,3) by auto
  obtain s1 t where s1: "take_reply L r s = Again s1" "rs_pushed s1 = rs_pushed s @ [PushAssistant r, PushUser t]"
      "rs_turn s1 = rs_turn s"
    using assms(4) by (simp add: take_reply_def bad malformed_reply_def Let_def)
  obtain n where n: "length (rr_calls r) = Suc n" using calls by (cases "rr_calls r") auto
  have "\<not> calls_answered 0 (openai_history S extras sys history question (rs_pushed s1))"
    unfolding s1(2) openai_history_more
    by (simp add: openai_push_simps calls_answered_more[OF assms(5)] n)
  with s1 calls show ?thesis by auto
qed

subsection \<open>What trimming keeps\<close>

text \<open>Claim C40. Trimming keeps the second message of the history for the user's, but in a conversation that is the
  oldest one: once the rounds outgrow the window, a question asked after an earlier exchange is dropped from
  the history, and the oldest message of the conversation stays.\<close>

theorem trimming_drops_the_question:
  assumes "history \<noteq> []" and "keep \<le> length rounds" and "0 < keep"
    and "\<not> role_is ''tool'' (rounds ! (length rounds - keep))"
  shows "trim_messages keep (openai_new sys history question @ rounds) =
    [message_of ''system'' sys, message_of (hm_role (hd history)) (hm_content (hd history))] @
    drop (length rounds - keep) rounds"
proof -
  obtain h hs where h: "history = h # hs" using assms(1) by (cases history) auto
  define new where "new = openai_new sys history question"
  define k where "k = length rounds - keep"
  have l: "length new = length hs + 3" by (simp add: new_def openai_new_def h)
  have k: "length (new @ rounds) - keep = length new + k" using assms(2) by (simp add: k_def)
  have nth: "(new @ rounds) ! (length new + k) = rounds ! k" by (simp add: nth_append)
  have start: "round_start (new @ rounds) (length new + k) = length new + k"
  proof (cases "length new + k")
    case (Suc n)
    then show ?thesis using assms(4) nth by (simp add: k_def[symmetric])
  qed simp
  have "take 2 (new @ rounds) = [message_of ''system'' sys, message_of (hm_role h) (hm_content h)]"
    by (simp add: new_def openai_new_def h numeral_2_eq_2)
  moreover have "drop (length new + k) (new @ rounds) = drop k rounds" by simp
  moreover have "\<not> length (new @ rounds) \<le> keep + 2" using l assms(2) by simp
  moreover have "\<not> length new + k \<le> 2" using l by simp
  ultimately have "trim_messages keep (new @ rounds) =
      [message_of ''system'' sys, message_of (hm_role h) (hm_content h)] @ drop k rounds"
    unfolding trim_messages_def k start by (simp only: if_False Let_def)
  then show ?thesis by (simp add: new_def k_def h)
qed

subsection \<open>Turns alternate on the Anthropic wire\<close>

fun alternating :: "bool \<Rightarrow> json list \<Rightarrow> bool" where
  "alternating b [] \<longleftrightarrow> True"
| "alternating b (m # ms) \<longleftrightarrow> role_is (if b then ''user'' else ''assistant'') m \<and> alternating (\<not> b) ms"

lemma alternating_append:
  "alternating b (xs @ ys) \<longleftrightarrow> alternating b xs \<and> alternating (if even (length xs) then b else \<not> b) ys"
  by (induction xs arbitrary: b) auto

text \<open>A history that alternates and ends with a user's turn.\<close>

definition awaits_reply :: "bool \<Rightarrow> json list \<Rightarrow> bool" where
  "awaits_reply b ms \<longleftrightarrow> alternating b ms \<and> ms \<noteq> [] \<and> role_is ''user'' (last ms)"

lemma fold_user_role: "role_is ''user'' m \<Longrightarrow> role_is ''user'' (fold_user m t)"
  by (cases m) (auto simp: role_is_def fold_user_def json_field_def Let_def)

lemma role_exclusive: "role_is a m \<Longrightarrow> role_is b m \<Longrightarrow> a = b"
  by (simp add: role_is_def)

lemma awaits_fold:
  assumes "awaits_reply b ms"
  shows "awaits_reply b (butlast ms @ [fold_user (last ms) t])"
proof -
  obtain xs x where ms: "ms = xs @ [x]" using assms by (cases ms rule: rev_cases) (auto simp: awaits_reply_def)
  have "role_is ''user'' x" using assms by (simp add: awaits_reply_def ms)
  then have u: "role_is ''user'' (fold_user x t)" by (rule fold_user_role)
  have "(if if even (length xs) then b else \<not> b then ''user'' else ''assistant'') = ''user''"
    using assms role_exclusive \<open>role_is ''user'' x\<close> by (simp only: awaits_reply_def ms alternating_append alternating.simps) blast
  then show ?thesis using assms u by (simp add: awaits_reply_def ms alternating_append split: if_splits)
qed

lemma awaits_exchange:
  assumes "awaits_reply b ms" and "role_is ''assistant'' a" and "role_is ''user'' u"
  shows "awaits_reply b (ms @ [a, u])"
proof -
  obtain xs x where ms: "ms = xs @ [x]" using assms by (cases ms rule: rev_cases) (auto simp: awaits_reply_def)
  have x: "role_is ''user'' x" using assms by (simp add: awaits_reply_def ms)
  have "(if if even (length xs) then b else \<not> b then ''user'' else ''assistant'') = ''user''"
    using assms role_exclusive x by (simp only: awaits_reply_def ms alternating_append alternating.simps) blast
  then show ?thesis using assms by (auto simp: awaits_reply_def ms alternating_append split: if_splits)
qed

lemma anthropic_pushes_keep:
  "awaits_reply b ms \<Longrightarrow> exchanges ps \<Longrightarrow> awaits_reply b (foldl (anthropic_push blocks) ms ps)"
proof (induction ps arbitrary: ms rule: exchanges.induct)
  case (2 t ps)
  have "anthropic_push blocks ms (PushUser t) = butlast ms @ [fold_user (last ms) t]"
    using 2(2) by (simp add: anthropic_push_def awaits_reply_def)
  then show ?case using 2 awaits_fold by simp
next
  case (3 r t ps)
  let ?a = "JObj [(''content'', JArr (blocks r)), (''role'', JStr ''assistant'')]"
  have a: "role_is ''assistant'' ?a" by (simp add: role_is_def json_field_def)
  have "awaits_reply b (ms @ [?a, message_of ''user'' t])" using awaits_exchange[OF 3(2) a] by simp
  moreover have "\<not> role_is ''user'' ?a" using a role_exclusive by blast
  ultimately show ?case using 3 by (simp add: anthropic_push_def)
next
  case (4 r os ps)
  let ?a = "JObj [(''content'', JArr (blocks r)), (''role'', JStr ''assistant'')]"
  let ?u = "JObj [(''content'', JArr (map anthropic_result os)), (''role'', JStr ''user'')]"
  have "role_is ''assistant'' ?a" "role_is ''user'' ?u" by (simp_all add: role_is_def json_field_def)
  from awaits_exchange[OF 4(2) this] show ?case using 4 by (simp add: anthropic_push_def)
qed simp_all

text \<open>The messages before the question stay as they are, and the question's message stays a user's.\<close>

lemma anthropic_prefix:
  assumes "ms = xs @ u # rest" and "role_is ''user'' u"
  shows "\<exists>u' rest'. foldl (anthropic_push blocks) ms ps = xs @ u' # rest' \<and> role_is ''user'' u'"
  using assms
proof (induction ps arbitrary: ms u rest)
  case (Cons p ps)
  have "\<exists>u' rest'. anthropic_push blocks ms p = xs @ u' # rest' \<and> role_is ''user'' u'"
  proof (cases p)
    case (PushUser t)
    then show ?thesis using Cons.prems
      by (cases rest rule: rev_cases) (auto simp: anthropic_push_def butlast_append intro: fold_user_role)
  qed (use Cons.prems in \<open>auto simp: anthropic_push_def\<close>)
  then show ?case using Cons.IH by auto
qed auto

text \<open>Claim C30. On the Anthropic wire, after any number of passes, the history the loop sends next alternates and ends
  with a user's turn exactly where the conversation it was given, with the question, does: a nudge is folded into
  the turn that holds the results, and whatever the replies were no round breaks the order; but nothing mends a
  conversation that comes in with two user's turns in a row.\<close>

theorem the_anthropic_history_alternates:
  assumes "run_passes L n (start_rounds L) = Leave s"
  shows "awaits_reply b (anthropic_history blocks history question (rs_pushed (wrap_up L s))) \<longleftrightarrow>
    awaits_reply b (anthropic_new history question)"
proof
  have "exchanges (rs_pushed s)"
    using passes_exchanges[of "start_rounds L" L n s] assms by (simp add: start_rounds_def)
  then have "exchanges (rs_pushed (wrap_up L s))" by (rule wrap_up_exchanges)
  then show "awaits_reply b (anthropic_new history question) \<Longrightarrow>
      awaits_reply b (anthropic_history blocks history question (rs_pushed (wrap_up L s)))"
    unfolding anthropic_history_def by (intro anthropic_pushes_keep)
next
  let ?xs = "map (\<lambda>h. message_of (hm_role h) (hm_content h)) history"
  assume sent: "awaits_reply b (anthropic_history blocks history question (rs_pushed (wrap_up L s)))"
  obtain u' rest' where "anthropic_history blocks history question (rs_pushed (wrap_up L s)) = ?xs @ u' # rest'"
      "role_is ''user'' u'"
    using anthropic_prefix[where xs = ?xs and u = "message_of ''user'' question" and rest = "[]" and blocks = blocks
        and ps = "rs_pushed (wrap_up L s)", OF refl]
    unfolding anthropic_history_def anthropic_new_def by auto
  with sent have "alternating b (?xs @ [u'])" by (simp add: awaits_reply_def alternating_append)
  moreover have "role_is (if c then ''user'' else ''assistant'') (message_of ''user'' question)"
    if "role_is (if c then ''user'' else ''assistant'') u'" for c
    using that \<open>role_is ''user'' u'\<close> role_exclusive[of "''user''" u' "''assistant''"] by (cases c) auto
  ultimately show "awaits_reply b (anthropic_new history question)"
    by (auto simp: awaits_reply_def anthropic_new_def alternating_append split: if_splits)
qed

subsection \<open>Instances\<close>

lemma smuggling_pass:
  "\<exists>s1. run_passes (sample_loop smuggling_model) n s = Leave s1"
  using keeps_calling_passes[of "sample_loop smuggling_model" n s]
  by (auto simp: keeps_calling_def spend_refusal_def sample_loop_def smuggling_model_def)

lemma one_smuggled_call:
  "\<exists>s. run_passes (sample_loop smuggling_model) 1 (start_rounds (sample_loop smuggling_model)) = Leave s \<and>
     tidy_pushes (rs_pushed s) \<and> length (rs_pushed s) = 2"
  by (simp add: round_pass_def wrap_up_def start_rounds_def sample_loop_def smuggling_model_def spend_refusal_def
      take_reply_def calling_reply_def Let_def prod.case_eq_if run_round_calls_pushed del: run_round_calls.simps)

definition earlier_turns :: "history_message list" where
  "earlier_turns = [\<lparr>hm_role = ''user'', hm_content = ''hi''\<rparr>, \<lparr>hm_role = ''assistant'', hm_content = ''hello''\<rparr>]"

theorem the_openai_history_stays_in_order_witness:
  "\<exists>s. run_passes (sample_loop smuggling_model) 1 (start_rounds (sample_loop smuggling_model)) = Leave s \<and>
     length (rs_pushed s) = 2 \<and>
     calls_answered 0 (openai_history sample_serde (\<lambda>_. []) ''sys'' earlier_turns ''q'' (rs_pushed s))"
proof -
  obtain s where s: "run_passes (sample_loop smuggling_model) 1 (start_rounds (sample_loop smuggling_model)) = Leave s"
      "tidy_pushes (rs_pushed s)" "length (rs_pushed s) = 2"
    using one_smuggled_call by blast
  have "\<forall>h \<in> set earlier_turns. hm_role h \<noteq> ''tool''" by (simp add: earlier_turns_def)
  from the_openai_history_stays_in_order[OF s(2) this s(1)] s show ?thesis by blast
qed

theorem the_anthropic_history_alternates_witness:
  "\<exists>s. run_passes (sample_loop smuggling_model) 6 (start_rounds (sample_loop smuggling_model)) = Leave s \<and>
     awaits_reply True (anthropic_history (\<lambda>_. []) earlier_turns ''q'' (rs_pushed (wrap_up (sample_loop smuggling_model) s)))"
proof -
  obtain s where s: "run_passes (sample_loop smuggling_model) 6 (start_rounds (sample_loop smuggling_model)) = Leave s"
    using smuggling_pass by blast
  have "awaits_reply True (anthropic_new earlier_turns ''q'')"
    by (simp add: awaits_reply_def anthropic_new_def earlier_turns_def)
  with the_anthropic_history_alternates[OF s] s show ?thesis by blast
qed

definition cut_stream :: stream_acc where
  "cut_stream = \<lparr>sa_text = call_text (''list_tasks'', [], []),
     sa_slots = [(0, \<lparr>cs_id = ''i'', cs_name = ''search_notes'', cs_args = ''{'', cs_extra = []\<rparr>)], sa_ids = [],
     sa_prompt_tokens = None\<rparr>"

theorem malformed_beside_text_calls_breaks_the_history_witness:
  "\<exists>r s1. openai_reply sample_serde (\<lambda>_. ''EOF'') cut_stream = Some r \<and>
     take_reply (sample_loop smuggling_model) r (start_rounds (sample_loop smuggling_model)) = Again s1 \<and>
     \<not> calls_answered 0 (openai_history sample_serde (\<lambda>_. []) ''sys'' [] ''q'' (rs_pushed s1))"
proof -
  have p: "list_all plain_call [(''list_tasks'', [], [])]" by (simp add: plain_call_def invoke_close_def)
  have found: "parse_xml_tool_calls sample_serde (sa_text cut_stream) = Some [read_call sample_serde (0, ''list_tasks'', [], [])]"
    using read_plain_calls[OF tag_free_nothing _ p, of sample_serde 0] tag_free_nothing
    by (simp add: cut_stream_def parse_xml_tool_calls_def text_after_def)
  have "strip_xml_tool_calls (sa_text cut_stream) = Some (strip_wrappers [])"
    using strip_plain_calls[of "[]", OF _ p] tag_free_nothing
    by (simp add: cut_stream_def strip_xml_tool_calls_def text_after_def)
  with found have fb: "text_fallback sample_serde (sa_text cut_stream) =
      Reply (strip_wrappers []) [read_call sample_serde (0, ''list_tasks'', [], [])]"
    by (simp add: text_fallback_def)
  have bad: "malformed_stream sample_serde (\<lambda>_. ''EOF'') cut_stream \<noteq> None" by code_simp
  then obtain r where r: "openai_reply sample_serde (\<lambda>_. ''EOF'') cut_stream = Some r"
    by (simp add: openai_reply_def fb Let_def)
  have "calls_answered 0 (openai_history sample_serde (\<lambda>_. []) ''sys'' [] ''q'' (rs_pushed (start_rounds (sample_loop smuggling_model))))"
    by (simp add: start_rounds_def openai_history_def openai_new_def)
  from malformed_beside_text_calls_breaks_the_history[OF r bad _ _ this, of "sample_loop smuggling_model"] r found
  show ?thesis by (auto simp: start_rounds_def max_malformed_tool_call_retries_def)
qed

theorem trimming_drops_the_question_witness:
  "message_of ''user'' ''the question'' \<notin> set (trim_messages 10
     (openai_new ''sys'' earlier_turns ''the question'' @ replicate 11 (message_of ''assistant'' ''call'')))"
proof -
  have "\<not> role_is ''tool'' (replicate 11 (message_of ''assistant'' ''call'') !
      (length (replicate 11 (message_of ''assistant'' ''call'')) - 10))"
    by simp
  from trimming_drops_the_question[OF _ _ _ this, of earlier_turns "''sys''" "''the question''"]
  show ?thesis by (simp add: earlier_turns_def message_of_def)
qed

end
