(* ===== verification/Agent_Verify.thy ===== *)
theory Agent_Verify
  imports Chat_Ladder
begin

text \<open>
  What an agent's run is checked against (\<open>crates/chat/src/agent_runner.rs\<close>, \<open>trajectory.rs\<close>): the tools it
  called with their outcomes, the tests and lints its sandbox runs reported, the code its answer shows, and a
  caller's requirements. A pattern a caller writes (\<open>answer_requires.when\<close>), the pattern of a cited path with the
  files behind it, and the pattern of a line that reports a passing run are parameters. Text is ASCII where
  letters are told from other characters.
\<close>

subsection \<open>Reading a sandbox result\<close>

text \<open>The pattern \<open>"key"\s*:\s*(\d+)\<close> at the head of a text, and its first match anywhere.\<close>

definition after_key :: "string \<Rightarrow> string \<Rightarrow> string option" where
  "after_key key s =
     Option.bind (strip_prefix ([CHR 0x22] @ key @ [CHR 0x22]) s) (\<lambda>r.
     Option.bind (strip_prefix '':'' (trim_start r)) (\<lambda>r'. Some (trim_start r')))"

definition number_at :: "string \<Rightarrow> string \<Rightarrow> string option" where
  "number_at key s = Option.bind (after_key key s) (\<lambda>r. opt_nonempty (takeWhile is_digit r))"

fun first_number :: "string \<Rightarrow> string \<Rightarrow> string option" where
  "first_number key [] = None"
| "first_number key (c # cs) =
     (case number_at key (c # cs) of Some d \<Rightarrow> Some d | None \<Rightarrow> first_number key cs)"

fun says_text :: "string \<Rightarrow> string \<Rightarrow> string \<Rightarrow> bool" where
  "says_text key v [] \<longleftrightarrow> False"
| "says_text key v (c # cs) \<longleftrightarrow>
     (case after_key key (c # cs) of Some r \<Rightarrow> starts_with r v | None \<Rightarrow> False) \<or> says_text key v cs"

definition count_of :: "string \<Rightarrow> string \<Rightarrow> nat option" where
  "count_of key result = Option.bind (first_number key result) (parse_unsigned (2 ^ 64 - 1))"

definition clippy_clean :: "string \<Rightarrow> string \<Rightarrow> bool option" where
  "clippy_clean tool result =
     (if tool \<noteq> ''execute_code'' \<or> \<not> says_text ''command'' ([CHR 0x22] @ ''clippy'' @ [CHR 0x22]) result then None
      else Some (says_text ''success'' ''true'' result \<and> count_of ''lint_findings'' result = Some 0))"

definition passing_tests :: "string \<Rightarrow> string \<Rightarrow> nat option" where
  "passing_tests tool result =
     (if tool \<noteq> ''execute_code'' \<or> says_text ''compile_failed'' ''true'' result then None
      else Option.bind (count_of ''tests_passed'' result) (\<lambda>passed.
             if 0 < passed \<and> or_default 0 (count_of ''tests_failed'' result) = 0 then Some passed else None))"

subsection \<open>The code an answer shows\<close>

definition fence_line :: "string \<Rightarrow> bool" where
  "fence_line line \<longleftrightarrow> 3 \<le> length (trim line) \<and> list_all (\<lambda>c. c = CHR ''`'') (trim line)"

definition closing_fence :: "string \<Rightarrow> (nat \<times> nat) option" where
  "closing_fence body =
     (let ls = lines_with_ends body; before = takeWhile (\<lambda>l. \<not> fence_line l) ls;
          start = length (concat before)
      in if length before < length ls then Some (start, start + length (ls ! length before)) else None)"

definition rust_mark :: string where
  "rust_mark = ''```rust''"

definition test_mark :: string where
  "test_mark = ''#[test]''"

text \<open>The fuel is the length of the text: each block read leaves less of it.\<close>

fun rust_blocks :: "nat \<Rightarrow> string \<Rightarrow> string list" where
  "rust_blocks 0 rest = []"
| "rust_blocks (Suc n) rest =
     (case split_at_str rust_mark rest of
        None \<Rightarrow> []
      | Some (_, after) \<Rightarrow>
          let body = (case split_at_str nl after of Some (_, b) \<Rightarrow> b | None \<Rightarrow> [])
          in (case closing_fence body of
                None \<Rightarrow> []
              | Some (e, next_at) \<Rightarrow> take e body # rust_blocks n (drop next_at body)))"

text \<open>\<open>max_by_key\<close> answers the last of the longest.\<close>

definition longest :: "string list \<Rightarrow> string option" where
  "longest bs = foldl (\<lambda>best b. case best of None \<Rightarrow> Some b | Some x \<Rightarrow> if length x \<le> length b then Some b else best) None bs"

definition answer_rust_code :: "string \<Rightarrow> string option" where
  "answer_rust_code answer =
     (let blocks = rust_blocks (length answer) answer in
      case find (\<lambda>b. str_contains b test_mark) blocks of Some b \<Rightarrow> Some b | None \<Rightarrow> longest blocks)"

subsubsection \<open>The crate it is run in\<close>

definition hyphens_under :: "string \<Rightarrow> string" where
  "hyphens_under s = map (\<lambda>c. if c = CHR ''-'' then CHR ''_'' else c) s"

definition dependency_line :: "string \<Rightarrow> (string \<times> string) list" where
  "dependency_line line =
     (case split_at_str ''='' line of
        Some (name, _) \<Rightarrow> if trim name \<noteq> [] then [(hyphens_under (trim name), line)] else []
      | None \<Rightarrow> [])"

fun dependency_lines :: "bool \<Rightarrow> string list \<Rightarrow> (string \<times> string) list" where
  "dependency_lines in_deps [] = []"
| "dependency_lines in_deps (line # ls) =
     (let t = trim line in
      if starts_with t ''['' then dependency_lines (t = ''[dependencies]'') ls
      else if \<not> in_deps \<or> t = [] \<or> starts_with t ''#'' then dependency_lines in_deps ls
      else dependency_line t @ dependency_lines in_deps ls)"

definition sandbox_dependencies :: "string \<Rightarrow> (string \<times> string) list" where
  "sandbox_dependencies manifest = dependency_lines False (text_lines manifest)"

definition answer_crate :: "string \<Rightarrow> (string \<times> string) list \<Rightarrow> json" where
  "answer_crate code deps =
     (let used = map snd (filter (\<lambda>(name, _). str_contains code (name @ ''::'') \<or> str_contains code (''use '' @ name)) deps);
          q = [CHR 0x22];
          manifest = ''[package]'' @ nl @ ''name = '' @ q @ ''answer'' @ q @ nl @ ''version = '' @ q @ ''0.1.0'' @ q @ nl @
            ''edition = '' @ q @ ''2021'' @ q @ nl @ nl @ ''[dependencies]'' @ nl @ join_with nl used @ nl;
          src = (if str_contains code ''fn main'' then ''src/main.rs'' else ''src/lib.rs'')
      in JObj [(''Cargo.toml'', JStr manifest), (src, JStr code)])"

definition first_compile_error :: "string \<Rightarrow> string option" where
  "first_compile_error stderr =
     map_option (take_chars 200)
       (find (\<lambda>l. starts_with l ''error['' \<or> starts_with l ''error:'') (map trim (text_lines stderr)))"

subsection \<open>Checking a run\<close>

record tool_invocation =
  ti_tool :: string
  ti_success :: bool
  ti_tests_passed :: "nat option"
  ti_clippy_clean :: "bool option"
  ti_action :: "string option"
  ti_stubbed :: bool

record answer_requirement =
  aq_when :: string
  aq_tools :: "string list"

record verify_spec =
  vs_require_tools :: "string list"
  vs_answer_requires :: "answer_requirement list"
  vs_retry :: bool
  vs_code_requires_tests :: bool
  vs_code_requires_clippy_clean :: bool
  vs_rerun_answer_code :: bool
  vs_cited_paths_exist :: bool
  vs_question :: string
  vs_require_code_if_question_mentions :: "string list"

definition no_spec :: verify_spec where
  "no_spec = \<lparr>vs_require_tools = [], vs_answer_requires = [], vs_retry = False, vs_code_requires_tests = False,
     vs_code_requires_clippy_clean = False, vs_rerun_answer_code = False, vs_cited_paths_exist = False,
     vs_question = [], vs_require_code_if_question_mentions = []\<rparr>"

text \<open>The matches of a pattern: an error, no match, or where the first one starts and ends. And the cited paths
  that do not exist, where there is a codebase to look in.\<close>

record verify_env =
  ve_find :: "string \<Rightarrow> string \<Rightarrow> string + (nat \<times> nat) option"
  ve_missing :: "(string \<Rightarrow> string list) option"
  ve_pass_claim :: "string \<Rightarrow> bool"

definition is_alnum :: "char \<Rightarrow> bool" where
  "is_alnum c \<longleftrightarrow> is_alpha c \<or> is_digit c"

text \<open>The characters beside each match of a word: matches do not overlap, and the empty word matches everywhere.\<close>

definition side_chars :: "string \<Rightarrow> nat \<Rightarrow> nat \<Rightarrow> char option \<times> char option" where
  "side_chars s i n =
     (if i = 0 then None else Some (s ! (i - 1)), if i + n < length s then Some (s ! (i + n)) else None)"

fun match_places :: "string \<Rightarrow> string \<Rightarrow> nat \<Rightarrow> nat \<Rightarrow> nat list" where
  "match_places w s 0 i = []"
| "match_places w s (Suc n) i =
     (if length s < i then []
      else if starts_with (drop i s) w then i # match_places w s n (i + max 1 (length w))
      else match_places w s n (i + 1))"

definition match_indices :: "string \<Rightarrow> string \<Rightarrow> nat list" where
  "match_indices w s = match_places w s (length s + 1) 0"

definition mentions_any :: "string \<Rightarrow> string list \<Rightarrow> bool" where
  "mentions_any t words =
     (let low = lower t in
      list_ex (\<lambda>w0. let w = lower w0 in
        list_ex (\<lambda>i. case side_chars low i (length w) of
            (before, after) \<Rightarrow> (case before of Some c \<Rightarrow> \<not> is_alnum c | None \<Rightarrow> True) \<and>
                               (case after of Some c \<Rightarrow> \<not> is_alnum c | None \<Rightarrow> True))
          (match_indices w low)) words)"

definition unmet :: "tool_invocation list \<Rightarrow> string \<Rightarrow> string option" where
  "unmet trace required =
     (let (tool, action) = (case split_at_str '':'' required of
                              Some (t, a) \<Rightarrow> (trim t, Some (trim a)) | None \<Rightarrow> (trim required, None));
          met = list_ex (\<lambda>t. ti_tool t = tool \<and> ti_success t \<and> \<not> ti_stubbed t \<and>
                  (case action of None \<Rightarrow> True | Some a \<Rightarrow> ti_action t = Some a)) trace
      in if met then None
         else Some (case action of
                Some a \<Rightarrow> ''no successful `'' @ tool @ ''` call with action `'' @ a @ ''` this run''
              | None \<Rightarrow> ''no successful `'' @ tool @ ''` call this run''))"

text \<open>The whole line a match sits on.\<close>

definition line_around :: "string \<Rightarrow> nat \<Rightarrow> nat \<Rightarrow> string" where
  "line_around s a b =
     (let start = length (dropWhile (\<lambda>c. c \<noteq> CHR 0x0A) (rev (take a s)));
          stop = b + length (takeWhile (\<lambda>c. c \<noteq> CHR 0x0A) (drop b s))
      in trim (drop start (take stop s)))"

definition requirement_failures :: "verify_env \<Rightarrow> string \<Rightarrow> tool_invocation list \<Rightarrow> answer_requirement \<Rightarrow> string list" where
  "requirement_failures V answer trace req =
     (case ve_find V (aq_when req) answer of
        Inl e \<Rightarrow> [''answer_requires `'' @ aq_when req @ ''` does not compile: '' @ e]
      | Inr None \<Rightarrow> []
      | Inr (Some (a, b)) \<Rightarrow>
          map (\<lambda>why. ''the answer says `'' @ line_around answer a b @ ''`, but '' @ why)
            (List.map_filter (unmet trace) (aq_tools req)))"

definition shows_rust :: "string \<Rightarrow> bool" where
  "shows_rust answer \<longleftrightarrow> str_contains answer rust_mark"

definition code_failures :: "verify_spec \<Rightarrow> string \<Rightarrow> tool_invocation list \<Rightarrow> string list" where
  "code_failures spec answer trace =
     (if vs_code_requires_tests spec \<and> shows_rust answer \<and> \<not> list_ex (\<lambda>t. ti_tests_passed t \<noteq> None) trace
      then [''the answer shows Rust code, but no sandbox test run passed (execute_code with '' @
            ''command '' @ [CHR 0x22] @ ''test'' @ [CHR 0x22] @ '' and at least one passing #[test])''] else []) @
     (if vs_code_requires_clippy_clean spec \<and> shows_rust answer
      then (case List.map_filter ti_clippy_clean (rev trace) of
              True # _ \<Rightarrow> []
            | False # _ \<Rightarrow> [''the last clippy run on the Rust code reported findings'']
            | [] \<Rightarrow> [''the answer shows Rust code, but clippy was never run on it '' @
                    ''(execute_code with command '' @ [CHR 0x22] @ ''clippy'' @ [CHR 0x22] @ '')''])
      else []) @
     (if mentions_any (vs_question spec) (vs_require_code_if_question_mentions spec) \<and> \<not> shows_rust answer
      then [''the question asks for Rust, but the answer contains no Rust code (a ```rust '' @
            ''block with a passing sandbox test is required)''] else [])"

definition path_failures :: "verify_env \<Rightarrow> verify_spec \<Rightarrow> string \<Rightarrow> string list" where
  "path_failures V spec answer =
     (if \<not> vs_cited_paths_exist spec then []
      else (case ve_missing V of
              None \<Rightarrow> [''cited paths could not be checked: no CODEBASE_DIR'']
            | Some missing \<Rightarrow>
                if missing answer = [] then []
                else [''cited file:line that does not exist in the codebase: '' @ join_with '', '' (missing answer)]))"

definition no_findings :: string where
  "no_findings = ''NO FINDINGS''"

definition verification_failures ::
  "verify_env \<Rightarrow> verify_spec \<Rightarrow> string \<Rightarrow> tool_invocation list \<Rightarrow> string list" where
  "verification_failures V spec answer trace =
     (if str_contains answer no_findings then []
      else List.map_filter (unmet trace) (vs_require_tools spec) @
           concat (map (requirement_failures V answer trace) (vs_answer_requires spec)) @
           code_failures spec answer trace @ path_failures V spec answer)"

subsection \<open>Marking an answer that failed\<close>

definition unverified_marker :: string where
  "unverified_marker = ''UNVERIFIED '' @ em_dash"

definition not_confirmed :: "string \<Rightarrow> string" where
  "not_confirmed reason =
     ''Test result: NOT CONFIRMED '' @ em_dash @ '' the worker reported a passing run, '' @
     ''but verification failed: '' @ reason @ ''.''"

fun marked_lines :: "(string \<Rightarrow> bool) \<Rightarrow> string \<Rightarrow> bool \<Rightarrow> string list \<Rightarrow> string list" where
  "marked_lines claims reason in_code [] = []"
| "marked_lines claims reason in_code (line # ls) =
     (if starts_with (trim_start line) ''```'' then line # marked_lines claims reason (\<not> in_code) ls
      else (if \<not> in_code \<and> claims line then not_confirmed reason else line) # marked_lines claims reason in_code ls)"

definition mark_unverified_answer :: "verify_env \<Rightarrow> string \<Rightarrow> string list \<Rightarrow> string" where
  "mark_unverified_answer V answer failures =
     (let reason = trim_end_char (CHR ''.'') (join_with ''; '' failures)
      in unverified_marker @ '' '' @ reason @ ''. Treat everything below as unchecked.'' @ nl @ nl @
         join_with nl (marked_lines (ve_pass_claim V) reason False (str_lines answer)))"

subsection \<open>Properties\<close>

text \<open>A requirement, a tool or a tool and an action, is met by a call that the trace holds as successful and as no stub.\<close>

definition recorded :: "tool_invocation list \<Rightarrow> string \<Rightarrow> bool" where
  "recorded trace required \<longleftrightarrow>
     (case split_at_str '':'' required of
        None \<Rightarrow> list_ex (\<lambda>t. ti_tool t = trim required \<and> ti_success t \<and> \<not> ti_stubbed t) trace
      | Some (tool, action) \<Rightarrow>
          list_ex (\<lambda>t. ti_tool t = trim tool \<and> ti_action t = Some (trim action) \<and> ti_success t \<and> \<not> ti_stubbed t) trace)"

lemma unmet_recorded: "unmet trace required = None \<longleftrightarrow> recorded trace required"
  by (auto simp: unmet_def recorded_def list_ex_iff Let_def split: option.splits)

lemma map_filter_none: "List.map_filter f xs = [] \<longleftrightarrow> (\<forall>x \<in> set xs. f x = None)"
  by (induction xs) (auto simp: map_filter_simps split: option.split)

text \<open>What an answer that passes had to do, but for its code where that is run again.\<close>

definition met_requirements :: "verify_env \<Rightarrow> verify_spec \<Rightarrow> string \<Rightarrow> tool_invocation list \<Rightarrow> bool" where
  "met_requirements V spec answer trace \<longleftrightarrow>
     list_all (recorded trace) (vs_require_tools spec) \<and>
     list_all (\<lambda>q. case ve_find V (aq_when q) answer of
         Inl e \<Rightarrow> False | Inr None \<Rightarrow> True | Inr (Some p) \<Rightarrow> list_all (recorded trace) (aq_tools q)) (vs_answer_requires spec) \<and>
     (mentions_any (vs_question spec) (vs_require_code_if_question_mentions spec) \<longrightarrow> shows_rust answer) \<and>
     (vs_cited_paths_exist spec \<longrightarrow> (case ve_missing V of None \<Rightarrow> False | Some missing \<Rightarrow> missing answer = []))"

lemma verified_answer_parts:
  assumes "verification_failures V spec answer trace = []" and "\<not> str_contains answer no_findings"
  shows "met_requirements V spec answer trace"
    and "vs_code_requires_tests spec \<and> shows_rust answer \<longrightarrow> list_ex (\<lambda>t. ti_tests_passed t \<noteq> None) trace"
    and "vs_code_requires_clippy_clean spec \<and> shows_rust answer \<longrightarrow>
      (\<exists>rest. List.map_filter ti_clippy_clean (rev trace) = True # rest)"
proof -
  have parts: "List.map_filter (unmet trace) (vs_require_tools spec) = []" "code_failures spec answer trace = []"
      "path_failures V spec answer = []"
    and reqs: "\<forall>q \<in> set (vs_answer_requires spec). requirement_failures V answer trace q = []"
    using assms by (simp_all add: verification_failures_def)
  have "list_all (\<lambda>q. case ve_find V (aq_when q) answer of
         Inl e \<Rightarrow> False | Inr None \<Rightarrow> True | Inr (Some p) \<Rightarrow> list_all (recorded trace) (aq_tools q)) (vs_answer_requires spec)"
    using reqs by (auto simp: list_all_iff requirement_failures_def map_filter_none unmet_recorded split: sum.splits option.splits)
  then show "met_requirements V spec answer trace"
    using parts
    by (auto simp: met_requirements_def map_filter_none unmet_recorded code_failures_def path_failures_def list_all_iff
        split: if_splits option.splits)
  show "vs_code_requires_tests spec \<and> shows_rust answer \<longrightarrow> list_ex (\<lambda>t. ti_tests_passed t \<noteq> None) trace"
    using parts(2) by (auto simp: code_failures_def split: if_splits)
  show "vs_code_requires_clippy_clean spec \<and> shows_rust answer \<longrightarrow>
      (\<exists>rest. List.map_filter ti_clippy_clean (rev trace) = True # rest)"
    using parts(2) by (auto simp: code_failures_def split: if_splits list.splits bool.splits)
qed

text \<open>The lines of a marked answer: code is as it was, and no other line is one that reports a passing run, except in
  the verifier's own words.\<close>

fun code_flags :: "bool \<Rightarrow> string list \<Rightarrow> bool list" where
  "code_flags in_code [] = []"
| "code_flags in_code (l # ls) =
     (if starts_with (trim_start l) ''```'' then True # code_flags (\<not> in_code) ls else in_code # code_flags in_code ls)"

lemma marked_lines_lines:
  "length (marked_lines claims reason b ls) = length ls \<and>
   (\<forall>i < length ls. marked_lines claims reason b ls ! i =
      (if \<not> code_flags b ls ! i \<and> claims (ls ! i) then not_confirmed reason else ls ! i))"
proof (induction ls arbitrary: b)
  case (Cons l ls)
  then show ?case by (auto simp: nth_Cons split: nat.split)
qed simp

text \<open>Marking an answer that failed its checks takes no line away and touches no code: exactly the lines
  outside code blocks that report a passing run are replaced, each by the verifier's finding.\<close>

theorem marking_replaces_only_the_claims:
  fixes V answer failures
  defines "reason \<equiv> trim_end_char (CHR ''.'') (join_with ''; '' failures)"
  shows "\<exists>ls. mark_unverified_answer V answer failures =
      unverified_marker @ '' '' @ reason @ ''. Treat everything below as unchecked.'' @ nl @ nl @ join_with nl ls \<and>
    length ls = length (str_lines answer) \<and>
    (\<forall>i < length ls. ls ! i =
       (if \<not> code_flags False (str_lines answer) ! i \<and> ve_pass_claim V (str_lines answer ! i)
        then not_confirmed reason else str_lines answer ! i))"
  using marked_lines_lines[of "ve_pass_claim V" reason False "str_lines answer"]
  by (intro exI[of _ "marked_lines (ve_pass_claim V) reason False (str_lines answer)"])
    (simp add: mark_unverified_answer_def reason_def Let_def)

definition sample_verify :: verify_env where
  "sample_verify = \<lparr>ve_find = (\<lambda>_ _. Inr None), ve_missing = None, ve_pass_claim = (\<lambda>l. str_contains l ''passed'')\<rparr>"

definition sample_invocation :: "string \<Rightarrow> tool_invocation" where
  "sample_invocation tool = \<lparr>ti_tool = tool, ti_success = True, ti_tests_passed = None, ti_clippy_clean = None,
     ti_action = None, ti_stubbed = False\<rparr>"

theorem marking_replaces_only_the_claims_witness:
  "ve_pass_claim sample_verify ''2 passed'' \<and>
   mark_unverified_answer sample_verify ''2 passed'' [''no test.''] =
     unverified_marker @ '' no test. Treat everything below as unchecked.'' @ nl @ nl @ not_confirmed ''no test''"
proof -
  have l: "str_lines ''2 passed'' = [''2 passed'']" "trim_end_char (CHR ''.'') (join_with ''; '' [''no test.'']) = ''no test''"
    by code_simp+
  have c: "ve_pass_claim sample_verify ''2 passed''" by code_simp
  obtain ls where ls: "mark_unverified_answer sample_verify ''2 passed'' [''no test.''] =
      unverified_marker @ '' '' @ ''no test'' @ ''. Treat everything below as unchecked.'' @ nl @ nl @ join_with nl ls"
    "length ls = length [''2 passed'']" "\<forall>i < length ls. ls ! i =
       (if \<not> code_flags False [''2 passed''] ! i \<and> ve_pass_claim sample_verify ([''2 passed''] ! i)
        then not_confirmed ''no test'' else [''2 passed''] ! i)"
    using marking_replaces_only_the_claims[of sample_verify "''2 passed''" "[''no test.'']", unfolded l] by blast
  moreover have "\<not> code_flags False [''2 passed''] ! 0" by code_simp
  ultimately have "ls ! 0 = not_confirmed ''no test''" "length ls = 1" using c by simp_all
  then have "ls = [not_confirmed ''no test'']" by (cases ls) simp_all
  then show ?thesis using ls(1) c by simp
qed

end
