(* ===== verification/Agent_Runs.thy ===== *)
theory Agent_Runs
  imports Agent_Verify Items Model_Router
begin

text \<open>
  Running a profile as a bounded agent (\<open>AgentRunner\<close> of \<open>crates/chat/src/agent_runner.rs\<close>, \<open>filter_tools\<close> of
  \<open>chat/mod.rs\<close>, the trajectory of \<open>trajectory.rs\<close>) and the \<open>run_agent\<close> tool
  (\<open>crates/skills/src/agent_runner.rs\<close>): which agent runs, with which tools and on which model, what is drained of
  its events, what its caller reads, and how a run is checked and run once more. The prompt of a profile, the
  notes it loads, the model its preference names and the reading of a harness given as text are parameters; so
  is how a provider starts on a model, which gives the loop its surroundings. Words are ASCII.
\<close>

subsection \<open>Profiles and their tools\<close>

record context_profile = agent_profile +
  cp_description :: string
  cp_specialty :: "string option"
  cp_system_prompt :: string
  cp_model_preference :: "string option"
  cp_provider_hint :: "string option"
  cp_data_class :: "data_class option"

definition profile_of :: "context_profile \<Rightarrow> agent_profile" where
  "profile_of p = agent_profile.truncate p"

definition filter_tools :: "tool_def list \<Rightarrow> string list \<Rightarrow> tool_def list" where
  "filter_tools tools names =
     (if names = [] then tools else filter (\<lambda>t. tdef_name t \<in> set names) tools)"

record agent_budget =
  ab_max_iterations :: nat
  ab_allow_writes :: bool
  ab_allow_explicit_only :: bool

record harness =
  hs_system_prompt :: "string option"
  hs_tools :: "string list option"

definition allowed_tools :: "agent_budget \<Rightarrow> bool \<Rightarrow> string list \<Rightarrow> string list" where
  "allowed_tools B probe names =
     filter (\<lambda>t. t \<noteq> delegate_tool \<and> (ab_allow_writes B \<or> probe \<or> t \<notin> set write_tools)) names"

definition agent_tools :: "tool_def list \<Rightarrow> agent_budget \<Rightarrow> bool \<Rightarrow> harness option \<Rightarrow> context_profile \<Rightarrow> tool_def list" where
  "agent_tools registry B probe h p =
     filter_tools registry
       (allowed_tools B probe (case Option.bind h hs_tools of Some ts \<Rightarrow> ts | None \<Rightarrow> ap_tools p))"

subsection \<open>Choosing an agent\<close>

definition stopwords :: "string list" where
  "stopwords = [''the'', ''and'', ''for'', ''with'', ''from'', ''that'', ''this'', ''into'', ''your'', ''you'', ''how'', ''what'',
     ''why'', ''who'', ''was'', ''are'', ''its'', ''our'', ''out'', ''get'', ''use'', ''any'', ''all'', ''can'']"

fun split_words :: "(char \<Rightarrow> bool) \<Rightarrow> string \<Rightarrow> string list" where
  "split_words sep [] = [[]]"
| "split_words sep (c # cs) =
     (if sep c then [] # split_words sep cs
      else (case split_words sep cs of [] \<Rightarrow> [[c]] | w # ws \<Rightarrow> (c # w) # ws))"

text \<open>A set of words, as a list without repetitions.\<close>

definition tokenize :: "string \<Rightarrow> string list" where
  "tokenize t =
     remdups (filter (\<lambda>w. w \<notin> set stopwords)
       (map lower (filter (\<lambda>w. 3 \<le> length w) (split_words (\<lambda>c. \<not> is_alnum c) t))))"

definition token_overlap :: "string list \<Rightarrow> string list \<Rightarrow> nat" where
  "token_overlap goal haystack =
     length (filter (\<lambda>g. list_ex (\<lambda>h. str_contains h g \<or> str_contains g h) haystack) goal)"

definition spawnable_profiles :: "context_profile list \<Rightarrow> context_profile list" where
  "spawnable_profiles ps = filter (\<lambda>p. ap_spawnable p \<and> \<not> ap_explicit_only p) (sort_key ap_name ps)"

definition name_weight :: nat where
  "name_weight = 2"

definition min_selection_overlap :: nat where
  "min_selection_overlap = 1"

definition selection_score :: "string list \<Rightarrow> context_profile \<Rightarrow> nat" where
  "selection_score goal p =
     name_weight * token_overlap goal (tokenize (ap_name p)) +
     token_overlap goal (tokenize (or_default (cp_description p) (cp_specialty p)))"

definition better_agent :: "string list \<Rightarrow> (string \<times> nat) option \<Rightarrow> context_profile \<Rightarrow> (string \<times> nat) option" where
  "better_agent goal best p =
     (let score = selection_score goal p in
      case best of
        Some (n, s) \<Rightarrow> if score \<le> s then best else Some (ap_name p, score)
      | None \<Rightarrow> Some (ap_name p, score))"

definition select_agent :: "context_profile list \<Rightarrow> string \<Rightarrow> string option \<times> nat" where
  "select_agent ps goal =
     (case foldl (better_agent (tokenize goal)) None (spawnable_profiles ps) of
        Some (n, s) \<Rightarrow> if min_selection_overlap \<le> s then (Some n, s) else (None, 0)
      | None \<Rightarrow> (None, 0))"

definition generalist_default :: "context_profile list \<Rightarrow> string option" where
  "generalist_default ps =
     (let names = map ap_name (spawnable_profiles ps) in
      case find (\<lambda>n. str_contains (lower n) ''research'') names of
        Some n \<Rightarrow> Some n | None \<Rightarrow> (case names of n # _ \<Rightarrow> Some n | [] \<Rightarrow> None))"

subsection \<open>The steps of a run\<close>

record step =
  st_tool :: string
  st_args :: string
  st_ok :: bool
  st_stubbed :: bool
  st_result :: string

record trajectory =
  tj_steps :: "step list"
  tj_answer :: string
  tj_dropped :: nat

definition new_trajectory :: trajectory where
  "new_trajectory = \<lparr>tj_steps = [], tj_answer = [], tj_dropped = 0\<rparr>"

definition result_chars :: nat where
  "result_chars = 600"

definition answer_chars :: nat where
  "answer_chars = 4000"

definition max_steps :: nat where
  "max_steps = 40"

definition push_step :: "serde \<Rightarrow> string \<Rightarrow> json \<Rightarrow> bool \<Rightarrow> bool \<Rightarrow> string \<Rightarrow> trajectory \<Rightarrow> trajectory" where
  "push_step S tool args ok stubbed result t =
     (if length (tj_steps t) < max_steps
      then t\<lparr>tj_steps := tj_steps t @ [\<lparr>st_tool = tool, st_args = cut (to_str S args) args_chars, st_ok = ok,
               st_stubbed = stubbed, st_result = cut result result_chars\<rparr>]\<rparr>
      else t\<lparr>tj_dropped := tj_dropped t + 1\<rparr>)"

definition set_answer :: "string \<Rightarrow> trajectory \<Rightarrow> trajectory" where
  "set_answer a t = t\<lparr>tj_answer := cut a answer_chars\<rparr>"

definition arrow :: string where
  "arrow = '' '' @ [CHR 0xE2, CHR 0x86, CHR 0x92] @ '' ''"

definition calls_line :: "trajectory \<Rightarrow> string" where
  "calls_line t =
     (let calls = map (\<lambda>s. if st_stubbed s then st_tool s @ ''(STUB)''
                           else if st_ok s then st_tool s else st_tool s @ ''(FAILED)'') (tj_steps t);
          more = (if 0 < tj_dropped t then arrow @ ellipsis @ '' '' @ show_nat (tj_dropped t) @ '' more'' else [])
      in if calls = [] then ''CALLS: none'' else ''CALLS: '' @ join_with arrow calls @ more)"

definition step_line :: "nat \<Rightarrow> step \<Rightarrow> string" where
  "step_line i s =
     show_nat (i + 1) @ ''. '' @ st_tool s @ ''('' @ st_args s @ '') -> '' @
     (if st_stubbed s then ''STUB'' else if st_ok s then ''ok'' else ''FAILED'') @ '': '' @
     map (\<lambda>c. if c = CHR 0x0A then CHR '' '' else c) (st_result s)"

definition render_trajectory :: "trajectory \<Rightarrow> string" where
  "render_trajectory t =
     join_with nl ([calls_line t] @ map (\<lambda>(i, s). step_line i s) (enumerate 0 (tj_steps t)) @
       (if 0 < tj_dropped t then [ellipsis @ '' '' @ show_nat (tj_dropped t) @ '' more calls not shown''] else []) @
       [''ANSWER: '' @ tj_answer t])"

subsection \<open>Draining the events of a run\<close>

record drained =
  dr_answer :: string
  dr_error :: "string option"
  dr_gathered :: "string list"
  dr_trace :: "tool_invocation list"
  dr_pending :: "(string \<times> json) list"
  dr_trajectory :: trajectory
  dr_sent :: "chat_event list" \<comment> \<open>to the caller's stream\<close>

definition new_drain :: drained where
  "new_drain = \<lparr>dr_answer = [], dr_error = None, dr_gathered = [], dr_trace = [], dr_pending = [],
     dr_trajectory = new_trajectory, dr_sent = []\<rparr>"

text \<open>The first waiting call of a tool, and the rest without it.\<close>

fun take_pending :: "string \<Rightarrow> (string \<times> json) list \<Rightarrow> json \<times> (string \<times> json) list" where
  "take_pending tool [] = (JNull, [])"
| "take_pending tool ((t, a) # ps) =
     (if t = tool then (a, ps) else (case take_pending tool ps of (a', ps') \<Rightarrow> (a', (t, a) # ps')))"

definition worker_tool :: "string \<Rightarrow> string \<Rightarrow> string" where
  "worker_tool agent tool = agent @ '':'' @ tool"

definition drain_event :: "serde \<Rightarrow> string \<Rightarrow> drained \<Rightarrow> chat_event \<Rightarrow> drained" where
  "drain_event S agent d ev =
     (case ev of
        EMessage content \<Rightarrow> d\<lparr>dr_answer := content\<rparr>
      | EError message \<Rightarrow> d\<lparr>dr_error := or_else_opt (dr_error d) (Some message)\<rparr>
      | EDone \<Rightarrow> d
      | EToken t \<Rightarrow> d
      | EThinking content \<Rightarrow> d\<lparr>dr_sent := dr_sent d @ [EThinking (''['' @ agent @ ''] '' @ content)]\<rparr>
      | EToolCall tool args \<Rightarrow>
          d\<lparr>dr_pending := dr_pending d @ [(tool, args)], dr_sent := dr_sent d @ [EToolCall (worker_tool agent tool) args]\<rparr>
      | EToolResult tool ok preview saw \<Rightarrow>
          (case take_pending tool (dr_pending d) of (args, rest) \<Rightarrow>
             let stubbed = starts_with preview probe_stub_prefix in
             d\<lparr>dr_pending := rest,
               dr_trajectory := push_step S tool args ok stubbed preview (dr_trajectory d),
               dr_trace := dr_trace d @
                 [\<lparr>ti_tool = tool, ti_success = ok, ti_tests_passed = passing_tests tool preview,
                   ti_clippy_clean = clippy_clean tool preview, ti_action = as_str (json_field args ''action''),
                   ti_stubbed = stubbed\<rparr>],
               dr_gathered := (if ok then dr_gathered d @ [preview] else dr_gathered d),
               dr_sent := dr_sent d @ [EToolResult (worker_tool agent tool) ok preview saw]\<rparr>))"

definition drain_run :: "serde \<Rightarrow> string \<Rightarrow> chat_event list \<Rightarrow> drained" where
  "drain_run S agent events =
     (let d = foldl (drain_event S agent) new_drain events
      in d\<lparr>dr_trajectory := set_answer (dr_answer d) (dr_trajectory d)\<rparr>)"

subsection \<open>What the caller reads\<close>

definition model_that_ran :: "rung_attempt list \<Rightarrow> string" where
  "model_that_ran attempts =
     (case find (\<lambda>a. ra_error a = None) attempts of
        Some a \<Rightarrow> ra_model a
      | None \<Rightarrow> if attempts = [] then [] else ra_model (last attempts))"

definition short_error :: "string \<Rightarrow> string" where
  "short_error e = (let t = trim e in if 240 < char_count t then take_chars 240 t @ ellipsis else t)"

definition no_answer_text :: "string \<Rightarrow> rung_attempt list \<Rightarrow> string list \<Rightarrow> string option \<Rightarrow> string" where
  "no_answer_text agent attempts refused last_error =
     ''Sub-agent `'' @ agent @ ''` returned no answer.'' @
     (if attempts = [] then (case last_error of Some e \<Rightarrow> '' '' @ short_error e | None \<Rightarrow> [])
      else '' Tried:'' @ concat (map (\<lambda>a. nl @ ''- '' @ ra_model a @ '' ('' @ ra_provider a @ ''): '' @
             (case ra_error a of Some e \<Rightarrow> short_error e | None \<Rightarrow> ''ran, but its answer was empty'')) attempts)) @
     (if refused = [] then [] else nl @ ''Refused by the routing policy: '' @ join_with ''; '' refused)"

definition url_separator :: "char \<Rightarrow> bool" where
  "url_separator c \<longleftrightarrow> is_ws c \<or> c \<in> {CHR 0x22, CHR 0x27, CHR ''('', CHR '')'', CHR ''['', CHR '']'', CHR ''<'', CHR ''>''}"

definition max_sources :: nat where
  "max_sources = 8"

definition url_of :: "string \<Rightarrow> string option" where
  "url_of tok =
     (if (starts_with tok ''http://'' \<or> starts_with tok ''https://'') \<and> 10 < length tok
      then Some (rev (dropWhile (\<lambda>c. c \<in> set ''.,;:'') (rev tok))) else None)"

definition extract_sources :: "string list \<Rightarrow> string list" where
  "extract_sources gathered =
     take max_sources (rev (remdups (rev (List.map_filter url_of (concat (map (split_words url_separator) gathered))))))"

definition count_tool :: "bool \<Rightarrow> string \<Rightarrow> tool_invocation list \<Rightarrow> nat" where
  "count_tool ok tool trace = length (filter (\<lambda>i. ti_tool i = tool \<and> ti_success i = ok) trace)"

definition tick :: string where
  "tick = [CHR 0xE2, CHR 0x9C, CHR 0x93, CHR 0xC3, CHR 0x97]"

definition cross :: string where
  "cross = [CHR 0xE2, CHR 0x9C, CHR 0x97, CHR 0xC3, CHR 0x97]"

definition receipt_part :: "tool_invocation list \<Rightarrow> string \<Rightarrow> string" where
  "receipt_part trace t =
     (let good = count_tool True t trace; bad = count_tool False t trace
      in if bad = 0 then t @ '' '' @ tick @ show_nat good
         else if good = 0 then t @ '' '' @ cross @ show_nat bad
         else t @ '' '' @ tick @ show_nat good @ '' '' @ cross @ show_nat bad)"

definition receipt_tools :: "tool_invocation list \<Rightarrow> string list" where
  "receipt_tools trace = rev (remdups (rev (map ti_tool trace)))"

definition format_tool_receipt :: "string \<Rightarrow> tool_invocation list \<Rightarrow> string" where
  "format_tool_receipt agent trace =
     (if trace = []
      then nl @ nl @ ''[TOOLS `'' @ agent @ ''` ACTUALLY RAN: none. This sub-agent called no tools '' @ em_dash @ '' any '' @
        ''action its answer claims (a search, a write, an execution) did NOT happen; treat '' @
        ''the answer as ungrounded assertion.]''
      else nl @ nl @ ''[TOOLS `'' @ agent @ ''` ACTUALLY RAN (ground truth '' @ em_dash @ '' trust this over the prose above; if '' @
        ''the answer claims an action whose tool is not listed here, it did not happen): '' @
        join_with '', '' (map (receipt_part trace) (receipt_tools trace)) @ '']'')"

definition findings_head :: "string \<Rightarrow> string" where
  "findings_head agent =
     ''[FINDINGS FROM THE `'' @ agent @ ''` SUB-AGENT '' @ em_dash @ '' relay these faithfully. Cite the sources '' @
     ''listed below as markdown links when you use them. If the findings say something '' @
     ''could not be found or established, say so plainly rather than filling it in from your '' @
     ''own knowledge. Do not add facts the worker did not report.]'' @ nl @ nl"

definition format_subagent_findings :: "string \<Rightarrow> string \<Rightarrow> string list \<Rightarrow> tool_invocation list \<Rightarrow> string" where
  "format_subagent_findings agent answer gathered trace =
     (let sources = extract_sources gathered
      in findings_head agent @ answer @ format_tool_receipt agent trace @
         (if sources = [] then []
          else nl @ nl @ ''SOURCES:'' @
            concat (map (\<lambda>(i, u). nl @ ''  [S'' @ show_nat (i + 1) @ ''] '' @ u) (enumerate 0 sources))))"

subsection \<open>Before a run\<close>

text \<open>What a run finds in the process. \<open>ae_loop\<close> starts a provider on a model with a prompt: by the system prompt and
  the task, the number of the attempt, the model and the attempt's prompt.\<close>

record agent_env =
  ae_profiles :: "context_profile list option"
  ae_engine :: bool
  ae_serde :: serde
  ae_registry :: "tool_def list"
  ae_world :: "nat \<Rightarrow> llm_world"
  ae_catalog :: "catalog_model list"
  ae_base :: "llm_config option"
  ae_caller :: route_context
  ae_ladder :: "llm_config list"
  ae_resolve :: "llm_config \<Rightarrow> string \<Rightarrow> string option \<Rightarrow> llm_config option"
  ae_prompt :: "context_profile \<Rightarrow> string \<Rightarrow> string"
  ae_notes :: "context_profile \<Rightarrow> string list"
  ae_base_prompt :: string
  ae_loop :: "string \<Rightarrow> nat \<Rightarrow> llm_config \<Rightarrow> string \<Rightarrow> string + loop_env"
  ae_elapsed :: string

record run_options =
  ro_model :: "string option"
  ro_harness :: "harness option"
  ro_probe :: bool

record agent_findings =
  af_ok :: bool
  af_rejected :: bool
  af_retrieved :: bool
  af_findings :: string
  af_trace :: "tool_invocation list"
  af_model :: string
  af_attempts :: "rung_attempt list"
  af_refused :: "string list"
  af_trajectory :: trajectory
  af_harness :: harness
  af_sent :: "chat_event list"

definition rejected :: "string \<Rightarrow> agent_findings" where
  "rejected msg =
     \<lparr>af_ok = False, af_rejected = True, af_retrieved = False, af_findings = msg, af_trace = [], af_model = [],
      af_attempts = [], af_refused = [], af_trajectory = new_trajectory,
      af_harness = \<lparr>hs_system_prompt = None, hs_tools = None\<rparr>, af_sent = []\<rparr>"

definition build_system_prompt :: "string \<Rightarrow> string option \<Rightarrow> string list \<Rightarrow> string" where
  "build_system_prompt base profile_prompt notes =
     base @
     (case Option.bind profile_prompt (\<lambda>p. opt_nonempty (trim p)) of Some p \<Rightarrow> nl @ nl @ p | None \<Rightarrow> []) @
     (if notes = [] then []
      else nl @ nl @ ''# LIVE SELF-STATE '' @ em_dash @ '' read from your own graph just now. '' @
        ''This is authoritative: prefer it over any recollection, and do not contradict it.'' @ nl @ nl @
        join_with (nl @ nl) notes)"

definition find_profile :: "context_profile list \<Rightarrow> string \<Rightarrow> context_profile option" where
  "find_profile ps name = find (\<lambda>p. ap_name p = name) ps"

text \<open>Which agent a run means: \<open>auto\<close> chooses.\<close>

definition named_agent :: "agent_env \<Rightarrow> string \<Rightarrow> string \<Rightarrow> string + string" where
  "named_agent E agent task =
     (if eq_ignore_case agent ''auto''
      then (let ps = or_default [] (ae_profiles E) in
            case first_given (fst (select_agent ps task)) (generalist_default ps) of
              Some n \<Rightarrow> Inr n
            | None \<Rightarrow> Inl ''run_agent(auto): no spawnable agents exist to run.'')
      else Inr agent)"

definition base_config :: "agent_env \<Rightarrow> llm_config" where
  "base_config E = or_default (default_config (lw_engine (ae_world E 0))) (ae_base E)"

definition agent_context :: "agent_env \<Rightarrow> context_profile \<Rightarrow> route_context" where
  "agent_context E p =
     \<lparr>rc_purpose = PSubagent, rc_data_class = stricter (rc_data_class (ae_caller E)) (or_default DPrivate (cp_data_class p)),
      rc_initiator = rc_initiator (ae_caller E)\<rparr>"

text \<open>A pin is exact or rejects the run; a preference the policy refuses gives way to the chat default.\<close>

definition agent_config :: "agent_env \<Rightarrow> string \<Rightarrow> context_profile \<Rightarrow> string option \<Rightarrow> string + llm_config" where
  "agent_config E agent p pin =
     (let base = base_config E; ctx = agent_context E p; W = ae_world E 0 in
      case pin of
        Some m \<Rightarrow>
          (case pinned_config W (ae_catalog E) m base ctx of
             Inr cfg \<Rightarrow> Inr cfg
           | Inl reason \<Rightarrow> Inl (quoted agent @ '' was asked to run on a model it cannot use: '' @ reason @ ''.''))
      | None \<Rightarrow>
          (case nonblank (cp_model_preference p) of
             Some pref \<Rightarrow>
               let resolved = or_default base (ae_resolve E base pref (cp_provider_hint p))
               in (case admit W (world_policy W) resolved ctx of Inr _ \<Rightarrow> Inr resolved | Inl _ \<Rightarrow> Inr base)
           | None \<Rightarrow> Inr base))"

definition agent_profile_for :: "agent_env \<Rightarrow> agent_budget \<Rightarrow> string \<Rightarrow> string + context_profile" where
  "agent_profile_for E B agent =
     (if \<not> ae_engine E then Inl ''Agent unavailable: loop engine dropped.''
      else (case ae_profiles E of
        None \<Rightarrow> Inl ''Agent unavailable: no context builder.''
      | Some ps \<Rightarrow>
          let profile = find_profile ps agent in
          if \<not> ab_allow_explicit_only B \<and> (case profile of Some p \<Rightarrow> ap_explicit_only p | None \<Rightarrow> False)
          then Inl (quoted agent @ '' runs only from a task a human marked for it (e.g. a '' @ [CHR 0x22] @
                 ''deep dive (hard):'' @ [CHR 0x22] @ '' goal), never by delegation. Use a regular agent.'')
          else (case profile of
            Some p \<Rightarrow>
              if ap_spawnable p then Inr p
              else Inl (quoted agent @ '' is not a sub-agent you can delegate to. Available: '' @
                     join_with '', '' (map ap_name (spawnable_profiles ps)) @ ''.'')
          | None \<Rightarrow> Inl (quoted agent @ '' is not a sub-agent you can delegate to. Available: '' @
                     join_with '', '' (map ap_name (spawnable_profiles ps)) @ ''.''))))"

record agent_plan =
  pl_agent :: string
  pl_profile :: context_profile
  pl_config :: llm_config
  pl_tools :: "tool_def list"
  pl_prompt :: string
  pl_system :: string

definition run_preflight :: "agent_env \<Rightarrow> string \<Rightarrow> string \<Rightarrow> agent_budget \<Rightarrow> run_options \<Rightarrow> string + agent_plan" where
  "run_preflight E agent task B opts =
     (if ro_harness opts \<noteq> None \<and> \<not> ro_probe opts
      then Inl (''a candidate `harness` runs only as a probe (`probe: true`), so it acts on nothing.'')
      else if trim task = [] then Inl ''agent run called with an empty task.''
      else result_and_then (named_agent E (trim agent) task) (\<lambda>name.
           result_and_then (agent_profile_for E B name) (\<lambda>p.
           result_and_then (agent_config E name p (nonblank (ro_model opts))) (\<lambda>cfg.
             let prompt = (case Option.bind (ro_harness opts) hs_system_prompt of
                             Some t \<Rightarrow> t | None \<Rightarrow> ae_prompt E p task)
             in Inr \<lparr>pl_agent = name, pl_profile = p, pl_config = cfg,
                     pl_tools = agent_tools (ae_registry E) B (ro_probe opts) (ro_harness opts) p,
                     pl_prompt = prompt,
                     pl_system = build_system_prompt (ae_base_prompt E) (opt_nonempty prompt) (ae_notes E p)\<rparr>))))"

subsection \<open>The run\<close>

text \<open>The loop an agent gets: its tools, no delegating, its rounds, no voice, and stubs in a probe.\<close>

definition bounded_loop :: "agent_plan \<Rightarrow> agent_budget \<Rightarrow> bool \<Rightarrow> loop_env \<Rightarrow> loop_env" where
  "bounded_loop P B probe L =
     L\<lparr>le_tools := pl_tools P, le_allow_delegate := False, le_max := ab_max_iterations B, le_voice := None,
       le_guard := (le_guard L)\<lparr>ge_probe := probe\<rparr>\<rparr>"

definition agent_ladder :: "agent_env \<Rightarrow> agent_plan \<Rightarrow> agent_budget \<Rightarrow> bool \<Rightarrow> string \<Rightarrow> ladder_env" where
  "agent_ladder E P B probe task =
     \<lparr>la_world = ae_world E, la_ctx = agent_context E (pl_profile P), la_serde = ae_serde E,
      la_start = (\<lambda>i c prompt. map_sum id (bounded_loop P B probe) (ae_loop E task i c prompt))\<rparr>"

definition agent_walk :: "agent_env \<Rightarrow> agent_plan \<Rightarrow> agent_budget \<Rightarrow> bool \<Rightarrow> string \<Rightarrow> walk" where
  "agent_walk E P B probe task =
     run_bounded_loop (agent_ladder E P B probe task) (pl_system P) (pl_config P) (ae_ladder E)"

definition magnifier :: string where
  "magnifier = [CHR 0xF0, CHR 0x9F, CHR 0x94, CHR 0x8E] @ '' ''"

definition finish_line :: "agent_env \<Rightarrow> string \<Rightarrow> drained \<Rightarrow> string" where
  "finish_line E agent d =
     (if trim (dr_answer d) \<noteq> []
      then [CHR 0xE2, CHR 0x9C, CHR 0x93] @ '' `'' @ agent @ ''` finished '' @ em_dash @ '' '' @
           show_nat (length (dr_gathered d)) @ '' result(s) in '' @ ae_elapsed E @ ''s''
      else [CHR 0xE2, CHR 0x9C, CHR 0x97] @ '' `'' @ agent @ ''` finished with no answer ('' @ ae_elapsed E @ ''s)'')"

definition agent_report :: "agent_env \<Rightarrow> agent_plan \<Rightarrow> walk \<Rightarrow> agent_findings" where
  "agent_report E P w =
     (let agent = pl_agent P; d = drain_run (ae_serde E) agent (wk_events w); ok = (trim (dr_answer d) \<noteq> [])
      in \<lparr>af_ok = ok, af_rejected = False, af_retrieved = (dr_gathered d \<noteq> []),
          af_findings = (if ok then format_subagent_findings agent (dr_answer d) (dr_gathered d) (dr_trace d)
                         else no_answer_text agent (wk_attempts w) (wk_refused w) (dr_error d)),
          af_trace = dr_trace d, af_model = model_that_ran (wk_attempts w), af_attempts = wk_attempts w,
          af_refused = wk_refused w, af_trajectory = dr_trajectory d,
          af_harness = \<lparr>hs_system_prompt = Some (pl_prompt P), hs_tools = Some (map tdef_name (pl_tools P))\<rparr>,
          af_sent = [EThinking (magnifier @ ''delegating to `'' @ agent @ ''` sub-agent (first choice '' @
              lc_model (pl_config P) @ '')'' @ ellipsis)] @ dr_sent d @ [EThinking (finish_line E agent d)]\<rparr>)"

definition run_with :: "agent_env \<Rightarrow> string \<Rightarrow> string \<Rightarrow> agent_budget \<Rightarrow> run_options \<Rightarrow> agent_findings" where
  "run_with E agent task B opts =
     (case run_preflight E agent task B opts of
        Inl msg \<Rightarrow> rejected msg
      | Inr P \<Rightarrow> agent_report E P (agent_walk E P B (ro_probe opts) task))"

subsection \<open>A delegated worker\<close>

definition max_subagent_iterations :: nat where
  "max_subagent_iterations = 8"

definition chat_budget :: agent_budget where
  "chat_budget = \<lparr>ab_max_iterations = max_subagent_iterations, ab_allow_writes = False, ab_allow_explicit_only = False\<rparr>"

definition with_named_topics :: "string \<Rightarrow> (string \<times> string) list \<Rightarrow> string" where
  "with_named_topics task named =
     (if named = [] then task
      else task @ nl @ nl @ ''[Named in this task]'' @
        concat (map (\<lambda>(name, at').
          nl @ ''- '' @ [CHR 0x22] @ at' @ [CHR 0x22] @ '' is our topic `'' @ name @ ''`: read it first with lookup {'' @
          [CHR 0x22] @ ''view'' @ [CHR 0x22] @ '': '' @ [CHR 0x22] @ ''notes'' @ [CHR 0x22] @ '', '' @
          [CHR 0x22] @ ''topic'' @ [CHR 0x22] @ '': '' @ [CHR 0x22] @ name @ [CHR 0x22] @ ''}.'') named))"

definition no_options :: run_options where
  "no_options = \<lparr>ro_model = None, ro_harness = None, ro_probe = False\<rparr>"

text \<open>The topics of ours a task names are found elsewhere: \<open>named\<close>.\<close>

definition run_subagent ::
  "agent_env \<Rightarrow> (string \<Rightarrow> (string \<times> string) list) \<Rightarrow> string \<Rightarrow> string \<Rightarrow> (bool \<times> bool \<times> string) \<times> chat_event list" where
  "run_subagent E named agent task =
     (let f = run_with E agent (with_named_topics task (named task)) chat_budget no_options
      in ((af_ok f, af_retrieved f, af_findings f), af_sent f))"

subsection \<open>The tool \<open>run_agent\<close>\<close>

definition max_background_agent_iterations :: nat where
  "max_background_agent_iterations = 8"

definition max_background_agent_rounds_cap :: nat where
  "max_background_agent_rounds_cap = 16"

definition effective_rounds :: "nat option \<Rightarrow> nat" where
  "effective_rounds requested =
     (case requested of
        None \<Rightarrow> max_background_agent_iterations
      | Some n \<Rightarrow> max 1 (min max_background_agent_rounds_cap n))"

definition harness_object :: "json \<Rightarrow> string + harness" where
  "harness_object v =
     (case v of
        JObj m \<Rightarrow>
          result_and_then
            (case json_get v ''system_prompt'' of
               None \<Rightarrow> Inr None | Some JNull \<Rightarrow> Inr None
             | Some (JStr p) \<Rightarrow> if trim p \<noteq> [] then Inr (Some p) else Inl ''`harness.system_prompt` must be non-empty text''
             | Some _ \<Rightarrow> Inl ''`harness.system_prompt` must be non-empty text'') (\<lambda>sp.
          result_and_then
            (case json_get v ''tools'' of
               None \<Rightarrow> Inr None | Some JNull \<Rightarrow> Inr None
             | Some (JArr items) \<Rightarrow> (case text_list items of
                 Some ts \<Rightarrow> Inr (Some ts) | None \<Rightarrow> Inl ''`harness.tools` must be a list of tool names'')
             | Some _ \<Rightarrow> Inl ''`harness.tools` must be a list of tool names'') (\<lambda>ts.
          if sp = None \<and> ts = None then Inl ''`harness` names neither `system_prompt` nor `tools`''
          else Inr \<lparr>hs_system_prompt = sp, hs_tools = ts\<rparr>))
      | _ \<Rightarrow> Inl ''`harness` must be an object with `system_prompt` and/or `tools`'')"

definition parse_harness :: "(string \<Rightarrow> json option) \<Rightarrow> json \<Rightarrow> string + harness" where
  "parse_harness first_object v =
     (case v of
        JStr t \<Rightarrow> (case first_object t of
                     None \<Rightarrow> Inl ''`harness` is text with no JSON object in it'' | Some v' \<Rightarrow> harness_object v')
      | _ \<Rightarrow> harness_object v)"

definition one_spaced :: "string \<Rightarrow> string" where
  "one_spaced t = join_with '' '' (filter (\<lambda>w. w \<noteq> []) (split_words is_ws t))"

definition harness_leak :: "string \<Rightarrow> string \<Rightarrow> string option" where
  "harness_leak prompt task =
     (let head = take_chars 120 (one_spaced task)
      in if 40 \<le> char_count head \<and> str_contains (one_spaced prompt) head
         then Some ''it contains the task it is being probed on''
         else if list_ex (\<lambda>l. starts_with (trim_start l) ''TOOLS: ['' \<or> starts_with (trim_start l) ''TOOLS: {'') (str_lines prompt)
         then Some ''it contains a `TOOLS: [...]` line'' else None)"

definition retry_task :: "string \<Rightarrow> string list \<Rightarrow> string \<Rightarrow> string \<Rightarrow> string" where
  "retry_task task failures calls answer =
     task @ nl @ nl @ ''===== YOUR PREVIOUS RUN OF THIS TASK WAS CHECKED AND FELL SHORT'' @ nl @
     join_with nl (map (\<lambda>f. ''- '' @ f) failures) @ nl @
     ''Its calls already ran and must not be repeated ('' @ calls @ '').'' @ nl @ ''Its answer was:'' @ nl @
     take_chars 1500 answer @ nl @
     ''Do only what is missing, then give the whole answer again in the same format.'' @ nl @ ''===== END''"

record run_agent_input =
  ri_agent :: string
  ri_task :: string
  ri_max_rounds :: "nat option"
  ri_verify :: "verify_spec option"
  ri_model :: "string option"
  ri_read_only :: bool
  ri_probe :: bool
  ri_harness :: "json option"
  ri_step_model :: "string option"

record skill_env =
  sk_verify :: verify_env
  sk_first_object :: "string \<Rightarrow> json option"
  sk_manifest :: string
  sk_call_tool :: "string \<Rightarrow> json \<Rightarrow> tool_call_result option"
  sk_serde :: serde
  sk_heading :: "string \<Rightarrow> string" \<comment> \<open>\<open>label_proposed_placement\<close>, a pattern's replacement\<close>

subsubsection \<open>Running the answer's own code\<close>

definition sandbox_run :: "skill_env \<Rightarrow> json \<Rightarrow> string \<Rightarrow> json option" where
  "sandbox_run K files command =
     Option.bind (sk_call_tool K ''execute_code''
         (JObj [(''command'', JStr command), (''files'', files), (''language'', JStr ''rust'')])) (\<lambda>r.
     Option.bind (find (\<lambda>c. case c of Text t \<Rightarrow> True | _ \<Rightarrow> False) (tr_content r)) (\<lambda>c.
     case c of Text t \<Rightarrow> from_str (sk_serde K) t | _ \<Rightarrow> None))"

definition succeeded :: "json \<Rightarrow> bool" where
  "succeeded r \<longleftrightarrow> json_field r ''success'' = JBool True"

definition test_failures :: "json option \<Rightarrow> string list" where
  "test_failures run =
     (case run of
        None \<Rightarrow> [''the verifier could not re-run the answer'' @ [CHR 0x27] @ ''s code in the sandbox'']
      | Some r \<Rightarrow>
          let passed = or_default 0 (as_u64 (json_field r ''tests_passed''));
              failed = or_default 0 (as_u64 (json_field r ''tests_failed''))
          in if succeeded r \<and> 0 < passed \<and> failed = 0 then []
             else [''the answer'' @ [CHR 0x27] @ ''s own Rust code, re-run by the verifier, did not pass: '' @
                   trim_end_char (CHR ''.'') (or_default ''no summary'' (as_str (json_field r ''summary''))) @
                   (case first_compile_error (or_empty (as_str (json_field r ''stderr''))) of
                      Some e \<Rightarrow> '' ('' @ e @ '')'' | None \<Rightarrow> [])])"

definition lint_failures :: "json option \<Rightarrow> string list" where
  "lint_failures run =
     (case run of
        None \<Rightarrow> [''the verifier could not run clippy on the answer'' @ [CHR 0x27] @ ''s code'']
      | Some r \<Rightarrow>
          if succeeded r \<and> as_u64 (json_field r ''lint_findings'') = Some 0 then []
          else [''clippy on the answer'' @ [CHR 0x27] @ ''s own code, re-run by the verifier: '' @
                or_default ''not clean'' (as_str (json_field r ''summary''))])"

definition rerun :: "skill_env \<Rightarrow> verify_spec \<Rightarrow> string \<Rightarrow> string list" where
  "rerun K spec code =
     (let files = answer_crate code (sandbox_dependencies (sk_manifest K));
          fs = test_failures (sandbox_run K files ''test'')
      in if vs_code_requires_clippy_clean spec \<and> fs = [] then lint_failures (sandbox_run K files ''clippy'') else fs)"

definition verify_run :: "skill_env \<Rightarrow> verify_spec \<Rightarrow> string \<Rightarrow> tool_invocation list \<Rightarrow> string list" where
  "verify_run K spec answer trace =
     (case (if str_contains answer no_findings then None else answer_rust_code answer) of
        Some code \<Rightarrow>
          if vs_rerun_answer_code spec
          then verification_failures (sk_verify K)
                 (spec\<lparr>vs_code_requires_tests := False, vs_code_requires_clippy_clean := False\<rparr>) answer trace @
               rerun K spec code
          else verification_failures (sk_verify K) spec answer trace
      | None \<Rightarrow> verification_failures (sk_verify K) spec answer trace)"

subsubsection \<open>One call\<close>

text \<open>The fields of the result.\<close>

record agent_answer =
  aa_answer :: string
  aa_findings :: agent_findings
  aa_verified :: "bool option"
  aa_failures :: "string list"
  aa_retried_after :: "string list option"
  aa_runs :: "agent_findings list" \<comment> \<open>every run made, in order\<close>

definition read_harness :: "skill_env \<Rightarrow> json option \<Rightarrow> string \<Rightarrow> string + harness option" where
  "read_harness K v task =
     (case v of
        None \<Rightarrow> Inr None
      | Some h \<Rightarrow>
          if h = JNull \<or> (case h of JStr t \<Rightarrow> trim t = [] | _ \<Rightarrow> False) then Inr None
          else result_and_then (parse_harness (sk_first_object K) h) (\<lambda>h'.
            case Option.bind (hs_system_prompt h') (\<lambda>p. harness_leak p task) of
              Some leak \<Rightarrow> Inl (''candidate `harness` refused: '' @ leak @ ''. A candidate prompt is the agent'' @ [CHR 0x27] @
                ''s instructions only, never the task it is probed on or a tool list.'')
            | None \<Rightarrow> Inr (Some h')))"

definition checked_run :: "skill_env \<Rightarrow> run_agent_input \<Rightarrow> agent_findings \<Rightarrow> string list" where
  "checked_run K i f =
     (case ri_verify i of None \<Rightarrow> [] | Some spec \<Rightarrow> verify_run K spec (af_findings f) (af_trace f))"

definition given_answer :: "skill_env \<Rightarrow> run_agent_input \<Rightarrow> agent_findings \<Rightarrow> string list \<Rightarrow> string list \<Rightarrow>
    agent_findings list \<Rightarrow> agent_answer" where
  "given_answer K i f failures first_failures runs =
     (let answer = sk_heading K (af_findings f)
      in \<lparr>aa_answer = (if failures = [] then answer else mark_unverified_answer (sk_verify K) answer failures),
          aa_findings = f, aa_verified = map_option (\<lambda>_. failures = []) (ri_verify i), aa_failures = failures,
          aa_retried_after = (if first_failures = [] then None else Some first_failures), aa_runs = runs\<rparr>)"

definition input_budget :: "run_agent_input \<Rightarrow> agent_budget" where
  "input_budget i = \<lparr>ab_max_iterations = effective_rounds (ri_max_rounds i), ab_allow_writes = (\<not> ri_read_only i),
     ab_allow_explicit_only = True\<rparr>"

definition wants_retry :: "run_agent_input \<Rightarrow> agent_findings \<Rightarrow> string list \<Rightarrow> bool" where
  "wants_retry i f failures \<longleftrightarrow>
     (case ri_verify i of Some spec \<Rightarrow> vs_retry spec | None \<Rightarrow> False) \<and> \<not> ri_probe i \<and> af_ok f \<and> failures \<noteq> []"

text \<open>The environment may have changed before the second run: \<open>E 0\<close> is the first's, \<open>E 1\<close> the second's.\<close>

definition run_agent :: "(nat \<Rightarrow> agent_env) option \<Rightarrow> skill_env \<Rightarrow> run_agent_input \<Rightarrow> string + agent_answer" where
  "run_agent runner K i =
     (let agent = trim (ri_agent i); task = trim (ri_task i) in
      if agent = [] then Inl ''`agent` must be a non-empty spawnable agent name.''
      else if task = [] then Inl ''`task` must be a non-empty instruction for the agent.''
      else (case runner of
        None \<Rightarrow> Inl (''run_agent is unavailable: no agent loop engine is wired in this deployment. '' @
                    ''(It is enabled with SUBAGENT_ENABLED and requires the chat service.)'')
      | Some E \<Rightarrow>
          result_and_then (read_harness K (ri_harness i) task) (\<lambda>h.
            let opts = \<lparr>ro_model = nonblank (first_given (ri_model i) (ri_step_model i)), ro_harness = h, ro_probe = ri_probe i\<rparr>;
                f = run_with (E 0) agent task (input_budget i) opts
            in if af_rejected f then Inl (af_findings f)
               else let failures = checked_run K i f in
                 if wants_retry i f failures
                 then (let again = retry_task task failures (calls_line (af_trajectory f)) (af_findings f);
                           g = run_with (E 1) agent again (input_budget i) opts
                       in if af_rejected g then Inr (given_answer K i f failures [] [f, g])
                          else Inr (given_answer K i g (checked_run K i g) failures [f, g]))
                 else Inr (given_answer K i f failures [] [f]))))"

subsection \<open>Properties\<close>

subsubsection \<open>Which agent runs\<close>

text \<open>The best of a list by a score, the first of equals: what the fold computes.\<close>

definition best_of :: "string list \<Rightarrow> context_profile list \<Rightarrow> (string \<times> nat) option \<Rightarrow> bool" where
  "best_of goal ps best \<longleftrightarrow>
     (case best of
        None \<Rightarrow> ps = []
      | Some (n, s) \<Rightarrow> \<exists>before p after. ps = before @ p # after \<and> n = ap_name p \<and> s = selection_score goal p \<and>
          (\<forall>q \<in> set before. selection_score goal q < s) \<and> (\<forall>q \<in> set after. selection_score goal q \<le> s))"

lemma best_of_snoc: "best_of goal ps best \<Longrightarrow> best_of goal (ps @ [p]) (better_agent goal best p)"
proof (cases best)
  case None
  assume "best_of goal ps best"
  then show ?thesis using None
    by (simp add: best_of_def better_agent_def Let_def) (intro exI[of _ "[]"] exI[of _ p], simp)
next
  case (Some ns)
  obtain n s where ns: "ns = (n, s)" by (cases ns)
  assume "best_of goal ps best"
  then obtain before q after where q: "ps = before @ q # after" "n = ap_name q" "s = selection_score goal q"
    "\<forall>q \<in> set before. selection_score goal q < s" "\<forall>q \<in> set after. selection_score goal q \<le> s"
    using Some ns by (auto simp: best_of_def)
  show ?thesis
  proof (cases "selection_score goal p \<le> s")
    case True
    then show ?thesis
      using q Some ns by (simp add: best_of_def better_agent_def Let_def)
        (intro exI[of _ before] exI[of _ q] exI[of _ "after @ [p]"], auto)
  next
    case False
    then show ?thesis
      using q Some ns by (simp add: best_of_def better_agent_def Let_def)
        (intro exI[of _ "before @ q # after"] exI[of _ p] exI[of _ "[]"], auto)
  qed
qed

lemma best_of_fold: "best_of goal (ps @ qs) (foldl (better_agent goal) best qs)" if "best_of goal ps best"
  using that
proof (induction qs arbitrary: ps best)
  case (Cons q qs)
  show ?case using Cons.IH[OF best_of_snoc[OF Cons.prems, of q]] by simp
qed simp

lemma best_of_max: "best_of goal ps (Some (n, s)) \<Longrightarrow> q \<in> set ps \<Longrightarrow> selection_score goal q \<le> s"
  by (auto simp: best_of_def) (metis less_imp_le_nat)

text \<open>Claim C34. Choosing an agent for a goal picks, of the agents that may be chosen, one whose name and specialty
  share the most with the goal, the first by name of equals; and none only where nothing is shared.\<close>

theorem the_chosen_agent_fits_best:
  shows "(\<forall>n s. select_agent ps goal = (Some n, s) \<longrightarrow>
      (\<exists>before p after. spawnable_profiles ps = before @ p # after \<and> n = ap_name p \<and> s = selection_score (tokenize goal) p \<and>
         1 \<le> s \<and> (\<forall>q \<in> set before. selection_score (tokenize goal) q < s) \<and>
         (\<forall>q \<in> set after. selection_score (tokenize goal) q \<le> s))) \<and>
    (\<forall>s. select_agent ps goal = (None, s) \<longrightarrow>
      (\<forall>q \<in> set (spawnable_profiles ps). selection_score (tokenize goal) q = 0))"
proof -
  obtain best where best: "foldl (better_agent (tokenize goal)) None (spawnable_profiles ps) = best" by blast
  have "best_of (tokenize goal) ([] @ spawnable_profiles ps) best"
    unfolding best[symmetric] by (rule best_of_fold) (simp add: best_of_def)
  then have b: "best_of (tokenize goal) (spawnable_profiles ps) best" by simp
  show ?thesis
  proof (cases best)
    case None
    then show ?thesis using b best by (simp add: select_agent_def best_of_def)
  next
    case (Some ns)
    obtain n s where ns: "ns = (n, s)" by (cases ns)
    show ?thesis
    proof (cases "1 \<le> s")
      case True
      then show ?thesis using b best by (auto simp: Some ns select_agent_def min_selection_overlap_def best_of_def)
    next
      case False
      then have "\<forall>q \<in> set (spawnable_profiles ps). selection_score (tokenize goal) q = 0"
        using best_of_max[OF b[unfolded Some ns]] by fastforce
      then show ?thesis using best False by (simp add: Some ns select_agent_def min_selection_overlap_def)
    qed
  qed
qed

subsubsection \<open>What a read-only run may do\<close>

definition asked_tools :: "run_options \<Rightarrow> context_profile \<Rightarrow> string list" where
  "asked_tools opts p = (case Option.bind (ro_harness opts) hs_tools of Some ts \<Rightarrow> ts | None \<Rightarrow> ap_tools p)"

lemma preflight_tools:
  "run_preflight E agent task B opts = Inr P \<Longrightarrow>
     pl_tools P = filter_tools (ae_registry E) (allowed_tools B (ro_probe opts) (asked_tools opts (pl_profile P)))"
proof -
  assume "run_preflight E agent task B opts = Inr P"
  then have "pl_tools P = agent_tools (ae_registry E) B (ro_probe opts) (ro_harness opts) (pl_profile P)"
    by (auto simp: run_preflight_def result_and_then_def Let_def split: sum.splits if_splits)
  then show ?thesis by (simp add: agent_tools_def asked_tools_def)
qed

lemma agent_attempts:
  assumes "(c, p, out, t) \<in> set (wk_turns (agent_walk E P B probe task))" and "x \<in> set (tn_ran t)"
  shows "fst x \<in> set (map tdef_name (pl_tools P))"
proof -
  from worker_attempts[OF assms(1)[unfolded agent_walk_def]] assms(2)
  obtain i L where L: "la_start (agent_ladder E P B probe task) i c p = Inr L" "t = rs_turn (run_round_loop L)"
    by (auto simp: new_turn_def)
  then obtain L' where "L = bounded_loop P B probe L'"
    by (auto simp: agent_ladder_def map_sum_def split: sum.splits)
  then have "le_tools L = pl_tools P" "\<not> le_allow_delegate L" by (simp_all add: bounded_loop_def)
  moreover have "offered_only L t" using offered.loop_keeps[of L] by (simp add: L(2))
  ultimately show ?thesis using assms(2) by (auto simp: offered_only_def offered_names_def)
qed

text \<open>Claim C23. A run that may not write runs no write tool and does not delegate, on any model of its ladder and
  whatever the models ask for, as long as its list of tools names one it may hold.\<close>

theorem a_read_only_agent_writes_nothing:
  assumes "run_preflight E agent task B opts = Inr P" and "\<not> ab_allow_writes B" and "\<not> ro_probe opts"
    and "allowed_tools B (ro_probe opts) (asked_tools opts (pl_profile P)) \<noteq> []"
    and "(c, p, out, t) \<in> set (wk_turns (agent_walk E P B (ro_probe opts) task))"
  shows "turn_writes t = [] \<and>
    (\<forall>x \<in> set (tn_ran t). fst x \<in> set (asked_tools opts (pl_profile P)) \<and> fst x \<noteq> delegate_tool)"
proof -
  have ran: "fst x \<in> set (asked_tools opts (pl_profile P)) \<and> fst x \<noteq> delegate_tool \<and> fst x \<notin> set write_tools"
    if "x \<in> set (tn_ran t)" for x
    using agent_attempts[OF assms(5) that] assms(2-4)
    unfolding preflight_tools[OF assms(1)] by (auto simp: filter_tools_def allowed_tools_def)
  then show ?thesis by (auto simp: turn_writes_def filter_empty_conv is_write_def ran_call_def)
qed

text \<open>Two ways a run holds more than it should: where what may not be held is all an agent lists, or it
  lists nothing, stripping leaves the empty list and that means every registered tool, the write tools with
  them; and \<open>run_agent\<close> is not stripped, so an agent that lists it can run another.\<close>

theorem stripping_tools_may_add_them:
  assumes "run_preflight E agent task B opts = Inr P"
  shows "(allowed_tools B (ro_probe opts) (asked_tools opts (pl_profile P)) = [] \<longrightarrow> pl_tools P = ae_registry E) \<and>
    (''run_agent'' \<in> set (asked_tools opts (pl_profile P)) \<longrightarrow> ''run_agent'' \<in> set (map tdef_name (ae_registry E)) \<longrightarrow>
       ''run_agent'' \<in> set (map tdef_name (pl_tools P)))"
proof -
  have "''run_agent'' \<notin> set write_tools" "''run_agent'' \<noteq> delegate_tool" by (simp_all add: write_tools_def delegate_tool_def)
  then show ?thesis
    by (auto simp: preflight_tools[OF assms] filter_tools_def allowed_tools_def filter_empty_conv)
qed

subsubsection \<open>What a checked run did\<close>

lemma run_agent_answer:
  assumes "run_agent runner K i = Inr a"
  shows "aa_failures a = checked_run K i (aa_findings a) \<and> aa_verified a = map_option (\<lambda>_. aa_failures a = []) (ri_verify i)"
    "length (aa_runs a) \<le> 2" "aa_failures a = [] \<Longrightarrow> aa_findings a = last (aa_runs a)"
  using assms
  by (auto simp: run_agent_def given_answer_def result_and_then_def wants_retry_def Let_def split: if_splits option.splits sum.splits)

text \<open>What the sandbox says of the code of an answer.\<close>

definition own_tests_passed :: "skill_env \<Rightarrow> string \<Rightarrow> bool" where
  "own_tests_passed K code \<longleftrightarrow>
     (case sandbox_run K (answer_crate code (sandbox_dependencies (sk_manifest K))) ''test'' of
        None \<Rightarrow> False
      | Some r \<Rightarrow> succeeded r \<and> 0 < or_default 0 (as_u64 (json_field r ''tests_passed'')) \<and>
          or_default 0 (as_u64 (json_field r ''tests_failed'')) = 0)"

definition own_lint_clean :: "skill_env \<Rightarrow> string \<Rightarrow> bool" where
  "own_lint_clean K code \<longleftrightarrow>
     (case sandbox_run K (answer_crate code (sandbox_dependencies (sk_manifest K))) ''clippy'' of
        None \<Rightarrow> False
      | Some r \<Rightarrow> succeeded r \<and> as_u64 (json_field r ''lint_findings'') = Some 0)"

lemma rerun_clean:
  "rerun K spec code = [] \<longleftrightarrow> own_tests_passed K code \<and> (vs_code_requires_clippy_clean spec \<longrightarrow> own_lint_clean K code)"
  by (auto simp: rerun_def own_tests_passed_def own_lint_clean_def test_failures_def lint_failures_def Let_def
      split: option.splits)

text \<open>Claim C10. A result marked verified is that of the last run made, of two at most, and either its answer says it
  has no findings, which passes unchecked, or the run did what it had to. For each required tool, with its action
  where one is named, its trace holds a call as successful and not as a stub, and so for each tool that a phrase in
  the answer requires; the cited paths exist where that is asked, and a question that asks for code got some. Where
  the caller wants the code shown to be run again, the sandbox ran that code and its tests passed with none
  failed, and clippy found nothing where that is asked; where no code is run again, the trace holds a passing test
  run, and a clean clippy run as its last, where those are asked. What the trace holds is another matter, see
  \<open>a_failed_write_verifies\<close>.\<close>

theorem a_verified_run_did_what_it_had_to:
  fixes a K spec
  defines "answer \<equiv> af_findings (aa_findings a)" and "trace \<equiv> af_trace (aa_findings a)"
  defines "run_again \<equiv> vs_rerun_answer_code spec \<and> answer_rust_code answer \<noteq> None"
  assumes "run_agent runner K i = Inr a" and "aa_verified a = Some True" and "ri_verify i = Some spec"
  shows "aa_findings a = last (aa_runs a) \<and> length (aa_runs a) \<le> 2 \<and>
    (str_contains answer no_findings \<or>
      met_requirements (sk_verify K) spec answer trace \<and>
      (\<forall>code. vs_rerun_answer_code spec \<and> answer_rust_code answer = Some code \<longrightarrow>
         own_tests_passed K code \<and> (vs_code_requires_clippy_clean spec \<longrightarrow> own_lint_clean K code)) \<and>
      (\<not> run_again \<and> shows_rust answer \<longrightarrow>
         (vs_code_requires_tests spec \<longrightarrow> list_ex (\<lambda>t. ti_tests_passed t \<noteq> None) trace) \<and>
         (vs_code_requires_clippy_clean spec \<longrightarrow> (\<exists>rest. List.map_filter ti_clippy_clean (rev trace) = True # rest))))"
proof -
  note ran = run_agent_answer[OF assms(4)]
  have none: "aa_failures a = []" using ran(1) assms(5,6) by auto
  then have v: "verify_run K spec answer trace = []"
    using ran(1) assms(6) by (auto simp: checked_run_def answer_def trace_def)
  have "met_requirements (sk_verify K) spec answer trace \<and>
      (\<forall>code. vs_rerun_answer_code spec \<and> answer_rust_code answer = Some code \<longrightarrow>
         own_tests_passed K code \<and> (vs_code_requires_clippy_clean spec \<longrightarrow> own_lint_clean K code)) \<and>
      (\<not> run_again \<and> shows_rust answer \<longrightarrow>
         (vs_code_requires_tests spec \<longrightarrow> list_ex (\<lambda>t. ti_tests_passed t \<noteq> None) trace) \<and>
         (vs_code_requires_clippy_clean spec \<longrightarrow> (\<exists>rest. List.map_filter ti_clippy_clean (rev trace) = True # rest)))"
    if found: "\<not> str_contains answer no_findings"
  proof (cases run_again)
    case True
    then obtain code where code: "vs_rerun_answer_code spec" "answer_rust_code answer = Some code" by (auto simp: run_again_def)
    let ?spec = "spec\<lparr>vs_code_requires_tests := False, vs_code_requires_clippy_clean := False\<rparr>"
    have clean: "verification_failures (sk_verify K) ?spec answer trace = []" "rerun K spec code = []"
      using v found code by (simp_all add: verify_run_def)
    have "met_requirements (sk_verify K) spec answer trace"
      using verified_answer_parts(1)[OF clean(1) found] by (simp add: met_requirements_def)
    then show ?thesis using clean(2) code True by (simp add: rerun_clean)
  next
    case False
    then have "verification_failures (sk_verify K) spec answer trace = []"
      using v by (auto simp: verify_run_def run_again_def split: option.splits if_splits)
    from verified_answer_parts[OF this found] show ?thesis using False by (auto simp: run_again_def)
  qed
  then show ?thesis using ran(2) ran(3)[OF none] by blast
qed

subsubsection \<open>A write that failed\<close>

lemma write_tool_names:
  "tool \<in> set write_tools \<Longrightarrow> trim tool = tool \<and> split_at_str '':'' tool = None"
  by (simp only: write_tools_def set_simps insert_iff empty_iff, elim disjE FalseE; simp only:; code_simp)

lemma duplicate_is_no_stub: "starts_with duplicate_notice probe_stub_prefix = False"
  by code_simp

text \<open>A caller that requires a write can be told it happened when it did not: after a write failed, the same
  call is answered by the guard, no tool runs, and the run's trace then holds a successful call of the tool, which is
  all that the check of a required tool asks for.\<close>

theorem a_failed_write_verifies:
  assumes "tool \<in> set write_tools" and "\<not> ge_probe G" and "ge_handler G"
    and "execute_guarded G tool args t = (a, t1)" and "\<not> ca_success a"
    and "execute_guarded G tool args t1 = (b, t2)"
  shows "tn_ran t2 = tn_ran t1 \<and> (\<exists>sent. tn_ran t1 = tn_ran t @ [(tool, args, sent, False)]) \<and>
    unmet (dr_trace (drain_run S agent (es @ [EToolCall tool args, EToolResult tool (ca_success b) (ca_text b) saw]))) tool = None"
proof -
  from a_failed_write_is_answered_as_done[OF assms(1-5)] assms(6)
  have b: "ca_success b" "ca_text b = duplicate_notice" "tn_ran t2 = tn_ran t1"
    and t1: "\<exists>sent. tn_ran t1 = tn_ran t @ [(tool, args, sent, False)]"
    by auto
  define d where "d = foldl (drain_event S agent) new_drain (es @ [EToolCall tool args])"
  obtain args' rest where p: "take_pending tool (dr_pending d) = (args', rest)" by fastforce
  have "dr_trace (drain_event S agent d (EToolResult tool True duplicate_notice saw)) = dr_trace d @
      [\<lparr>ti_tool = tool, ti_success = True, ti_tests_passed = passing_tests tool duplicate_notice,
        ti_clippy_clean = clippy_clean tool duplicate_notice, ti_action = as_str (json_field args' ''action''),
        ti_stubbed = False\<rparr>]"
    by (simp add: drain_event_def p duplicate_is_no_stub Let_def)
  moreover have "dr_trace (drain_run S agent (es @ [EToolCall tool args, EToolResult tool (ca_success b) (ca_text b) saw])) =
      dr_trace (drain_event S agent d (EToolResult tool True duplicate_notice saw))"
    by (simp add: drain_run_def d_def b Let_def)
  ultimately have "\<exists>i \<in> set (dr_trace (drain_run S agent (es @ [EToolCall tool args, EToolResult tool (ca_success b) (ca_text b) saw]))).
      ti_tool i = tool \<and> ti_success i \<and> \<not> ti_stubbed i"
    by simp
  then show ?thesis
    using b t1 write_tool_names[OF assms(1)] by (auto simp: unmet_def list_ex_iff Let_def)
qed

subsection \<open>Instances\<close>

definition scout :: context_profile where
  "scout = \<lparr>ap_name = ''scout'', ap_tools = [''create_task'', ''search_notes''], ap_spawnable = True, ap_explicit_only = False,
     ap_side_effects = None, cp_description = ''looks things up'', cp_specialty = None, cp_system_prompt = [],
     cp_model_preference = None, cp_provider_hint = None, cp_data_class = None\<rparr>"

definition sample_agents :: agent_env where
  "sample_agents = \<lparr>ae_profiles = Some [scout], ae_engine = True, ae_serde = sample_serde, ae_registry = [task_tool],
     ae_world = (\<lambda>_. sample_world), ae_catalog = [], ae_base = Some first_rung, ae_caller = new_context PBackground DPrivate,
     ae_ladder = [], ae_resolve = (\<lambda>_ _ _. None), ae_prompt = (\<lambda>_ _. []), ae_notes = (\<lambda>_. []), ae_base_prompt = [],
     ae_loop = (\<lambda>_ _ _ _. Inr (task_loop ''done'')), ae_elapsed = ''1.0''\<rparr>"

lemma trim_scout: "trim ''scout'' = ''scout''" "trim ''look'' = ''look''" "eq_ignore_case ''scout'' ''auto'' = False"
  by code_simp+

lemma sample_preflight:
  "\<exists>P. run_preflight sample_agents ''scout'' ''look'' B no_options = Inr P \<and> pl_profile P = scout"
  by (simp add: run_preflight_def no_options_def trim_scout named_agent_def agent_profile_for_def sample_agents_def
      find_profile_def scout_def agent_config_def nonblank_def result_and_then_def Let_def)

theorem stripping_tools_may_add_them_witness:
  "\<exists>P. run_preflight (sample_agents\<lparr>ae_profiles := Some [scout\<lparr>ap_tools := [''create_task'']\<rparr>]\<rparr>) ''scout'' ''look'' chat_budget no_options =
      Inr P \<and> pl_tools P = [task_tool]"
proof -
  let ?E = "sample_agents\<lparr>ae_profiles := Some [scout\<lparr>ap_tools := [''create_task'']\<rparr>]\<rparr>"
  obtain P where P: "run_preflight ?E ''scout'' ''look'' chat_budget no_options = Inr P"
    "pl_profile P = scout\<lparr>ap_tools := [''create_task'']\<rparr>"
    by (simp add: run_preflight_def no_options_def trim_scout named_agent_def agent_profile_for_def sample_agents_def
        find_profile_def scout_def agent_config_def nonblank_def result_and_then_def Let_def)
  have "allowed_tools chat_budget (ro_probe no_options) (asked_tools no_options (pl_profile P)) = []"
    by (simp add: P(2) no_options_def asked_tools_def scout_def allowed_tools_def chat_budget_def write_tools_def)
  then have "pl_tools P = ae_registry ?E" using stripping_tools_may_add_them[OF P(1)] by blast
  then show ?thesis using P(1) by (simp add: sample_agents_def)
qed

theorem the_chosen_agent_fits_best_witness:
  "\<exists>before p after. spawnable_profiles [scout] = before @ p # after \<and> ap_name p = ''scout''"
proof -
  have "fst (select_agent [scout] ''find things'') = Some ''scout''" by code_simp
  then obtain s where "select_agent [scout] ''find things'' = (Some ''scout'', s)"
    by (cases "select_agent [scout] ''find things''") simp
  then show ?thesis using the_chosen_agent_fits_best[of "[scout]" "''find things''"] by metis
qed

lemma one_rung_walk:
  "\<exists>p out t. wk_turns (walk_worker A sys 0 [c] w) = wk_turns w @ [(c, p, out, t)]"
proof -
  obtain out w1 where t: "try_rung A sys 0 c w = (out, w1)" by fastforce
  then have "\<exists>p t. wk_turns w1 = wk_turns w @ [(c, p, out, t)]"
    by (auto simp: try_rung_def Let_def split: prod.splits)
  then show ?thesis using t by (cases out) (auto simp: tried_def say_all_def split: option.split)
qed

lemma sample_agent_rungs:
  "fst (admit_rungs (agent_ladder sample_agents P B probe task) [first_rung]) = [first_rung]"
proof -
  have "admit sample_world (world_policy sample_world) first_rung
      (agent_context sample_agents (pl_profile P)) = Inr ()"
  proof -
    have c: "agent_context sample_agents (pl_profile P) = \<lparr>rc_purpose = PSubagent, rc_data_class = DPrivate, rc_initiator = IBrain\<rparr>"
      by (simp add: agent_context_def sample_agents_def new_context_def stricter_def)
    show ?thesis unfolding c by code_simp
  qed
  then show ?thesis by (simp add: agent_ladder_def rung_verdict_def sample_agents_def)
qed

theorem a_read_only_agent_writes_nothing_witness:
  "\<exists>P c p out t. (c, p, out, t) \<in> set (wk_turns (agent_walk sample_agents P chat_budget False ''look'')) \<and> turn_writes t = []"
proof -
  obtain P where P: "run_preflight sample_agents ''scout'' ''look'' chat_budget no_options = Inr P" "pl_profile P = scout"
    using sample_preflight by blast
  have cfg: "pl_config P = first_rung"
    using P(1) by (auto simp: run_preflight_def no_options_def trim_scout named_agent_def agent_profile_for_def sample_agents_def
      find_profile_def scout_def agent_config_def nonblank_def result_and_then_def base_config_def or_default_def Let_def)
  have cand: "worker_candidates (pl_config P) (ae_ladder sample_agents) = [first_rung]"
    by (simp add: worker_candidates_def cfg sample_agents_def)
  obtain why where "admit_rungs (agent_ladder sample_agents P chat_budget False ''look'') [first_rung] = ([first_rung], why)"
    using sample_agent_rungs[of P chat_budget False "''look''"]
    by (cases "admit_rungs (agent_ladder sample_agents P chat_budget False ''look'') [first_rung]") simp
  then have w: "agent_walk sample_agents P chat_budget False ''look'' =
      walk_worker (agent_ladder sample_agents P chat_budget False ''look'') (pl_system P) 0 [first_rung] (new_walk why)"
    by (simp only: agent_walk_def run_bounded_loop_def cand prod.case) simp
  obtain p out t where turns: "wk_turns (walk_worker (agent_ladder sample_agents P chat_budget False ''look'') (pl_system P) 0
      [first_rung] (new_walk why)) = wk_turns (new_walk why) @ [(first_rung, p, out, t)]"
    using one_rung_walk by blast
  have t: "(first_rung, p, out, t) \<in> set (wk_turns (agent_walk sample_agents P chat_budget False ''look''))"
    unfolding w turns by simp
  have "allowed_tools chat_budget (ro_probe no_options) (asked_tools no_options (pl_profile P)) \<noteq> []"
    by (simp add: P(2) no_options_def asked_tools_def scout_def allowed_tools_def chat_budget_def write_tools_def delegate_tool_def)
  moreover have "\<not> ab_allow_writes chat_budget" "\<not> ro_probe no_options" by (simp_all add: chat_budget_def no_options_def)
  moreover have "(first_rung, p, out, t) \<in> set (wk_turns (agent_walk sample_agents P chat_budget (ro_probe no_options) ''look''))"
    using t by (simp add: no_options_def)
  ultimately have "turn_writes t = []" using a_read_only_agent_writes_nothing[OF P(1)] by blast
  then show ?thesis using t by blast
qed

theorem a_failed_write_verifies_witness:
  "\<exists>b t1 t2. execute_guarded failing_env ''create_task'' JNull t1 = (b, t2) \<and> tn_ran t2 = tn_ran t1 \<and>
     unmet (dr_trace (drain_run sample_serde ''scout'' ([] @ [EToolCall ''create_task'' JNull,
       EToolResult ''create_task'' (ca_success b) (ca_text b) None]))) ''create_task'' = None"
proof -
  obtain a t1 where e: "execute_guarded failing_env ''create_task'' JNull new_turn = (a, t1)" "\<not> ca_success a"
    by (simp add: execute_guarded_def screen_def failing_env_def write_tools_def needs_label_def send_call_def
        error_result_def new_turn_def new_guard_def Let_def)
  obtain b t2 where b: "execute_guarded failing_env ''create_task'' JNull t1 = (b, t2)" by fastforce
  have "''create_task'' \<in> set write_tools" "\<not> ge_probe failing_env" "ge_handler failing_env"
    by (simp_all add: write_tools_def failing_env_def)
  from a_failed_write_verifies[OF this e b, of sample_serde "''scout''" "[]" None] b show ?thesis by blast
qed

definition sample_skill :: skill_env where
  "sample_skill = \<lparr>sk_verify = sample_verify, sk_first_object = (\<lambda>_. None), sk_manifest = [],
     sk_call_tool = (\<lambda>_ _. None), sk_serde = sample_serde, sk_heading = (\<lambda>t. t)\<rparr>"

definition created_preview :: string where
  "created_preview = user_facing_result (annotate_tool_result sample_serde (\<lambda>_. []) ''create_task'' ''created'') None"

lemma created_preview_plain: "created_preview = ''created''"
  by code_simp

lemma worker_events:
  "\<exists>q. rs_events (run_round_loop (task_loop ''done'')) =
     [EToolCall ''create_task'' JNull, EToolResult ''create_task'' True created_preview q, EMessage ''done'', EDone]"
proof -
  let ?L = "task_loop ''done''"
  have "ge_serde working_env = sample_serde" by (simp add: working_env_def)
  then obtain s1 q where s1: "round_pass ?L (start_rounds ?L) = Again s1" "rs_final s1 = False" "rs_rounds s1 = 1" "rs_asked s1 = 1"
    "rs_events s1 = [EToolCall ''create_task'' JNull, EToolResult ''create_task'' True created_preview q]"
    by (simp add: round_pass_def wrap_up_def start_rounds_def task_loop_def sample_loop_def spend_refusal_def
        take_reply_def task_call_def calling_reply_def run_call_def answer_call_def not_one_of_yours_def offered_names_def
        task_tool_def dispatch_tool_call_def task_call_runs note_result_def trim_def trim_end_def trim_start_def
        emit_all_def push_def created_preview_def Let_def)
  have b: "round_bound ?L + 1 = 7"
    by (simp add: round_bound_def max_empty_completion_retries_def max_malformed_tool_call_retries_def task_loop_def sample_loop_def)
  have v: "le_voice ?L = None" "le_url_spans ?L = None" by (simp_all add: task_loop_def sample_loop_def)
  have "lk_text (check_links None ''done'' e) = ''done''" for e by (simp add: check_links_def)
  then show ?thesis
    unfolding run_round_loop_def b
    using s1 by (simp add: run_passes_numeral next_pass spoken_reply_def said_def v finish_rounds_def)
qed

lemma trim_done: "trim ''done'' = ''done''"
  by code_simp

definition sample_input :: run_agent_input where
  "sample_input = \<lparr>ri_agent = ''scout'', ri_task = ''look'', ri_max_rounds = Some 2,
     ri_verify = Some (no_spec\<lparr>vs_require_tools := [''create_task'']\<rparr>), ri_model = None,
     ri_read_only = False, ri_probe = False, ri_harness = None, ri_step_model = None\<rparr>"

lemma sample_writer_preflight:
  "\<exists>P. run_preflight sample_agents ''scout'' ''look'' (input_budget sample_input) no_options = Inr P \<and>
     pl_agent P = ''scout'' \<and> pl_config P = first_rung \<and> pl_tools P = [task_tool]"
  by (simp add: run_preflight_def no_options_def trim_scout named_agent_def agent_profile_for_def sample_agents_def
      find_profile_def scout_def agent_config_def nonblank_def result_and_then_def base_config_def or_default_def
      agent_tools_def allowed_tools_def filter_tools_def input_budget_def sample_input_def task_tool_def delegate_tool_def Let_def)

lemma sample_worker_walk:
  assumes "pl_config P = first_rung" and "pl_tools P = [task_tool]"
  shows "\<exists>q. wk_events (agent_walk sample_agents P (input_budget sample_input) False ''look'') =
     [EToolCall ''create_task'' JNull, EToolResult ''create_task'' True ''created'' q, EMessage ''done'']"
proof -
  let ?A = "agent_ladder sample_agents P (input_budget sample_input) False ''look''"
  have "bounded_loop P (input_budget sample_input) False (task_loop ''done'') = task_loop ''done''"
    by (simp add: bounded_loop_def assms(2) input_budget_def sample_input_def effective_rounds_def task_loop_def
        sample_loop_def working_env_def max_background_agent_rounds_cap_def)
  then have start: "la_start ?A i c prompt = Inr (task_loop ''done'')" for i c prompt
    by (simp add: agent_ladder_def sample_agents_def)
  obtain why where rungs: "admit_rungs ?A [first_rung] = ([first_rung], why)"
    using sample_agent_rungs[of P "input_budget sample_input" False "''look''"]
    by (cases "admit_rungs ?A [first_rung]") simp
  have cand: "worker_candidates (pl_config P) (ae_ladder sample_agents) = [first_rung]"
    by (simp add: worker_candidates_def assms(1) sample_agents_def)
  obtain q where ev: "rs_events (run_round_loop (task_loop ''done'')) =
     [EToolCall ''create_task'' JNull, EToolResult ''create_task'' True ''created'' q, EMessage ''done'', EDone]"
    using worker_events unfolding created_preview_plain by blast
  have heard: "answers_user (EMessage ''done'')" "\<not> answers_user (EToolCall n a)" "\<not> answers_user (EToolResult n ok p saw)"
    for n a ok p saw by (simp_all add: answers_user_def trim_done)
  have "relay_attempt (rs_events (run_round_loop (task_loop ''done''))) = (Delivered,
     [EToolCall ''create_task'' JNull, EToolResult ''create_task'' True ''created'' q, EMessage ''done''])"
    unfolding ev by (simp add: relay_attempt_def relay_event_def heard new_relay_def attempt_end_def Let_def)
  then show ?thesis
    unfolding agent_walk_def run_bounded_loop_def cand rungs
    by (simp add: try_rung_def attempt_run_def start new_walk_def attempt_prompt_def tried_def Let_def)
qed

lemma sample_run:
  "\<exists>a. run_agent (Some (\<lambda>_. sample_agents)) sample_skill sample_input = Inr a \<and> aa_verified a = Some True \<and>
     \<not> str_contains (af_findings (aa_findings a)) no_findings"
proof -
  obtain P where P: "run_preflight sample_agents ''scout'' ''look'' (input_budget sample_input) no_options = Inr P"
    "pl_agent P = ''scout''" "pl_config P = first_rung" "pl_tools P = [task_tool]"
    using sample_writer_preflight by blast
  define w where "w = agent_walk sample_agents P (input_budget sample_input) False ''look''"
  obtain q where ev: "wk_events w =
     [EToolCall ''create_task'' JNull, EToolResult ''create_task'' True ''created'' q, EMessage ''done'']"
    using sample_worker_walk[OF P(3,4)] by (auto simp: w_def)
  define f where "f = agent_report sample_agents P w"
  have run: "run_with sample_agents ''scout'' ''look'' (input_budget sample_input) no_options = f"
    using P(1) by (simp add: run_with_def f_def w_def) (simp add: no_options_def)
  let ?t = "[\<lparr>ti_tool = ''create_task'', ti_success = True, ti_tests_passed = None, ti_clippy_clean = None, ti_action = None,
      ti_stubbed = False\<rparr>]"
  have pass: "passing_tests ''create_task'' ''created'' = None" "clippy_clean ''create_task'' ''created'' = None"
    "starts_with ''created'' probe_stub_prefix = False" "trim ''done'' = ''done''"
    by code_simp+
  have d: "dr_answer (drain_run sample_serde ''scout'' (wk_events w)) = ''done''"
    "dr_gathered (drain_run sample_serde ''scout'' (wk_events w)) = [''created'']"
    "dr_trace (drain_run sample_serde ''scout'' (wk_events w)) = ?t"
    unfolding ev by (simp_all add: drain_run_def drain_event_def new_drain_def pass json_field_def Let_def)
  have f: "\<not> af_rejected f" "af_trace f = ?t" "af_findings f = format_subagent_findings ''scout'' ''done'' [''created''] ?t"
    by (simp_all add: f_def agent_report_def P(2) d sample_agents_def pass Let_def)
  have none: "\<not> str_contains (af_findings f) no_findings" unfolding f by code_simp
  have opts: "nonblank (first_given None None) = None" "\<lparr>ro_model = None, ro_harness = None, ro_probe = False\<rparr> = no_options"
    by (simp_all add: nonblank_def first_given_def no_options_def)
  have checked: "checked_run sample_skill sample_input f = []"
    unfolding checked_run_def f by code_simp
  have input: "trim (ri_agent sample_input) = ''scout''" "trim (ri_task sample_input) = ''look''" "ri_harness sample_input = None"
    "ri_model sample_input = None" "ri_step_model sample_input = None" "ri_probe sample_input = False"
    by (simp_all add: sample_input_def trim_scout)
  have "run_agent (Some (\<lambda>_. sample_agents)) sample_skill sample_input = Inr (given_answer sample_skill sample_input f [] [] [f])"
    by (simp add: run_agent_def input result_and_then_def read_harness_def opts run checked f(1) wants_retry_def Let_def)
  then show ?thesis using none by (simp add: given_answer_def sample_input_def Let_def)
qed

theorem a_verified_run_did_what_it_had_to_witness:
  "\<exists>a. run_agent (Some (\<lambda>_. sample_agents)) sample_skill sample_input = Inr a \<and> length (aa_runs a) \<le> 2 \<and>
     recorded (af_trace (aa_findings a)) ''create_task''"
proof -
  obtain a where a: "run_agent (Some (\<lambda>_. sample_agents)) sample_skill sample_input = Inr a" "aa_verified a = Some True"
    "\<not> str_contains (af_findings (aa_findings a)) no_findings"
    using sample_run by blast
  have "ri_verify sample_input = Some (no_spec\<lparr>vs_require_tools := [''create_task'']\<rparr>)" by (simp add: sample_input_def)
  from a_verified_run_did_what_it_had_to[OF a(1,2) this] a(1,3) show ?thesis by (auto simp: met_requirements_def)
qed

end
