(* ===== verification/Line_Diff.thy ===== *)
theory Line_Diff
  imports Base "HOL-Library.Sublist"
begin

text \<open>
  The line diff a revision is shown with (\<open>diff\<close> of \<open>crates/work/src/revisions.rs\<close>): the table of lengths of
  longest common subsequences, the walk through it, and the text with two lines of context. A table cell is a
  natural number; its type in the code holds any count of lines.
\<close>

subsection \<open>The table\<close>

text \<open>A row of the table from the row below it. The last cell of a row is 0.\<close>

fun lcs_row :: "string \<Rightarrow> string list \<Rightarrow> nat list \<Rightarrow> nat list" where
  "lcs_row a [] below = [0]"
| "lcs_row a (b # bs) below =
     (let right = lcs_row a bs (tl below)
      in (if a = b then below ! 1 + 1 else max (below ! 0) (right ! 0)) # right)"

fun lcs_table :: "string list \<Rightarrow> string list \<Rightarrow> nat list list" where
  "lcs_table [] bs = [replicate (length bs + 1) 0]"
| "lcs_table (a # as) bs = (let below = lcs_table as bs in lcs_row a bs (below ! 0) # below)"

subsection \<open>The walk\<close>

function diff_walk :: "string list \<Rightarrow> string list \<Rightarrow> nat list list \<Rightarrow> nat \<Rightarrow> nat \<Rightarrow> (char \<times> string) list" where
  "diff_walk a b lcs i j =
     (if i < length a \<or> j < length b
      then if i < length a \<and> j < length b \<and> a ! i = b ! j
           then (CHR '' '', a ! i) # diff_walk a b lcs (i + 1) (j + 1)
           else if j < length b \<and> (length a \<le> i \<or> lcs ! (i + 1) ! j \<le> lcs ! i ! (j + 1))
           then (CHR ''+'', b ! j) # diff_walk a b lcs i (j + 1)
           else (CHR ''-'', a ! i) # diff_walk a b lcs (i + 1) j
      else [])"
  by pat_completeness auto
termination by (relation "measure (\<lambda>(a, b, lcs, i, j). (length a - i) + (length b - j))") auto

declare diff_walk.simps [simp del]

definition diff_ops :: "string list \<Rightarrow> string list \<Rightarrow> (char \<times> string) list" where
  "diff_ops a b = diff_walk a b (lcs_table a b) 0 0"

subsection \<open>The text\<close>

definition max_diff_chars :: nat where
  "max_diff_chars = 6000"

definition near_change :: "(char \<times> string) list \<Rightarrow> nat \<Rightarrow> bool" where
  "near_change ops k =
     (let lo = k - 2; hi = min (k + 3) (length ops)
      in list_ex (\<lambda>(c, _). c \<noteq> CHR '' '') (take (hi - lo) (drop lo ops)))"

definition show_op :: "(char \<times> string) list \<Rightarrow> string \<times> bool \<Rightarrow> nat \<times> char \<times> string \<Rightarrow> string \<times> bool" where
  "show_op ops acc op =
     (case (acc, op) of ((out, gap), (k, c, line)) \<Rightarrow>
        if near_change ops k
        then (out @ (if gap \<and> out \<noteq> [] then ellipsis @ nl else []) @ [c] @ '' '' @ line @ nl, False)
        else (out, True))"

definition show_ops :: "(char \<times> string) list \<Rightarrow> string" where
  "show_ops ops = fst (foldl (show_op ops) ([], False) (enumerate 0 ops))"

definition line_diff :: "string \<Rightarrow> string \<Rightarrow> string" where
  "line_diff old new =
     (let out = show_ops (diff_ops (str_lines old) (str_lines new))
      in if max_diff_chars < char_count out
         then take_chars max_diff_chars out @ nl @ ellipsis @ '' cut, '' @ show_nat (char_count out - max_diff_chars) @
              '' more characters: read both revisions in full.''
         else out)"

subsection \<open>The table holds the lengths of longest common subsequences\<close>

fun lcs_len :: "string list \<Rightarrow> string list \<Rightarrow> nat" where
  "lcs_len [] bs = 0"
| "lcs_len as [] = 0"
| "lcs_len (a # as) (b # bs) =
     (if a = b then lcs_len as bs + 1 else max (lcs_len as (b # bs)) (lcs_len (a # as) bs))"

lemma lcs_len_Nil [simp]: "lcs_len as [] = 0"
  by (cases as) auto

fun suffixes_of :: "'a list \<Rightarrow> 'a list list" where
  "suffixes_of [] = [[]]"
| "suffixes_of (x # xs) = (x # xs) # suffixes_of xs"

lemma suffixes_of_0 [simp]: "suffixes_of xs ! 0 = xs" "suffixes_of xs \<noteq> []"
  by (cases xs; simp)+

lemma suffixes_of_nth: "i \<le> length xs \<Longrightarrow> suffixes_of xs ! i = drop i xs"
  by (induction xs arbitrary: i) (auto simp: nth_Cons split: nat.splits)

lemma length_suffixes_of [simp]: "length (suffixes_of xs) = length xs + 1"
  by (induction xs) auto

lemma map_suffixes_of_0: "map f (suffixes_of xs) ! 0 = f xs"
  by (cases xs) auto

lemma map_suffixes_of_1: "map f (suffixes_of (x # xs)) ! 1 = f xs"
  by (cases xs) auto

lemma lcs_row_suffixes:
  "lcs_row a bs (map (lcs_len as) (suffixes_of bs)) = map (lcs_len (a # as)) (suffixes_of bs)"
proof (induction bs)
  case (Cons b bs)
  then show ?case
    by (simp add: Let_def map_suffixes_of_0 map_suffixes_of_1[unfolded One_nat_def])
qed simp

lemma lcs_table_suffixes:
  "lcs_table as bs = map (\<lambda>s. map (lcs_len s) (suffixes_of bs)) (suffixes_of as)"
proof (induction as)
  case Nil
  show ?case by (induction bs) auto
next
  case (Cons a as)
  then show ?case by (simp add: Let_def map_suffixes_of_0 lcs_row_suffixes)
qed

lemma lcs_table_cell:
  "i \<le> length as \<Longrightarrow> j \<le> length bs \<Longrightarrow> lcs_table as bs ! i ! j = lcs_len (drop i as) (drop j bs)"
  by (simp add: lcs_table_suffixes suffixes_of_nth)

lemma lcs_len_longest:
  "subseq zs as \<Longrightarrow> subseq zs bs \<Longrightarrow> length zs \<le> lcs_len as bs"
proof (induction as bs arbitrary: zs rule: lcs_len.induct)
  case (3 a as b bs)
  show ?case
  proof (cases zs)
    case (Cons z zs')
    show ?thesis
    proof (cases "a = b")
      case True
      have "subseq zs' as" "subseq zs' bs"
        using 3(4,5) unfolding Cons by (auto simp: subseq_Cons2_iff dest: subseq_Cons' split: if_splits)
      with 3(1)[OF True] True Cons show ?thesis by simp
    next
      case False
      then have "subseq zs as \<or> subseq zs bs"
        using 3(4,5) unfolding Cons by (auto simp: subseq_Cons2_iff split: if_splits)
      with 3(2,3)[OF False] 3(4,5) False show ?thesis by fastforce
    qed
  qed simp
qed simp_all

subsection \<open>The walk is a shortest edit\<close>

definition old_lines :: "(char \<times> string) list \<Rightarrow> string list" where
  "old_lines ops = map snd (filter (\<lambda>(c, _). c \<noteq> CHR ''+'') ops)"

definition new_lines :: "(char \<times> string) list \<Rightarrow> string list" where
  "new_lines ops = map snd (filter (\<lambda>(c, _). c \<noteq> CHR ''-'') ops)"

definition kept_lines :: "(char \<times> string) list \<Rightarrow> string list" where
  "kept_lines ops = map snd (filter (\<lambda>(c, _). c = CHR '' '') ops)"

lemma op_lines_Nil [simp]: "old_lines [] = []" "new_lines [] = []" "kept_lines [] = []"
  by (simp_all add: old_lines_def new_lines_def kept_lines_def)

lemma op_lines_Cons [simp]:
  "old_lines ((CHR '' '', l) # ops) = l # old_lines ops" "old_lines ((CHR ''+'', l) # ops) = old_lines ops"
  "old_lines ((CHR ''-'', l) # ops) = l # old_lines ops"
  "new_lines ((CHR '' '', l) # ops) = l # new_lines ops" "new_lines ((CHR ''+'', l) # ops) = l # new_lines ops"
  "new_lines ((CHR ''-'', l) # ops) = new_lines ops"
  "kept_lines ((CHR '' '', l) # ops) = l # kept_lines ops" "kept_lines ((CHR ''+'', l) # ops) = kept_lines ops"
  "kept_lines ((CHR ''-'', l) # ops) = kept_lines ops"
  by (simp_all add: old_lines_def new_lines_def kept_lines_def)

lemma diff_walk_edit:
  assumes "i \<le> length a" and "j \<le> length b"
  defines "ops \<equiv> diff_walk a b (lcs_table a b) i j"
  shows "old_lines ops = drop i a \<and> new_lines ops = drop j b \<and> length (kept_lines ops) = lcs_len (drop i a) (drop j b)"
  using assms(1,2) unfolding ops_def
proof (induction a b "lcs_table a b" i j rule: diff_walk.induct)
  case (1 a b i j)
  let ?t = "lcs_table a b"
  have cell: "?t ! (i + 1) ! j = lcs_len (drop (i + 1) a) (drop j b)" if "i < length a"
    using that 1(5) by (simp add: lcs_table_cell)
  have cell': "?t ! i ! (j + 1) = lcs_len (drop i a) (drop (j + 1) b)" if "j < length b"
    using that 1(4) by (simp add: lcs_table_cell)
  consider (over) "\<not> (i < length a \<or> j < length b)"
    | (same) "i < length a" "j < length b" "a ! i = b ! j"
    | (add) "j < length b" "\<not> (i < length a \<and> a ! i = b ! j)" "length a \<le> i \<or> ?t ! (i + 1) ! j \<le> ?t ! i ! (j + 1)"
    | (del) "i < length a" "\<not> (j < length b \<and> a ! i = b ! j)"
        "\<not> (j < length b \<and> (length a \<le> i \<or> ?t ! (i + 1) ! j \<le> ?t ! i ! (j + 1)))"
    by (cases "i < length a"; cases "j < length b") (auto simp: not_less)
  then show ?case
  proof cases
    case over
    then show ?thesis using 1(4,5) by (subst (1 2 3) diff_walk.simps) simp
  next
    case same
    then have "diff_walk a b ?t i j = (CHR '' '', a ! i) # diff_walk a b ?t (i + 1) (j + 1)"
      by (subst diff_walk.simps) simp
    with same 1(1) 1(4,5) show ?thesis
      by (simp add: Cons_nth_drop_Suc[symmetric])
  next
    case add
    then have "diff_walk a b ?t i j = (CHR ''+'', b ! j) # diff_walk a b ?t i (j + 1)"
      by (subst diff_walk.simps) auto
    with add 1(2) 1(4,5) cell cell' show ?thesis
      by (cases "i < length a") (auto simp: Cons_nth_drop_Suc[symmetric])
  next
    case del
    then have "diff_walk a b ?t i j = (CHR ''-'', a ! i) # diff_walk a b ?t (i + 1) j"
      by (subst diff_walk.simps) auto
    with del 1(3) 1(4,5) cell cell' show ?thesis
      by (cases "j < length b") (auto simp: Cons_nth_drop_Suc[symmetric])
  qed
qed

text \<open>Claim C21. The diff of two texts is a shortest edit: what it keeps or takes out is the old lines in order, what it
  keeps or puts in is the new ones, and no common subsequence of the two is longer than what it keeps.\<close>

theorem a_diff_is_a_shortest_edit:
  fixes a b
  defines "ops \<equiv> diff_ops a b"
  shows "old_lines ops = a \<and> new_lines ops = b \<and>
    (\<forall>zs. subseq zs a \<and> subseq zs b \<longrightarrow> length zs \<le> length (kept_lines ops))"
  using diff_walk_edit[of 0 a 0 b] lcs_len_longest[of _ a b] by (simp add: ops_def diff_ops_def)

theorem a_diff_is_a_shortest_edit_witness:
  "2 \<le> length (kept_lines (diff_ops [''a'', ''b'', ''c''] [''b'', ''c'', ''d''])) \<and>
   new_lines (diff_ops [''a'', ''b'', ''c''] [''b'', ''c'', ''d'']) = [''b'', ''c'', ''d'']"
proof -
  note diff = a_diff_is_a_shortest_edit[of "[''a'', ''b'', ''c'']" "[''b'', ''c'', ''d'']"]
  have "subseq [''b'', ''c''] [''a'', ''b'', ''c''] \<and> subseq [''b'', ''c''] [''b'', ''c'', ''d'']" by simp
  with diff have "length [''b'', ''c''] \<le> length (kept_lines (diff_ops [''a'', ''b'', ''c''] [''b'', ''c'', ''d'']))"
    by blast
  with diff show ?thesis by simp
qed

end
