(* ===== verification/Revisions.thy ===== *)
theory Revisions
  imports Line_Diff "HOL-Library.Multiset"
begin

text \<open>
  Versioned self-edits: the history of what the brain edits about itself (\<open>crates/repository/src/revision.rs\<close>) and
  the rules every save of a workflow, a profile or a program goes through (\<open>crates/work/src/revisions.rs\<close>). A
  revision is written in two steps, the read of the newest one and the transaction, so that other writers may come
  in between; the last write of a start is outside such a transaction, and its own definition (\<open>refreshed\<close>) takes what
  its reads saw. The hash (sha-256), \<open>serde_json\<close> and its pretty printer are parameters. A query the graph refuses
  ends an operation before its later writes; those ends are left out, and so are the listings as JSON.
\<close>

subsection \<open>Revisions and their owners\<close>

datatype revision_kind = RWorkflow | RProfile | RProgram

definition kind_str :: "revision_kind \<Rightarrow> string" where
  "kind_str k = (case k of RWorkflow \<Rightarrow> ''workflow'' | RProfile \<Rightarrow> ''profile'' | RProgram \<Rightarrow> ''program'')"

definition parse_kind :: "string \<Rightarrow> revision_kind option" where
  "parse_kind s = find (\<lambda>k. kind_str k = s) [RWorkflow, RProfile, RProgram]"

record revision =
  rv_kind :: string
  rv_name :: string
  rv_version :: int
  rv_definition :: string
  rv_content_hash :: string
  rv_prev_hash :: "string option"
  rv_author :: string
  rv_reason :: "string option"
  rv_based_on :: "int option"
  rv_op :: string

record new_revision =
  nr_kind :: revision_kind
  nr_name :: string
  nr_definition :: string
  nr_author :: string
  nr_reason :: "string option"
  nr_based_on :: "int option"
  nr_op :: string

datatype appended = Written int | Moved int

text \<open>The node a revision hangs off: the properties the revision queries read and write. A kind's own properties
  extend it.\<close>

record owner =
  ow_kind :: revision_kind
  ow_name :: string
  ow_managed_by :: "string option"
  ow_revision :: "int option"
  ow_live_hash :: "string option"
  ow_drift :: "string option"
  ow_seed_definition :: "string option"
  ow_seed_hash :: "string option"
  ow_seed_source :: "string option"
  ow_problem :: "string option"

record 'a rev_world =
  rw_owners :: "'a owner_scheme list"
  rw_revisions :: "revision list"

record rev_env =
  re_hash :: "string \<Rightarrow> string"
  re_serde :: serde
  re_pretty :: "json \<Rightarrow> string"
  re_author :: string

definition is_owner :: "revision_kind \<Rightarrow> string \<Rightarrow> 'a owner_scheme \<Rightarrow> bool" where
  "is_owner k n x \<longleftrightarrow> ow_kind x = k \<and> ow_name x = n"

definition find_owner :: "revision_kind \<Rightarrow> string \<Rightarrow> 'a rev_world \<Rightarrow> 'a owner_scheme option" where
  "find_owner k n w = find (is_owner k n) (rw_owners w)"

subsection \<open>The stable text of a definition\<close>

text \<open>Keys sorted at every depth.\<close>

fun sorted_json :: "json \<Rightarrow> json" where
  "sorted_json (JObj m) =
     JObj (foldl (\<lambda>out (k, v). map_insert k v out) [] (sort_key fst (map (\<lambda>(k, v). (k, sorted_json v)) m)))"
| "sorted_json (JArr xs) = JArr (map sorted_json xs)"
| "sorted_json v = v"

definition canonical :: "serde \<Rightarrow> json \<Rightarrow> string" where
  "canonical S v = to_str S (sorted_json v)"

subsection \<open>A history\<close>

text \<open>Oldest first; the queries order by version.\<close>

definition history :: "revision_kind \<Rightarrow> string \<Rightarrow> 'a rev_world \<Rightarrow> revision list" where
  "history k n w = sort_key rv_version (filter (\<lambda>r. rv_kind r = kind_str k \<and> rv_name r = n) (rw_revisions w))"

definition latest_revision :: "revision_kind \<Rightarrow> string \<Rightarrow> 'a rev_world \<Rightarrow> revision option" where
  "latest_revision k n w = (case rev (history k n w) of [] \<Rightarrow> None | r # _ \<Rightarrow> Some r)"

definition revision_at :: "revision_kind \<Rightarrow> string \<Rightarrow> int \<Rightarrow> 'a rev_world \<Rightarrow> revision option" where
  "revision_at k n v w = find (\<lambda>r. rv_kind r = kind_str k \<and> rv_name r = n \<and> rv_version r = v) (rw_revisions w)"

definition live_version :: "revision_kind \<Rightarrow> string \<Rightarrow> 'a rev_world \<Rightarrow> int" where
  "live_version k n w = (case find_owner k n w of Some x \<Rightarrow> or_default 0 (ow_revision x) | None \<Rightarrow> 0)"

definition show_version :: "int \<Rightarrow> string" where
  "show_version v = ''v'' @ show_int v"

definition link_problems :: "(string \<Rightarrow> string) \<Rightarrow> revision option \<Rightarrow> revision \<Rightarrow> string list" where
  "link_problems H prev r =
     (if H (rv_definition r) \<noteq> rv_content_hash r
      then [show_version (rv_version r) @ '': the definition does not match its hash''] else []) @
     (case prev of
        Some p \<Rightarrow>
          (if rv_version r \<noteq> rv_version p + 1
           then [show_version (rv_version r) @ '' follows '' @ show_version (rv_version p)] else []) @
          (if rv_prev_hash r \<noteq> Some (rv_content_hash p)
           then [show_version (rv_version r) @ '': prev_hash does not match '' @ show_version (rv_version p)] else [])
      | None \<Rightarrow>
          (if rv_version r \<noteq> 1 \<or> rv_prev_hash r \<noteq> None
           then [''the history starts at '' @ show_version (rv_version r)] else []))"

fun chain_problems_after :: "(string \<Rightarrow> string) \<Rightarrow> revision option \<Rightarrow> revision list \<Rightarrow> string list" where
  "chain_problems_after H prev [] = []"
| "chain_problems_after H prev (r # rs) = link_problems H prev r @ chain_problems_after H (Some r) rs"

definition chain_problems :: "(string \<Rightarrow> string) \<Rightarrow> revision list \<Rightarrow> string list" where
  "chain_problems H rs = chain_problems_after H None rs"

subsection \<open>Writing a revision\<close>

text \<open>What \<open>append_revision\<close> holds between its read of the newest revision and its transaction.\<close>

record pending =
  pd_new :: new_revision
  pd_expected :: int
  pd_drift :: "string option"
  pd_version :: int
  pd_prev_hash :: "string option"

definition read_latest :: "new_revision \<Rightarrow> int \<Rightarrow> string option \<Rightarrow> 'a rev_world \<Rightarrow> pending" where
  "read_latest r expected drift w =
     (let latest = latest_revision (nr_kind r) (nr_name r) w
      in \<lparr>pd_new = r, pd_expected = expected, pd_drift = drift,
          pd_version = (case latest of Some q \<Rightarrow> rv_version q | None \<Rightarrow> 0) + 1,
          pd_prev_hash = map_option rv_content_hash latest\<rparr>)"

definition pending_revision :: "(string \<Rightarrow> string) \<Rightarrow> pending \<Rightarrow> revision" where
  "pending_revision H p =
     (let r = pd_new p
      in \<lparr>rv_kind = kind_str (nr_kind r), rv_name = nr_name r, rv_version = pd_version p, rv_definition = nr_definition r,
          rv_content_hash = H (nr_definition r), rv_prev_hash = pd_prev_hash p, rv_author = nr_author r,
          rv_reason = nr_reason r, rv_based_on = nr_based_on r, rv_op = nr_op r\<rparr>)"

definition same_uid :: "revision \<Rightarrow> revision \<Rightarrow> bool" where
  "same_uid r q \<longleftrightarrow> rv_kind r = rv_kind q \<and> rv_name r = rv_name q \<and> rv_version r = rv_version q"

text \<open>The transaction: the write that creates the owner, the revision if the owner is at the expected version and the
  constraint on \<open>uid\<close> holds, the write that changes the owner. Otherwise it is rolled back.\<close>

definition land ::
  "(string \<Rightarrow> string) \<Rightarrow> pending \<Rightarrow> ('a owner_scheme list \<Rightarrow> 'a owner_scheme list) \<Rightarrow>
   ('a owner_scheme list \<Rightarrow> 'a owner_scheme list) \<Rightarrow> 'a rev_world \<Rightarrow> appended \<times> 'a rev_world" where
  "land H p before_write after_write w =
     (let k = nr_kind (pd_new p); n = nr_name (pd_new p); r = pending_revision H p; os = before_write (rw_owners w);
          here = (\<lambda>x. is_owner k n x \<and> or_default 0 (ow_revision x) = pd_expected p)
      in if list_ex here os \<and> \<not> list_ex (same_uid r) (rw_revisions w)
         then (Written (pd_version p),
               w\<lparr>rw_owners := after_write (update_where here
                    (\<lambda>x. x\<lparr>ow_revision := Some (pd_version p),
                           ow_live_hash := (if nr_op (pd_new p) = ''delete'' then None else Some (rv_content_hash r)),
                           ow_drift := pd_drift p\<rparr>) os),
                 rw_revisions := rw_revisions w @ [r]\<rparr>)
         else (Moved (live_version k n w), w))"

definition append_revision ::
  "(string \<Rightarrow> string) \<Rightarrow> new_revision \<Rightarrow> int \<Rightarrow> string option \<Rightarrow> 'a rev_world \<Rightarrow> appended \<times> 'a rev_world" where
  "append_revision H r expected drift w = land H (read_latest r expected drift w) id id w"

subsection \<open>The rules of a save\<close>

datatype refused = NoReason string | NoBase string int | RMoved string int

record save_request =
  sq_reason :: "string option"
  sq_based_on :: "int option"
  sq_reverts :: "int option"

definition save_request_from :: "json \<Rightarrow> save_request" where
  "save_request_from body =
     \<lparr>sq_reason = Option.bind (Option.bind (json_get body ''reason'') as_str) (\<lambda>s. opt_nonempty (trim s)),
      sq_based_on = Option.bind (json_get body ''based_on'') as_i64,
      sq_reverts = Option.bind (json_get body ''reverts'') as_i64\<rparr>"

definition moved_message :: "string \<Rightarrow> int \<Rightarrow> int \<Rightarrow> string" where
  "moved_message what read_version current =
     ''Not saved: '' @ what @ '' changed since you read it (you read version '' @ show_int read_version @
     '', it is at version '' @ show_int current @ ''). Read it again and redo the edit on top of that.''"

definition what_is :: "revision_kind \<Rightarrow> string \<Rightarrow> string" where
  "what_is k n = kind_str k @ '' '' @ quoted n"

definition gate :: "revision_kind \<Rightarrow> string \<Rightarrow> bool \<Rightarrow> int \<Rightarrow> save_request \<Rightarrow> refused + unit" where
  "gate k n there current req =
     (let what = what_is k n
      in if sq_reason req = None
         then Inl (NoReason (''Not saved: changing '' @ what @
                '' needs a `reason`, one line on why. It is kept with the revision.''))
         else if \<not> there then Inr ()
         else (case sq_based_on req of
            None \<Rightarrow> Inl (NoBase (''Not saved: '' @ what @ '' already exists, at version '' @ show_int current @
                ''. Read it, then save with `based_on`: the version you read.'') current)
          | Some v \<Rightarrow> if v \<noteq> current then Inl (RMoved (moved_message what v current) current) else Inr ()))"

definition drift_of :: "rev_env \<Rightarrow> string option \<Rightarrow> string \<Rightarrow> string option" where
  "drift_of N seed live =
     (let pretty = (\<lambda>t. case from_str (re_serde N) t of Some v \<Rightarrow> re_pretty N v | None \<Rightarrow> t)
      in case seed of
           None \<Rightarrow> Some ''No file: created at runtime.''
         | Some s \<Rightarrow> if s = live then None else Some (line_diff (pretty s) (pretty live)))"

text \<open>A save commits its write with its revision. \<open>commit_read\<close> is what happens before the transaction.\<close>

datatype 'a owner_write =
    CreateOwner "'a owner_scheme list \<Rightarrow> 'a owner_scheme list"
  | UpdateOwner "'a owner_scheme list \<Rightarrow> 'a owner_scheme list"

definition save_revision :: "rev_env \<Rightarrow> revision_kind \<Rightarrow> string \<Rightarrow> string \<Rightarrow> save_request \<Rightarrow> new_revision" where
  "save_revision N k n content req =
     \<lparr>nr_kind = k, nr_name = n, nr_definition = content, nr_author = re_author N, nr_reason = sq_reason req,
      nr_based_on = sq_based_on req, nr_op = (if sq_reverts req \<noteq> None then ''revert'' else ''save'')\<rparr>"

definition commit_read ::
  "rev_env \<Rightarrow> revision_kind \<Rightarrow> string \<Rightarrow> json \<Rightarrow> save_request \<Rightarrow> bool \<Rightarrow> 'a rev_world \<Rightarrow> refused + pending" where
  "commit_read N k n def req there w =
     (let current = live_version k n w
      in case gate k n there current req of
           Inl r \<Rightarrow> Inl r
         | Inr _ \<Rightarrow>
             let live = canonical (re_serde N) def;
                 drift = drift_of N (Option.bind (find_owner k n w) ow_seed_definition) live
             in Inr (read_latest (save_revision N k n live req) current drift w))"

definition commit ::
  "rev_env \<Rightarrow> revision_kind \<Rightarrow> string \<Rightarrow> json \<Rightarrow> save_request \<Rightarrow> 'a owner_write \<Rightarrow> 'a rev_world \<Rightarrow>
   (refused + int) \<times> 'a rev_world" where
  "commit N k n def req write w =
     (case (case write of CreateOwner f \<Rightarrow> (False, f, id) | UpdateOwner f \<Rightarrow> (True, id, f)) of (there, creates, updates) \<Rightarrow>
      case commit_read N k n def req there w of
        Inl r \<Rightarrow> (Inl r, w)
      | Inr p \<Rightarrow>
          (case land (re_hash N) p creates updates w of
             (Written v, w1) \<Rightarrow> (Inr v, w1)
           | (Moved now, w1) \<Rightarrow>
               (Inl (RMoved (moved_message (what_is k n) (live_version k n w) now) now), w1)))"

subsection \<open>Deleting, seeding, starting\<close>

text \<open>Whether the revision of a delete was written is not looked at.\<close>

definition record_delete :: "rev_env \<Rightarrow> revision_kind \<Rightarrow> string \<Rightarrow> string option \<Rightarrow> 'a rev_world \<Rightarrow> 'a rev_world" where
  "record_delete N k n reason w =
     (let current = live_version k n w
      in snd (append_revision (re_hash N)
           \<lparr>nr_kind = k, nr_name = n, nr_definition = [], nr_author = re_author N, nr_reason = reason,
            nr_based_on = Some current, nr_op = ''delete''\<rparr> current None w))"

definition set_owner ::
  "revision_kind \<Rightarrow> string \<Rightarrow> ('a owner_scheme \<Rightarrow> 'a owner_scheme) \<Rightarrow> 'a rev_world \<Rightarrow> 'a rev_world" where
  "set_owner k n f w = w\<lparr>rw_owners := update_where (is_owner k n) f (rw_owners w)\<rparr>"

function trim_start_matches :: "string \<Rightarrow> string \<Rightarrow> string" where
  "trim_start_matches p s =
     (case strip_prefix p s of Some r \<Rightarrow> if p = [] then s else trim_start_matches p r | None \<Rightarrow> s)"
  by pat_completeness auto
termination by (relation "measure (\<lambda>(p, s). length s)") (auto simp: strip_prefix_Some)

declare trim_start_matches.simps [simp del]

definition managed_by :: "'a owner_scheme \<Rightarrow> string" where
  "managed_by x = or_default ''yaml'' (ow_managed_by x)"

definition record_seed :: "rev_env \<Rightarrow> revision_kind \<Rightarrow> string \<Rightarrow> json \<Rightarrow> string \<Rightarrow> 'a rev_world \<Rightarrow> 'a rev_world" where
  "record_seed N k n def source w =
     (let live = canonical (re_serde N) def; hash = re_hash N live;
          w1 = set_owner k n (\<lambda>x. x\<lparr>ow_seed_definition := Some live, ow_seed_hash := Some hash,
                 ow_seed_source := Some source\<rparr>) w
      in case find_owner k n w1 of
           None \<Rightarrow> w1
         | Some x \<Rightarrow>
             if managed_by x \<noteq> ''yaml'' then w1
             else if (case latest_revision k n w1 of Some r \<Rightarrow> rv_content_hash r = hash | None \<Rightarrow> False) then w1
             else snd (append_revision (re_hash N)
                    \<lparr>nr_kind = k, nr_name = n, nr_definition = live,
                     nr_author = ''seed:'' @ trim_start_matches ''plugins/'' source, nr_reason = Some ''The file says this.'',
                     nr_based_on = None, nr_op = ''seed''\<rparr> (or_default 0 (ow_revision x)) None w1))"

text \<open>The revision a live definition lacks, if it lacks one.\<close>

definition missing_revision :: "rev_env \<Rightarrow> revision_kind \<Rightarrow> string \<Rightarrow> string \<Rightarrow> 'a rev_world \<Rightarrow> new_revision option" where
  "missing_revision N k n live w =
     (let new = (\<lambda>op by why. \<lparr>nr_kind = k, nr_name = n, nr_definition = live, nr_author = by, nr_reason = Some why,
                 nr_based_on = None, nr_op = op\<rparr>)
      in case latest_revision k n w of
           None \<Rightarrow> Some (new ''baseline'' ''baseline'' ''It existed before revisions were kept.'')
         | Some r \<Rightarrow>
             if rv_content_hash r \<noteq> re_hash N live
             then Some (new ''outside'' ''outside-save-path''
                    (''Found on start: live differs from '' @ show_version (rv_version r) @ ''.''))
             else None)"

text \<open>The last write of a step, with what its reads saw: the owner \<open>x\<close> and the newest version. It is no part of
  a transaction and checks nothing.\<close>

definition refreshed ::
  "rev_env \<Rightarrow> revision_kind \<Rightarrow> string \<Rightarrow> 'a owner_scheme \<Rightarrow> string \<Rightarrow> int \<Rightarrow> 'a rev_world \<Rightarrow> 'a rev_world" where
  "refreshed N k n x live version w =
     (let hash = re_hash N live; caught_up = (managed_by x = ''runtime'' \<and> ow_seed_hash x = Some hash)
      in set_owner k n (\<lambda>y. y\<lparr>ow_revision := Some version, ow_live_hash := Some hash,
           ow_drift := drift_of N (ow_seed_definition x) live,
           ow_managed_by := (if caught_up then Some ''yaml'' else ow_managed_by y)\<rparr>) w)"

definition reconcile_one :: "rev_env \<Rightarrow> revision_kind \<Rightarrow> 'a rev_world \<Rightarrow> string \<times> json \<Rightarrow> 'a rev_world" where
  "reconcile_one N k w nd =
     (let n = fst nd; live = canonical (re_serde N) (snd nd)
      in case find_owner k n w of
           None \<Rightarrow> w
         | Some x \<Rightarrow>
             let w1 = (case missing_revision N k n live w of
                         Some r \<Rightarrow> snd (append_revision (re_hash N) r (or_default 0 (ow_revision x)) None w)
                       | None \<Rightarrow> w);
                 version = (case latest_revision k n w1 of Some r \<Rightarrow> rv_version r | None \<Rightarrow> 0)
             in refreshed N k n x live version w1)"

definition check_chains :: "rev_env \<Rightarrow> revision_kind \<Rightarrow> 'a rev_world \<Rightarrow> 'a rev_world" where
  "check_chains N k w =
     w\<lparr>rw_owners := map (\<lambda>x. if ow_kind x = k \<and> history k (ow_name x) w \<noteq> []
         then (let problems = chain_problems (re_hash N) (history k (ow_name x) w)
               in x\<lparr>ow_problem := (if problems = [] then None else Some (join_with ''; '' problems))\<rparr>)
         else x) (rw_owners w)\<rparr>"

definition reconcile_revisions :: "rev_env \<Rightarrow> revision_kind \<Rightarrow> (string \<times> json) list \<Rightarrow> 'a rev_world \<Rightarrow> 'a rev_world" where
  "reconcile_revisions N k live w = check_chains N k (foldl (reconcile_one N k) w live)"

subsection \<open>Going back\<close>

definition cleared :: "revision_kind \<Rightarrow> json \<Rightarrow> json" where
  "cleared k v =
     (if k \<noteq> RProfile then JNull
      else (case v of JArr _ \<Rightarrow> JArr [] | JObj _ \<Rightarrow> JObj [] | JStr _ \<Rightarrow> JStr [] | JBool _ \<Rightarrow> JBool False | _ \<Rightarrow> JNull))"

definition set_key :: "string \<Rightarrow> json \<Rightarrow> json \<Rightarrow> json" where
  "set_key k x v = (case v of JObj m \<Rightarrow> JObj (map_insert k x m) | _ \<Rightarrow> v)"

definition revert_body ::
  "rev_env \<Rightarrow> revision_kind \<Rightarrow> string \<Rightarrow> int \<Rightarrow> string option \<Rightarrow> int option \<Rightarrow> json option \<Rightarrow> 'a rev_world \<Rightarrow> string + json" where
  "revert_body N k n version reason based_on live w =
     (case revision_at k n version w of
        None \<Rightarrow> Inl (what_is k n @ '' has no version '' @ show_int version)
      | Some r \<Rightarrow>
          if rv_definition r = []
          then Inl (''version '' @ show_int version @ '' of '' @ quoted n @
                 '' is its delete, which has no definition; pick an earlier one'')
          else (case from_str (re_serde N) (rv_definition r) of
             None \<Rightarrow> Inl ''the definition does not parse''
           | Some old \<Rightarrow>
               let lacking = (case (old, live) of
                     (JObj b, Some (JObj l)) \<Rightarrow> JObj (foldl (\<lambda>m (key, v). if map_of m key = None
                        then map_insert key (cleared k v) m else m) b l)
                   | _ \<Rightarrow> old);
                   why = Option.bind reason (\<lambda>s. opt_nonempty (trim s));
                   b1 = set_key ''reason'' (case why of Some t \<Rightarrow> JStr (''Revert to '' @ show_version version @ '': '' @ t)
                          | None \<Rightarrow> JNull) lacking;
                   b2 = set_key ''reverts'' (JInt version) b1;
                   b3 = set_key ''based_on'' (case based_on of Some b \<Rightarrow> JInt b | None \<Rightarrow> JNull) b2
               in Inr (if live = None \<and> k = RWorkflow then set_key ''enabled'' (JBool False) b3 else b3)))"

text \<open>Who saves: the agent, the chat, the run of a workflow, or the owner.\<close>

definition revision_author :: "string option \<Rightarrow> bool \<Rightarrow> string option \<Rightarrow> string" where
  "revision_author agent model_driven task =
     (case agent of Some a \<Rightarrow> ''agent:'' @ a
      | None \<Rightarrow> if model_driven then ''chat''
                else (case task of Some t \<Rightarrow> ''workflow-run:'' @ t | None \<Rightarrow> ''owner''))"

subsection \<open>The histories\<close>

lemma kind_str_eq [simp]: "kind_str k = kind_str k' \<longleftrightarrow> k = k'"
  by (cases k; cases k') (simp_all add: kind_str_def)

lemma chain_problems_after_snoc:
  "chain_problems_after H prev (rs @ [r]) =
     chain_problems_after H prev rs @ link_problems H (if rs = [] then prev else Some (last rs)) r"
  by (induction rs arbitrary: prev) auto

lemma chain_versions:
  "chain_problems_after H prev rs = [] \<Longrightarrow> i < length rs \<Longrightarrow>
     rv_version (rs ! i) = (case prev of None \<Rightarrow> 1 | Some p \<Rightarrow> rv_version p + 1) + int i"
proof (induction rs arbitrary: prev i)
  case (Cons r rs)
  then have "rv_version r = (case prev of None \<Rightarrow> 1 | Some p \<Rightarrow> rv_version p + 1)"
    by (auto simp: link_problems_def split: option.splits if_splits)
  with Cons.prems Cons.IH[of "Some r" "i - 1"] show ?case
    by (cases i) auto
qed simp

lemma chain_version: "chain_problems H rs = [] \<Longrightarrow> i < length rs \<Longrightarrow> rv_version (rs ! i) = int i + 1"
  using chain_versions[of H None rs i] by (simp add: chain_problems_def)

lemma in_history: "r \<in> set (history k n w) \<longleftrightarrow> r \<in> set (rw_revisions w) \<and> rv_kind r = kind_str k \<and> rv_name r = n"
  by (auto simp: history_def)

lemma sort_key_filter_same: "filter (\<lambda>x. c = f x) (sort_key f xs) = filter (\<lambda>x. c = f x) xs"
proof -
  have "(\<lambda>x. c = f x) = (\<lambda>x. f x = c)" by auto
  then show ?thesis using sort_key_stable[of f c xs] by simp
qed

lemma sort_key_snoc_max: "(\<And>x. x \<in> set xs \<Longrightarrow> f x \<le> f y) \<Longrightarrow> sort_key f (xs @ [y]) = sort_key f xs @ [y]"
  by (rule properties_for_sort_key) (auto simp: sorted_append sort_key_filter_same)

lemma latest_revision_history: "latest_revision k n w = (if history k n w = [] then None else Some (last (history k n w)))"
  by (cases "history k n w" rule: rev_cases) (simp_all add: latest_revision_def)

definition chains_ok :: "(string \<Rightarrow> string) \<Rightarrow> 'a rev_world \<Rightarrow> bool" where
  "chains_ok H w \<longleftrightarrow> (\<forall>k n. chain_problems H (history k n w) = [])"

definition owner_key :: "'a owner_scheme \<Rightarrow> revision_kind \<times> string" where
  "owner_key x = (ow_kind x, ow_name x)"

definition pending_ok :: "'a rev_world \<Rightarrow> pending \<Rightarrow> bool" where
  "pending_ok w p \<longleftrightarrow> (let h = history (nr_kind (pd_new p)) (nr_name (pd_new p)) w
     in \<exists>j \<le> length h. pd_version p = int j + 1 \<and>
          pd_prev_hash p = (if j = 0 then None else Some (rv_content_hash (h ! (j - 1)))))"

text \<open>A landing: the new revision is the last of its history.\<close>

lemma landing:
  assumes ok: "chains_ok H w" "pending_ok w p"
    and landed: "land H p f g w = (Written v, w')"
  defines "k \<equiv> nr_kind (pd_new p)" and "n \<equiv> nr_name (pd_new p)" and "r \<equiv> pending_revision H p"
  shows "v = int (length (history k n w)) + 1" (is ?A)
    and "history k' n' w' = history k' n' w @ (if k' = k \<and> n' = n then [r] else [])" (is ?B)
    and "chains_ok H w'" (is ?C)
proof -
  let ?h = "history k n w"
  have free: "\<not> list_ex (same_uid r) (rw_revisions w)" and v: "v = pd_version p"
    and revs: "rw_revisions w' = rw_revisions w @ [r]"
    using landed by (auto simp: land_def r_def Let_def split: if_splits)
  obtain j where j: "j \<le> length ?h" "pd_version p = int j + 1"
      "pd_prev_hash p = (if j = 0 then None else Some (rv_content_hash (?h ! (j - 1))))"
    using ok(2) by (auto simp: pending_ok_def k_def n_def Let_def)
  have chain: "chain_problems H ?h = []" using ok(1) by (simp add: chains_ok_def)
  have r: "rv_kind r = kind_str k" "rv_name r = n" "rv_version r = int j + 1" "rv_prev_hash r = pd_prev_hash p"
      "H (rv_definition r) = rv_content_hash r"
    by (simp_all add: r_def pending_revision_def k_def n_def j(2) Let_def)
  have "j = length ?h"
  proof (rule ccontr)
    assume "j \<noteq> length ?h"
    with j(1) have "?h ! j \<in> set ?h" "rv_version (?h ! j) = int j + 1"
      using chain_version[OF chain] by auto
    then have "same_uid r (?h ! j)" "?h ! j \<in> set (rw_revisions w)"
      by (auto simp: in_history same_uid_def r)
    with free show False by (auto simp: list_ex_iff)
  qed
  then show ?A using v j(2) by simp
  have top: "rv_version x \<le> rv_version r" if "x \<in> set ?h" for x
    using that chain_version[OF chain] \<open>j = length ?h\<close> r(3) by (auto simp: in_set_conv_nth)
  have "history k n w' = ?h @ [r]"
    using sort_key_snoc_max[of "filter (\<lambda>r. rv_kind r = kind_str k \<and> rv_name r = n) (rw_revisions w)" rv_version r] top
    by (simp add: history_def revs r)
  moreover have "history k' n' w' = history k' n' w" if "\<not> (k' = k \<and> n' = n)" for k' n'
    using that by (auto simp: history_def revs r)
  ultimately show B: "history k' n' w' = history k' n' w @ (if k' = k \<and> n' = n then [r] else [])" for k' n'
    by auto
  have "link_problems H (if ?h = [] then None else Some (last ?h)) r = []"
    using \<open>j = length ?h\<close> chain_version[OF chain, of "j - 1"] r j(3)
    by (auto simp: link_problems_def last_conv_nth)
  then show ?C
    using ok(1) by (auto simp: chains_ok_def B chain_problems_def chain_problems_after_snoc)
qed

lemma pending_ok_after:
  assumes "pending_ok w q" and "\<And>k n. \<exists>rs. history k n w' = history k n w @ rs"
  shows "pending_ok w' q"
proof -
  let ?k = "nr_kind (pd_new q)" and ?n = "nr_name (pd_new q)"
  obtain rs where "history ?k ?n w' = history ?k ?n w @ rs" using assms(2) by blast
  then show ?thesis
    using assms(1) by (auto simp: pending_ok_def Let_def nth_append intro!: exI[of _ "nat (pd_version q - 1)"])
qed

text \<open>Writers of revisions and of owners, interleaved as they come. Nothing is asked of the writes to owners: a start
  or a reset puts the version back that it read, and \<open>put_back_lets_a_stale_save_land\<close> says what comes of it.\<close>

inductive rev_step :: "(string \<Rightarrow> string) \<Rightarrow> 'a rev_world \<times> pending list \<Rightarrow> 'a rev_world \<times> pending list \<Rightarrow> bool"
  for H where
  Reads: "rev_step H (w, ps) (w, read_latest r expected drift w # ps)"
| Lands: "p \<in> set ps \<Longrightarrow> land H p f g w = (out, w') \<Longrightarrow> rev_step H (w, ps) (w', remove1 p ps)"
| Writes: "rev_step H (w, ps) (w\<lparr>rw_owners := f (rw_owners w)\<rparr>, ps)"

definition rev_inv :: "(string \<Rightarrow> string) \<Rightarrow> 'a rev_world \<times> pending list \<Rightarrow> bool" where
  "rev_inv H s \<longleftrightarrow> chains_ok H (fst s) \<and> list_all (pending_ok (fst s)) (snd s)"

lemma history_owners [simp]: "history k n (w\<lparr>rw_owners := os\<rparr>) = history k n w"
  by (simp add: history_def)

lemma read_latest_ok: "chains_ok H w \<Longrightarrow> pending_ok w (read_latest r expected drift w)"
  using chain_version[of H "history (nr_kind r) (nr_name r) w" "length (history (nr_kind r) (nr_name r) w) - 1"]
  by (auto simp: pending_ok_def read_latest_def latest_revision_history chains_ok_def Let_def last_conv_nth
      intro!: exI[of _ "length (history (nr_kind r) (nr_name r) w)"])

text \<open>Histories only grow.\<close>

lemma land_grows:
  assumes "chains_ok H w" and "pending_ok w p" and "land H p f g w = (out, w')"
  shows "chains_ok H w' \<and> (\<forall>k n. \<exists>rs. history k n w' = history k n w @ rs)"
proof (cases out)
  case (Written v)
  then have l: "land H p f g w = (Written v, w')" using assms(3) by simp
  show ?thesis using landing(2,3)[OF assms(1,2) l] by blast
next
  case (Moved v)
  then have "w' = w" using assms(3) by (auto simp: land_def Let_def split: if_splits)
  then show ?thesis using assms(1) by simp
qed

lemma rev_step_grows:
  assumes "rev_step H s s'" and "rev_inv H s"
  shows "rev_inv H s' \<and> (\<forall>k n. \<exists>rs. history k n (fst s') = history k n (fst s) @ rs)"
  using assms(1)
proof cases
  case (Lands p ps f g w out w')
  then have ok: "chains_ok H w" "pending_ok w p" "list_all (pending_ok w) ps"
    using assms(2) by (auto simp: rev_inv_def list_all_iff)
  note g = land_grows[OF ok(1,2) Lands(4)]
  have "list_all (pending_ok w') (remove1 p ps)"
    using ok(3) pending_ok_after[of w _ w'] g by (auto simp: list_all_iff dest!: set_remove1_subset[THEN subsetD])
  with g Lands show ?thesis by (simp add: rev_inv_def)
next
  case (Writes w ps f)
  then show ?thesis using assms(2) by (auto simp: rev_inv_def chains_ok_def pending_ok_def list_all_iff)
qed (use assms(2) in \<open>auto simp: rev_inv_def intro: read_latest_ok\<close>)

interpretation revs: step_relation "rev_step H" "rev_inv H" for H
  by unfold_locales (use rev_step_grows in blast)

lemma rev_run_grows:
  "(rev_step H)\<^sup>*\<^sup>* s s' \<Longrightarrow> rev_inv H s \<Longrightarrow> \<exists>rs. history k n (fst s') = history k n (fst s) @ rs"
proof (induction rule: rtranclp_induct)
  case (step y z)
  then obtain rs where "history k n (fst y) = history k n (fst s) @ rs" by blast
  moreover obtain rs' where "history k n (fst z) = history k n (fst y) @ rs'"
    using rev_step_grows[OF step.hyps(2) revs.run_keeps[OF step.hyps(1) step.prems]] by blast
  ultimately show ?case by simp
qed simp

text \<open>Claim C9. However writers of revisions and of their objects interleave, no history breaks: its versions count up
  from 1, every definition matches its hash and every link the one before. And a writer whose read saw \<open>w1\<close> lands
  only if its history is still the one it read and its object stands at the version it expected; it then adds its
  own revision to the end of that history and to no other. What the object's version is worth is another matter:
  writes around the transaction may set it to anything.\<close>

theorem histories_are_never_broken:
  assumes "chains_ok H w0" and "(rev_step H)\<^sup>*\<^sup>* (w0, []) (w1, ps1)"
    and "p = read_latest r expected drift w1" and "(rev_step H)\<^sup>*\<^sup>* (w1, p # ps1) (w, ps)" and "p \<in> set ps"
  shows "chain_problems H (history k n w) = [] \<and>
    (\<forall>f g v w'. land H p f g w = (Written v, w') \<longrightarrow>
       history (nr_kind r) (nr_name r) w = history (nr_kind r) (nr_name r) w1 \<and>
       v = int (length (history (nr_kind r) (nr_name r) w1)) + 1 \<and>
       list_ex (\<lambda>x. is_owner (nr_kind r) (nr_name r) x \<and> or_default 0 (ow_revision x) = expected) (f (rw_owners w)) \<and>
       history k n w' = history k n w @ (if (k, n) = (nr_kind r, nr_name r) then [pending_revision H p] else []) \<and>
       chain_problems H (history k n w') = [])"
proof -
  have "rev_inv H (w0, [])" using assms(1) by (simp add: rev_inv_def)
  then have inv1: "rev_inv H (w1, ps1)" by (rule revs.run_keeps[OF assms(2)])
  then have inv1': "rev_inv H (w1, p # ps1)"
    using assms(3) by (auto simp: rev_inv_def intro: read_latest_ok)
  then have "rev_inv H (w, ps)" by (rule revs.run_keeps[OF assms(4)])
  then have ok: "chains_ok H w" "pending_ok w p" using assms(5) by (auto simp: rev_inv_def list_all_iff)
  let ?h = "history (nr_kind r) (nr_name r)"
  obtain rs where rs: "?h w = ?h w1 @ rs" using rev_run_grows[OF assms(4) inv1'] by auto
  have p: "pd_new p = r" "pd_expected p = expected" by (simp_all add: assms(3) read_latest_def Let_def)
  have c1: "chain_problems H (?h w1) = []" using inv1 by (simp add: rev_inv_def chains_ok_def)
  have v1: "pd_version p = int (length (?h w1)) + 1"
    using chain_version[OF c1, of "length (?h w1) - 1"]
    by (cases "?h w1 = []") (simp_all add: assms(3) read_latest_def latest_revision_history Let_def last_conv_nth of_nat_diff Suc_leI)
  have lands: "?h w = ?h w1 \<and> v = int (length (?h w1)) + 1 \<and>
       list_ex (\<lambda>x. is_owner (nr_kind r) (nr_name r) x \<and> or_default 0 (ow_revision x) = expected) (f (rw_owners w)) \<and>
       history k n w' = history k n w @ (if (k, n) = (nr_kind r, nr_name r) then [pending_revision H p] else []) \<and>
       chain_problems H (history k n w') = []"
    if l: "land H p f g w = (Written v, w')" for f g v w'
  proof -
    note lan = landing[OF ok l, unfolded p]
    have v: "v = pd_version p"
      and ex: "list_ex (\<lambda>x. is_owner (nr_kind r) (nr_name r) x \<and> or_default 0 (ow_revision x) = expected) (f (rw_owners w))"
      using l by (auto simp: land_def p Let_def split: if_splits)
    have "chain_problems H (history k n w') = []" using lan(3) by (simp add: chains_ok_def)
    then show ?thesis using lan(1,2) v v1 rs ex by auto
  qed
  have "chain_problems H (history k n w) = []" using ok(1) by (simp add: chains_ok_def)
  with lands show ?thesis by blast
qed

definition sample_owner :: owner where
  "sample_owner =
     \<lparr>ow_kind = RProgram, ow_name = ''nia'', ow_managed_by = None, ow_revision = None, ow_live_hash = None, ow_drift = None,
      ow_seed_definition = None, ow_seed_hash = None, ow_seed_source = None, ow_problem = None\<rparr>"

definition sample_rev_world :: "unit rev_world" where
  "sample_rev_world = \<lparr>rw_owners = [sample_owner], rw_revisions = []\<rparr>"

definition sample_rev_env :: rev_env where
  "sample_rev_env = \<lparr>re_hash = rev, re_serde = sample_serde, re_pretty = (\<lambda>v. ''{}''), re_author = ''owner''\<rparr>"

definition a_save :: new_revision where
  "a_save =
     \<lparr>nr_kind = RProgram, nr_name = ''nia'', nr_definition = ''ab'', nr_author = ''owner'', nr_reason = Some ''first'',
      nr_based_on = None, nr_op = ''save''\<rparr>"

theorem histories_are_never_broken_witness:
  fixes p w
  defines "p \<equiv> read_latest a_save 0 None sample_rev_world" and "w \<equiv> snd (append_revision rev a_save 0 None sample_rev_world)"
  shows "land rev p id id sample_rev_world = (Written 1, w) \<and> history RProgram ''nia'' w = [pending_revision rev p] \<and>
    chain_problems rev (history RProgram ''nia'' w) = []"
proof -
  have l: "land rev p id id sample_rev_world = (Written 1, w)"
    by (simp add: p_def w_def append_revision_def land_def read_latest_def latest_revision_history history_def a_save_def sample_rev_world_def
        sample_owner_def is_owner_def or_default_def pending_revision_def Let_def)
  have ok: "chains_ok rev sample_rev_world" and none: "history RProgram ''nia'' sample_rev_world = []"
    by (simp_all add: chains_ok_def chain_problems_def history_def sample_rev_world_def)
  have p: "p = read_latest a_save 0 None sample_rev_world" by (simp add: p_def)
  have r: "nr_kind a_save = RProgram" "nr_name a_save = ''nia''" by (simp_all add: a_save_def)
  note all = conjunct2[OF histories_are_never_broken[OF ok rtranclp.rtrancl_refl p rtranclp.rtrancl_refl list.set_intros(1), of RProgram "''nia''"]]
  note one = all[THEN spec[of _ id], THEN spec[of _ id], THEN spec[of _ 1], THEN spec[of _ w], THEN mp, OF l]
  have "history RProgram ''nia'' w = [pending_revision rev p]" using one by (simp add: r none)
  with one l show ?thesis by blast
qed

subsection \<open>A save\<close>

text \<open>Claim C15. A save is whole or nothing: one that is refused changes nothing, and one that lands added exactly one
  revision of what was asked, with a reason, and where the object was there with the version it is at as the one
  the writer had read.\<close>

theorem a_save_is_whole_or_nothing:
  assumes "chains_ok (re_hash N) w" and "commit N k n d req write w = (out, w')"
  shows "(\<forall>v. out = Inr v \<longrightarrow>
      (\<exists>r. history k n w' = history k n w @ [r] \<and> rv_version r = v \<and> rv_definition r = canonical (re_serde N) d \<and>
         rv_reason r = sq_reason req \<and> sq_reason req \<noteq> None) \<and>
      (\<forall>f. write = UpdateOwner f \<longrightarrow> sq_based_on req = Some (live_version k n w))) \<and>
    (\<forall>why. out = Inl why \<longrightarrow> w' = w)"
proof (cases out)
  case (Inl why)
  with assms(2) show ?thesis
    by (auto simp: commit_def commit_read_def land_def Let_def split: owner_write.splits sum.splits if_splits)
next
  case (Inr v)
  let ?p = "read_latest (save_revision N k n (canonical (re_serde N) d) req) (live_version k n w)
      (drift_of N (Option.bind (find_owner k n w) ow_seed_definition) (canonical (re_serde N) d)) w"
  obtain there f g where wr: "(there, f, g) = (case write of CreateOwner f \<Rightarrow> (False, f, id) | UpdateOwner f \<Rightarrow> (True, id, f))"
    by (metis prod_cases3)
  have gate: "gate k n there (live_version k n w) req = Inr ()" and l: "land (re_hash N) ?p f g w = (Written v, w')"
    using assms(2) Inr unfolding commit_def wr[symmetric]
    by (auto simp: commit_read_def Let_def split: sum.splits appended.splits prod.splits)
  have "nr_kind (pd_new ?p) = k" "nr_name (pd_new ?p) = n"
    by (simp_all add: read_latest_def save_revision_def Let_def)
  with landing(1)[OF assms(1) read_latest_ok[OF assms(1)] l] landing(2)[OF assms(1) read_latest_ok[OF assms(1)] l, of k n] have "history k n w' = history k n w @ [pending_revision (re_hash N) ?p]"
    and "v = int (length (history k n w)) + 1" by simp_all
  moreover have "rv_version (pending_revision (re_hash N) ?p) = v"
    using l by (auto simp: land_def pending_revision_def Let_def split: if_splits)
  moreover have "rv_definition (pending_revision (re_hash N) ?p) = canonical (re_serde N) d"
      "rv_reason (pending_revision (re_hash N) ?p) = sq_reason req"
    by (simp_all add: pending_revision_def read_latest_def save_revision_def Let_def)
  ultimately show ?thesis
    using gate Inr wr by (auto simp: gate_def Let_def split: if_splits option.splits)
qed

theorem a_save_is_whole_or_nothing_witness:
  "fst (commit sample_rev_env RProgram ''nia'' JNull \<lparr>sq_reason = Some ''why'', sq_based_on = Some 0, sq_reverts = None\<rparr>
     (UpdateOwner id) sample_rev_world) = Inr 1 \<and>
   snd (commit sample_rev_env RProgram ''nia'' JNull \<lparr>sq_reason = None, sq_based_on = Some 0, sq_reverts = None\<rparr>
     (UpdateOwner id) sample_rev_world) = sample_rev_world"
proof -
  have ok: "chains_ok (re_hash sample_rev_env) sample_rev_world"
    by (simp add: chains_ok_def chain_problems_def history_def sample_rev_world_def)
  have "fst (commit sample_rev_env RProgram ''nia'' JNull \<lparr>sq_reason = Some ''why'', sq_based_on = Some 0, sq_reverts = None\<rparr>
     (UpdateOwner id) sample_rev_world) = Inr 1"
    by (simp add: commit_def commit_read_def gate_def live_version_def find_owner_def is_owner_def sample_rev_world_def
        sample_owner_def or_default_def land_def read_latest_def latest_revision_def history_def save_revision_def Let_def
        pending_revision_def)
  moreover have "\<exists>why. fst (commit sample_rev_env RProgram ''nia'' JNull \<lparr>sq_reason = None, sq_based_on = Some 0, sq_reverts = None\<rparr>
     (UpdateOwner id) sample_rev_world) = Inl why"
    by (simp add: commit_def commit_read_def gate_def Let_def)
  ultimately show ?thesis
    using a_save_is_whole_or_nothing[OF ok, of RProgram "''nia''" JNull _ "UpdateOwner id"] by (metis prod.collapse)
qed

subsection \<open>A start\<close>

lemma find_map_same: "(\<And>x. P (f x) = P x) \<Longrightarrow> find P (map f xs) = map_option f (find P xs)"
  by (induction xs) auto

lemma find_update_where: "(\<And>x. P (f x) = P x) \<Longrightarrow>
    find P (update_where Q f xs) = map_option (\<lambda>x. if Q x then f x else x) (find P xs)"
  unfolding update_where_def by (rule find_map_same) auto

lemma find_owner_is: "find_owner k n w = Some x \<Longrightarrow> is_owner k n x"
  by (auto simp: find_owner_def find_Some_iff)

lemma append_lands:
  assumes "find_owner (nr_kind r) (nr_name r) w = Some x" and "chains_ok H w"
  shows "\<exists>v w'. append_revision H r (or_default 0 (ow_revision x)) drift w = (Written v, w') \<and> chains_ok H w' \<and>
    (\<forall>k n. history k n w' = history k n w @
       (if k = nr_kind r \<and> n = nr_name r then [pending_revision H (read_latest r (or_default 0 (ow_revision x)) drift w)] else [])) \<and>
    (\<forall>k n. \<not> (k = nr_kind r \<and> n = nr_name r) \<longrightarrow> find_owner k n w' = find_owner k n w) \<and>
    (\<exists>y. find_owner (nr_kind r) (nr_name r) w' = Some y \<and> ow_seed_definition y = ow_seed_definition x)"
proof -
  let ?p = "read_latest r (or_default 0 (ow_revision x)) drift w"
  have p: "pd_new ?p = r" "pd_expected ?p = or_default 0 (ow_revision x)" by (simp_all add: read_latest_def Let_def)
  have x: "x \<in> set (rw_owners w)" "is_owner (nr_kind r) (nr_name r) x"
    using assms(1) by (auto simp: find_owner_def find_Some_iff)
  have less: "rv_version q < pd_version ?p"
    if "q \<in> set (rw_revisions w)" "rv_kind q = kind_str (nr_kind r)" "rv_name q = nr_name r" for q
  proof -
    have "q \<in> set (history (nr_kind r) (nr_name r) w)" using that by (simp add: in_history)
    then show ?thesis
      using chain_version[of H "history (nr_kind r) (nr_name r) w"] assms(2)
      by (auto simp: read_latest_def latest_revision_history Let_def chains_ok_def in_set_conv_nth last_conv_nth)
  qed
  have "\<not> list_ex (same_uid (pending_revision H ?p)) (rw_revisions w)"
  proof
    assume "list_ex (same_uid (pending_revision H ?p)) (rw_revisions w)"
    then obtain q where "q \<in> set (rw_revisions w)" "rv_kind q = kind_str (nr_kind r)" "rv_name q = nr_name r"
        "rv_version q = pd_version ?p"
      by (auto simp: list_ex_iff same_uid_def pending_revision_def p Let_def)
    with less show False by fastforce
  qed
  then obtain v w' where l: "append_revision H r (or_default 0 (ow_revision x)) drift w = (Written v, w')"
    using x p by (force simp: append_revision_def land_def Let_def list_ex_iff)
  then have l': "land H ?p id id w = (Written v, w')" by (simp add: append_revision_def)
  note lan = landing[OF assms(2) read_latest_ok[OF assms(2)] l', unfolded p(1)]
  obtain f where f: "rw_owners w' = update_where (\<lambda>z. is_owner (nr_kind r) (nr_name r) z \<and>
        or_default 0 (ow_revision z) = pd_expected ?p) f (rw_owners w)"
      "\<And>k n y. is_owner k n (f y) = is_owner k n y" "\<And>y. ow_seed_definition (f y) = ow_seed_definition y"
    using l' by (auto simp: land_def Let_def is_owner_def p split: if_splits)
  have found: "find_owner k n w' = map_option (\<lambda>z. if is_owner (nr_kind r) (nr_name r) z \<and>
        or_default 0 (ow_revision z) = pd_expected ?p then f z else z) (find_owner k n w)" for k n
    unfolding find_owner_def f(1) by (rule find_update_where) (rule f(2))
  have "find_owner k n w' = find_owner k n w" if "\<not> (k = nr_kind r \<and> n = nr_name r)" for k n
    unfolding found using that find_owner_is[of k n w] by (cases "find_owner k n w") (auto simp: is_owner_def)
  moreover have "\<exists>y. find_owner (nr_kind r) (nr_name r) w' = Some y \<and> ow_seed_definition y = ow_seed_definition x"
    unfolding found assms(1) by (simp add: f(3))
  ultimately show ?thesis using l lan(2,3) by blast
qed

definition described :: "rev_env \<Rightarrow> revision_kind \<Rightarrow> 'a rev_world \<Rightarrow> string \<times> json \<Rightarrow> bool" where
  "described N k w nd \<longleftrightarrow>
     (case find_owner k (fst nd) w of
        None \<Rightarrow> True
      | Some x \<Rightarrow>
          (case latest_revision k (fst nd) w of
             None \<Rightarrow> False
           | Some r \<Rightarrow> rv_content_hash r = re_hash N (canonical (re_serde N) (snd nd)) \<and> ow_revision x = Some (rv_version r) \<and>
               ow_drift x = drift_of N (ow_seed_definition x) (canonical (re_serde N) (snd nd))))"

lemma set_owner_simps [simp]:
  "history k n (set_owner k' n' f w) = history k n w"
  "rw_revisions (set_owner k' n' f w) = rw_revisions w"
  by (simp_all add: set_owner_def history_def)

lemma latest_set_owner [simp]: "latest_revision k n (set_owner k' n' f w) = latest_revision k n w"
  by (simp add: latest_revision_history)

lemma find_owner_set_owner:
  assumes "\<And>x. ow_kind (f x) = ow_kind x" and "\<And>x. ow_name (f x) = ow_name x"
  shows "find_owner k n (set_owner k n' f w) = (if n = n' then map_option f (find_owner k n w) else find_owner k n w)"
proof -
  have "find_owner k n (set_owner k n' f w) = map_option (\<lambda>x. if is_owner k n' x then f x else x) (find_owner k n w)"
    unfolding find_owner_def set_owner_def by (simp add: find_update_where is_owner_def assms)
  then show ?thesis
    using find_owner_is[of k n w] by (cases "find_owner k n w") (auto simp: is_owner_def)
qed


text \<open>The first half of a step: the revision the live definition lacked is there.\<close>

lemma missing_revision_written:
  fixes N k n live w
  assumes ok: "chains_ok (re_hash N) w" and x: "find_owner k n w = Some x"
  defines "w1 \<equiv> (case missing_revision N k n live w of
        Some r \<Rightarrow> snd (append_revision (re_hash N) r (or_default 0 (ow_revision x)) None w) | None \<Rightarrow> w)"
  shows "chains_ok (re_hash N) w1 \<and>
     (\<exists>r. latest_revision k n w1 = Some r \<and> rv_content_hash r = re_hash N live) \<and>
     (\<exists>y. find_owner k n w1 = Some y \<and> ow_seed_definition y = ow_seed_definition x) \<and>
     (\<forall>m. m \<noteq> n \<longrightarrow> find_owner k m w1 = find_owner k m w \<and> history k m w1 = history k m w) \<and>
     (missing_revision N k n live w = None \<longrightarrow> w1 = w)"
proof (cases "missing_revision N k n live w")
  case None
  then show ?thesis using ok x by (auto simp: w1_def missing_revision_def Let_def split: option.splits if_splits)
next
  case (Some r)
  then have r: "nr_kind r = k" "nr_name r = n" "nr_definition r = live"
    by (auto simp: missing_revision_def Let_def split: option.splits if_splits)
  obtain v w2 where w2: "append_revision (re_hash N) r (or_default 0 (ow_revision x)) None w = (Written v, w2)"
      "chains_ok (re_hash N) w2"
      "\<And>k n. history k n w2 = history k n w @ (if k = nr_kind r \<and> n = nr_name r
         then [pending_revision (re_hash N) (read_latest r (or_default 0 (ow_revision x)) None w)] else [])"
      "\<And>k n. \<not> (k = nr_kind r \<and> n = nr_name r) \<Longrightarrow> find_owner k n w2 = find_owner k n w"
      "\<exists>y. find_owner (nr_kind r) (nr_name r) w2 = Some y \<and> ow_seed_definition y = ow_seed_definition x"
    using append_lands[of r w x "re_hash N" None] ok x r by auto
  have "rv_content_hash (pending_revision (re_hash N) (read_latest r (or_default 0 (ow_revision x)) None w)) = re_hash N live"
    by (simp add: pending_revision_def read_latest_def r(3) Let_def)
  moreover have "w1 = w2" by (simp add: w1_def Some w2(1))
  ultimately show ?thesis using w2(2-) r Some by (auto simp: latest_revision_history)
qed

lemma reconcile_one_step:
  fixes N k nd w
  assumes ok: "chains_ok (re_hash N) w"
  defines "w' \<equiv> reconcile_one N k w nd"
  shows "chains_ok (re_hash N) w' \<and> described N k w' nd \<and>
    (\<forall>m. m \<noteq> fst nd \<longrightarrow> find_owner k m w' = find_owner k m w \<and> history k m w' = history k m w) \<and>
    (described N k w nd \<longrightarrow> rw_revisions w' = rw_revisions w)"
proof (cases "find_owner k (fst nd) w")
  case None
  then show ?thesis using ok by (simp add: w'_def reconcile_one_def described_def Let_def)
next
  case (Some x)
  let ?live = "canonical (re_serde N) (snd nd)"
  define w1 where "w1 = (case missing_revision N k (fst nd) ?live w of
        Some r \<Rightarrow> snd (append_revision (re_hash N) r (or_default 0 (ow_revision x)) None w) | None \<Rightarrow> w)"
  note one = missing_revision_written[OF ok Some, of ?live, folded w1_def]
  define f where "f = (\<lambda>y :: 'a owner_scheme. y\<lparr>
      ow_revision := Some (case latest_revision k (fst nd) w1 of Some r \<Rightarrow> rv_version r | None \<Rightarrow> 0),
      ow_live_hash := Some (re_hash N ?live), ow_drift := drift_of N (ow_seed_definition x) ?live,
      ow_managed_by := (if managed_by x = ''runtime'' \<and> ow_seed_hash x = Some (re_hash N ?live) then Some ''yaml'' else ow_managed_by y)\<rparr>)"
  have w': "w' = set_owner k (fst nd) f w1"
    unfolding w'_def reconcile_one_def refreshed_def Let_def Some option.case(2) w1_def f_def ..
  have f: "ow_kind (f y) = ow_kind y" "ow_name (f y) = ow_name y" "ow_seed_definition (f y) = ow_seed_definition y"
      "ow_revision (f y) = Some (case latest_revision k (fst nd) w1 of Some r \<Rightarrow> rv_version r | None \<Rightarrow> 0)"
      "ow_drift (f y) = drift_of N (ow_seed_definition x) ?live" for y
    by (simp_all add: f_def)
  have "missing_revision N k (fst nd) ?live w = None" if "described N k w nd"
    using that Some by (auto simp: described_def missing_revision_def Let_def split: option.splits)
  moreover have "chains_ok (re_hash N) w'" using one by (simp add: w' chains_ok_def)
  moreover have "described N k w' nd"
    using one by (auto simp: described_def w' find_owner_set_owner f)
  ultimately show ?thesis using one by (simp add: w' find_owner_set_owner f)
qed

lemma described_cong:
  "find_owner k (fst nd) w' = find_owner k (fst nd) w \<Longrightarrow> history k (fst nd) w' = history k (fst nd) w \<Longrightarrow>
     described N k w' nd = described N k w nd"
  by (cases "find_owner k (fst nd) w") (simp_all add: described_def latest_revision_history)

lemma reconcile_all:
  fixes N k w
  assumes "chains_ok (re_hash N) w" and "distinct (map fst live)"
  defines "w' \<equiv> foldl (reconcile_one N k) w live"
  shows "chains_ok (re_hash N) w' \<and> (\<forall>nd \<in> set live. described N k w' nd) \<and>
    (\<forall>m. m \<notin> fst ` set live \<longrightarrow> find_owner k m w' = find_owner k m w \<and> history k m w' = history k m w) \<and>
    ((\<forall>nd \<in> set live. described N k w nd) \<longrightarrow> rw_revisions w' = rw_revisions w)"
  using assms(1,2) unfolding w'_def
proof (induction live arbitrary: w)
  case (Cons nd live)
  define w1 where "w1 = reconcile_one N k w nd"
  note step = reconcile_one_step[OF Cons.prems(1), of k nd, folded w1_def]
  have d: "distinct (map fst live)" "fst nd \<notin> fst ` set live" using Cons.prems(2) by auto
  note rest = Cons.IH[OF conjunct1[OF step] d(1)]
  have cong: "described N k w1 nd' = described N k w nd'" if "nd' \<in> set live" for nd'
  proof -
    have "fst nd' \<noteq> fst nd" using d(2) that by (metis image_eqI)
    then show ?thesis using step by (intro described_cong) blast+
  qed
  have "described N k (foldl (reconcile_one N k) w1 live) nd"
    using step rest d(2) by (subst described_cong[where w = w1]) auto
  with step rest d cong show ?case by (auto simp flip: w1_def)
qed simp

lemma check_chains_simps [simp]:
  "history k n (check_chains N k' w) = history k n w" "rw_revisions (check_chains N k' w) = rw_revisions w"
  by (simp_all add: check_chains_def history_def)

lemma described_check_chains [simp]: "described N k (check_chains N k w) nd = described N k w nd"
proof -
  obtain f where f: "rw_owners (check_chains N k w) = map f (rw_owners w)"
    "\<And>x. is_owner k (fst nd) (f x) = is_owner k (fst nd) x"
    "\<And>x. ow_revision (f x) = ow_revision x \<and> ow_drift (f x) = ow_drift x \<and> ow_seed_definition (f x) = ow_seed_definition x"
    by (rule that[of "\<lambda>x. if ow_kind x = k \<and> history k (ow_name x) w \<noteq> []
         then (let problems = chain_problems (re_hash N) (history k (ow_name x) w)
               in x\<lparr>ow_problem := (if problems = [] then None else Some (join_with ''; '' problems))\<rparr>)
         else x"]) (simp_all add: check_chains_def is_owner_def Let_def)
  have "find_owner k (fst nd) (check_chains N k w) = map_option f (find_owner k (fst nd) w)"
    unfolding find_owner_def f(1) by (rule find_map_same) (rule f(2))
  then show ?thesis
    by (cases "find_owner k (fst nd) w") (simp_all add: described_def latest_revision_history f(3))
qed

text \<open>Claim C19. After a start has reconciled a kind, every object that is there is described by its history: the newest
  revision is what is live, the object is at its version, and its drift is the diff from its file. No history broke,
  and another start finds nothing to write.\<close>

theorem a_start_describes_what_is_live:
  fixes N k w live
  assumes "chains_ok (re_hash N) w" and "distinct (map fst live)"
  defines "w' \<equiv> reconcile_revisions N k live w"
  shows "chains_ok (re_hash N) w' \<and> list_all (described N k w') live \<and>
    rw_revisions (reconcile_revisions N k live w') = rw_revisions w'"
proof -
  have one: "chains_ok (re_hash N) w'" "\<forall>nd \<in> set live. described N k w' nd"
    using reconcile_all[OF assms(1,2), of k] by (simp_all add: w'_def reconcile_revisions_def chains_ok_def)
  then show ?thesis
    using reconcile_all[OF one(1) assms(2), of k] by (simp add: reconcile_revisions_def list_all_iff)
qed

theorem a_start_describes_what_is_live_witness:
  fixes live
  defines "live \<equiv> [(''nia'', JNull)]"
  shows "map rv_op (rw_revisions (reconcile_revisions sample_rev_env RProgram live
           (reconcile_revisions sample_rev_env RProgram live sample_rev_world))) = [''baseline'']"
proof -
  let ?w = "reconcile_revisions sample_rev_env RProgram live sample_rev_world"
  have "rw_revisions (reconcile_revisions sample_rev_env RProgram live ?w) = rw_revisions ?w"
    using a_start_describes_what_is_live[of sample_rev_env sample_rev_world live RProgram]
    by (simp add: live_def chains_ok_def chain_problems_def history_def sample_rev_world_def)
  moreover have "map rv_op (rw_revisions ?w) = [''baseline'']"
    by (simp add: live_def reconcile_revisions_def reconcile_one_def refreshed_def missing_revision_def find_owner_def is_owner_def
        sample_rev_world_def sample_owner_def latest_revision_def history_def append_revision_def land_def read_latest_def
        or_default_def pending_revision_def Let_def)
  ultimately show ?thesis by (simp only:)
qed

subsection \<open>A version put back\<close>

text \<open>A start or a reset that read an object before a save and writes after it puts the version back that it read. The
  save is then hidden from the next writer.\<close>

lemma commit_is_append:
  fixes N k n d req w
  defines "s \<equiv> save_revision N k n (canonical (re_serde N) d) req"
    and "drift \<equiv> drift_of N (Option.bind (find_owner k n w) ow_seed_definition) (canonical (re_serde N) d)"
  shows "gate k n True (live_version k n w) req = Inr () \<Longrightarrow>
       append_revision (re_hash N) s (live_version k n w) drift w = (Written v, w') \<Longrightarrow>
       commit N k n d req (UpdateOwner id) w = (Inr v, w')"
    and "commit N k n d req (UpdateOwner id) w = (Inr v, w') \<Longrightarrow>
       append_revision (re_hash N) s (live_version k n w) drift w = (Written v, w')"
  by (auto simp: s_def drift_def commit_def commit_read_def append_revision_def Let_def split: sum.splits appended.splits prod.splits)

lemma commit_over_owner:
  assumes ok: "chains_ok (re_hash N) w" and x: "find_owner k n w = Some x"
    and reason: "sq_reason req \<noteq> None" and based: "sq_based_on req = Some (live_version k n w)"
  shows "\<exists>w' q. commit N k n d req (UpdateOwner id) w = (Inr (int (length (history k n w)) + 1), w') \<and> chains_ok (re_hash N) w' \<and>
    history k n w' = history k n w @ [q] \<and> rv_definition q = canonical (re_serde N) d \<and> rv_based_on q = sq_based_on req \<and>
    find_owner k n w' \<noteq> None"
proof -
  let ?s = "save_revision N k n (canonical (re_serde N) d) req"
  let ?drift = "drift_of N (Option.bind (find_owner k n w) ow_seed_definition) (canonical (re_serde N) d)"
  have s: "nr_kind ?s = k" "nr_name ?s = n" by (simp_all add: save_revision_def)
  have lv: "live_version k n w = or_default 0 (ow_revision x)" by (simp add: live_version_def x)
  obtain v w' where a: "append_revision (re_hash N) ?s (live_version k n w) ?drift w = (Written v, w')" "chains_ok (re_hash N) w'"
      "history k n w' = history k n w @ [pending_revision (re_hash N) (read_latest ?s (live_version k n w) ?drift w)]"
      "find_owner k n w' \<noteq> None"
    using append_lands[of ?s w x "re_hash N" ?drift] ok x unfolding s lv by auto
  have "v = int (length (history k n w)) + 1"
    using landing(1)[OF ok read_latest_ok[OF ok] a(1)[unfolded append_revision_def]] by (simp add: read_latest_def s Let_def)
  moreover have "gate k n True (live_version k n w) req = Inr ()"
    using reason based by (auto simp: gate_def Let_def)
  ultimately have "commit N k n d req (UpdateOwner id) w = (Inr (int (length (history k n w)) + 1), w')"
    using commit_is_append(1)[of k n w req N d v w'] a(1) by simp
  then show ?thesis using a by (auto simp: pending_revision_def read_latest_def save_revision_def Let_def)
qed

text \<open>Claim C35. A version put back lets an edit undo one it has not seen: a start reads the newest revision, a save
  lands on it, the start writes the version it read, and then a writer that still has that old version lands its
  save two versions on, over the save it never read.\<close>

theorem put_back_lets_a_stale_save_land:
  assumes "chains_ok (re_hash N) w" and "find_owner k n w = Some x" and "latest_revision k n w = Some r"
    and "live_version k n w = rv_version r"
    and "sq_reason req1 \<noteq> None \<and> sq_based_on req1 = Some (rv_version r)"
    and "sq_reason req2 \<noteq> None \<and> sq_based_on req2 = Some (rv_version r)"
  shows "\<exists>w1 w3 q1 q2. commit N k n d1 req1 (UpdateOwner id) w = (Inr (rv_version r + 1), w1) \<and>
    commit N k n d2 req2 (UpdateOwner id) (refreshed N k n x live (rv_version r) w1) = (Inr (rv_version r + 2), w3) \<and>
    history k n w3 = history k n w @ [q1, q2] \<and> rv_definition q1 = canonical (re_serde N) d1 \<and>
    rv_definition q2 = canonical (re_serde N) d2 \<and> rv_based_on q2 = Some (rv_version r)"
proof -
  have r: "rv_version r = int (length (history k n w))"
    using assms(1,3) chain_version[of "re_hash N" "history k n w" "length (history k n w) - 1"]
    by (auto simp: latest_revision_history chains_ok_def last_conv_nth split: if_splits)
  obtain w1 q1 y where one: "commit N k n d1 req1 (UpdateOwner id) w = (Inr (rv_version r + 1), w1)" "chains_ok (re_hash N) w1"
      "history k n w1 = history k n w @ [q1]" "rv_definition q1 = canonical (re_serde N) d1" "find_owner k n w1 = Some y"
    using commit_over_owner[OF assms(1,2), of req1 d1] assms(4,5) r by auto
  let ?w2 = "refreshed N k n x live (rv_version r) w1"
  have h: "history k' n' (refreshed N k n x live v w1) = history k' n' w1" for k' n' v by (simp add: refreshed_def Let_def)
  obtain z where z: "find_owner k n ?w2 = Some z" "ow_revision z = Some (rv_version r)"
    using one(5) by (simp add: refreshed_def Let_def find_owner_set_owner)
  have "chains_ok (re_hash N) ?w2" using one(2) by (simp add: chains_ok_def h)
  moreover have "live_version k n ?w2 = rv_version r" by (simp add: live_version_def z or_default_def)
  ultimately obtain w3 q2 where "commit N k n d2 req2 (UpdateOwner id) ?w2 = (Inr (int (length (history k n ?w2)) + 1), w3)"
      "history k n w3 = history k n ?w2 @ [q2]" "rv_definition q2 = canonical (re_serde N) d2" "rv_based_on q2 = sq_based_on req2"
    using commit_over_owner[of N ?w2 k n z req2 d2] z(1) assms(6) by auto
  then show ?thesis using one assms(6) r by (auto simp: h)
qed

theorem put_back_lets_a_stale_save_land_witness:
  fixes x w req
  defines "x \<equiv> sample_owner\<lparr>ow_revision := Some 1, ow_live_hash := Some ''ba''\<rparr>"
    and "w \<equiv> snd (append_revision rev a_save 0 None sample_rev_world)"
    and "req \<equiv> \<lparr>sq_reason = Some ''why'', sq_based_on = Some 1, sq_reverts = None\<rparr>"
  shows "\<exists>w1 w3. commit sample_rev_env RProgram ''nia'' JNull req (UpdateOwner id) w = (Inr 2, w1) \<and>
    commit sample_rev_env RProgram ''nia'' (JBool True) req (UpdateOwner id)
      (refreshed sample_rev_env RProgram ''nia'' x ''ab'' 1 w1) = (Inr 3, w3)"
proof -
  have ok: "chains_ok rev sample_rev_world" and x0: "find_owner RProgram ''nia'' sample_rev_world = Some sample_owner"
    by (simp_all add: chains_ok_def chain_problems_def history_def sample_rev_world_def find_owner_def sample_owner_def is_owner_def)
  have w: "w = sample_rev_world\<lparr>rw_owners := [sample_owner\<lparr>ow_revision := Some 1, ow_live_hash := Some ''ba''\<rparr>],
      rw_revisions := [pending_revision rev (read_latest a_save 0 None sample_rev_world)]\<rparr>"
    by (simp add: w_def append_revision_def land_def read_latest_def latest_revision_history history_def a_save_def sample_rev_world_def
        sample_owner_def is_owner_def or_default_def pending_revision_def update_where_def Let_def)
  have "chains_ok rev w"
    using append_lands[of a_save sample_rev_world sample_owner rev None] x0 ok
    by (auto simp: w_def a_save_def sample_owner_def or_default_def)
  moreover have "find_owner RProgram ''nia'' w = Some (sample_owner\<lparr>ow_revision := Some 1, ow_live_hash := Some ''ba''\<rparr>)"
    by (simp add: w find_owner_def sample_owner_def is_owner_def)
  moreover have "latest_revision RProgram ''nia'' w = Some (pending_revision rev (read_latest a_save 0 None sample_rev_world))"
    by (simp add: w latest_revision_history history_def sample_rev_world_def pending_revision_def read_latest_def a_save_def
        kind_str_def Let_def)
  moreover have "rv_version (pending_revision rev (read_latest a_save 0 None sample_rev_world)) = 1"
    by (simp add: latest_revision_history history_def sample_rev_world_def pending_revision_def read_latest_def Let_def)
  moreover have "live_version RProgram ''nia'' w = 1"
    by (simp add: w live_version_def find_owner_def sample_owner_def is_owner_def or_default_def)
  ultimately show ?thesis
    using put_back_lets_a_stale_save_land[of sample_rev_env w RProgram "''nia''"
        "sample_owner\<lparr>ow_revision := Some 1, ow_live_hash := Some ''ba''\<rparr>"
        "pending_revision rev (read_latest a_save 0 None sample_rev_world)" req req JNull "JBool True" "''ab''"]
    by (auto simp: req_def sample_rev_env_def x_def)
qed

end
