(* ===== verification/Programs.thy ===== *)
theory Programs
  imports Revisions Workflows
begin

text \<open>
  Programs (\<open>crates/work/src/programs.rs\<close>): what a program is and the checks it passes, how its status reaches its
  workflows, and the operations that write one: the seed from the bundles' files, a save, a delete, a reset. Names of
  programs are unique (nodes are merged by name), so that the order of a hash map is the order of the list.

  Parameters: the bundles' JSON schema, YAML, serde's error texts, sha-256 and the JSON text of a value. A query the
  graph refuses ends an operation before its later writes; those ends are left out, and so are the views
  (\<open>tree\<close>, \<open>detail\<close>, the scorecard and the reviews).
\<close>

subsection \<open>A program\<close>

definition program_kinds :: "string list" where
  "program_kinds = [''department'', ''project'', ''investigation'', ''case'', ''services'']"

definition program_statuses :: "string list" where
  "program_statuses = [''active'', ''paused'', ''closed'']"

definition program_pause :: string where
  "program_pause = ''PROGRAM_PAUSE''"

definition reserved_names :: "string list" where
  "reserved_names = [''new'', ''schema'', ''check'', ''scorecard'', ''agents'']"

definition question_kinds :: "string list" where
  "question_kinds = [''investigation'', ''case'']"

definition text_max :: nat where
  "text_max = 1500"

record program_def =
  pg_name :: string
  pg_label :: string
  pg_kind :: string
  pg_parent :: "string option"
  pg_status :: string
  pg_charter :: string
  pg_success :: string
  pg_topics :: "string list"
  pg_workflows :: "string list"
  pg_keep_running :: "string list"
  pg_agents :: "string list"
  pg_apis :: "string list"
  pg_review :: "string option"  \<comment> \<open>its \<open>every\<close>\<close>
  pg_budget :: "rfloat option"  \<comment> \<open>its \<open>monthly_usd\<close>\<close>
  pg_finding :: "string option"

definition program_label :: "program_def \<Rightarrow> string" where
  "program_label p = (if trim (pg_label p) = [] then pg_name p else pg_label p)"

text \<open>The derived \<open>Deserialize\<close>: fields with a default may be missing, \<open>null\<close> is the \<open>None\<close> of an optional field,
  and a field nobody knows is an error. A structure may be an array of its fields in their order.\<close>

definition program_fields :: "string list" where
  "program_fields =
     [''name'', ''label'', ''kind'', ''parent'', ''status'', ''charter'', ''success'', ''topics'', ''workflows'',
      ''keep_running'', ''agents'', ''apis'', ''review'', ''budget'', ''finding'']"

definition read_texts :: "json \<Rightarrow> string list option" where
  "read_texts v = Option.bind (as_array v) text_list"

definition read_one :: "string \<Rightarrow> (json \<Rightarrow> 'a option) \<Rightarrow> json \<Rightarrow> 'a option" where
  "read_one k p v = (case v of JObj [(k', x)] \<Rightarrow> if k' = k then p x else None | JArr [x] \<Rightarrow> p x | _ \<Rightarrow> None)"

definition read_must :: "json_map \<Rightarrow> string \<Rightarrow> (json \<Rightarrow> 'a option) \<Rightarrow> 'a option" where
  "read_must m k p = Option.bind (map_of m k) p"

definition program_of_map :: "json_map \<Rightarrow> program_def option" where
  "program_of_map m =
     (if \<not> list_all (\<lambda>(k, _). k \<in> set program_fields) m then None else
      Option.bind (read_must m ''name'' as_str) (\<lambda>n.
      Option.bind (read_field m ''label'' as_str []) (\<lambda>label.
      Option.bind (read_must m ''kind'' as_str) (\<lambda>kind.
      Option.bind (read_field m ''parent'' (read_opt as_str) None) (\<lambda>parent.
      Option.bind (read_field m ''status'' as_str ''active'') (\<lambda>status.
      Option.bind (read_field m ''charter'' as_str []) (\<lambda>charter.
      Option.bind (read_field m ''success'' as_str []) (\<lambda>success.
      Option.bind (read_field m ''topics'' read_texts []) (\<lambda>topics.
      Option.bind (read_field m ''workflows'' read_texts []) (\<lambda>workflows.
      Option.bind (read_field m ''keep_running'' read_texts []) (\<lambda>keep.
      Option.bind (read_field m ''agents'' read_texts []) (\<lambda>agents.
      Option.bind (read_field m ''apis'' read_texts []) (\<lambda>apis.
      Option.bind (read_field m ''review'' (read_opt (read_one ''every'' as_str)) None) (\<lambda>review.
      Option.bind (read_field m ''budget'' (read_opt (read_one ''monthly_usd'' (map_option Num \<circ> as_f64))) None) (\<lambda>budget.
      Option.bind (read_field m ''finding'' (read_opt as_str) None) (\<lambda>finding.
        Some \<lparr>pg_name = n, pg_label = label, pg_kind = kind, pg_parent = parent, pg_status = status, pg_charter = charter,
          pg_success = success, pg_topics = topics, pg_workflows = workflows, pg_keep_running = keep, pg_agents = agents,
          pg_apis = apis, pg_review = review, pg_budget = budget, pg_finding = finding\<rparr>))))))))))))))))"

definition program_of_json :: "json \<Rightarrow> program_def option" where
  "program_of_json v =
     (case v of
        JObj m \<Rightarrow> program_of_map m
      | JArr vs \<Rightarrow> if length vs \<le> length program_fields then program_of_map (zip program_fields vs) else None
      | _ \<Rightarrow> None)"

text \<open>The derived \<open>Serialize\<close>, as text in the order of the fields and as a value in the order of its map: empty
  texts, empty lists and absent fields are left out. A number that is not finite is \<open>null\<close>.\<close>

definition json_float :: "rfloat \<Rightarrow> json" where
  "json_float x = (case x of Num q \<Rightarrow> JFloat q | _ \<Rightarrow> JNull)"

definition text_field :: "string \<Rightarrow> string \<Rightarrow> json_map" where
  "text_field k s = (if s = [] then [] else [(k, JStr s)])"

definition texts_field :: "string \<Rightarrow> string list \<Rightarrow> json_map" where
  "texts_field k ss = (if ss = [] then [] else [(k, JArr (map JStr ss))])"

definition opt_field :: "string \<Rightarrow> ('a \<Rightarrow> json) \<Rightarrow> 'a option \<Rightarrow> json_map" where
  "opt_field k f x = (case x of None \<Rightarrow> [] | Some a \<Rightarrow> [(k, f a)])"

definition fields_of_program :: "program_def \<Rightarrow> json_map" where
  "fields_of_program p =
     [(''name'', JStr (pg_name p))] @ text_field ''label'' (pg_label p) @ [(''kind'', JStr (pg_kind p))] @
     opt_field ''parent'' JStr (pg_parent p) @ [(''status'', JStr (pg_status p))] @ text_field ''charter'' (pg_charter p) @
     text_field ''success'' (pg_success p) @ texts_field ''topics'' (pg_topics p) @
     texts_field ''workflows'' (pg_workflows p) @ texts_field ''keep_running'' (pg_keep_running p) @
     texts_field ''agents'' (pg_agents p) @ texts_field ''apis'' (pg_apis p) @
     opt_field ''review'' (\<lambda>e. JObj [(''every'', JStr e)]) (pg_review p) @
     opt_field ''budget'' (\<lambda>x. JObj [(''monthly_usd'', json_float x)]) (pg_budget p) @
     opt_field ''finding'' JStr (pg_finding p)"

definition map_of_program :: "program_def \<Rightarrow> json_map" where
  "map_of_program p = foldl (\<lambda>m (k, v). map_insert k v m) [] (fields_of_program p)"

text \<open>What a revision records.\<close>

definition definition_of :: "program_def \<Rightarrow> json" where
  "definition_of p = JObj (filter (\<lambda>(k, _). k \<noteq> ''status'' \<and> k \<noteq> ''finding'') (map_of_program p))"

subsection \<open>A period\<close>

text \<open>\<open>parse_every\<close> of \<open>workflow_seeder.rs\<close>. The product of a release build wraps around.\<close>

definition wrap_i64 :: "int \<Rightarrow> int" where
  "wrap_i64 i = (let r = i mod 2 ^ 64 in if r < 2 ^ 63 then r else r - 2 ^ 64)"

definition every_unit :: "string \<Rightarrow> int option" where
  "every_unit u =
     (if u = ''s'' then Some 1 else if u = ''m'' then Some 60 else if u = ''h'' then Some 3600
      else if u = ''d'' then Some 86400 else if u = ''w'' then Some 604800 else None)"

definition parse_every :: "string \<Rightarrow> string + int" where
  "parse_every text =
     (let s = trim text; num = takeWhile is_digit s; u = trim (dropWhile is_digit s);
          every = [CHR 0x60] @ ''every: '' @ s @ [CHR 0x60]
      in case parse_unsigned (2 ^ 63 - 1) num of
           None \<Rightarrow> Inl (every @ '' must be a number and a unit, e.g. 6h or 1d'')
         | Some n \<Rightarrow>
             (case every_unit u of
                None \<Rightarrow> Inl (every @ '': unknown unit '' @ quoted u @ '' (use s, m, h, d or w)'')
              | Some k \<Rightarrow>
                  let secs = wrap_i64 (int n * k)
                  in if secs < 60 then Inl (every @ '' is under a minute'') else Inr secs))"

subsection \<open>The checks\<close>

record inventory =
  iv_workflows :: "string list"
  iv_topics :: "string list"
  iv_agents :: "string list"
  iv_apis :: "string list"
  iv_programs :: "program_def list"

definition comma_list :: "string list \<Rightarrow> string" where
  "comma_list = join_with '', ''"

definition sorted_names :: "string list \<Rightarrow> string list" where
  "sorted_names xs = sort (remdups xs)"

definition program_named :: "program_def list \<Rightarrow> string \<Rightarrow> program_def option" where
  "program_named ps n = find (\<lambda>p. pg_name p = n) (rev ps)"

definition arrow :: string where
  "arrow = '' '' @ [CHR 0xE2, CHR 0x86, CHR 0x92] @ '' ''"

text \<open>The walk up the parents: the chain where it comes round to the program or to itself.\<close>

definition parent_of :: "program_def list \<Rightarrow> string \<Rightarrow> string option" where
  "parent_of ps n = Option.bind (program_named ps n) pg_parent"

lemma parent_of_set: "parent_of ps n = Some q \<Longrightarrow> Some q \<in> pg_parent ` set ps"
  by (auto simp: parent_of_def program_named_def find_Some_iff split: Option.bind_splits)
    (metis nth_mem image_eqI length_rev set_rev)

function parent_loop :: "program_def list \<Rightarrow> string \<Rightarrow> string list \<Rightarrow> string \<Rightarrow> string list option" where
  "parent_loop others n chain cur =
     (case parent_of others cur of
        None \<Rightarrow> None
      | Some q \<Rightarrow> if q = n \<or> q \<in> set chain then Some (chain @ [q]) else parent_loop others n (chain @ [q]) q)"
  by pat_completeness auto
termination
proof (relation "measure (\<lambda>(others, n, chain, cur). card ((pg_parent ` set others) - Some ` set chain))", goal_cases)
  case (2 others n chain cur q)
  then have "pg_parent ` set others - Some ` set (chain @ [q]) \<subset> pg_parent ` set others - Some ` set chain"
    using parent_of_set by fastforce
  then show ?case by (simp add: psubset_card_mono)
qed simp

declare parent_loop.simps [simp del]

definition parent_problems :: "program_def \<Rightarrow> program_def list \<Rightarrow> string list" where
  "parent_problems d others =
     (case pg_parent d of
        None \<Rightarrow> []
      | Some parent \<Rightarrow>
          if parent = [] then []
          else if parent = pg_name d then [''a program cannot be its own parent'']
          else if program_named others parent = None
          then [''parent '' @ quoted parent @ '' is not a program (programs: '' @
                comma_list (sorted_names (map pg_name others)) @ '')'']
          else (case parent_loop others (pg_name d) [pg_name d, parent] parent of
                  None \<Rightarrow> []
                | Some chain \<Rightarrow> [''the parent chain loops: '' @ join_with arrow chain]))"

definition claimed_by :: "program_def list \<Rightarrow> string \<Rightarrow> string option" where
  "claimed_by others w = map_option pg_name (find (\<lambda>p. w \<in> set (pg_workflows p)) (rev others))"

fun workflow_problems :: "inventory \<Rightarrow> program_def list \<Rightarrow> string list \<Rightarrow> string list \<Rightarrow> string list" where
  "workflow_problems I others seen [] = []"
| "workflow_problems I others seen (w # ws) =
     (if w \<in> set seen then [''workflow '' @ quoted w @ '' is listed twice'']
      else if w \<notin> set (iv_workflows I) then [''workflow '' @ quoted w @ '' does not exist'']
      else (case claimed_by others w of
              Some owner \<Rightarrow> [''workflow '' @ quoted w @ '' belongs to program '' @ quoted owner @
                  '' (a workflow has one program: take it out of '' @ quoted owner @ '' first)'']
            | None \<Rightarrow> [])) @
     workflow_problems I others (w # seen) ws"

definition free_workflows :: "program_def \<Rightarrow> inventory \<Rightarrow> program_def list \<Rightarrow> string list" where
  "free_workflows d I others =
     (if list_all (\<lambda>w. w \<in> set (iv_workflows I)) (pg_workflows d) then []
      else [''workflows in no program: '' @ comma_list (sorted_names
              (filter (\<lambda>w. claimed_by others w = None \<and> w \<notin> set (pg_workflows d)) (iv_workflows I)))])"

definition missing_names :: "string \<Rightarrow> string list \<Rightarrow> string list \<Rightarrow> string list" where
  "missing_names what names known =
     (let missing = filter (\<lambda>n. n \<notin> set known) names
      in if missing = [] then []
         else [''no '' @ what @ '' named '' @ comma_list (map quoted missing) @ '' (known: '' @
               comma_list (sorted_names known) @ '')''])"

definition finite_amount :: "rfloat \<Rightarrow> bool" where
  "finite_amount x = (case x of Num q \<Rightarrow> 0 \<le> q | _ \<Rightarrow> False)"

definition hard_problems :: "program_def \<Rightarrow> inventory \<Rightarrow> program_def list \<Rightarrow> string list" where
  "hard_problems d I others =
     (if is_slug (pg_name d) \<and> length (pg_name d) \<le> 64 then []
      else [''name '' @ quoted (pg_name d) @
            '' must be a slug of at most 64 characters: lowercase letters, digits and dashes'']) @
     (if pg_name d \<in> set reserved_names
      then [quoted (pg_name d) @ '' is reserved ('' @ comma_list reserved_names @ ''); pick another name''] else []) @
     (if pg_kind d \<notin> set program_kinds
      then [''kind '' @ quoted (pg_kind d) @ '' is not one of '' @ comma_list program_kinds] else []) @
     (if pg_status d \<notin> set program_statuses
      then [''status '' @ quoted (pg_status d) @ '' is not one of '' @ comma_list program_statuses] else []) @
     concat (map (\<lambda>(field, t). if text_max < char_count t
       then [field @ '' is '' @ show_nat (char_count t) @ '' characters; keep it under '' @ show_nat text_max] else [])
       [(''label'', pg_label d), (''charter'', pg_charter d), (''success'', pg_success d),
        (''finding'', or_empty (pg_finding d))]) @
     parent_problems d others @
     workflow_problems I others [] (pg_workflows d) @
     free_workflows d I others @
     concat (map (\<lambda>w. if w \<notin> set (pg_workflows d)
       then [''keep_running names '' @ quoted w @ '', which is not one of this program's workflows''] else [])
       (pg_keep_running d)) @
     missing_names ''topic'' (pg_topics d) (iv_topics I) @
     missing_names ''agent'' (pg_agents d) (iv_agents I) @
     missing_names ''API'' (pg_apis d) (iv_apis I) @
     (case Option.bind (pg_review d) (\<lambda>e. case parse_every e of Inl why \<Rightarrow> Some why | Inr _ \<Rightarrow> None) of
        Some why \<Rightarrow> [''review.every: '' @ why] | None \<Rightarrow> []) @
     (if case pg_budget d of Some b \<Rightarrow> \<not> finite_amount b | None \<Rightarrow> False
      then [''budget.monthly_usd must be a number of dollars, 0 or more''] else []) @
     (if pg_status d = ''closed'' \<and> pg_kind d \<in> set question_kinds \<and> trim (or_empty (pg_finding d)) = []
      then [''closing an '' @ pg_kind d @ '' needs a `finding`: what it found, in a few sentences''] else [])"

definition soft_warnings :: "program_def \<Rightarrow> program_def list \<Rightarrow> string list" where
  "soft_warnings d others =
     (if pg_workflows d = [] \<and> \<not> list_ex (\<lambda>p. pg_parent p = Some (pg_name d)) others
      then [quoted (pg_name d) @ '' has no workflows and no programs under it''] else []) @
     (if pg_status d \<noteq> ''active'' \<and> pg_keep_running d \<noteq> []
      then [quoted (pg_name d) @ '' is '' @ pg_status d @ '' but keeps running: '' @ comma_list (pg_keep_running d)] else [])"

definition check_program :: "program_def \<Rightarrow> inventory \<Rightarrow> string + string list" where
  "check_program d I =
     (let others = filter (\<lambda>p. pg_name p \<noteq> pg_name d) (iv_programs I); hard = hard_problems d I others
      in if hard \<noteq> [] then Inl (join_with ''; '' hard) else Inr (soft_warnings d others))"

definition prune_list :: "string \<Rightarrow> string list \<Rightarrow> string list \<Rightarrow> string list \<times> string list" where
  "prune_list what names known =
     (filter (\<lambda>n. n \<in> set known) names, map (\<lambda>n. what @ '' '' @ quoted n) (filter (\<lambda>n. n \<notin> set known) names))"

definition prune_unknown :: "program_def \<Rightarrow> inventory \<Rightarrow> program_def \<times> string list" where
  "prune_unknown d I =
     (let (ws, d1) = prune_list ''workflow'' (pg_workflows d) (iv_workflows I);
          (ts, d2) = prune_list ''topic'' (pg_topics d) (iv_topics I);
          (as, d3) = prune_list ''agent'' (pg_agents d) (iv_agents I);
          (bs, d4) = prune_list ''API'' (pg_apis d) (iv_apis I)
      in (d\<lparr>pg_workflows := ws, pg_topics := ts, pg_agents := as, pg_apis := bs,
            pg_keep_running := filter (\<lambda>w. w \<in> set ws) (pg_keep_running d)\<rparr>, d1 @ d2 @ d3 @ d4))"

subsection \<open>The effect of a status on workflows\<close>

record workflow_state =
  ws_name :: string
  ws_enabled :: bool
  ws_paused_reason :: "string option"

datatype change = Pause string string | Resume string | Retag string string

definition describe_change :: "change \<Rightarrow> string" where
  "describe_change c =
     (case c of
        Pause w why \<Rightarrow> w @ '': paused ('' @ why @ '')''
      | Retag w why \<Rightarrow> w @ '': paused ('' @ why @ '')''
      | Resume w \<Rightarrow> w @ '': resumed'')"

definition is_program_pause :: "string option \<Rightarrow> bool" where
  "is_program_pause why = (case why of Some r \<Rightarrow> starts_with r program_pause | None \<Rightarrow> False)"

text \<open>The program itself or the nearest one above it that is not active.\<close>

lemma program_named_name: "program_named ps n = Some p \<Longrightarrow> pg_name p = n \<and> p \<in> set ps"
  by (auto simp: program_named_def find_Some_iff) (metis nth_mem length_rev set_rev)

function blocker :: "program_def list \<Rightarrow> string list \<Rightarrow> string \<Rightarrow> program_def option" where
  "blocker ps seen n =
     (case program_named ps n of
        None \<Rightarrow> None
      | Some p \<Rightarrow>
          if n \<in> set seen then None
          else if pg_status p \<noteq> ''active'' then Some p
          else (case pg_parent p of None \<Rightarrow> None | Some q \<Rightarrow> blocker ps (n # seen) q))"
  by pat_completeness auto
termination
proof (relation "measure (\<lambda>(ps, seen, n). card (pg_name ` set ps - set seen))", goal_cases)
  case (2 ps seen n p q)
  then have "pg_name ` set ps - set (n # seen) \<subset> pg_name ` set ps - set seen"
    by (auto dest!: program_named_name)
  then show ?case by (simp add: psubset_card_mono)
qed simp

declare blocker.simps [simp del]

definition owner_of :: "program_def list \<Rightarrow> string \<Rightarrow> program_def option" where
  "owner_of ps w = find (\<lambda>p. w \<in> set (pg_workflows p)) (rev ps)"

definition held_by :: "program_def list \<Rightarrow> string \<Rightarrow> program_def option" where
  "held_by ps w =
     Option.bind (owner_of ps w) (\<lambda>p. if w \<in> set (pg_keep_running p) then None else blocker ps [] (pg_name p))"

definition pause_reason :: "program_def \<Rightarrow> string" where
  "pause_reason b = program_pause @ '': program '' @ quoted (pg_name b) @ '' is '' @ pg_status b"

definition planned_change :: "program_def list \<Rightarrow> workflow_state \<Rightarrow> change list" where
  "planned_change ps w =
     (let ours = is_program_pause (ws_paused_reason w)
      in case held_by ps (ws_name w) of
           Some b \<Rightarrow>
             if ws_enabled w then [Pause (ws_name w) (pause_reason b)]
             else if ours \<and> ws_paused_reason w \<noteq> Some (pause_reason b) then [Retag (ws_name w) (pause_reason b)]
             else []
         | None \<Rightarrow> if \<not> ws_enabled w \<and> ours then [Resume (ws_name w)] else [])"

definition plan_reconcile :: "program_def list \<Rightarrow> workflow_state list \<Rightarrow> change list" where
  "plan_reconcile ps ws = concat (map (planned_change ps) ws)"

subsection \<open>Storage\<close>

text \<open>A program node, beside what its revisions use. The lists of names, the label, the kind and the budget are
  copies for the views.\<close>

record program_node = owner +
  pn_definition :: string
  pn_status :: "string option"
  pn_finding :: "string option"
  pn_label :: string
  pn_kind :: string
  pn_parent :: "string option"
  pn_workflows :: "string list"
  pn_topics :: "string list"
  pn_agents :: "string list"
  pn_apis :: "string list"
  pn_budget :: "rfloat option"
  pn_plugin :: "string option"
  pn_source :: "string option"
  pn_created_at :: int
  pn_status_changed_at :: int
  pn_updated_at :: int

record workflow_node =
  wn_name :: string
  wn_enabled :: "bool option"
  wn_paused_reason :: "string option"
  wn_paused_at :: "int option"
  wn_updated_at :: "int option"

text \<open>\<open>pw_under\<close> and \<open>pw_owns\<close> are the derived edges.\<close>

record program_world =
  pw_rev :: "unit program_node_ext rev_world"
  pw_workflows :: "workflow_node list"
  pw_retired :: "(string \<times> int) list"
  pw_agents :: "string list"
  pw_apis :: "string list"
  pw_under :: "(string \<times> string) list"
  pw_owns :: "(string \<times> string) list"

record program_env =
  pe_rev :: rev_env
  pe_schema :: "json \<Rightarrow> string option"  \<comment> \<open>what the bundles' schema says against it\<close>
  pe_yaml :: "string \<Rightarrow> string + json"
  pe_why :: "json \<Rightarrow> string"
  pe_topics :: "string list"
  pe_purpose :: "purpose option"
  pe_now :: int

definition pe_text :: "program_env \<Rightarrow> serde" where
  "pe_text N = re_serde (pe_rev N)"

record stored =
  st_def :: program_def
  st_managed_by :: string
  st_plugin :: "string option"
  st_source :: "string option"
  st_status_changed_at :: int
  st_updated_at :: int

text \<open>The status and the finding are the graph's.\<close>

definition stored_of :: "serde \<Rightarrow> program_node \<Rightarrow> stored option" where
  "stored_of S x =
     map_option (\<lambda>d. \<lparr>st_def = d\<lparr>pg_status := (case pn_status x of Some s \<Rightarrow> s | None \<Rightarrow> pg_status d),
                           pg_finding := Option.bind (pn_finding x) opt_nonempty\<rparr>,
          st_managed_by = managed_by x, st_plugin = Option.bind (pn_plugin x) opt_nonempty,
          st_source = Option.bind (pn_source x) opt_nonempty,
          st_status_changed_at = pn_status_changed_at x, st_updated_at = pn_updated_at x\<rparr>)
       (Option.bind (from_str S (pn_definition x)) program_of_json)"

definition program_nodes :: "program_world \<Rightarrow> program_node list" where
  "program_nodes W = sort_key ow_name (filter (\<lambda>x. ow_kind x = RProgram) (rw_owners (pw_rev W)))"

definition load_all :: "program_env \<Rightarrow> program_world \<Rightarrow> stored list" where
  "load_all N W = List.map_filter (stored_of (pe_text N)) (program_nodes W)"

definition stored_programs :: "program_env \<Rightarrow> program_world \<Rightarrow> program_def list" where
  "stored_programs N W = map st_def (load_all N W)"

definition find_stored :: "program_env \<Rightarrow> string \<Rightarrow> program_world \<Rightarrow> stored option" where
  "find_stored N n W = find (\<lambda>s. pg_name (st_def s) = n) (load_all N W)"

text \<open>The query that writes a program, over the nodes: \<open>status_owned\<close> sets the status and the finding, which are
  otherwise set only on a new node.\<close>

definition new_node :: "int \<Rightarrow> program_def \<Rightarrow> program_node" where
  "new_node now d =
     \<lparr>ow_kind = RProgram, ow_name = pg_name d, ow_managed_by = None, ow_revision = None, ow_live_hash = None,
      ow_drift = None, ow_seed_definition = None, ow_seed_hash = None, ow_seed_source = None, ow_problem = None,
      pn_definition = [], pn_status = Some (pg_status d), pn_finding = pg_finding d, pn_label = [], pn_kind = [],
      pn_parent = None, pn_workflows = [], pn_topics = [], pn_agents = [], pn_apis = [], pn_budget = None,
      pn_plugin = None, pn_source = None, pn_created_at = now, pn_status_changed_at = now, pn_updated_at = now\<rparr>"

definition set_status :: "int \<Rightarrow> program_def \<Rightarrow> program_node \<Rightarrow> program_node" where
  "set_status now d x =
     x\<lparr>pn_status_changed_at := (if or_empty (pn_status x) \<noteq> pg_status d then now else pn_status_changed_at x),
       pn_status := Some (pg_status d), pn_finding := pg_finding d\<rparr>"

definition set_program ::
  "program_env \<Rightarrow> program_def \<Rightarrow> string \<Rightarrow> string option \<Rightarrow> string option \<Rightarrow> bool \<Rightarrow> program_node \<Rightarrow> program_node" where
  "set_program N d by_whom plugin source status_owned x =
     (if status_owned then set_status (pe_now N) d x else x)
       \<lparr>pn_definition := to_str (pe_text N) (JObj (fields_of_program d)), pn_label := program_label d, pn_kind := pg_kind d,
        pn_parent := pg_parent d, pn_workflows := pg_workflows d, pn_topics := pg_topics d, ow_managed_by := Some by_whom,
        pn_budget := pg_budget d, pn_agents := pg_agents d, pn_apis := pg_apis d, pn_plugin := plugin,
        pn_source := source, pn_updated_at := pe_now N\<rparr>"

definition write_query ::
  "program_env \<Rightarrow> program_def \<Rightarrow> string \<Rightarrow> string option \<Rightarrow> string option \<Rightarrow> bool \<Rightarrow> program_node list \<Rightarrow> program_node list" where
  "write_query N d by_whom plugin source status_owned xs =
     update_where (is_owner RProgram (pg_name d)) (set_program N d by_whom plugin source status_owned)
       (if list_ex (is_owner RProgram (pg_name d)) xs then xs else xs @ [new_node (pe_now N) d])"

definition write_program ::
  "program_env \<Rightarrow> program_def \<Rightarrow> string \<Rightarrow> string option \<Rightarrow> string option \<Rightarrow> bool \<Rightarrow> program_world \<Rightarrow> program_world" where
  "write_program N d by_whom plugin source status_owned W =
     W\<lparr>pw_rev := (pw_rev W)\<lparr>rw_owners := write_query N d by_whom plugin source status_owned (rw_owners (pw_rev W))\<rparr>\<rparr>"

definition relink :: "program_world \<Rightarrow> program_world" where
  "relink W =
     (let xs = filter (\<lambda>x. ow_kind x = RProgram) (rw_owners (pw_rev W)); names = map ow_name xs
      in W\<lparr>pw_under := remdups (List.map_filter (\<lambda>x. Option.bind (pn_parent x)
               (\<lambda>p. if p \<in> set names then Some (ow_name x, p) else None)) xs),
           pw_owns := remdups (concat (map (\<lambda>x. map (Pair (ow_name x))
               (filter (\<lambda>w. w \<in> set (map wn_name (pw_workflows W))) (pn_workflows x))) xs))\<rparr>)"

definition program_inventory :: "program_env \<Rightarrow> program_world \<Rightarrow> inventory" where
  "program_inventory N W =
     \<lparr>iv_workflows = map wn_name (pw_workflows W), iv_topics = pe_topics N, iv_agents = pw_agents W, iv_apis = pw_apis W,
      iv_programs = stored_programs N W\<rparr>"

definition workflow_states :: "workflow_node list \<Rightarrow> workflow_state list" where
  "workflow_states xs =
     map (\<lambda>x. \<lparr>ws_name = wn_name x, ws_enabled = or_default True (wn_enabled x),
               ws_paused_reason = Option.bind (wn_paused_reason x) opt_nonempty\<rparr>) (sort_key wn_name xs)"

definition apply_change :: "int \<Rightarrow> workflow_node list \<Rightarrow> change \<Rightarrow> workflow_node list" where
  "apply_change now xs c =
     (case c of
        Pause w why \<Rightarrow> update_where (\<lambda>x. wn_name x = w) (\<lambda>x. x\<lparr>wn_enabled := Some False, wn_paused_reason := Some why,
           wn_paused_at := Some now, wn_updated_at := Some now\<rparr>) xs
      | Retag w why \<Rightarrow> update_where (\<lambda>x. wn_name x = w) (\<lambda>x. x\<lparr>wn_paused_reason := Some why\<rparr>) xs
      | Resume w \<Rightarrow> update_where (\<lambda>x. wn_name x = w) (\<lambda>x. x\<lparr>wn_enabled := Some True, wn_paused_reason := None,
           wn_paused_at := None, wn_updated_at := Some now\<rparr>) xs)"

definition reconcile_workflows :: "program_env \<Rightarrow> program_world \<Rightarrow> change list \<times> program_world" where
  "reconcile_workflows N W =
     (let changes = plan_reconcile (stored_programs N W) (workflow_states (pw_workflows W))
      in (changes, W\<lparr>pw_workflows := foldl (apply_change (pe_now N)) (pw_workflows W) changes\<rparr>))"

subsection \<open>Saving\<close>

datatype save_error = SInvalid string | SNotFound string | SRefused refused

record saved =
  sv_program :: program_def
  sv_created :: bool
  sv_managed_by :: string
  sv_warnings :: "string list"
  sv_changes :: "string list"

definition autonomous :: "purpose option \<Rightarrow> bool" where
  "autonomous p \<longleftrightarrow> p = Some PBackground \<or> p = Some PSubagent"

definition check_status_change :: "string \<Rightarrow> string option \<Rightarrow> string \<Rightarrow> bool \<Rightarrow> string + unit" where
  "check_status_change kind from_status to_status auto =
     (if \<not> auto \<or> from_status = Some to_status then Inr ()
      else if from_status = Some ''closed''
      then Inl (''a closed program is reopened by the owner: propose it as a todo '' @
                ''(manage_todo) with the reason, instead'')
      else if to_status = ''closed'' \<and> kind \<notin> set question_kinds
      then Inl (''the brain closes only an investigation or case it has answered; closing a '' @ kind @
                '' is the owner's decision: propose it as a todo'')
      else Inr ())"

definition schema_problems :: "program_env \<Rightarrow> json \<Rightarrow> string + unit" where
  "schema_problems N v =
     (case pe_schema N v of None \<Rightarrow> Inr ()
      | Some why \<Rightarrow> Inl (''it does not fit the program schema (schemas/program.json): '' @ why))"

record prepared =
  pr_def :: program_def
  pr_current :: "stored option"
  pr_managed_by :: string
  pr_warnings :: "string list"

definition request_name :: "json \<Rightarrow> string option" where
  "request_name body = Option.bind (Option.bind (json_get body ''name'') as_str) (\<lambda>s. opt_nonempty (trim s))"

text \<open>The body laid over the stored program.\<close>

definition map_remove :: "string \<Rightarrow> json_map \<Rightarrow> json_map" where
  "map_remove k m = filter (\<lambda>(k', _). k' \<noteq> k) m"

definition lay_over :: "json_map \<Rightarrow> string \<times> json \<Rightarrow> json_map" where
  "lay_over m kv =
     (if fst kv \<in> {''action'', ''managed_by'', ''reason'', ''based_on'', ''reverts'', ''version''} then m
      else if snd kv = JNull then map_remove (fst kv) m else map_insert (fst kv) (snd kv) m)"

definition candidate :: "stored option \<Rightarrow> json \<Rightarrow> json" where
  "candidate current body =
     (let base = (case current of None \<Rightarrow> [] | Some s \<Rightarrow> map_of_program (st_def s))
      in JObj (case body of JObj m \<Rightarrow> foldl lay_over base m | _ \<Rightarrow> base))"

definition status_only :: "program_def \<Rightarrow> stored option \<Rightarrow> bool" where
  "status_only d current =
     (case current of None \<Rightarrow> False
      | Some c \<Rightarrow> (st_def c)\<lparr>pg_status := pg_status d, pg_finding := pg_finding d\<rparr> = d)"

definition prepare :: "program_env \<Rightarrow> json \<Rightarrow> bool \<Rightarrow> program_world \<Rightarrow> save_error + prepared" where
  "prepare N body create_only W =
     (case request_name body of
        None \<Rightarrow> Inl (SInvalid ''`name` is required'')
      | Some n \<Rightarrow>
          let current = find_stored N n W
          in if current \<noteq> None \<and> create_only
             then Inl (SInvalid (''a program named '' @ quoted n @ '' already exists; pick another name or edit that one''))
             else let cand = candidate current body
          in (case schema_problems N cand of
                Inl why \<Rightarrow> Inl (SInvalid why)
              | Inr _ \<Rightarrow>
          (case program_of_json cand of
             None \<Rightarrow> Inl (SInvalid (pe_why N cand))
           | Some d \<Rightarrow>
               let I = program_inventory N W;
                   I1 = I\<lparr>iv_programs := filter (\<lambda>p. pg_name p \<noteq> pg_name d) (iv_programs I) @ [d]\<rparr>
               in (case check_program d I1 of
                     Inl why \<Rightarrow> Inl (SInvalid why)
                   | Inr soft \<Rightarrow>
               (case check_status_change (pg_kind d) (map_option (pg_status \<circ> st_def) current) (pg_status d)
                       (autonomous (pe_purpose N)) of
                  Inl why \<Rightarrow> Inl (SInvalid why)
                | Inr _ \<Rightarrow>
                    let edited = (case current of Some c \<Rightarrow> \<not> status_only d current \<and> st_managed_by c = ''yaml'' | None \<Rightarrow> False)
                    in Inr \<lparr>pr_def = d, pr_current = current,
                         pr_managed_by = (case current of
                             Some c \<Rightarrow> if status_only d current then st_managed_by c else ''runtime'' | None \<Rightarrow> ''runtime''),
                         pr_warnings = soft @ (if edited
                           then [quoted n @ '' is now runtime-owned: '' @
                                 (case Option.bind current st_source of Some f \<Rightarrow> f | None \<Rightarrow> ''its file'') @
                                 '' no longer applies to it. `reset` puts the file back.''] else [])\<rparr>)))))"

definition check_save :: "program_env \<Rightarrow> json \<Rightarrow> bool \<Rightarrow> program_world \<Rightarrow> save_error + string list" where
  "check_save N body create_only W =
     (case prepare N body create_only W of Inl e \<Rightarrow> Inl e | Inr p \<Rightarrow> Inr (pr_warnings p))"

text \<open>The writing half: the revision where the definition changed, the edges, the workflows.\<close>

definition write_prepared :: "program_env \<Rightarrow> json \<Rightarrow> prepared \<Rightarrow> program_world \<Rightarrow> (save_error + unit) \<times> program_world" where
  "write_prepared N body p W =
     (let d = pr_def p; plugin = Option.bind (pr_current p) st_plugin; source = Option.bind (pr_current p) st_source;
          canon = (\<lambda>x. canonical (pe_text N) (definition_of x));
          changed = (case pr_current p of None \<Rightarrow> True | Some c \<Rightarrow> canon (st_def c) \<noteq> canon d);
          q = write_query N d (pr_managed_by p) plugin source True
      in if changed
         then (case commit (pe_rev N) RProgram (pg_name d) (definition_of d) (save_request_from body)
                      (if pr_current p \<noteq> None then UpdateOwner q else CreateOwner q) (pw_rev W) of
                 (Inl r, v) \<Rightarrow> (Inl (SRefused r), W\<lparr>pw_rev := v\<rparr>)
               | (Inr _, v) \<Rightarrow> (Inr (), W\<lparr>pw_rev := v\<rparr>))
         else (Inr (), write_program N d (pr_managed_by p) plugin source True W))"

definition save_prepared :: "program_env \<Rightarrow> json \<Rightarrow> prepared \<Rightarrow> program_world \<Rightarrow> (save_error + saved) \<times> program_world" where
  "save_prepared N body p W =
     (case write_prepared N body p W of
        (Inl e, W1) \<Rightarrow> (Inl e, W1)
      | (Inr _, W1) \<Rightarrow>
          (case reconcile_workflows N (relink W1) of (changes, W2) \<Rightarrow>
             (Inr \<lparr>sv_program = pr_def p, sv_created = (pr_current p = None), sv_managed_by = pr_managed_by p,
                   sv_warnings = pr_warnings p, sv_changes = map describe_change changes\<rparr>, W2)))"

definition save_program :: "program_env \<Rightarrow> json \<Rightarrow> bool \<Rightarrow> program_world \<Rightarrow> (save_error + saved) \<times> program_world" where
  "save_program N body create_only W =
     (case prepare N body create_only W of Inl e \<Rightarrow> (Inl e, W) | Inr p \<Rightarrow> save_prepared N body p W)"

subsection \<open>Deleting\<close>

definition delete_program ::
  "program_env \<Rightarrow> string \<Rightarrow> string option \<Rightarrow> program_world \<Rightarrow> (save_error + string list) \<times> program_world" where
  "delete_program N n reason W =
     (case find_stored N n W of
        None \<Rightarrow> (Inl (SNotFound (''No program '' @ quoted n @ ''. Programs: '' @
                  comma_list (map pg_name (stored_programs N W)))), W)
      | Some cur \<Rightarrow>
          let children = map pg_name (filter (\<lambda>p. pg_parent p = Some n) (stored_programs N W))
          in if children \<noteq> []
             then (Inl (SInvalid (''programs sit under '' @ quoted n @ '': '' @ comma_list children @
                     ''. Move or delete them first.'')), W)
             else let v = record_delete (pe_rev N) RProgram n reason (pw_rev W);
                      W1 = W\<lparr>pw_rev := v\<lparr>rw_owners := filter (\<lambda>x. \<not> is_owner RProgram n x) (rw_owners v)\<rparr>,
                             pw_retired := (if st_source cur \<noteq> None
                               then (n, pe_now N) # filter (\<lambda>(m, _). m \<noteq> n) (pw_retired W) else pw_retired W),
                             pw_under := filter (\<lambda>(a, b). a \<noteq> n \<and> b \<noteq> n) (pw_under W),
                             pw_owns := filter (\<lambda>(a, _). a \<noteq> n) (pw_owns W)\<rparr>
                  in (case reconcile_workflows N W1 of (changes, W2) \<Rightarrow> (Inr (map describe_change changes), W2)))"

subsection \<open>The files\<close>

text \<open>A file as the bundles list it: its plugin, its path relative to the folder it was found in, its stem, and what
  reading it gives.\<close>

record program_file =
  pf_plugin :: string
  pf_source :: string
  pf_stem :: string
  pf_text :: "string + string"

definition load_file :: "program_env \<Rightarrow> program_file \<Rightarrow> string + program_def" where
  "load_file N f =
     (case pf_text f of
        Inl e \<Rightarrow> Inl (''cannot read: '' @ e)
      | Inr text \<Rightarrow>
          (case pe_yaml N text of
             Inl e \<Rightarrow> Inl (''YAML: '' @ e)
           | Inr raw \<Rightarrow>
               (case schema_problems N raw of
                  Inl why \<Rightarrow> Inl why
                | Inr _ \<Rightarrow>
                    (case program_of_json raw of
                       None \<Rightarrow> Inl (''YAML: '' @ pe_why N raw)
                     | Some d \<Rightarrow>
                         if pg_name d \<noteq> pf_stem f
                         then Inl (''name '' @ quoted (pg_name d) @ '' must equal the file name '' @ quoted (pf_stem f))
                         else Inr d))))"

record file_def =
  fd_plugin :: string
  fd_source :: string
  fd_def :: program_def

definition add_file_def :: "program_env \<Rightarrow> file_def list \<Rightarrow> program_file \<Rightarrow> file_def list" where
  "add_file_def N out f =
     (case load_file N f of
        Inl _ \<Rightarrow> out
      | Inr d \<Rightarrow> if pg_name d \<in> set (map (pg_name \<circ> fd_def) out) then out
                else out @ [\<lparr>fd_plugin = pf_plugin f, fd_source = pf_source f, fd_def = d\<rparr>])"

definition file_defs :: "program_env \<Rightarrow> program_file list \<Rightarrow> file_def list" where
  "file_defs N fs = foldl (add_file_def N) [] fs"

definition keep_status :: "program_env \<Rightarrow> program_world \<Rightarrow> program_def \<Rightarrow> program_def" where
  "keep_status N W d =
     (case find_stored N (pg_name d) W of
        Some s \<Rightarrow> d\<lparr>pg_status := pg_status (st_def s), pg_finding := pg_finding (st_def s)\<rparr> | None \<Rightarrow> d)"

definition put_program_back ::
  "program_env \<Rightarrow> program_file list \<Rightarrow> string \<Rightarrow> program_world \<Rightarrow> (save_error + saved) \<times> program_world" where
  "put_program_back N fs n W =
     (case find (\<lambda>f. pg_name (fd_def f) = n) (file_defs N fs) of
        None \<Rightarrow> (Inl (SNotFound (''no programs/*.yaml file declares '' @ quoted n)), W)
      | Some f \<Rightarrow>
          let I = program_inventory N W; (d, dropped) = prune_unknown (keep_status N W (fd_def f)) I;
              I1 = I\<lparr>iv_programs := filter (\<lambda>p. pg_name p \<noteq> n) (iv_programs I) @ [d]\<rparr>
          in (case check_program d I1 of
                Inl why \<Rightarrow> (Inl (SInvalid why), W)
              | Inr soft \<Rightarrow>
                  let warnings = soft @ (if dropped \<noteq> [] then [''left out (not on this brain): '' @ comma_list dropped] else []);
                      W1 = W\<lparr>pw_retired := filter (\<lambda>(m, _). m \<noteq> n) (pw_retired W)\<rparr>;
                      W2 = write_program N d ''yaml'' (Some (fd_plugin f)) (Some (fd_source f)) False W1;
                      v1 = record_seed (pe_rev N) RProgram n (definition_of d) (fd_source f) (pw_rev W2);
                      v2 = reconcile_revisions (pe_rev N) RProgram [(n, definition_of d)] v1
                  in (case reconcile_workflows N (relink (W2\<lparr>pw_rev := v2\<rparr>)) of
                        (changes, W3) \<Rightarrow>
                          (Inr \<lparr>sv_program = d, sv_created = False, sv_managed_by = ''yaml'', sv_warnings = warnings,
                                sv_changes = map describe_change changes\<rparr>, W3))))"

subsection \<open>Seeding\<close>

text \<open>A file of the seed: left to its edit, left out because its program was deleted, or taken with what the brain
  has and no other program holds.\<close>

record seed_files =
  sf_files :: "file_def list"
  sf_seeds :: "(string \<times> string \<times> json) list"

definition take_file :: "program_env \<Rightarrow> program_world \<Rightarrow> program_def list \<Rightarrow> seed_files \<Rightarrow> file_def \<Rightarrow> seed_files" where
  "take_file N W runtime acc f =
     (let d = fd_def f; n = pg_name d
      in if n \<in> set (map pg_name runtime)
         then acc\<lparr>sf_seeds := sf_seeds acc @ [(n, fd_source f, definition_of d)]\<rparr>
         else if n \<in> set (map fst (pw_retired W)) then acc
         else let d1 = fst (prune_unknown d (program_inventory N W));
                  held = concat (map pg_workflows runtime) @ concat (map (pg_workflows \<circ> fd_def) (sf_files acc));
                  ws = filter (\<lambda>w. w \<notin> set held) (pg_workflows d1);
                  d2 = d1\<lparr>pg_workflows := ws, pg_keep_running := filter (\<lambda>w. w \<in> set ws) (pg_keep_running d1)\<rparr>
              in acc\<lparr>sf_files := sf_files acc @ [f\<lparr>fd_def := keep_status N W d2\<rparr>]\<rparr>)"

definition with_programs :: "inventory \<Rightarrow> program_def list \<Rightarrow> inventory" where
  "with_programs I ps = I\<lparr>iv_programs := ps\<rparr>"

definition fails :: "inventory \<Rightarrow> program_def list \<Rightarrow> file_def list \<Rightarrow> file_def \<Rightarrow> bool" where
  "fails I runtime files f \<longleftrightarrow> (\<exists>why. check_program (fd_def f) (with_programs I (runtime @ map fd_def files)) = Inl why)"

fun first_index :: "('a \<Rightarrow> bool) \<Rightarrow> 'a list \<Rightarrow> nat option" where
  "first_index P [] = None"
| "first_index P (x # xs) = (if P x then Some 0 else map_option Suc (first_index P xs))"

lemma first_index_less: "first_index P xs = Some i \<Longrightarrow> i < length xs \<and> P (xs ! i)"
  by (induction xs arbitrary: i) (auto split: if_splits)

lemma first_index_None: "first_index P xs = None \<longleftrightarrow> (\<forall>x \<in> set xs. \<not> P x)"
  by (induction xs) auto

definition drop_at :: "nat \<Rightarrow> 'a list \<Rightarrow> 'a list" where
  "drop_at i xs = take i xs @ drop (i + 1) xs"

text \<open>A failing file is dropped and the rest checked again, since a child may have leaned on it.\<close>

function passing_files :: "inventory \<Rightarrow> program_def list \<Rightarrow> file_def list \<Rightarrow> file_def list" where
  "passing_files I runtime files =
     (case first_index (fails I runtime files) files of
        Some i \<Rightarrow> passing_files I runtime (drop_at i files)
      | None \<Rightarrow> files)"
  by pat_completeness auto
termination
  by (relation "measure (\<lambda>(I, runtime, files). length files)") (auto simp: drop_at_def dest!: first_index_less)

declare passing_files.simps [simp del]

definition remove_gone :: "string list \<Rightarrow> string list \<Rightarrow> program_node list \<Rightarrow> program_node list" where
  "remove_gone names loaded xs =
     filter (\<lambda>x. \<not> (ow_kind x = RProgram \<and> ow_name x \<notin> set names \<and> managed_by x = ''yaml'' \<and>
       (case pn_plugin x of None \<Rightarrow> True | Some p \<Rightarrow> p \<in> set loaded))) xs"

definition runtime_programs :: "program_env \<Rightarrow> program_world \<Rightarrow> program_def list" where
  "runtime_programs N W = map st_def (filter (\<lambda>s. st_managed_by s = ''runtime'') (load_all N W))"

definition seed_set :: "program_env \<Rightarrow> program_file list \<Rightarrow> program_world \<Rightarrow> seed_files" where
  "seed_set N fs W =
     (let runtime = runtime_programs N W;
          taken = foldl (take_file N W runtime) \<lparr>sf_files = [], sf_seeds = []\<rparr> (file_defs N fs);
          files = passing_files (program_inventory N W) runtime (sf_files taken)
      in \<lparr>sf_files = files, sf_seeds = sf_seeds taken @ map (\<lambda>f. (pg_name (fd_def f), fd_source f, definition_of (fd_def f))) files\<rparr>)"

definition seed_programs :: "program_env \<Rightarrow> program_file list \<Rightarrow> string list \<Rightarrow> program_world \<Rightarrow> nat \<times> program_world" where
  "seed_programs N fs loaded W =
     (let sf = seed_set N fs W;
          W1 = foldl (\<lambda>V f. write_program N (fd_def f) ''yaml'' (Some (fd_plugin f)) (Some (fd_source f)) False V) W (sf_files sf);
          v1 = foldl (\<lambda>v (n, source, def). record_seed (pe_rev N) RProgram n def source v) (pw_rev W1) (sf_seeds sf);
          v2 = v1\<lparr>rw_owners := remove_gone (map (pg_name \<circ> fd_def) (sf_files sf)) loaded (rw_owners v1)\<rparr>;
          W2 = snd (reconcile_workflows N (relink (W1\<lparr>pw_rev := v2\<rparr>)));
          live = map (\<lambda>d. (pg_name d, definition_of d)) (stored_programs N W2)
      in (length (sf_files sf), W2\<lparr>pw_rev := reconcile_revisions (pe_rev N) RProgram live (pw_rev W2)\<rparr>))"

end
