(* ===== verification/Program_Laws.thy ===== *)
theory Program_Laws
  imports Programs "HOL-Library.Sublist" "HOL-Library.Multiset"
begin

text \<open>
  What holds of programs: a program reads back from what is written of it, workflows follow their programs, the stored
  programs stay a tree in which a workflow has one program, what a seed writes passes the checks, and which status
  changes the brain makes on its own.
\<close>

subsection \<open>Reading back what was written\<close>

lemma program_of_map_cong:
  assumes "map_of m = map_of m'"
  shows "program_of_map m = program_of_map m'"
proof -
  have keys: "list_all (\<lambda>(k, _). k \<in> set program_fields) m \<longleftrightarrow> dom (map_of m) \<subseteq> set program_fields" for m :: json_map
    by (auto simp: list_all_iff dom_map_of_conv_image_fst)
  show ?thesis by (simp only: program_of_map_def read_must_def read_field_def keys assms)
qed

lemma map_of_foldl_insert: "map_of (foldl (\<lambda>m (k, v). map_insert k v m) m0 kvs) = map_of m0 ++ map_of (rev kvs)"
proof (induction kvs arbitrary: m0)
  case (Cons kv kvs)
  then show ?case by (cases kv) (auto simp: fun_eq_iff map_add_def split: option.splits)
qed simp

lemma field_values [simp]:
  "map_of (text_field k s) j = (if j = k \<and> s \<noteq> [] then Some (JStr s) else None)"
  "map_of (texts_field k ss) j = (if j = k \<and> ss \<noteq> [] then Some (JArr (map JStr ss)) else None)"
  "map_of (opt_field k f x) j = (if j = k then map_option f x else None)"
  by (auto simp: text_field_def texts_field_def opt_field_def split: option.splits)

lemma text_list_JStr [simp]: "text_list (map JStr ss) = Some ss"
  by (induction ss) auto


lemma subseq_set: "subseq xs ys \<Longrightarrow> set xs \<subseteq> set ys"
  by (induction rule: list_emb.induct) auto

lemma subseq_distinct: "subseq xs ys \<Longrightarrow> distinct ys \<Longrightarrow> distinct xs"
  by (induction rule: list_emb.induct) (auto dest: subseq_set)

lemma field_keys [simp]:
  "map fst (text_field k s) = (if s = [] then [] else [k])" "map fst (texts_field k ss) = (if ss = [] then [] else [k])"
  "map fst (opt_field k f x) = (if x = None then [] else [k])"
  by (auto simp: text_field_def texts_field_def opt_field_def)

lemma fields_of_program_subseq: "subseq (map fst (fields_of_program p)) program_fields"
proof -
  have opt: "subseq (if b then [] else [k]) [k]" for b and k :: string by simp
  have "subseq (map fst (fields_of_program p))
    ([''name''] @ [''label''] @ [''kind''] @ [''parent''] @ [''status''] @ [''charter''] @ [''success''] @ [''topics''] @
     [''workflows''] @ [''keep_running''] @ [''agents''] @ [''apis''] @ [''review''] @ [''budget''] @ [''finding''])"
    unfolding fields_of_program_def map_append field_keys list.map fst_conv
    by (intro list_emb_append_mono opt subseq_order.order_refl)
  then show ?thesis by (simp add: program_fields_def)
qed

lemma fields_of_program_keys:
  "distinct (map fst (fields_of_program p))"
  "list_all (\<lambda>(k, _). k \<in> set program_fields) (fields_of_program p)"
proof -
  show "distinct (map fst (fields_of_program p))"
    by (rule subseq_distinct[OF fields_of_program_subseq]) (simp add: program_fields_def)
  have "set (map fst (fields_of_program p)) \<subseteq> set program_fields"
    using subseq_set[OF fields_of_program_subseq] by simp
  then show "list_all (\<lambda>(k, _). k \<in> set program_fields) (fields_of_program p)"
    by (auto simp: list_all_iff)
qed

lemma fields_of_program_get:
  fixes p defines "get \<equiv> map_of (fields_of_program p)"
  shows "get ''name'' = Some (JStr (pg_name p))" and "get ''kind'' = Some (JStr (pg_kind p))"
    and "get ''status'' = Some (JStr (pg_status p))"
    and "get ''label'' = (if pg_label p = [] then None else Some (JStr (pg_label p)))"
    and "get ''charter'' = (if pg_charter p = [] then None else Some (JStr (pg_charter p)))"
    and "get ''success'' = (if pg_success p = [] then None else Some (JStr (pg_success p)))"
    and "get ''parent'' = map_option JStr (pg_parent p)" and "get ''finding'' = map_option JStr (pg_finding p)"
    and "get ''topics'' = (if pg_topics p = [] then None else Some (JArr (map JStr (pg_topics p))))"
    and "get ''workflows'' = (if pg_workflows p = [] then None else Some (JArr (map JStr (pg_workflows p))))"
    and "get ''keep_running'' = (if pg_keep_running p = [] then None else Some (JArr (map JStr (pg_keep_running p))))"
    and "get ''agents'' = (if pg_agents p = [] then None else Some (JArr (map JStr (pg_agents p))))"
    and "get ''apis'' = (if pg_apis p = [] then None else Some (JArr (map JStr (pg_apis p))))"
    and "get ''review'' = map_option (\<lambda>e. JObj [(''every'', JStr e)]) (pg_review p)"
    and "get ''budget'' = map_option (\<lambda>x. JObj [(''monthly_usd'', json_float x)]) (pg_budget p)"
  unfolding get_def fields_of_program_def
  by (simp_all add: map_add_def option.case_eq_if)

lemma read_fields_of_program:
  fixes p defines "m \<equiv> fields_of_program p"
  assumes "case pg_budget p of Some b \<Rightarrow> finite_amount b | None \<Rightarrow> True"
  shows "read_must m ''name'' as_str = Some (pg_name p)" and "read_must m ''kind'' as_str = Some (pg_kind p)"
    and "read_field m ''status'' as_str ''active'' = Some (pg_status p)"
    and "read_field m ''label'' as_str [] = Some (pg_label p)" and "read_field m ''charter'' as_str [] = Some (pg_charter p)"
    and "read_field m ''success'' as_str [] = Some (pg_success p)"
    and "read_field m ''parent'' (read_opt as_str) None = Some (pg_parent p)"
    and "read_field m ''finding'' (read_opt as_str) None = Some (pg_finding p)"
    and "read_field m ''topics'' read_texts [] = Some (pg_topics p)"
    and "read_field m ''workflows'' read_texts [] = Some (pg_workflows p)"
    and "read_field m ''keep_running'' read_texts [] = Some (pg_keep_running p)"
    and "read_field m ''agents'' read_texts [] = Some (pg_agents p)"
    and "read_field m ''apis'' read_texts [] = Some (pg_apis p)"
    and "read_field m ''review'' (read_opt (read_one ''every'' as_str)) None = Some (pg_review p)"
    and "read_field m ''budget'' (read_opt (read_one ''monthly_usd'' (map_option Num \<circ> as_f64))) None = Some (pg_budget p)"
  unfolding m_def read_must_def read_field_def fields_of_program_get
  using assms(2)
  by (simp_all add: read_opt_def read_texts_def read_one_def json_float_def finite_amount_def split: option.splits rfloat.splits)

text \<open>What the encoder leaves out is what the decoder fills in.\<close>

lemma program_of_fields_map:
  assumes "case pg_budget p of Some b \<Rightarrow> finite_amount b | None \<Rightarrow> True"
  shows "program_of_map (fields_of_program p) = Some p" and "program_of_map (map_of_program p) = Some p"
proof -
  show "program_of_map (fields_of_program p) = Some p"
    by (simp only: program_of_map_def read_fields_of_program[OF assms] fields_of_program_keys bind.simps if_False not_True_eq_False)
      simp
  moreover have "map_of (map_of_program p) = map_of (fields_of_program p)"
    by (simp add: map_of_program_def map_of_foldl_insert map_of_rev_distinct fields_of_program_keys)
  ultimately show "program_of_map (map_of_program p) = Some p"
    using program_of_map_cong[of "map_of_program p" "fields_of_program p"] by simp
qed

lemma program_of_fields:
  assumes "case pg_budget p of Some b \<Rightarrow> finite_amount b | None \<Rightarrow> True"
  shows "program_of_json (JObj (map_of_program p)) = Some p"
  using program_of_fields_map[OF assms] by (simp add: program_of_json_def)

text \<open>Claim C32. A program read back from what was written of it, as text or as a value, is the program.\<close>

theorem a_program_reads_back:
  assumes "case pg_budget p of Some b \<Rightarrow> finite_amount b | None \<Rightarrow> True"
  shows "program_of_json (JObj (map_of_program p)) = Some p \<and> program_of_json (JObj (fields_of_program p)) = Some p"
  using program_of_fields_map[OF assms] by (simp add: program_of_json_def)

subsection \<open>Workflows follow their programs\<close>

fun change_target :: "change \<Rightarrow> string" where
  "change_target (Pause w _) = w"
| "change_target (Resume w) = w"
| "change_target (Retag w _) = w"

text \<open>A change on one node.\<close>

definition change_node :: "int \<Rightarrow> workflow_node \<Rightarrow> change \<Rightarrow> workflow_node" where
  "change_node now x c = hd (apply_change now [x] c)"

lemma apply_change_map: "apply_change now xs c = map (\<lambda>x. change_node now x c) xs"
  by (cases c) (simp_all add: apply_change_def change_node_def update_where_def)

lemma change_node_other [simp]: "change_target c \<noteq> wn_name x \<Longrightarrow> change_node now x c = x"
  by (cases c) (simp_all add: apply_change_def change_node_def update_where_def)

lemma change_node_name [simp]: "wn_name (change_node now x c) = wn_name x"
  by (cases c) (simp_all add: apply_change_def change_node_def update_where_def)

lemma apply_changes_map:
  "foldl (apply_change now) xs cs = map (\<lambda>x. foldl (change_node now) x cs) xs"
  by (induction cs arbitrary: xs) (simp_all add: apply_change_map comp_def)

definition node_state :: "workflow_node \<Rightarrow> workflow_state" where
  "node_state x = \<lparr>ws_name = wn_name x, ws_enabled = or_default True (wn_enabled x),
     ws_paused_reason = Option.bind (wn_paused_reason x) opt_nonempty\<rparr>"

lemma workflow_states_alt: "workflow_states xs = map node_state (sort_key wn_name xs)"
  by (simp add: workflow_states_def node_state_def)

lemma planned_target: "c \<in> set (planned_change ps w) \<Longrightarrow> change_target c = ws_name w"
  by (auto simp: planned_change_def Let_def split: option.splits if_splits)

lemma change_node_others:
  "(\<And>c. c \<in> set cs \<Longrightarrow> change_target c \<noteq> wn_name x) \<Longrightarrow> foldl (change_node now) x cs = x"
  by (induction cs) auto

lemma changes_name [simp]: "wn_name (foldl (change_node now) x cs) = wn_name x"
  by (induction cs arbitrary: x) auto

text \<open>What a plan does to a node is what was planned for it.\<close>

lemma plan_on_node:
  assumes "distinct (map wn_name ys)" and "x \<in> set ys"
  shows "foldl (change_node now) x (plan_reconcile ps (map node_state ys)) = foldl (change_node now) x (planned_change ps (node_state x))"
  using assms
proof (induction ys)
  case (Cons y ys)
  have none: "foldl (change_node now) z (plan_reconcile ps (map node_state zs)) = z"
    if "wn_name z \<notin> wn_name ` set zs" for z zs
    using that by (intro change_node_others) (auto simp: plan_reconcile_def node_state_def dest!: planned_target)
  show ?case
  proof (cases "x = y")
    case True
    let ?z = "foldl (change_node now) x (planned_change ps (node_state x))"
    have "foldl (change_node now) ?z (plan_reconcile ps (map node_state ys)) = ?z"
      using Cons.prems True by (intro none) auto
    then show ?thesis by (simp add: plan_reconcile_def True)
  next
    case False
    then have "x \<in> set ys" using Cons.prems by auto
    then have "wn_name x \<noteq> wn_name y" using Cons.prems(1) by (metis distinct.simps(2) image_eqI list.map(2) set_map)
    then have "foldl (change_node now) x (planned_change ps (node_state y)) = x"
      by (intro change_node_others) (auto simp: node_state_def dest!: planned_target)
    with Cons \<open>x \<in> set ys\<close> show ?thesis by (simp add: plan_reconcile_def)
  qed
qed simp

lemma reconcile_workflows_map:
  assumes "distinct (map wn_name (pw_workflows W))"
  shows "pw_workflows (snd (reconcile_workflows N W)) =
    map (\<lambda>x. foldl (change_node (pe_now N)) x (planned_change (stored_programs N W) (node_state x))) (pw_workflows W)"
proof -
  have "distinct (map wn_name (sort_key wn_name (pw_workflows W)))"
    using assms by (simp add: distinct_map)
  then show ?thesis
    by (auto simp: reconcile_workflows_def Let_def workflow_states_alt apply_changes_map intro!: plan_on_node)
qed

lemma stored_programs_cong: "pw_rev W = pw_rev W' \<Longrightarrow> stored_programs N W = stored_programs N W'"
  by (simp add: stored_programs_def load_all_def program_nodes_def)

definition follows :: "program_def list \<Rightarrow> workflow_node \<Rightarrow> bool" where
  "follows ps x \<longleftrightarrow>
     (case held_by ps (wn_name x) of
        Some b \<Rightarrow> wn_enabled x = Some False \<and>
          (is_program_pause (wn_paused_reason x) \<longrightarrow> wn_paused_reason x = Some (pause_reason b))
      | None \<Rightarrow> wn_enabled x = Some False \<longrightarrow> \<not> is_program_pause (wn_paused_reason x))"

lemma pause_reason_simps [simp]: "is_program_pause (Some (pause_reason b))" "\<not> is_program_pause None"
  "opt_nonempty (pause_reason b) = Some (pause_reason b)" "pause_reason b \<noteq> []" "[] \<noteq> pause_reason b"
  by (simp_all add: is_program_pause_def pause_reason_def starts_with_iff opt_nonempty_def program_pause_def)

lemma is_program_pause_nonempty [simp]: "is_program_pause (Option.bind r opt_nonempty) = is_program_pause r"
  by (cases r) (auto simp: opt_nonempty_def is_program_pause_def program_pause_def starts_with_iff)

lemma bind_pause_reason [simp]: "Option.bind r opt_nonempty = Some (pause_reason b) \<longleftrightarrow> r = Some (pause_reason b)"
  by (cases r) (auto simp: opt_nonempty_def)

lemma change_node_simps [simp]:
  "change_node now x (Pause (wn_name x) why) = x\<lparr>wn_enabled := Some False, wn_paused_reason := Some why,
     wn_paused_at := Some now, wn_updated_at := Some now\<rparr>"
  "change_node now x (Retag (wn_name x) why) = x\<lparr>wn_paused_reason := Some why\<rparr>"
  "change_node now x (Resume (wn_name x)) = x\<lparr>wn_enabled := Some True, wn_paused_reason := None, wn_paused_at := None,
     wn_updated_at := Some now\<rparr>"
  by (simp_all add: change_node_def apply_change_def update_where_def)

lemma node_state_simps [simp]:
  "ws_name (node_state x) = wn_name x" "ws_enabled (node_state x) = (wn_enabled x \<noteq> Some False)"
  "is_program_pause (ws_paused_reason (node_state x)) = is_program_pause (wn_paused_reason x)"
  "ws_paused_reason (node_state x) = Some (pause_reason b) \<longleftrightarrow> wn_paused_reason x = Some (pause_reason b)"
  by (simp_all add: node_state_def or_default_def split: option.splits)

lemma planned_change_settles:
  fixes ps x now
  defines "y \<equiv> foldl (change_node now) x (planned_change ps (node_state x))"
  shows "follows ps y" and "planned_change ps (node_state y) = []"
    and "\<not> or_default True (wn_enabled x) \<Longrightarrow> \<not> is_program_pause (wn_paused_reason x) \<Longrightarrow> y = x"
proof -
  have f: "follows ps y \<and> wn_name y = wn_name x"
    unfolding y_def by (cases "held_by ps (wn_name x)") (auto simp: follows_def planned_change_def Let_def)
  then show "follows ps y" ..
  then show "planned_change ps (node_state y) = []"
    using f by (cases "held_by ps (wn_name x)") (auto simp: follows_def planned_change_def Let_def)
  show "y = x" if "\<not> or_default True (wn_enabled x)" "\<not> is_program_pause (wn_paused_reason x)"
    using that unfolding y_def
    by (cases "held_by ps (wn_name x)"; cases "wn_enabled x") (auto simp: planned_change_def or_default_def Let_def)
qed

text \<open>Claim C13. After a reconcile every workflow follows its program: off under a program that holds it, and not held
  by a pause no program stands behind. A second one plans nothing, and a workflow that is off for a reason of its own
  is left as it was.\<close>

theorem workflows_follow_their_programs:
  fixes N W
  assumes "distinct (map wn_name (pw_workflows W))"
  defines "W' \<equiv> snd (reconcile_workflows N W)"
  shows "list_all (follows (stored_programs N W)) (pw_workflows W') \<and> fst (reconcile_workflows N W') = [] \<and>
    list_all2 (\<lambda>x y. wn_name y = wn_name x \<and>
        (\<not> or_default True (wn_enabled x) \<and> \<not> is_program_pause (wn_paused_reason x) \<longrightarrow> y = x))
      (pw_workflows W) (pw_workflows W')"
proof -
  note settled = reconcile_workflows_map[OF assms(1), of N, folded W'_def]
  have same: "stored_programs N W' = stored_programs N W"
    by (rule stored_programs_cong) (simp add: W'_def reconcile_workflows_def Let_def)
  have "planned_change (stored_programs N W) (node_state y) = []" if "y \<in> set (pw_workflows W')" for y
    using that planned_change_settles(2) by (auto simp: settled)
  then have "fst (reconcile_workflows N W') = []"
    by (auto simp: reconcile_workflows_def Let_def same plan_reconcile_def workflow_states_alt)
  moreover have "list_all (follows (stored_programs N W)) (pw_workflows W')"
    using planned_change_settles(1) by (auto simp: settled list_all_iff)
  moreover have "list_all2 (\<lambda>x y. wn_name y = wn_name x \<and>
        (\<not> or_default True (wn_enabled x) \<and> \<not> is_program_pause (wn_paused_reason x) \<longrightarrow> y = x))
      (pw_workflows W) (pw_workflows W')"
    unfolding settled list_all2_map2 using planned_change_settles(3)
    by (auto simp: list_all2_same)
  ultimately show ?thesis by blast
qed


subsection \<open>The tree of programs\<close>

definition program_edges :: "program_def list \<Rightarrow> (string \<times> string) set" where
  "program_edges ps = {(pg_name p, q) | p q. p \<in> set ps \<and> pg_parent p = Some q}"

definition programs_ok :: "program_def list \<Rightarrow> bool" where
  "programs_ok ps \<longleftrightarrow> distinct (map pg_name ps) \<and> acyclic (program_edges ps) \<and>
     (\<forall>p \<in> set ps. pg_name p \<noteq> [] \<and> (\<forall>q. pg_parent p = Some q \<and> q \<noteq> [] \<longrightarrow> q \<in> pg_name ` set ps)) \<and>
     (\<forall>p \<in> set ps. \<forall>q \<in> set ps. pg_name p \<noteq> pg_name q \<longrightarrow> set (pg_workflows p) \<inter> set (pg_workflows q) = {})"

lemma program_named_unique:
  "distinct (map pg_name ps) \<Longrightarrow> p \<in> set ps \<Longrightarrow> program_named ps (pg_name p) = Some p"
  unfolding program_named_def
  by (induction ps rule: rev_induct) (auto simp: image_iff)

lemma parent_of_edges: "distinct (map pg_name ps) \<Longrightarrow> parent_of ps n = Some q \<longleftrightarrow> (n, q) \<in> program_edges ps"
  using program_named_unique[of ps] program_named_name[of ps n]
  by (auto simp: parent_of_def program_edges_def bind_eq_Some_conv)

text \<open>A walk that reports no loop has seen all that is above, and the program was not there.\<close>

lemma parent_loop_None:
  assumes "parent_loop others n chain cur = None" and "distinct (map pg_name others)" and "cur \<noteq> n"
    and "(cur, x) \<in> (program_edges others)\<^sup>*"
  shows "x \<noteq> n"
  using assms
proof (induction others n chain cur rule: parent_loop.induct)
  case (1 others n chain cur)
  show ?case
  proof (cases "x = cur")
    case False
    then obtain q where q: "(cur, q) \<in> program_edges others" "(q, x) \<in> (program_edges others)\<^sup>*"
      using 1(5) by (auto elim: converse_rtranclE)
    then have "parent_of others cur = Some q" by (simp add: parent_of_edges[OF 1(3)])
    with 1(2) have "q \<noteq> n" "q \<notin> set chain" "parent_loop others n (chain @ [q]) q = None"
      by (subst (asm) parent_loop.simps, simp split: if_splits)+
    with 1(1)[OF \<open>parent_of others cur = Some q\<close>] 1(3) q(2) show ?thesis by blast
  qed (use 1(4) in simp)
qed

lemma check_program_parts:
  fixes d I
  assumes "check_program d I = Inr soft"
  defines "others \<equiv> filter (\<lambda>p. pg_name p \<noteq> pg_name d) (iv_programs I)"
  shows "is_slug (pg_name d)" and "parent_problems d others = []" and "workflow_problems I others [] (pg_workflows d) = []"
    and "case pg_budget d of Some b \<Rightarrow> finite_amount b | None \<Rightarrow> True" and "pg_status d \<in> set program_statuses"
    and "pg_kind d \<in> set program_kinds"
    and "\<not> (pg_status d = ''closed'' \<and> pg_kind d \<in> set question_kinds \<and> trim (or_empty (pg_finding d)) = [])"
proof -
  have Nil: "(if b then [] else [x]) = [] \<longleftrightarrow> b" "(if b then [x] else []) = [] \<longleftrightarrow> \<not> b" for b and x :: string by auto
  have "hard_problems d I others = []"
    using assms(1) by (auto simp: check_program_def others_def Let_def split: if_splits)
  note h = this[unfolded hard_problems_def append_is_Nil_conv Nil]
  show "is_slug (pg_name d)" "parent_problems d others = []" "workflow_problems I others [] (pg_workflows d) = []"
    "pg_status d \<in> set program_statuses" "pg_kind d \<in> set program_kinds"
    "\<not> (pg_status d = ''closed'' \<and> pg_kind d \<in> set question_kinds \<and> trim (or_empty (pg_finding d)) = [])"
    using h by blast+
  show "case pg_budget d of Some b \<Rightarrow> finite_amount b | None \<Rightarrow> True"
    using h by (cases "pg_budget d") auto
qed

lemma parent_problems_None:
  assumes "parent_problems d others = []" and "pg_parent d = Some q" and "q \<noteq> []"
  shows "q \<noteq> pg_name d \<and> (\<exists>p. program_named others q = Some p) \<and>
    parent_loop others (pg_name d) [pg_name d, q] q = None"
  using assms by (simp add: parent_problems_def split: if_splits option.splits)

lemma workflow_problems_free:
  "workflow_problems I others seen ws = [] \<Longrightarrow> w \<in> set ws \<Longrightarrow>
     w \<in> set (iv_workflows I) \<and> claimed_by others w = None"
  by (induction I others seen ws rule: workflow_problems.induct) (auto split: if_splits option.splits)

lemma claimed_by_None: "claimed_by others w = None \<longleftrightarrow> (\<forall>p \<in> set others. w \<notin> set (pg_workflows p))"
  by (auto simp: claimed_by_def find_None_iff)

lemma programs_ok_subset:
  assumes ok: "programs_ok ps" and free: "\<forall>p \<in> set ps. pg_parent p = Some n \<longrightarrow> pg_name p = n"
  shows "programs_ok (filter (\<lambda>p. pg_name p \<noteq> n) ps)"
proof -
  have "program_edges (filter (\<lambda>p. pg_name p \<noteq> n) ps) \<subseteq> program_edges ps"
    by (auto simp: program_edges_def)
  then have "acyclic (program_edges (filter (\<lambda>p. pg_name p \<noteq> n) ps))"
    using ok by (auto simp: programs_ok_def intro: acyclic_subset)
  moreover have "q \<in> pg_name ` set (filter (\<lambda>p. pg_name p \<noteq> n) ps)"
    if p: "p \<in> set ps" "pg_name p \<noteq> n" "pg_parent p = Some q" "q \<noteq> []" for p q
  proof -
    obtain r where "r \<in> set ps" "q = pg_name r" using ok p by (auto simp: programs_ok_def)
    moreover have "q \<noteq> n" using free p by auto
    ultimately show ?thesis by auto
  qed
  ultimately show ?thesis using ok by (auto simp: programs_ok_def distinct_map_filter)
qed

text \<open>A program that passes the checks fits into the tree.\<close>

lemma checked_program_fits:
  assumes "check_program d I = Inr soft" and ok: "programs_ok ps"
    and others: "filter (\<lambda>p. pg_name p \<noteq> pg_name d) (iv_programs I) = filter (\<lambda>p. pg_name p \<noteq> pg_name d) ps"
  shows "programs_ok (filter (\<lambda>p. pg_name p \<noteq> pg_name d) ps @ [d])"
proof -
  let ?o = "filter (\<lambda>p. pg_name p \<noteq> pg_name d) ps"
  note parts = check_program_parts[OF assms(1), unfolded others]
  have d: "distinct (map pg_name ?o)" using ok by (simp add: programs_ok_def distinct_map_filter)
  have name: "pg_name d \<noteq> []" using parts(1) by (auto simp: is_slug_def)
  have "program_edges ?o \<subseteq> program_edges ps" by (auto simp: program_edges_def)
  then have acyc: "acyclic (program_edges ?o)" using ok by (auto simp: programs_ok_def intro: acyclic_subset)
  have named: "x \<in> pg_name ` set ?o" if xy: "(x, y) \<in> (program_edges ?o)\<^sup>*" "x \<noteq> y" for x y
  proof -
    obtain z where "(x, z) \<in> program_edges ?o" using xy by (meson converse_rtranclE)
    then show ?thesis by (auto simp: program_edges_def)
  qed
  have parent: "q \<in> pg_name ` set ?o \<and> (q, pg_name d) \<notin> (program_edges ?o)\<^sup>*" if q: "pg_parent d = Some q" "q \<noteq> []" for q
  proof -
    obtain p where p: "q \<noteq> pg_name d" "program_named ?o q = Some p" "parent_loop ?o (pg_name d) [pg_name d, q] q = None"
      using parent_problems_None[OF parts(2) q] by blast
    then have "q \<in> pg_name ` set ?o" using program_named_name[of ?o q p] by (metis imageI)
    with parent_loop_None[OF p(3) d p(1), of "pg_name d"] show ?thesis by blast
  qed
  have empty: "([], pg_name d) \<notin> (program_edges ?o)\<^sup>*"
  proof -
    have "[] \<notin> pg_name ` set ?o" using ok unfolding programs_ok_def by fastforce
    with named[of "[]" "pg_name d"] name show ?thesis by metis
  qed
  have edges: "program_edges (?o @ [d]) = (case pg_parent d of Some q \<Rightarrow> insert (pg_name d, q) (program_edges ?o) | None \<Rightarrow> program_edges ?o)"
    by (auto simp: program_edges_def split: option.splits)
  have "acyclic (program_edges (?o @ [d]))"
  proof (cases "pg_parent d")
    case (Some q)
    with parent empty have "(q, pg_name d) \<notin> (program_edges ?o)\<^sup>*" by (cases "q = []") auto
    with acyc Some show ?thesis unfolding edges by (simp add: acyclic_insert)
  qed (use acyc in \<open>simp add: edges\<close>)
  moreover have "distinct (map pg_name (?o @ [d]))" using d by auto
  moreover have "set (pg_workflows p) \<inter> set (pg_workflows d) = {}" if "p \<in> set ?o" for p
    using workflow_problems_free[OF parts(3)] that by (auto simp: claimed_by_None)
  moreover have "q \<in> pg_name ` set (?o @ [d])" if "p \<in> set (?o @ [d])" "pg_parent p = Some q" "q \<noteq> []" for p q
  proof -
    have "q \<in> pg_name ` set ps" if "p \<in> set ?o" using ok that \<open>pg_parent p = Some q\<close> \<open>q \<noteq> []\<close> by (auto simp: programs_ok_def)
    then show ?thesis using that parent[of q] by (cases "p = d") auto
  qed
  ultimately show ?thesis
    using ok name unfolding programs_ok_def by (simp add: ball_Un) blast
qed

subsection \<open>The tree as stored\<close>

definition shape :: "program_def \<Rightarrow> string \<times> string option \<times> string list" where
  "shape p = (pg_name p, pg_parent p, pg_workflows p)"

lemma programs_ok_shapes:
  "programs_ok ps \<longleftrightarrow> distinct (map fst (map shape ps)) \<and>
     acyclic {(a, q) | a q. (a, Some q) \<in> (\<lambda>(a, q, ws). (a, q)) ` set (map shape ps)} \<and>
     (\<forall>(a, q, ws) \<in> set (map shape ps). a \<noteq> [] \<and> (\<forall>b. q = Some b \<and> b \<noteq> [] \<longrightarrow> b \<in> fst ` set (map shape ps))) \<and>
     (\<forall>(a, _, vs) \<in> set (map shape ps). \<forall>(b, _, ws) \<in> set (map shape ps). a \<noteq> b \<longrightarrow> set vs \<inter> set ws = {})"
proof -
  have "{(a, q) | a q. (a, Some q) \<in> (\<lambda>(a, q, ws). (a, q)) ` set (map shape ps)} = program_edges ps"
    by (force simp: program_edges_def shape_def image_iff)
  moreover have "map fst (map shape ps) = map pg_name ps" by (simp add: shape_def comp_def)
  moreover have "fst ` set (map shape ps) = pg_name ` set ps" by (auto simp: shape_def image_image)
  ultimately show ?thesis unfolding programs_ok_def by (simp only:) (auto simp: shape_def)
qed

lemma programs_ok_cong:
  assumes "mset (map shape ps) = mset (map shape qs)"
  shows "programs_ok ps = programs_ok qs"
proof -
  have "set (map shape ps) = set (map shape qs)" using assms by (metis mset_eq_setD)
  moreover have "distinct (map fst (map shape ps)) = distinct (map fst (map shape qs))"
    using assms by (metis mset_eq_imp_distinct_iff mset_map)
  ultimately show ?thesis unfolding programs_ok_shapes by simp
qed

definition stored_nodes :: "program_env \<Rightarrow> program_node list \<Rightarrow> bool" where
  "stored_nodes N os \<longleftrightarrow> distinct (map owner_key os) \<and>
     (\<forall>x \<in> set os. ow_kind x = RProgram \<longrightarrow> (\<exists>s. stored_of (pe_text N) x = Some s \<and> pg_name (st_def s) = ow_name x))"

definition node_def :: "program_env \<Rightarrow> program_node \<Rightarrow> program_def" where
  "node_def N x = st_def (the (stored_of (pe_text N) x))"

definition shapes :: "program_env \<Rightarrow> program_node list \<Rightarrow> (string \<times> string option \<times> string list) list" where
  "shapes N os = map (\<lambda>x. shape (node_def N x)) (filter (\<lambda>x. ow_kind x = RProgram) os)"

abbreviation nodes_of :: "program_world \<Rightarrow> program_node list" where
  "nodes_of W \<equiv> rw_owners (pw_rev W)"

lemma load_all_nodes:
  assumes "stored_nodes N (nodes_of W)"
  shows "load_all N W = map (\<lambda>x. the (stored_of (pe_text N) x)) (program_nodes W)"
proof -
  have "List.map_filter f xs = map (\<lambda>x. the (f x)) xs" if "\<forall>x \<in> set xs. f x \<noteq> None" for f :: "program_node \<Rightarrow> stored option" and xs
    using that by (induction xs) (auto simp: List.map_filter_simps)
  moreover have "\<forall>x \<in> set (program_nodes W). stored_of (pe_text N) x \<noteq> None"
    using assms by (fastforce simp: stored_nodes_def program_nodes_def)
  ultimately show ?thesis by (simp add: load_all_def)
qed

lemma stored_shapes:
  assumes "stored_nodes N (nodes_of W)"
  shows "mset (map shape (stored_programs N W)) = mset (shapes N (nodes_of W))"
  by (simp add: stored_programs_def load_all_nodes[OF assms] shapes_def program_nodes_def node_def_def comp_def)

lemma stored_nodes_name:
  "stored_nodes N os \<Longrightarrow> x \<in> set os \<Longrightarrow> ow_kind x = RProgram \<Longrightarrow> pg_name (node_def N x) = ow_name x"
  by (auto simp: stored_nodes_def node_def_def)

text \<open>What the revisions write on a node is not what a program is.\<close>

definition same_program :: "program_node \<Rightarrow> program_node \<Rightarrow> bool" where
  "same_program x y \<longleftrightarrow> owner_key y = owner_key x \<and> (\<forall>S. map_option st_def (stored_of S y) = map_option st_def (stored_of S x))"

abbreviation revised :: "program_node list \<Rightarrow> program_node list \<Rightarrow> bool" where
  "revised \<equiv> list_all2 same_program"

lemma same_program_refl [simp]: "same_program x x"
  by (simp add: same_program_def)

lemma revised_refl [simp]: "revised os os"
  by (simp add: list.rel_refl)

lemma revised_trans: "revised os os1 \<Longrightarrow> revised os1 os2 \<Longrightarrow> revised os os2"
  by (rule list_all2_trans[of same_program same_program]) (auto simp: same_program_def)

lemma revised_map: "(\<And>x. same_program x (f x)) \<Longrightarrow> revised os (map f os)"
  by (simp add: list_all2_map2 list.rel_refl)

lemma revised_update: "(\<And>x. same_program x (f x)) \<Longrightarrow> revised os (update_where P f os)"
  unfolding update_where_def by (rule revised_map) simp

lemma same_program_stored:
  assumes "same_program x y"
  shows "ow_kind y = ow_kind x" and "ow_name y = ow_name x"
    and "(\<exists>s. stored_of S y = Some s \<and> pg_name (st_def s) = n) \<longleftrightarrow> (\<exists>s. stored_of S x = Some s \<and> pg_name (st_def s) = n)"
    and "stored_of S x \<noteq> None \<Longrightarrow> st_def (the (stored_of S y)) = st_def (the (stored_of S x))"
proof -
  show "ow_kind y = ow_kind x" "ow_name y = ow_name x" using assms by (simp_all add: same_program_def owner_key_def)
  have eq: "map_option st_def (stored_of S y) = map_option st_def (stored_of S x)"
    using assms by (simp add: same_program_def)
  show "(\<exists>s. stored_of S y = Some s \<and> pg_name (st_def s) = n) \<longleftrightarrow> (\<exists>s. stored_of S x = Some s \<and> pg_name (st_def s) = n)"
    using eq by (cases "stored_of S x"; cases "stored_of S y") auto
  show "st_def (the (stored_of S y)) = st_def (the (stored_of S x))" if "stored_of S x \<noteq> None"
    using eq that by (cases "stored_of S x"; cases "stored_of S y") auto
qed

lemma revised_nodes:
  assumes "revised os os'"
  shows "stored_nodes N os' = stored_nodes N os" and "stored_nodes N os \<Longrightarrow> shapes N os' = shapes N os"
proof -
  have keys: "map owner_key os' = map owner_key os"
    using assms by (induction rule: list_all2_induct) (simp_all add: same_program_def)
  have "(\<forall>x \<in> set os'. ow_kind x = RProgram \<longrightarrow> (\<exists>s. stored_of (pe_text N) x = Some s \<and> pg_name (st_def s) = ow_name x)) \<longleftrightarrow>
      (\<forall>x \<in> set os. ow_kind x = RProgram \<longrightarrow> (\<exists>s. stored_of (pe_text N) x = Some s \<and> pg_name (st_def s) = ow_name x))"
    using assms by (induction rule: list_all2_induct) (simp_all add: same_program_stored)
  with keys show "stored_nodes N os' = stored_nodes N os" by (simp add: stored_nodes_def)
  assume "stored_nodes N os"
  then have "\<forall>x \<in> set os. ow_kind x = RProgram \<longrightarrow> stored_of (pe_text N) x \<noteq> None" by (auto simp: stored_nodes_def)
  with assms show "shapes N os' = shapes N os"
    by (induction rule: list_all2_induct) (simp_all add: shapes_def node_def_def same_program_stored)
qed

definition text_ok :: "program_env \<Rightarrow> program_def \<Rightarrow> bool" where
  "text_ok N d \<longleftrightarrow> from_str (pe_text N) (to_str (pe_text N) (JObj (fields_of_program d))) = Some (JObj (map_of_program d)) \<and>
     (case pg_budget d of Some b \<Rightarrow> finite_amount b | None \<Rightarrow> True)"

lemma stored_set_program:
  assumes "text_ok N d"
  shows "\<exists>s. stored_of (pe_text N) (set_program N d m pl src owned x) = Some s \<and>
    st_def s = d\<lparr>pg_status := (if owned then pg_status d else or_default (pg_status d) (pn_status x)),
      pg_finding := Option.bind (if owned then pg_finding d else pn_finding x) opt_nonempty\<rparr>"
  using assms program_of_fields[of d]
  by (auto simp: stored_of_def set_program_def set_status_def text_ok_def or_default_def split: option.splits)

lemma written_node:
  assumes "text_ok N d"
  shows "ow_kind (set_program N d m pl src owned x) = ow_kind x" "ow_name (set_program N d m pl src owned x) = ow_name x"
    "shape (node_def N (set_program N d m pl src owned x)) = shape d"
    "\<exists>s. stored_of (pe_text N) (set_program N d m pl src owned x) = Some s \<and> pg_name (st_def s) = pg_name d"
  using stored_set_program[OF assms, of m pl src owned x]
  by (auto simp: set_program_def set_status_def node_def_def shape_def)

lemma update_where_append: "update_where P f (xs @ ys) = update_where P f xs @ update_where P f ys"
  by (simp add: update_where_def)

lemma no_update_where: "(\<And>x. x \<in> set xs \<Longrightarrow> \<not> P x) \<Longrightarrow> update_where P f xs = xs"
  by (induction xs) (auto simp: update_where_def)

lemma shapes_others:
  assumes "stored_nodes N os" and "\<And>x. x \<in> set xs \<Longrightarrow> \<not> is_owner RProgram n x" and "set xs \<subseteq> set os"
  shows "filter (\<lambda>s. fst s \<noteq> n) (shapes N xs) = shapes N xs"
  using assms stored_nodes_name[OF assms(1)]
  by (fastforce simp: filter_id_conv shapes_def shape_def is_owner_def)

lemma shapes_append: "shapes N (xs @ ys) = shapes N xs @ shapes N ys"
  by (simp add: shapes_def)

text \<open>A write puts the program in the place of the one of its name.\<close>

lemma write_query_nodes:
  fixes N d m pl src owned os
  assumes ok: "stored_nodes N os" and d: "text_ok N d"
  defines "os' \<equiv> write_query N d m pl src owned os"
  shows "stored_nodes N os' \<and> mset (shapes N os') = mset (filter (\<lambda>s. fst s \<noteq> pg_name d) (shapes N os) @ [shape d])"
proof -
  let ?P = "is_owner RProgram (pg_name d)" and ?f = "set_program N d m pl src owned"
  note w = written_node[OF d, of m pl src owned]
  obtain as x bs where split: "os' = as @ ?f x # bs" "?P x" "set as \<union> set bs \<subseteq> set os"
      "\<And>y. y \<in> set as \<union> set bs \<Longrightarrow> \<not> ?P y" "distinct (map owner_key (as @ x # bs))"
      "filter (\<lambda>s. fst s \<noteq> pg_name d) (shapes N os) = shapes N as @ shapes N bs"
  proof (cases "list_ex ?P os")
    case True
    then obtain as x bs where os: "os = as @ x # bs" "?P x"
      by (auto simp: list_ex_iff dest!: split_list)
    have none: "\<not> ?P y" if "y \<in> set as \<union> set bs" for y
    proof -
      have "owner_key x \<notin> owner_key ` (set as \<union> set bs)" using ok os by (auto simp: stored_nodes_def)
      then have "owner_key y \<noteq> owner_key x" using that by (metis image_eqI)
      with os show ?thesis by (auto simp: owner_key_def is_owner_def)
    qed
    have "os' = as @ ?f x # bs"
      using True none by (simp add: os'_def write_query_def os update_where_append no_update_where)
    moreover have "filter (\<lambda>s. fst s \<noteq> pg_name d) (shapes N os) = shapes N as @ shapes N bs"
    proof -
      have "filter (\<lambda>s. fst s \<noteq> pg_name d) (shapes N as) = shapes N as" "filter (\<lambda>s. fst s \<noteq> pg_name d) (shapes N bs) = shapes N bs"
        using none os by (auto intro!: shapes_others[OF ok])
      moreover have "shapes N (x # bs) = shape (node_def N x) # shapes N bs" "fst (shape (node_def N x)) = pg_name d"
        using os stored_nodes_name[OF ok, of x] by (simp_all add: shapes_def is_owner_def shape_def)
      ultimately show ?thesis by (simp add: os(1) shapes_append)
    qed
    moreover have "distinct (map owner_key (as @ x # bs))" using ok os(1) by (simp add: stored_nodes_def)
    ultimately show ?thesis using os none by (intro that) auto
  next
    case False
    then have none: "\<not> ?P y" if "y \<in> set os" for y using that by (auto simp: list_ex_iff)
    have "?P (new_node (pe_now N) d)" by (simp add: is_owner_def new_node_def)
    with False have "os' = os @ [?f (new_node (pe_now N) d)]"
      by (simp add: os'_def write_query_def update_where_append no_update_where none)
    moreover have "distinct (map owner_key (os @ [new_node (pe_now N) d]))"
    proof -
      have "owner_key y \<noteq> owner_key (new_node (pe_now N) d)" if "y \<in> set os" for y
        using none[OF that] by (auto simp: owner_key_def is_owner_def new_node_def)
      then have "owner_key (new_node (pe_now N) d) \<notin> owner_key ` set os" by (metis imageE)
      then show ?thesis using ok by (simp add: stored_nodes_def)
    qed
    moreover have "filter (\<lambda>s. fst s \<noteq> pg_name d) (shapes N os) = shapes N os"
      using none by (intro shapes_others[OF ok]) auto
    ultimately show ?thesis
      using none \<open>?P (new_node (pe_now N) d)\<close> by (intro that[of os "new_node (pe_now N) d" "[]"]) (auto simp: shapes_def)
  qed
  have "owner_key (?f x) = owner_key x" using w by (simp add: owner_key_def)
  then have "distinct (map owner_key os')" using split(5) by (simp add: split(1))
  moreover have "\<exists>s. stored_of (pe_text N) y = Some s \<and> pg_name (st_def s) = ow_name y"
    if "y \<in> set os'" "ow_kind y = RProgram" for y
    using that ok split(2,3) w(2,4) by (auto simp: split(1) stored_nodes_def is_owner_def)
  ultimately have "stored_nodes N os'" by (simp add: stored_nodes_def)
  moreover have "shapes N os' = shapes N as @ shape d # shapes N bs"
    using split(2) w by (simp add: split(1) shapes_def is_owner_def)
  ultimately show ?thesis by (simp add: split(6))
qed


definition kept_programs :: "program_env \<Rightarrow> program_world \<Rightarrow> bool" where
  "kept_programs N W \<longleftrightarrow> stored_nodes N (nodes_of W) \<and> programs_ok (stored_programs N W)"

lemma kept_programs_cong: "pw_rev W' = pw_rev W \<Longrightarrow> kept_programs N W' = kept_programs N W"
  using stored_programs_cong[of W' W N] by (simp add: kept_programs_def)

lemma revision_fields [simp]:
  fixes x :: program_node
  shows "same_program x (x\<lparr>ow_revision := a, ow_live_hash := b, ow_drift := c\<rparr>)"
    and "same_program x (x\<lparr>ow_revision := a, ow_live_hash := b, ow_drift := c, ow_managed_by := m\<rparr>)"
    and "same_program x (x\<lparr>ow_seed_definition := d, ow_seed_hash := e, ow_seed_source := f\<rparr>)"
    and "same_program x (x\<lparr>ow_problem := g\<rparr>)"
  by (simp_all add: same_program_def owner_key_def stored_of_def managed_by_def option.map_comp comp_def)

lemma revised_kept:
  assumes "kept_programs N W" and "revised (nodes_of W) (nodes_of W')"
  shows "kept_programs N W'"
proof -
  note r = revised_nodes[OF assms(2), of N]
  have "mset (map shape (stored_programs N W')) = mset (map shape (stored_programs N W))"
    using assms(1) r stored_shapes unfolding kept_programs_def by metis
  then show ?thesis using programs_ok_cong assms(1) r(1) unfolding kept_programs_def by metis
qed

text \<open>One checked program in the place of the one of its name.\<close>

lemma replaced_program_kept:
  assumes ok: "kept_programs N W" and "check_program d I = Inr soft"
    and others: "filter (\<lambda>p. pg_name p \<noteq> pg_name d) (iv_programs I) = filter (\<lambda>p. pg_name p \<noteq> pg_name d) (stored_programs N W)"
    and nodes: "stored_nodes N (nodes_of W')"
    and "mset (shapes N (nodes_of W')) = mset (filter (\<lambda>s. fst s \<noteq> pg_name d) (shapes N (nodes_of W)) @ [shape d])"
  shows "kept_programs N W'"
proof -
  let ?ps = "filter (\<lambda>p. pg_name p \<noteq> pg_name d) (stored_programs N W) @ [d]"
  have "mset (shapes N (nodes_of W)) = mset (map shape (stored_programs N W))"
    using ok stored_shapes unfolding kept_programs_def by metis
  then have "mset (filter (\<lambda>s. fst s \<noteq> pg_name d) (shapes N (nodes_of W))) = mset (filter (\<lambda>s. fst s \<noteq> pg_name d) (map shape (stored_programs N W)))"
    by (metis mset_filter)
  also have "filter (\<lambda>s. fst s \<noteq> pg_name d) (map shape (stored_programs N W)) = map shape (filter (\<lambda>p. pg_name p \<noteq> pg_name d) (stored_programs N W))"
    by (simp add: filter_map comp_def shape_def)
  finally have "mset (shapes N (nodes_of W')) = mset (map shape ?ps)" using assms(5) by simp
  then have "mset (map shape (stored_programs N W')) = mset (map shape ?ps)" by (simp only: stored_shapes[OF nodes])
  moreover have "programs_ok ?ps" using checked_program_fits[OF assms(2) _ others] ok by (simp add: kept_programs_def)
  ultimately show ?thesis using nodes programs_ok_cong unfolding kept_programs_def by metis
qed

lemma prepare_parts:
  assumes "prepare N body create_only W = Inr p"
  shows "\<exists>soft. check_program (pr_def p) ((program_inventory N W)\<lparr>iv_programs :=
      filter (\<lambda>q. pg_name q \<noteq> pg_name (pr_def p)) (stored_programs N W) @ [pr_def p]\<rparr>) = Inr soft"
    and "check_status_change (pg_kind (pr_def p)) (map_option (pg_status \<circ> st_def) (pr_current p)) (pg_status (pr_def p))
      (autonomous (pe_purpose N)) = Inr ()"
    and "\<exists>n. request_name body = Some n \<and> pr_current p = find_stored N n W"
  using assms
  by (auto simp: prepare_def program_inventory_def Let_def split: option.splits sum.splits if_splits)

text \<open>What a commit leaves of the nodes: the write, and the fields of the revision.\<close>

lemma land_nodes:
  assumes "land H p f g w = (out, w')"
  shows "case out of Written v \<Rightarrow> \<exists>os. revised (f (rw_owners w)) os \<and> rw_owners w' = g os | Moved v \<Rightarrow> w' = w"
proof (cases out)
  case (Written v)
  let ?P = "\<lambda>x. is_owner (nr_kind (pd_new p)) (nr_name (pd_new p)) x \<and> or_default 0 (ow_revision x) = pd_expected p"
  let ?u = "\<lambda>x. x\<lparr>ow_revision := Some (pd_version p),
      ow_live_hash := (if nr_op (pd_new p) = ''delete'' then None else Some (rv_content_hash (pending_revision H p))),
      ow_drift := pd_drift p\<rparr>"
  have "rw_owners w' = g (update_where ?P ?u (f (rw_owners w)))"
    using assms Written by (auto simp: land_def Let_def split: if_splits)
  moreover have "revised (f (rw_owners w)) (update_where ?P ?u (f (rw_owners w)))" by (rule revised_update) simp
  ultimately show ?thesis using Written by auto
next
  case (Moved v)
  then show ?thesis using assms by (auto simp: land_def Let_def split: if_splits)
qed

lemma append_nodes: "revised (rw_owners w) (rw_owners (snd (append_revision H r e d w)))"
proof -
  obtain out w' where "append_revision H r e d w = (out, w')" by fastforce
  then show ?thesis using land_nodes[of H "read_latest r e d w" id id w out w']
    by (auto simp: append_revision_def split: appended.splits)
qed

lemma set_owner_nodes: "(\<And>x. same_program x (f x)) \<Longrightarrow> revised (rw_owners w) (rw_owners (set_owner k n f w))"
  by (simp add: set_owner_def revised_update)

lemma record_seed_nodes: "revised (rw_owners w) (rw_owners (record_seed E RProgram n def src w))"
proof -
  define w1 where "w1 = set_owner RProgram n (\<lambda>x :: program_node. x\<lparr>ow_seed_definition := Some (canonical (re_serde E) def),
      ow_seed_hash := Some (re_hash E (canonical (re_serde E) def)), ow_seed_source := Some src\<rparr>) w"
  have "revised (rw_owners w) (rw_owners w1)" unfolding w1_def by (rule set_owner_nodes) simp
  moreover have "rw_owners (record_seed E RProgram n def src w) = rw_owners w1 \<or>
      (\<exists>r e d. rw_owners (record_seed E RProgram n def src w) = rw_owners (snd (append_revision (re_hash E) r e d w1)))"
    unfolding record_seed_def Let_def w1_def[symmetric] by (auto split: option.splits)
  ultimately show ?thesis using append_nodes revised_trans by metis
qed

lemma reconcile_one_nodes: "revised (rw_owners w) (rw_owners (reconcile_one E RProgram w nd))"
proof (cases "find_owner RProgram (fst nd) w")
  case None
  then show ?thesis by (simp add: reconcile_one_def Let_def)
next
  case (Some x)
  define w1 where "w1 = (case missing_revision E RProgram (fst nd) (canonical (re_serde E) (snd nd)) w of
      Some r \<Rightarrow> snd (append_revision (re_hash E) r (or_default 0 (ow_revision x)) None w) | None \<Rightarrow> w)"
  have "revised (rw_owners w) (rw_owners w1)"
    unfolding w1_def by (auto split: option.splits intro: append_nodes)
  moreover have "revised (rw_owners w1) (rw_owners (reconcile_one E RProgram w nd))"
    unfolding reconcile_one_def refreshed_def Let_def Some option.case(2) w1_def[symmetric] by (rule set_owner_nodes) simp
  ultimately show ?thesis by (rule revised_trans)
qed

lemma reconcile_nodes: "revised (rw_owners w) (rw_owners (reconcile_revisions E RProgram live w))"
proof -
  have "revised (rw_owners w) (rw_owners (foldl (reconcile_one E RProgram) w live))"
    by (induction live arbitrary: w) (auto intro: revised_trans reconcile_one_nodes)
  moreover have "revised (rw_owners v) (rw_owners (check_chains E RProgram v))" for v :: "unit program_node_ext rev_world"
    unfolding check_chains_def by (auto intro!: revised_map simp: Let_def)
  ultimately show ?thesis unfolding reconcile_revisions_def by (rule revised_trans)
qed

lemma commit_nodes:
  assumes "commit E RProgram n def req write w = (out, w')"
  shows "case out of Inl _ \<Rightarrow> w' = w
    | Inr _ \<Rightarrow> (case write of CreateOwner q \<Rightarrow> revised (q (rw_owners w)) (rw_owners w')
        | UpdateOwner q \<Rightarrow> \<exists>os. revised (rw_owners w) os \<and> rw_owners w' = q os)"
proof (cases out)
  case Inl
  with assms show ?thesis
    by (auto simp: commit_def land_def Let_def split: owner_write.splits sum.splits if_splits)
next
  case (Inr v)
  obtain p f g where "land (re_hash E) p f g w = (Written v, w')"
      "(case write of CreateOwner q \<Rightarrow> (q, id) | UpdateOwner q \<Rightarrow> (id, q)) = (f, g)"
    using assms Inr by (auto simp: commit_def split: owner_write.splits sum.splits prod.splits appended.splits)
  with land_nodes[of "re_hash E" p f g w "Written v" w'] Inr show ?thesis by (auto split: owner_write.splits)
qed

lemma reconcile_rev [simp]: "pw_rev (snd (reconcile_workflows N W)) = pw_rev W" "pw_rev (relink W) = pw_rev W"
  by (simp_all add: reconcile_workflows_def relink_def Let_def)

lemma write_prepared_nodes:
  assumes "write_prepared N body p W = (Inr u, W')" and "stored_nodes N (nodes_of W)" and "text_ok N (pr_def p)"
  shows "stored_nodes N (nodes_of W') \<and>
    mset (shapes N (nodes_of W')) = mset (filter (\<lambda>s. fst s \<noteq> pg_name (pr_def p)) (shapes N (nodes_of W)) @ [shape (pr_def p)])"
proof -
  let ?q = "write_query N (pr_def p) (pr_managed_by p) (Option.bind (pr_current p) st_plugin) (Option.bind (pr_current p) st_source) True"
  note q = write_query_nodes[OF _ assms(3), of _ "pr_managed_by p" "Option.bind (pr_current p) st_plugin"
      "Option.bind (pr_current p) st_source" True]
  obtain os where os: "revised (nodes_of W) os" and "revised (?q os) (nodes_of W')"
  proof -
    consider (plain) "nodes_of W' = ?q (nodes_of W)"
      | (commit) v where "commit (pe_rev N) RProgram (pg_name (pr_def p)) (definition_of (pr_def p)) (save_request_from body)
            (if pr_current p \<noteq> None then UpdateOwner ?q else CreateOwner ?q) (pw_rev W) = (Inr v, pw_rev W')"
      using assms(1) by (fastforce simp: write_prepared_def write_program_def Let_def split: if_splits prod.splits sum.splits)
    then show ?thesis
    proof cases
      case plain
      then show ?thesis using that[of "nodes_of W"] by simp
    next
      case commit
      show ?thesis using commit_nodes[OF commit] that by (cases "pr_current p \<noteq> None") (auto intro: revised_refl)
    qed
  qed
  moreover have "stored_nodes N os" and "shapes N os = shapes N (nodes_of W)"
    using revised_nodes[OF os, of N] assms(2) by simp_all
  ultimately show ?thesis using q[of os] revised_nodes[of "?q os" "nodes_of W'" N] by simp
qed

lemma saved_program_kept:
  assumes ok: "kept_programs N W" and save: "save_program N body create_only W = (out, W')"
    and reads: "\<And>s. out = Inr s \<Longrightarrow> text_ok N (sv_program s)"
  shows "kept_programs N W'"
proof (cases "prepare N body create_only W")
  case (Inl e)
  then show ?thesis using ok save by (simp add: save_program_def)
next
  case (Inr p)
  then have save': "save_prepared N body p W = (out, W')" using save by (simp add: save_program_def)
  obtain r W1 where w: "write_prepared N body p W = (r, W1)" by fastforce
  show ?thesis
  proof (cases r)
    case (Inl e)
    then have "pw_rev W1 = pw_rev W"
      using w commit_nodes by (fastforce simp: write_prepared_def write_program_def Let_def split: if_splits prod.splits sum.splits)
    moreover have "W' = W1" using save' w Inl by (simp add: save_prepared_def)
    ultimately show ?thesis using ok kept_programs_cong by metis
  next
    case (Inr u)
    obtain changes W2 where c: "reconcile_workflows N (relink W1) = (changes, W2)" by fastforce
    have "pw_rev W2 = pw_rev W1" using reconcile_rev(1)[of N "relink W1"] by (simp add: c)
    moreover have W': "W' = W2" "text_ok N (pr_def p)"
      using save' w Inr c reads by (auto simp: save_prepared_def)
    moreover have "kept_programs N W1"
    proof -
      obtain soft where "check_program (pr_def p) ((program_inventory N W)\<lparr>iv_programs :=
          filter (\<lambda>q. pg_name q \<noteq> pg_name (pr_def p)) (stored_programs N W) @ [pr_def p]\<rparr>) = Inr soft"
        using prepare_parts(1)[OF \<open>prepare N body create_only W = Inr p\<close>] by blast
      from replaced_program_kept[OF ok this] write_prepared_nodes[OF w[unfolded Inr] _ W'(2)] ok
      show ?thesis by (auto simp: kept_programs_def)
    qed
    ultimately show ?thesis using kept_programs_cong by metis
  qed
qed

lemma filter_nodes:
  assumes "stored_nodes N os"
  shows "stored_nodes N (filter (\<lambda>x. \<not> is_owner RProgram n x) os)"
    and "shapes N (filter (\<lambda>x. \<not> is_owner RProgram n x) os) = filter (\<lambda>s. fst s \<noteq> n) (shapes N os)"
proof -
  show "stored_nodes N (filter (\<lambda>x. \<not> is_owner RProgram n x) os)"
    using assms by (auto simp: stored_nodes_def distinct_map_filter)
  have "filter (\<lambda>x. ow_kind x = RProgram) (filter (\<lambda>x. \<not> is_owner RProgram n x) xs) =
      filter (\<lambda>x. fst (shape (node_def N x)) \<noteq> n) (filter (\<lambda>x. ow_kind x = RProgram) xs)" if "set xs \<subseteq> set os" for xs
    using that stored_nodes_name[OF assms] by (induction xs) (auto simp: is_owner_def shape_def)
  then show "shapes N (filter (\<lambda>x. \<not> is_owner RProgram n x) os) = filter (\<lambda>s. fst s \<noteq> n) (shapes N os)"
    by (simp add: shapes_def filter_map comp_def)
qed

lemma record_delete_nodes: "revised (rw_owners w) (rw_owners (record_delete E RProgram n reason w))"
  by (simp add: record_delete_def Let_def append_nodes)

lemma deleted_program_kept:
  assumes ok: "kept_programs N W" and del: "delete_program N n reason W = (out, W')"
  shows "kept_programs N W'"
proof (cases "find_stored N n W = None \<or> map pg_name (filter (\<lambda>p. pg_parent p = Some n) (stored_programs N W)) \<noteq> []")
  case True
  then show ?thesis using ok del by (auto simp: delete_program_def Let_def split: option.splits if_splits)
next
  case False
  define os where "os = rw_owners (record_delete (pe_rev N) RProgram n reason (pw_rev W))"
  have W': "nodes_of W' = filter (\<lambda>x. \<not> is_owner RProgram n x) os"
    using del False unfolding delete_program_def os_def
    by (auto simp: Let_def reconcile_workflows_def split: option.splits if_splits)
  have "revised (nodes_of W) os" unfolding os_def by (rule record_delete_nodes)
  then have nodes: "stored_nodes N os" "shapes N os = shapes N (nodes_of W)"
    using revised_nodes[of "nodes_of W" os N] ok by (simp_all add: kept_programs_def)
  note f = filter_nodes[OF nodes(1), of n, folded W']
  let ?ps = "filter (\<lambda>p. pg_name p \<noteq> n) (stored_programs N W)"
  have "mset (map shape (stored_programs N W')) = mset (filter (\<lambda>s. fst s \<noteq> n) (shapes N (nodes_of W)))"
    by (simp only: stored_shapes[OF f(1)] f(2) nodes(2))
  also have "\<dots> = mset (filter (\<lambda>s. fst s \<noteq> n) (map shape (stored_programs N W)))"
    using stored_shapes[of N W] ok unfolding kept_programs_def by (metis mset_filter)
  also have "filter (\<lambda>s. fst s \<noteq> n) (map shape (stored_programs N W)) = map shape ?ps"
    by (simp add: filter_map comp_def shape_def)
  finally have "programs_ok (stored_programs N W') = programs_ok ?ps" by (rule programs_ok_cong)
  moreover have "programs_ok ?ps"
    using ok False by (intro programs_ok_subset) (auto simp: kept_programs_def filter_empty_conv)
  ultimately show ?thesis using f(1) by (simp add: kept_programs_def)
qed

lemma pruned_name: "pg_name (fst (prune_unknown d I)) = pg_name d"
  by (simp add: prune_unknown_def prune_list_def split: prod.splits)

lemma kept_status_name: "pg_name (keep_status N W d) = pg_name d"
  by (simp add: keep_status_def split: option.splits)

lemma put_back_kept:
  assumes ok: "kept_programs N W" and put: "put_program_back N fs n W = (out, W')"
    and reads: "\<And>s. out = Inr s \<Longrightarrow> text_ok N (sv_program s)"
  shows "kept_programs N W'"
proof (cases out)
  case (Inl e)
  then have "W' = W"
    using put by (auto simp: put_program_back_def Let_def split: option.splits prod.splits sum.splits)
  with ok show ?thesis by simp
next
  case (Inr s)
  obtain f where f: "find (\<lambda>f. pg_name (fd_def f) = n) (file_defs N fs) = Some f"
    using put Inr by (auto simp: put_program_back_def split: option.splits)
  define d where "d = fst (prune_unknown (keep_status N W (fd_def f)) (program_inventory N W))"
  define I where "I = (program_inventory N W)\<lparr>iv_programs := filter (\<lambda>p. pg_name p \<noteq> n) (stored_programs N W) @ [d]\<rparr>"
  have name: "pg_name d = n"
    using f by (auto simp: d_def pruned_name kept_status_name find_Some_iff)
  obtain soft where soft: "check_program d I = Inr soft"
    using put Inr f by (auto simp: put_program_back_def Let_def d_def I_def program_inventory_def split: prod.splits sum.splits)
  define os where "os = write_query N d ''yaml'' (Some (fd_plugin f)) (Some (fd_source f)) False (nodes_of W)"
  have rest: "sv_program s = d" "revised os (nodes_of W')"
  proof -
    define v where "v = (pw_rev W)\<lparr>rw_owners := os\<rparr>"
    have "sv_program s = d \<and> pw_rev W' = reconcile_revisions (pe_rev N) RProgram [(n, definition_of d)]
        (record_seed (pe_rev N) RProgram n (definition_of d) (fd_source f) v)"
      using put Inr f soft
      by (auto simp: put_program_back_def Let_def d_def I_def v_def os_def program_inventory_def write_program_def
          reconcile_workflows_def relink_def split: prod.splits sum.splits)
    moreover have "rw_owners v = os" by (simp add: v_def)
    ultimately show "sv_program s = d" "revised os (nodes_of W')"
      using revised_trans[OF record_seed_nodes[of v] reconcile_nodes] by auto
  qed
  have "text_ok N d" using reads[OF Inr] rest(1) by simp
  note q = write_query_nodes[OF _ this, of "nodes_of W" "''yaml''" "Some (fd_plugin f)" "Some (fd_source f)" False, folded os_def]
  have "stored_nodes N (nodes_of W)" using ok by (simp add: kept_programs_def)
  with q revised_nodes[OF rest(2), of N] replaced_program_kept[OF ok soft] name show ?thesis by (simp add: I_def)
qed

text \<open>Programs are saved, deleted and put back one after another, by whoever asks and with whatever workflows, agents
  and APIs there are then. What is written is text that reads back.\<close>

definition text_written :: "program_env \<Rightarrow> save_error + saved \<Rightarrow> bool" where
  "text_written N out \<longleftrightarrow> (case out of Inr s \<Rightarrow> text_ok N (sv_program s) | Inl _ \<Rightarrow> True)"

inductive program_step :: "serde \<Rightarrow> program_world \<Rightarrow> program_world \<Rightarrow> bool" for S where
  Saves: "pe_text N = S \<Longrightarrow> save_program N body create_only W = (out, W') \<Longrightarrow> text_written N out \<Longrightarrow> program_step S W W'"
| Deletes: "pe_text N = S \<Longrightarrow> delete_program N n reason W = (deleted, W') \<Longrightarrow> program_step S W W'"
| Resets: "pe_text N = S \<Longrightarrow> put_program_back N fs n W = (out, W') \<Longrightarrow> text_written N out \<Longrightarrow> program_step S W W'"
| Others: "pw_rev W' = pw_rev W \<Longrightarrow> program_step S W W'"

definition programs_in_order :: "serde \<Rightarrow> program_world \<Rightarrow> bool" where
  "programs_in_order S W \<longleftrightarrow> (\<forall>N. pe_text N = S \<longrightarrow> kept_programs N W)"

lemma kept_programs_text: "pe_text N = pe_text N' \<Longrightarrow> kept_programs N W = kept_programs N' W"
  by (simp add: kept_programs_def stored_nodes_def stored_programs_def load_all_def)

interpretation programs: step_relation "program_step S" "programs_in_order S" for S
proof
  fix W W' assume step: "program_step S W W'" and ok: "programs_in_order S W"
  have "kept_programs N W'" if N: "pe_text N = S" for N
    using step
  proof cases
    case (Saves M body create_only out)
    have "kept_programs M W'"
    proof (rule saved_program_kept[OF _ Saves(2)])
      show "kept_programs M W" using ok Saves(1) by (simp add: programs_in_order_def)
      show "text_ok M (sv_program s)" if "out = Inr s" for s using Saves(3) that by (simp add: text_written_def)
    qed
    with Saves N show ?thesis using kept_programs_text by metis
  next
    case (Deletes M n reason deleted)
    have "kept_programs M W'" using ok Deletes by (intro deleted_program_kept[OF _ Deletes(2)]) (simp add: programs_in_order_def)
    with Deletes N show ?thesis using kept_programs_text by metis
  next
    case (Resets M fs n out)
    have "kept_programs M W'"
    proof (rule put_back_kept[OF _ Resets(2)])
      show "kept_programs M W" using ok Resets(1) by (simp add: programs_in_order_def)
      show "text_ok M (sv_program s)" if "out = Inr s" for s using Resets(3) that by (simp add: text_written_def)
    qed
    with Resets N show ?thesis using kept_programs_text by metis
  next
    case Others
    have "kept_programs N W" using ok N by (simp add: programs_in_order_def)
    then show ?thesis using kept_programs_cong[OF Others] by blast
  qed
  then show "programs_in_order S W'" by (simp add: programs_in_order_def)
qed

text \<open>Claim C11. However programs are saved, deleted and put back one after another, they stay in order: the stored
  programs have names of their own and form a forest without a loop, and no workflow has two programs.\<close>

theorem programs_stay_in_order:
  assumes "nodes_of W0 = []" and "(program_step (pe_text N))\<^sup>*\<^sup>* W0 W"
  shows "acyclic (program_edges (stored_programs N W)) \<and> distinct (map pg_name (stored_programs N W)) \<and>
    (\<forall>p \<in> set (stored_programs N W). \<forall>q \<in> set (stored_programs N W).
       (pg_parent p = Some (pg_name q) \<longrightarrow> p \<noteq> q) \<and>
       (pg_name p \<noteq> pg_name q \<longrightarrow> set (pg_workflows p) \<inter> set (pg_workflows q) = {}))"
proof -
  have "stored_programs M W0 = []" for M
    using assms(1) by (simp add: stored_programs_def load_all_def program_nodes_def List.map_filter_simps)
  then have "programs_in_order (pe_text N) W0"
    using assms(1) by (simp add: programs_in_order_def kept_programs_def stored_nodes_def programs_ok_def program_edges_def acyclic_def)
  from programs.run_keeps[OF assms(2) this] have ok: "programs_ok (stored_programs N W)"
    by (simp add: programs_in_order_def kept_programs_def)
  have "pg_parent p \<noteq> Some (pg_name p)" if "p \<in> set (stored_programs N W)" for p
  proof
    assume "pg_parent p = Some (pg_name p)"
    with that have "(pg_name p, pg_name p) \<in> program_edges (stored_programs N W)" by (auto simp: program_edges_def)
    with ok show False by (auto simp: programs_ok_def acyclic_def)
  qed
  with ok show ?thesis by (auto simp: programs_ok_def)
qed

definition nia :: program_def where
  "nia = \<lparr>pg_name = ''nia'', pg_label = [], pg_kind = ''department'', pg_parent = None, pg_status = ''active'', pg_charter = [],
     pg_success = [], pg_topics = [], pg_workflows = [''scan''], pg_keep_running = [], pg_agents = [], pg_apis = [],
     pg_review = None, pg_budget = None, pg_finding = None\<rparr>"

definition nia_text :: serde where
  "nia_text = \<lparr>from_str = (\<lambda>s. if s = ''nia'' then Some (JObj (map_of_program nia)) else None), to_str = (\<lambda>v. ''nia'')\<rparr>"

definition sample_program_env :: program_env where
  "sample_program_env = \<lparr>pe_rev = sample_rev_env\<lparr>re_serde := nia_text\<rparr>, pe_schema = (\<lambda>_. None), pe_yaml = (\<lambda>_. Inl []),
     pe_why = (\<lambda>_. []), pe_topics = [], pe_purpose = Some PBackground, pe_now = 7\<rparr>"

definition empty_programs :: program_world where
  "empty_programs = \<lparr>pw_rev = \<lparr>rw_owners = [], rw_revisions = []\<rparr>,
     pw_workflows = [\<lparr>wn_name = ''scan'', wn_enabled = None, wn_paused_reason = None, wn_paused_at = None, wn_updated_at = None\<rparr>],
     pw_retired = [], pw_agents = [], pw_apis = [], pw_under = [], pw_owns = []\<rparr>"

definition nia_request :: json where
  "nia_request = JObj [(''kind'', JStr ''department''), (''name'', JStr ''nia''), (''reason'', JStr ''why''),
     (''workflows'', JArr [JStr ''scan''])]"

lemma nia_reads: "program_of_json (candidate None nia_request) = Some nia"
  by code_simp

lemma nia_prepared:
  "prepare sample_program_env nia_request True empty_programs =
     Inr \<lparr>pr_def = nia, pr_current = None, pr_managed_by = ''runtime'', pr_warnings = []\<rparr>"
  by code_simp

lemma nia_saved: "map_option st_def (find_stored sample_program_env ''nia''
    (snd (save_program sample_program_env nia_request True empty_programs))) = Some nia"
  by code_simp


theorem programs_stay_in_order_witness:
  "acyclic (program_edges (stored_programs sample_program_env
     (snd (save_program sample_program_env nia_request True empty_programs)))) \<and>
   map pg_name (stored_programs sample_program_env
     (snd (save_program sample_program_env nia_request True empty_programs))) = [''nia'']"
proof -
  let ?W = "snd (save_program sample_program_env nia_request True empty_programs)"
  have "text_written sample_program_env (fst (save_program sample_program_env nia_request True empty_programs))"
    by code_simp
  then have "program_step (pe_text sample_program_env) empty_programs ?W"
    by (intro program_step.Saves[of sample_program_env _ nia_request True _ "fst (save_program sample_program_env nia_request True empty_programs)"]) auto
  then have "(program_step (pe_text sample_program_env))\<^sup>*\<^sup>* empty_programs ?W" by blast
  moreover have "nodes_of empty_programs = []" by (simp add: empty_programs_def)
  ultimately have "acyclic (program_edges (stored_programs sample_program_env ?W))"
    using programs_stay_in_order by blast
  moreover have "map pg_name (stored_programs sample_program_env ?W) = [''nia'']" by code_simp
  ultimately show ?thesis by blast
qed

text \<open>Two saves at once are not one after another: each passes the checks against the programs as they were.\<close>

definition pair_of :: "string \<Rightarrow> string option \<Rightarrow> program_def" where
  "pair_of n parent = nia\<lparr>pg_name := n, pg_workflows := [], pg_parent := parent\<rparr>"

definition pair_programs :: "(string \<times> program_def) list" where
  "pair_programs = [(''a'', pair_of ''a'' None), (''b'', pair_of ''b'' None), (''a1'', pair_of ''a'' (Some ''b'')),
     (''b1'', pair_of ''b'' (Some ''a''))]"

definition pair_text :: serde where
  "pair_text = \<lparr>from_str = (\<lambda>s. map_option (\<lambda>d. JObj (map_of_program d)) (map_of pair_programs s)),
     to_str = (\<lambda>v. case find (\<lambda>(s, d). v = JObj (fields_of_program d) \<or> v = sorted_json (definition_of d)) pair_programs of
        Some (s, _) \<Rightarrow> s | None \<Rightarrow> [])\<rparr>"

definition pair_env :: program_env where
  "pair_env = sample_program_env\<lparr>pe_rev := sample_rev_env\<lparr>re_serde := pair_text\<rparr>\<rparr>"

definition pair_request :: "string \<Rightarrow> json_map \<Rightarrow> json" where
  "pair_request n extra = JObj ([(''kind'', JStr ''department''), (''name'', JStr n), (''reason'', JStr ''why'')] @ extra)"

definition pair_world :: program_world where
  "pair_world = snd (save_program pair_env (pair_request ''b'' []) True
     (snd (save_program pair_env (pair_request ''a'' []) True empty_programs)))"

definition under_b :: json where
  "under_b = pair_request ''a'' [(''parent'', JStr ''b''), (''based_on'', JInt 1)]"

definition under_a :: json where
  "under_a = pair_request ''b'' [(''parent'', JStr ''a''), (''based_on'', JInt 1)]"

definition both_saved :: program_world where
  "both_saved =
     (case (prepare pair_env under_b False pair_world, prepare pair_env under_a False pair_world) of
        (Inr p, Inr q) \<Rightarrow> snd (save_prepared pair_env under_a q (snd (save_prepared pair_env under_b p pair_world)))
      | _ \<Rightarrow> pair_world)"

lemma two_saves_at_once_can_loop:
  "parent_of (stored_programs pair_env both_saved) ''a'' = Some ''b'' \<and>
   parent_of (stored_programs pair_env both_saved) ''b'' = Some ''a''"
  by code_simp

subsection \<open>What the brain decides\<close>

text \<open>Claim C28. What the brain does on its own does not decide what is the owner's: a save of its does not reopen a
  closed program, and does not close one whose kind after the save is standing work.\<close>

theorem the_brain_closes_only_questions:
  assumes "prepare N body create_only W = Inr p" and "pe_purpose N = Some PBackground \<or> pe_purpose N = Some PSubagent"
    and "pr_current p = Some c"
  shows "(pg_status (st_def c) = ''closed'' \<longrightarrow> pg_status (pr_def p) = ''closed'') \<and>
    (pg_status (st_def c) \<noteq> ''closed'' \<and> pg_status (pr_def p) = ''closed'' \<longrightarrow>
       pg_kind (pr_def p) \<in> {''investigation'', ''case''} \<and> trim (or_empty (pg_finding (pr_def p))) \<noteq> [])"
proof -
  have "check_status_change (pg_kind (pr_def p)) (Some (pg_status (st_def c))) (pg_status (pr_def p)) True = Inr ()"
    using prepare_parts(2)[OF assms(1)] assms(2,3) by (simp add: autonomous_def)
  moreover obtain I soft where "check_program (pr_def p) I = Inr soft" using prepare_parts(1)[OF assms(1)] by blast
  note check_program_parts(7)[OF this]
  ultimately show ?thesis
    by (auto simp: check_status_change_def question_kinds_def split: if_splits)
qed

definition answered_request :: json where
  "answered_request = JObj [(''based_on'', JInt 1), (''name'', JStr ''nia''), (''reason'', JStr ''why''), (''status'', JStr ''paused'')]"

theorem the_brain_closes_only_questions_witness:
  "case prepare sample_program_env answered_request False
      (snd (save_program sample_program_env nia_request True empty_programs)) of
     Inr p \<Rightarrow> pg_status (pr_def p) = ''paused'' \<and> map_option (\<lambda>c. pg_status (st_def c) \<noteq> ''closed'') (pr_current p) = Some True
   | Inl _ \<Rightarrow> False"
proof -
  let ?p = "prepare sample_program_env answered_request False
      (snd (save_program sample_program_env nia_request True empty_programs))"
  have "case ?p of Inr p \<Rightarrow> pg_status (pr_def p) = ''paused'' \<and> pr_current p \<noteq> None | Inl _ \<Rightarrow> False"
    by code_simp
  then obtain p c where p: "?p = Inr p" "pg_status (pr_def p) = ''paused''" "pr_current p = Some c"
    by (auto split: sum.splits)
  have "pe_purpose sample_program_env = Some PBackground" by (simp add: sample_program_env_def)
  with the_brain_closes_only_questions[OF p(1) _ p(3)] p show ?thesis by auto
qed

text \<open>The kind is the one of the request: standing work is closed by a save that makes it a case.\<close>

definition closing_request :: json where
  "closing_request = JObj [(''finding'', JStr ''done''), (''kind'', JStr ''case''), (''name'', JStr ''nia''),
     (''status'', JStr ''closed'')]"

lemma standing_work_closes_as_a_case:
  "map_option (pg_kind \<circ> st_def) (find_stored sample_program_env ''nia''
     (snd (save_program sample_program_env nia_request True empty_programs))) = Some ''department'' \<and>
   (case prepare sample_program_env closing_request False
       (snd (save_program sample_program_env nia_request True empty_programs)) of
      Inr p \<Rightarrow> pg_kind (pr_def p) = ''case'' \<and> pg_status (pr_def p) = ''closed'' | Inl _ \<Rightarrow> False) \<and>
   autonomous (pe_purpose sample_program_env)"
  by code_simp

subsection \<open>The seed\<close>

definition file_name :: "file_def \<Rightarrow> string" where
  "file_name f = pg_name (fd_def f)"

lemma file_defs_distinct: "distinct (map file_name (file_defs N fs))"
proof -
  have "distinct (map file_name out) \<Longrightarrow> distinct (map file_name (foldl (add_file_def N) out fs))" for out
    by (induction fs arbitrary: out) (auto simp: add_file_def_def file_name_def comp_def split: sum.splits)
  from this[of "[]"] show ?thesis by (simp add: file_defs_def)
qed

lemma take_file_files:
  "sf_files (take_file N W runtime acc f) = sf_files acc \<or>
   (\<exists>g. sf_files (take_file N W runtime acc f) = sf_files acc @ [g] \<and> file_name g = file_name f)"
  by (auto simp: take_file_def Let_def file_name_def kept_status_name pruned_name)

lemma taken_distinct:
  "distinct (map file_name (sf_files acc) @ map file_name fds) \<Longrightarrow>
     distinct (map file_name (sf_files (foldl (take_file N W runtime) acc fds)))"
proof (induction fds arbitrary: acc)
  case (Cons f fds)
  show ?case
    using Cons.IH[of "take_file N W runtime acc f"] Cons.prems take_file_files[of N W runtime acc f] by auto
qed simp

lemma drop_at_distinct:
  assumes "i < length xs" and "distinct (map h xs)"
  shows "distinct (map h (drop_at i xs))"
proof -
  have "map h xs = map h (take i xs) @ h (xs ! i) # map h (drop (Suc i) xs)"
    using id_take_nth_drop[OF assms(1)] by (metis list.simps(9) map_append)
  then have "distinct (map h (take i xs) @ h (xs ! i) # map h (drop (Suc i) xs))" using assms(2) by metis
  then show ?thesis by (simp add: drop_at_def)
qed

lemma passing_files_pass:
  "distinct (map file_name files) \<Longrightarrow> distinct (map file_name (passing_files I runtime files)) \<and>
     (\<forall>f \<in> set (passing_files I runtime files). \<not> fails I runtime (passing_files I runtime files) f)"
proof (induction I runtime files rule: passing_files.induct)
  case (1 I runtime files)
  show ?case
  proof (cases "first_index (fails I runtime files) files")
    case None
    then have "passing_files I runtime files = files" by (subst passing_files.simps) simp
    with 1(2) None show ?thesis by (simp add: first_index_None)
  next
    case (Some i)
    then show ?thesis
      using 1 drop_at_distinct[of i files file_name] first_index_less[OF Some]
      by (simp add: passing_files.simps[of I runtime files])
  qed
qed

lemma workflow_problems_distinct:
  "workflow_problems I others seen ws = [] \<Longrightarrow> distinct ws \<and> set ws \<inter> set seen = {}"
  by (induction I others seen ws rule: workflow_problems.induct) (auto split: if_splits option.splits)

lemma distinct_concatI:
  "(\<And>x. x \<in> set xs \<Longrightarrow> distinct (f x)) \<Longrightarrow> distinct (map h xs) \<Longrightarrow>
   (\<And>x y. x \<in> set xs \<Longrightarrow> y \<in> set xs \<Longrightarrow> h x \<noteq> h y \<Longrightarrow> set (f x) \<inter> set (f y) = {}) \<Longrightarrow> distinct (concat (map f xs))"
proof (induction xs)
  case (Cons x xs)
  have "set (f x) \<inter> set (f y) = {}" if "y \<in> set xs" for y
    using Cons.prems(2,3) that by (auto simp: image_iff)
  moreover have "distinct (concat (map f xs))" using Cons by simp
  ultimately show ?case using Cons.prems(1) by (auto simp: disjoint_iff)
qed simp

text \<open>Claim C26. What a seed writes passes every check against the programs it leaves beside it, the edited ones and the
  other files, and no two of its files hold one workflow.\<close>

theorem a_seed_writes_what_passes:
  fixes N fs W
  defines "files \<equiv> sf_files (seed_set N fs W)"
  shows "list_all (\<lambda>f. \<exists>soft. check_program (fd_def f)
      (with_programs (program_inventory N W) (runtime_programs N W @ map fd_def files)) = Inr soft) files \<and>
    distinct (concat (map (\<lambda>f. pg_workflows (fd_def f)) files))"
proof -
  let ?I = "program_inventory N W" and ?runtime = "runtime_programs N W"
  have "distinct (map file_name (sf_files (foldl (take_file N W ?runtime) \<lparr>sf_files = [], sf_seeds = []\<rparr> (file_defs N fs))))"
    by (rule taken_distinct) (simp add: file_defs_distinct)
  from passing_files_pass[OF this, of ?I ?runtime]
  have d: "distinct (map file_name files)" and pass: "\<And>f. f \<in> set files \<Longrightarrow> \<not> fails ?I ?runtime files f"
    by (simp_all add: files_def seed_set_def Let_def)
  have ok: "\<exists>soft. check_program (fd_def f) (with_programs ?I (?runtime @ map fd_def files)) = Inr soft" if "f \<in> set files" for f
    using pass[OF that] by (auto simp: fails_def) (metis sum.exhaust)
  have parts: "distinct (pg_workflows (fd_def f)) \<and> (\<forall>g \<in> set files. file_name g \<noteq> file_name f \<longrightarrow>
      set (pg_workflows (fd_def f)) \<inter> set (pg_workflows (fd_def g)) = {})" if f: "f \<in> set files" for f
  proof -
    obtain soft where "check_program (fd_def f) (with_programs ?I (?runtime @ map fd_def files)) = Inr soft"
      using ok[OF f] by blast
    note p = check_program_parts(3)[OF this]
    have "w \<notin> set (pg_workflows (fd_def g))"
      if "w \<in> set (pg_workflows (fd_def f))" "g \<in> set files" "file_name g \<noteq> file_name f" for w g
      using workflow_problems_free[OF p that(1)] that(2,3) by (simp add: claimed_by_None with_programs_def file_name_def)
    with workflow_problems_distinct[OF p] show ?thesis by blast
  qed
  have "distinct (concat (map (\<lambda>f. pg_workflows (fd_def f)) files))"
    using parts d by (intro distinct_concatI[of _ _ file_name]) blast+
  with ok show ?thesis by (simp add: list_all_iff)
qed

theorem a_program_reads_back_witness:
  "program_of_json (JObj (map_of_program (nia\<lparr>pg_budget := Some (Num 20)\<rparr>))) = Some (nia\<lparr>pg_budget := Some (Num 20)\<rparr>)"
  using a_program_reads_back[of "nia\<lparr>pg_budget := Some (Num 20)\<rparr>"] by (simp add: finite_amount_def)

definition paused_world :: program_world where
  "paused_world = (let W = snd (save_program sample_program_env nia_request True empty_programs)
     in W\<lparr>pw_rev := (pw_rev W)\<lparr>rw_owners := map (\<lambda>x. x\<lparr>pn_status := Some ''paused''\<rparr>) (rw_owners (pw_rev W))\<rparr>\<rparr>)"

theorem workflows_follow_their_programs_witness:
  "map wn_enabled (pw_workflows (snd (reconcile_workflows sample_program_env paused_world))) = [Some False] \<and>
   fst (reconcile_workflows sample_program_env (snd (reconcile_workflows sample_program_env paused_world))) = []"
proof -
  have "distinct (map wn_name (pw_workflows paused_world))" by code_simp
  then have "fst (reconcile_workflows sample_program_env (snd (reconcile_workflows sample_program_env paused_world))) = []"
    using workflows_follow_their_programs by blast
  moreover have "map wn_enabled (pw_workflows (snd (reconcile_workflows sample_program_env paused_world))) = [Some False]"
    by code_simp
  ultimately show ?thesis by blast
qed

subsection \<open>Periods\<close>

text \<open>A period is at least a minute. A product past the range is one that wrapped around.\<close>

lemma wrap_i64_less: "wrap_i64 i < 2 ^ 63"
proof -
  obtain r where r: "i mod 2 ^ 64 = r" "r < 2 ^ 64" by simp
  then show ?thesis unfolding wrap_i64_def Let_def r(1) by auto
qed

lemma parse_every_bounds: "parse_every s = Inr v \<Longrightarrow> 60 \<le> v \<and> v < 2 ^ 63"
  unfolding parse_every_def Let_def
  using wrap_i64_less by (auto split: option.splits if_splits)

lemma a_long_period_wraps:
  "parse_every ''30500568904945w'' = Inr 1184384"
  by (simp add: parse_every_def parse_unsigned_def trim_def trim_start_def trim_end_def is_ws_def is_digit_def digits_val_def
      digit_val_def every_unit_def wrap_i64_def Let_def)

end
