(* ===== verification/Spec2Isabelle.thy ===== *)
theory Spec2Isabelle
  imports Templates Engine Provider_Registry Gpu_Lease Provider_Gate Rate_Hints Budget Routing
    Model_Router Job_Store Task_Store Queue_Chain Queue_Coordinator
    Workflows Gates Queue_Jobs Job_Runs Lifecycle Queue_System Items Item_Runs
    Turn_Guard Text_Calls Tool_Results Link_Check Round_Loop
    Chat_Ladder Wire_History Agent_Verify Agent_Runs Line_Diff Revisions
    Programs Program_Laws
begin

text \<open>
  Agent Brain is an agent server on a Neo4j graph. This library models its durable job queue
  (\<open>crates/work\<close>, with its store in \<open>crates/repository\<close>), the policy that decides which model may
  run which work (\<open>crates/llm\<close>, \<open>crates/engine\<close>), the items of the user that agents work on
  (\<open>crates/scheduler\<close>), and the turn of a chat and the run of an agent (\<open>crates/chat\<close>, \<open>crates/skills\<close>), and the programs the work belongs to with the
  revisions of what is edited (\<open>crates/work\<close>, \<open>crates/repository\<close>).

  \<^bold>\<open>The program.\<close> Work is a chain of steps. A chain is stored as one job per step: the first queued, each
  later one parked under its predecessor. A coordinator keeps the queued jobs in a heap, gives each a slot of
  its provider's lane and runs it; a job's output is handed to the jobs parked under it. Every change of a
  job's status is a guarded write to the graph, so that a job that is cancelled while it runs stays cancelled,
  and the queue is rebuilt from the graph after a restart. A run of a tool may call a model: the routing policy
  decides which catalog rows the work may use, the budget which of them have money and calls left, the provider
  gate how many calls a provider serves at once, and the GPU lease whether local generation is there at all.

  An item on the user's list may be assigned to an agent. A poll claims items that are due, asks for approval where
  the agent acts on the world, and starts a run as a chain of the queue; the end of the chain is read back and the
  answer delivered. A chat turn walks a ladder of models: on each, a loop asks the model, runs the tools it calls
  through the turn's guard and gives back their results, until there is an answer, which is checked for links and
  citations and sent on. A worker is the same loop under a profile, delegated to from a turn or started as a step
  of a chain, whose answer can be checked against what the run really did.

  Workflows belong to programs, a tree of departments, projects and questions; pausing a program pauses what is below
  it. Programs, workflows and profiles are seeded from files and edited by the brain; each edit is a revision in a
  chain of hashes, with a reason and the version it was made on.

  \<^bold>\<open>The theories\<close>, in the order of their imports, with the code each translates:
  \<^item> \<open>Base\<close>: strings, JSON values, numbers as text, guarded updates of lists, and the locales \<open>machine\<close>,
    \<open>guarded_machine\<close> and \<open>step_relation\<close> for invariants over runs.
  \<^item> \<open>Job_Model\<close>: \<open>crates/models/src/agent_job.rs\<close>, the job and the order of the heap.
  \<^item> \<open>Db\<close>, \<open>Job_Store\<close>, \<open>Task_Store\<close>: the graph's nodes, and the queries of \<open>crates/repository/src/agent_job.rs\<close>,
    \<open>task.rs\<close> and \<open>client.rs\<close> as state transformers that may be refused at any query.
  \<^item> \<open>Templates\<close>: \<open>crates/work/src/queue/templates.rs\<close>, what an output is and how it enters a later step.
  \<^item> \<open>Engine\<close>: \<open>crates/engine/src/lib.rs\<close>, the local engine and its roles.
  \<^item> \<open>Provider_Registry\<close>, \<open>Gpu_Lease\<close>, \<open>Provider_Gate\<close>, \<open>Rate_Hints\<close>, \<open>Budget\<close>, \<open>Routing\<close>, \<open>Model_Router\<close>: the
    files of \<open>crates/llm/src\<close> of these names (\<open>Rate_Hints\<close> is the header reader of \<open>budget.rs\<close>).
  \<^item> \<open>Queue_Chain\<close>: the queue's state, a chain step and \<open>enqueue_chain_owned\<close> of \<open>crates/work/src/queue.rs\<close>.
  \<^item> \<open>Workflows\<close>, \<open>Gates\<close>: \<open>crates/work/src/workflows.rs\<close> (starting and rendering a run) and
    \<open>crates/work/src/queue/gates.rs\<close> (what an evaluation or a death does next).
  \<^item> \<open>Queue_Coordinator\<close>: \<open>run_coordinator\<close>, \<open>reload_from_neo4j\<close>, \<open>recover\<close>, the audits and
    \<open>crates/work/src/queue/ops.rs\<close>.
  \<^item> \<open>Queue_Jobs\<close>, \<open>Job_Runs\<close>: \<open>execute_job\<close> and what it calls, and what the end of a run does to its chain.
  \<^item> \<open>Lifecycle\<close>, \<open>Queue_System\<close>: the life of one job as a step relation, all the queue's operations as one
    relation, and the proof that the second refines the first.

  \<^item> \<open>Items\<close>, \<open>Item_Runs\<close>: \<open>crates/scheduler/src/items.rs\<close> with \<open>crates/repository/src/todo.rs\<close>, and
    \<open>item_dispatch.rs\<close> with the routes of \<open>crates/api/src/items.rs\<close>.
  \<^item> \<open>Turn_Guard\<close>, \<open>Text_Calls\<close>, \<open>Tool_Results\<close>, \<open>Link_Check\<close>: of \<open>crates/chat/src/chat\<close> the files
    \<open>write_guard.rs\<close> with the lists of \<open>handover.rs\<close>, \<open>tool_calls.rs\<close> and \<open>tool_results.rs\<close>, and the link check
    of \<open>crates/knowledge/src/knowledge/exact.rs\<close>.
  \<^item> \<open>Round_Loop\<close>: \<open>round_loop.rs\<close>, \<open>loop_policy.rs\<close> and the dispatcher of \<open>mod.rs\<close>.
  \<^item> \<open>Chat_Ladder\<close>: an attempt and the ladder of \<open>turn.rs\<close>, the worker's ladder of \<open>delegate.rs\<close>, the handover,
    \<open>citations.rs\<close> and the forwarding of \<open>events.rs\<close>.
  \<^item> \<open>Wire_History\<close>: the message histories of \<open>openai_loop.rs\<close> and \<open>anthropic_loop.rs\<close>, and the reply that each reads
    from its stream or response.
  \<^item> \<open>Agent_Verify\<close>, \<open>Agent_Runs\<close>: \<open>crates/chat/src/agent_runner.rs\<close> and \<open>trajectory.rs\<close>, and the \<open>run_agent\<close> tool
    of \<open>crates/skills/src/agent_runner.rs\<close>.
  \<^item> \<open>Line_Diff\<close>, \<open>Revisions\<close>: \<open>crates/repository/src/revision.rs\<close> and \<open>crates/work/src/revisions.rs\<close>, the history of
    what the brain edits about itself and the rules of a save.
  \<^item> \<open>Programs\<close>, \<open>Program_Laws\<close>: \<open>crates/work/src/programs.rs\<close>, the definitions and what holds of them.

  \<^bold>\<open>State and operations.\<close> A Rust struct is a record with the same fields under a short prefix, an enum a
  datatype, a method a function that takes the state and returns it changed. The graph is a list of nodes per
  label; a query is atomic and either runs or is refused (\<open>faults\<close>), and then changes nothing. A job's run is
  two steps, \<open>begin_job\<close> up to the tool call and \<open>finish_job\<close> from its result, so that anything can happen
  in between. The clock, the source of ids, \<open>serde_json\<close>, \<open>chrono\<close>, the environment variables, the model
  catalog and the tools are fields of records the definitions take (\<open>qenv\<close>, \<open>llm_world\<close>, \<open>serde\<close>, \<open>chrono\<close>).

  \<^bold>\<open>What the lemmas show.\<close> Of the store: that guarded writes keep cancelled jobs cancelled, that the cascade
  cancels exactly the chain below a job down to its cap of generations, that recovery respects the attempt cap. Of the queue: that a pass
  wastes no slot and runs no cancelled job, that a submitted chain is the chain asked for, that a step runs on
  the output of the one before where that is not empty, that failure retries or settles the chain, that evaluator retries are bounded,
  and, over any sequence of operations, runs, refused queries and restarts, that each job follows its
  lifecycle, that lanes never overrun and attempts stay within the cap. Of the policy: that every candidate is
  entitled to the work, that spending takes two settings and stays under its caps, that the budget's counters
  are the ledger of the calls recorded, that a lease is exclusive and expires, that a gate respects its capacity while its
  provider stays gated and serves in order.
  Of items: that only the user assigns an agent, and that a run starts once, claimed and approved. Of a turn: that the
  loop of a model runs only what it offered, no write twice, and says so in its receipt, that it ends, that a turn is not
  passed on once it may have acted, what keeps the histories in the order the providers require and what breaks it, and
  that the client is told how it ended. Of agents: that the chosen one fits best, that one without writes writes nothing, and that a verified
  answer did what it had to, by the trace of its run. Of revisions: that no history breaks however writers interleave, that
  a writer lands only on the history it read, that a version put back by a start lets a save it hides be edited over,
  that a save is whole or nothing, that a start describes what is live, and that the diff shown is a
  shortest edit. Of programs: that they read back, stay a tree with one program per workflow, that workflows follow
  them, that what is seeded passes the checks, and which status changes the brain makes alone. Some theorems state what the code gets wrong, as it is.

  \<^bold>\<open>Bounds.\<close> Loops are recursion on their data. \<open>cancel_parked_children\<close> has the code's own cap of 64
  generations: \<open>cancel_cascade\<close> says what it reaches, and the claims about chains assume fewer than 64 parked jobs
  below, so that the cap is no limit. Times are nanoseconds as \<open>int\<close>; where the code saturates or panics on overflow the
  model does (\<open>Rate_Hints\<close>, \<open>Budget\<close>), but for the expiry of a job, where a \<open>ttl_secs\<close> past the end of \<open>chrono\<close>'s
  dates panics in the code only. The round loop has the code's own bound on its passes, and \<open>the_round_loop_ends\<close> shows
  what it means. The reader of calls in text is a recursion on a text that shrinks; the loop that strips them may
  never end, and then its value is \<open>None\<close>. Counters that the code keeps in \<open>u32\<close> and never brings near the limit are \<open>nat\<close>.

  \<^bold>\<open>Conventions.\<close> Floats are exact rationals, so claims about scores and costs hold up to rounding. Strings are
  bytes; the tests on them are those of ASCII text. Logging is left out. Locks are not modelled: an operation
  is atomic but for a job's run and the write of a revision, and the races found in the code are stated as such.

  In the chat theories the model's replies, the tools' answers, the hash of a write, the places of links and the
  matches of a requirement are functions the definitions take, so that a claim holds whatever they are.

  \<^bold>\<open>Not modelled.\<close> HTTP clients, telemetry storage, the tools and plugins, the choice of a turn's profile and its
  voice model, retrieval queries and the web frontend are I/O or call external programs.
\<close>

end
